(* ===== verification/Dae_Prelude.thy ===== *)
theory Dae_Prelude
  imports Main "HOL-Library.Word" "HOL-Library.Sublist" "HOL-Library.Char_ord"
    "HOL-Library.List_Lexorder" "HOL-Library.Code_Target_Nat"
begin

unbundle bit_operations_syntax

text \<open>
  The vocabulary the components share: machine integers, outcomes of code that can panic or
  return an error, and the operations of the Rust standard library the sources call on strings,
  numbers and slices.

  A Rust \<^verbatim>\<open>str\<close> is its sequence of UTF-8 bytes, so a string is a list of 8-bit characters and
  lengths and indices count bytes, as they do in Rust.  Slicing a \<^verbatim>\<open>str\<close> inside a multi-byte
  character panics; \<open>str_to\<close> and \<open>str_from\<close> keep that behaviour.
\<close>

section \<open>Machine integers and outcomes\<close>

type_synonym u8 = "8 word"
type_synonym u16 = "16 word"
type_synonym u32 = "32 word"
type_synonym u64 = "64 word"
type_synonym u128 = "128 word"

named_theorems rust_std \<open>equations of the modelled standard-library operations\<close>
named_theorems run_simps \<open>equations of the outcome combinators\<close>

text \<open>A computation that may panic, and a fallible one (\<^verbatim>\<open>Result\<close>) that may panic.\<close>

datatype 'a run = Panic | Ret 'a

fun run_bind :: "'a run \<Rightarrow> ('a \<Rightarrow> 'b run) \<Rightarrow> 'b run" where
  "run_bind Panic f = Panic"
| "run_bind (Ret x) f = f x"

text \<open>The \<^verbatim>\<open>?\<close> operator: continue with the value, return the error unchanged.\<close>

fun try_bind :: "('e + 'a) run \<Rightarrow> ('a \<Rightarrow> ('e + 'b) run) \<Rightarrow> ('e + 'b) run" where
  "try_bind Panic f = Panic"
| "try_bind (Ret (Inl e)) f = Ret (Inl e)"
| "try_bind (Ret (Inr x)) f = f x"

fun res_bind :: "'e + 'a \<Rightarrow> ('a \<Rightarrow> 'e + 'b) \<Rightarrow> 'e + 'b" where
  "res_bind (Inl e) f = Inl e"
| "res_bind (Inr x) f = f x"

definition ok_or :: "'e \<Rightarrow> 'a option \<Rightarrow> 'e + 'a" where
  "ok_or e x = (case x of None \<Rightarrow> Inl e | Some v \<Rightarrow> Inr v)"

lemma ok_or_simps [simp, run_simps]:
  "ok_or e None = Inl e" "ok_or e (Some v) = Inr v"
  by (simp_all add: ok_or_def)

lemma ok_or_eq_Inr [simp]: "ok_or e x = Inr v \<longleftrightarrow> x = Some v"
  by (cases x) auto

lemma res_bind_eq_Inr: "res_bind r f = Inr y \<longleftrightarrow> (\<exists>x. r = Inr x \<and> f x = Inr y)"
  by (cases r) auto

lemma res_bind_eq_Inl:
  "res_bind r f = Inl e \<longleftrightarrow> r = Inl e \<or> (\<exists>x. r = Inr x \<and> f x = Inl e)"
  by (cases r) auto

lemma run_bind_eq_Ret: "run_bind r f = Ret y \<longleftrightarrow> (\<exists>x. r = Ret x \<and> f x = Ret y)"
  by (cases r) auto

lemma run_bind_eq_Panic: "run_bind r f = Panic \<longleftrightarrow> r = Panic \<or> (\<exists>x. r = Ret x \<and> f x = Panic)"
  by (cases r) auto

lemma try_bind_eq_Panic:
  "try_bind r f = Panic \<longleftrightarrow> r = Panic \<or> (\<exists>x. r = Ret (Inr x) \<and> f x = Panic)"
  by (cases "(r, f)" rule: try_bind.cases) auto

lemma try_bind_eq_Inl:
  "try_bind r f = Ret (Inl e) \<longleftrightarrow> r = Ret (Inl e) \<or> (\<exists>x. r = Ret (Inr x) \<and> f x = Ret (Inl e))"
  by (cases "(r, f)" rule: try_bind.cases) auto

lemma try_bind_eq_Inr:
  "try_bind r f = Ret (Inr y) \<longleftrightarrow> (\<exists>x. r = Ret (Inr x) \<and> f x = Ret (Inr y))"
  by (cases "(r, f)" rule: try_bind.cases) auto

lemmas outcome_iffs =
  res_bind_eq_Inr res_bind_eq_Inl run_bind_eq_Ret run_bind_eq_Panic
  try_bind_eq_Inr try_bind_eq_Inl try_bind_eq_Panic

lemma run_bind_cong [fundef_cong]:
  "r = r' \<Longrightarrow> (\<And>x. r' = Ret x \<Longrightarrow> f x = g x) \<Longrightarrow> run_bind r f = run_bind r' g"
  by (cases r') auto

lemma try_bind_cong [fundef_cong]:
  "r = r' \<Longrightarrow> (\<And>x. r' = Ret (Inr x) \<Longrightarrow> f x = g x) \<Longrightarrow> try_bind r f = try_bind r' g"
  by (cases "(r', f)" rule: try_bind.cases) auto

lemma res_bind_cong [fundef_cong]:
  "r = r' \<Longrightarrow> (\<And>x. r' = Inr x \<Longrightarrow> f x = g x) \<Longrightarrow> res_bind r f = res_bind r' g"
  by (cases r') auto

text \<open>
  Collecting the results of a fallible function over a list, left to right, stopping at the
  first error: a \<^verbatim>\<open>for\<close> loop with \<^verbatim>\<open>?\<close> in its body that pushes one value per element.
\<close>

fun res_map :: "('a \<Rightarrow> 'e + 'b) \<Rightarrow> 'a list \<Rightarrow> 'e + 'b list" where
  "res_map f [] = Inr []"
| "res_map f (x # xs) = res_bind (f x) (\<lambda>y. res_bind (res_map f xs) (\<lambda>ys. Inr (y # ys)))"

lemma res_map_Inr_iff: "res_map f xs = Inr ys \<longleftrightarrow> list_all2 (\<lambda>x y. f x = Inr y) xs ys"
proof (induction xs arbitrary: ys)
  case Nil
  then show ?case by auto
next
  case (Cons x xs)
  then show ?case by (auto simp: res_bind_eq_Inr list_all2_Cons1)
qed

lemma res_map_length: "res_map f xs = Inr ys \<Longrightarrow> length ys = length xs"
  by (simp add: res_map_Inr_iff list_all2_lengthD)

section \<open>Strings\<close>

subsection \<open>Bytes and ASCII case\<close>

definition byte_of :: "char \<Rightarrow> nat" where
  "byte_of c = of_char c"

definition ascii_lower :: "char \<Rightarrow> char" where
  "ascii_lower c = (if 65 \<le> byte_of c \<and> byte_of c \<le> 90 then char_of (byte_of c + 32) else c)"

definition to_ascii_lowercase :: "string \<Rightarrow> string" where
  "to_ascii_lowercase s = map ascii_lower s"

definition eq_ignore_ascii_case :: "string \<Rightarrow> string \<Rightarrow> bool" where
  "eq_ignore_ascii_case a b \<longleftrightarrow> to_ascii_lowercase a = to_ascii_lowercase b"

lemma byte_of_less [simp]: "byte_of c < 256"
  using of_char_of [of "of_char c" ] by (simp add: byte_of_def)

lemma ascii_lower_idem [simp]: "ascii_lower (ascii_lower c) = ascii_lower c"
  by (auto simp: ascii_lower_def byte_of_def)

lemma to_ascii_lowercase_idem [simp]:
  "to_ascii_lowercase (to_ascii_lowercase s) = to_ascii_lowercase s"
  by (simp add: to_ascii_lowercase_def)

lemma to_ascii_lowercase_append [simp]:
  "to_ascii_lowercase (s @ t) = to_ascii_lowercase s @ to_ascii_lowercase t"
  by (simp add: to_ascii_lowercase_def)

lemma to_ascii_lowercase_Nil [simp]: "to_ascii_lowercase [] = []"
  by (simp add: to_ascii_lowercase_def)

lemma to_ascii_lowercase_Cons [simp]:
  "to_ascii_lowercase (c # s) = ascii_lower c # to_ascii_lowercase s"
  by (simp add: to_ascii_lowercase_def)

lemma length_to_ascii_lowercase [simp]: "length (to_ascii_lowercase s) = length s"
  by (simp add: to_ascii_lowercase_def)

lemma to_ascii_lowercase_eq_Nil [simp]: "to_ascii_lowercase s = [] \<longleftrightarrow> s = []"
  by (simp add: to_ascii_lowercase_def)

text \<open>Lower-casing never creates or removes a character that is not a letter.\<close>

lemma ascii_lower_eq_iff:
  "byte_of d < 65 \<or> 122 < byte_of d \<or> (90 < byte_of d \<and> byte_of d < 97)
    \<Longrightarrow> ascii_lower c = d \<longleftrightarrow> c = d"
  by (auto simp: ascii_lower_def byte_of_def split: if_splits)

lemma in_set_lowercase:
  assumes "byte_of d < 65 \<or> 122 < byte_of d \<or> (90 < byte_of d \<and> byte_of d < 97)"
  shows "d \<in> set (to_ascii_lowercase s) \<longleftrightarrow> d \<in> set s"
  unfolding to_ascii_lowercase_def set_map image_iff
  using ascii_lower_eq_iff [OF assms] by metis

lemma byte_of_punct [simp]:
  "byte_of (CHR ''.'') = 46" "byte_of (CHR '','') = 44" "byte_of (CHR '':'') = 58"
  by (simp_all add: byte_of_def)

subsection \<open>Character boundaries and slices\<close>

definition is_continuation :: "char \<Rightarrow> bool" where
  "is_continuation c \<longleftrightarrow> 128 \<le> byte_of c \<and> byte_of c < 192"

definition is_char_boundary :: "string \<Rightarrow> nat \<Rightarrow> bool" where
  "is_char_boundary s n \<longleftrightarrow>
     n = 0 \<or> n = length s \<or> (n < length s \<and> \<not> is_continuation (s ! n))"

definition str_to :: "string \<Rightarrow> nat \<Rightarrow> string run" where
  "str_to s n = (if is_char_boundary s n then Ret (take n s) else Panic)"

definition str_from :: "string \<Rightarrow> nat \<Rightarrow> string run" where
  "str_from s n = (if is_char_boundary s n then Ret (drop n s) else Panic)"

definition utf8_tail :: "nat \<Rightarrow> string \<Rightarrow> nat option" where
  "utf8_tail b cs =
     (if b < 128 then Some 0
      else if 194 \<le> b \<and> b \<le> 223 then
        (case cs of c1 # _ \<Rightarrow> if is_continuation c1 then Some 1 else None | _ \<Rightarrow> None)
      else if 224 \<le> b \<and> b \<le> 239 then
        (case cs of
           c1 # c2 # _ \<Rightarrow>
             if (if b = 224 then 160 else 128) \<le> byte_of c1 \<and> byte_of c1 \<le> (if b = 237 then 159 else 191)
               \<and> is_continuation c2 then Some 2 else None
         | _ \<Rightarrow> None)
      else if 240 \<le> b \<and> b \<le> 244 then
        (case cs of
           c1 # c2 # c3 # _ \<Rightarrow>
             if (if b = 240 then 144 else 128) \<le> byte_of c1 \<and> byte_of c1 \<le> (if b = 244 then 143 else 191)
               \<and> is_continuation c2 \<and> is_continuation c3 then Some 3 else None
         | _ \<Rightarrow> None)
      else None)"

text \<open>\<^verbatim>\<open>str::from_utf8\<close> succeeds.\<close>

function utf8_valid :: "string \<Rightarrow> bool" where
  "utf8_valid [] = True"
| "utf8_valid (c # cs) =
     (case utf8_tail (byte_of c) cs of None \<Rightarrow> False | Some n \<Rightarrow> utf8_valid (drop n cs))"
  by pat_completeness auto
termination by (relation "measure length") auto

subsection \<open>Prefixes, suffixes, substrings\<close>

definition strip_prefix :: "string \<Rightarrow> string \<Rightarrow> string option" where
  "strip_prefix p s = (if prefix p s then Some (drop (length p) s) else None)"

definition strip_suffix :: "string \<Rightarrow> string \<Rightarrow> string option" where
  "strip_suffix p s = (if suffix p s then Some (take (length s - length p) s) else None)"

lemma strip_prefix_Some [simp]: "strip_prefix p s = Some r \<longleftrightarrow> s = p @ r"
  by (auto simp: strip_prefix_def prefix_def)

lemma strip_suffix_Some [simp]: "strip_suffix p s = Some r \<longleftrightarrow> s = r @ p"
  by (auto simp: strip_suffix_def suffix_def)

definition starts_with :: "string \<Rightarrow> string \<Rightarrow> bool" where
  "starts_with s p \<longleftrightarrow> prefix p s"

definition ends_with :: "string \<Rightarrow> string \<Rightarrow> bool" where
  "ends_with s p \<longleftrightarrow> suffix p s"

definition str_contains :: "string \<Rightarrow> string \<Rightarrow> bool" where
  "str_contains s p \<longleftrightarrow> sublist p s"

definition trim_start_char :: "char \<Rightarrow> string \<Rightarrow> string" where
  "trim_start_char c s = dropWhile ((=) c) s"

definition trim_end_char :: "char \<Rightarrow> string \<Rightarrow> string" where
  "trim_end_char c s = rev (dropWhile ((=) c) (rev s))"

lemma trim_end_char_last: "trim_end_char c s \<noteq> [] \<Longrightarrow> last (trim_end_char c s) \<noteq> c"
proof -
  assume "trim_end_char c s \<noteq> []"
  then have "dropWhile ((=) c) (rev s) \<noteq> []" by (simp add: trim_end_char_def)
  then have "c \<noteq> hd (dropWhile ((=) c) (rev s))" by (metis hd_dropWhile)
  then show ?thesis by (simp add: trim_end_char_def last_rev)
qed

lemma trim_start_char_hd: "trim_start_char c s \<noteq> [] \<Longrightarrow> hd (trim_start_char c s) \<noteq> c"
  by (metis hd_dropWhile trim_start_char_def)

subsection \<open>Trimming white space\<close>

text \<open>
  \<^verbatim>\<open>str::trim\<close> removes the characters with the Unicode property White\_Space.  These are their
  UTF-8 encodings: the six ASCII ones, U+0085, U+00A0, U+1680, U+2000 to U+200A, U+2028,
  U+2029, U+202F, U+205F and U+3000.
\<close>

definition ws_utf8 :: "string list" where
  "ws_utf8 =
     [[CHR 0x20], [CHR 0x09], [CHR 0x0A], [CHR 0x0B], [CHR 0x0C], [CHR 0x0D],
      [CHR 0xC2, CHR 0x85], [CHR 0xC2, CHR 0xA0], [CHR 0xE1, CHR 0x9A, CHR 0x80],
      [CHR 0xE2, CHR 0x80, CHR 0x80], [CHR 0xE2, CHR 0x80, CHR 0x81],
      [CHR 0xE2, CHR 0x80, CHR 0x82], [CHR 0xE2, CHR 0x80, CHR 0x83],
      [CHR 0xE2, CHR 0x80, CHR 0x84], [CHR 0xE2, CHR 0x80, CHR 0x85],
      [CHR 0xE2, CHR 0x80, CHR 0x86], [CHR 0xE2, CHR 0x80, CHR 0x87],
      [CHR 0xE2, CHR 0x80, CHR 0x88], [CHR 0xE2, CHR 0x80, CHR 0x89],
      [CHR 0xE2, CHR 0x80, CHR 0x8A], [CHR 0xE2, CHR 0x80, CHR 0xA8],
      [CHR 0xE2, CHR 0x80, CHR 0xA9], [CHR 0xE2, CHR 0x80, CHR 0xAF],
      [CHR 0xE2, CHR 0x81, CHR 0x9F], [CHR 0xE3, CHR 0x80, CHR 0x80]]"

function strip_heads :: "string list \<Rightarrow> string \<Rightarrow> string" where
  "strip_heads ps s =
     (case find (\<lambda>p. p \<noteq> [] \<and> prefix p s) ps of
        None \<Rightarrow> s
      | Some p \<Rightarrow> strip_heads ps (drop (length p) s))"
  by pat_completeness auto
termination
proof (relation "measure (\<lambda>(ps, s). length s)")
  fix ps :: "string list" and s p
  assume "find (\<lambda>p. p \<noteq> [] \<and> prefix p s) ps = Some p"
  then have "p \<noteq> []" and "prefix p s" by (auto simp: find_Some_iff)
  then have "length p \<noteq> 0" and "length p \<le> length s" by (simp_all add: prefix_length_le)
  then have "length s - length p < length s" by linarith
  then show "((ps, drop (length p) s), (ps, s)) \<in> measure (\<lambda>(ps, s). length s)" by simp
qed simp

declare strip_heads.simps [simp del]

definition trim_start :: "string \<Rightarrow> string" where
  "trim_start s = strip_heads ws_utf8 s"

definition trim_end :: "string \<Rightarrow> string" where
  "trim_end s = rev (strip_heads (map rev ws_utf8) (rev s))"

definition trim :: "string \<Rightarrow> string" where
  "trim s = trim_end (trim_start s)"

definition headless :: "string list \<Rightarrow> string \<Rightarrow> bool" where
  "headless ps s \<longleftrightarrow> (\<forall>p \<in> set ps. p \<noteq> [] \<longrightarrow> \<not> prefix p s)"

lemma strip_heads_headless: "headless ps s \<Longrightarrow> strip_heads ps s = s"
  by (subst strip_heads.simps) (auto simp: headless_def find_None_iff split: option.splits
      dest: find_Some_iff [THEN iffD1])

lemma headless_strip_heads [simp]: "headless ps (strip_heads ps s)"
proof (induction ps s rule: strip_heads.induct)
  case (1 ps s)
  show ?case
  proof (cases "find (\<lambda>p. p \<noteq> [] \<and> prefix p s) ps")
    case None
    then have "headless ps s" by (auto simp: headless_def find_None_iff)
    then show ?thesis by (simp add: strip_heads_headless)
  next
    case (Some p)
    with 1 show ?thesis by (simp add: strip_heads.simps [of ps s])
  qed
qed

lemma strip_heads_suffix: "suffix (strip_heads ps s) s"
proof (induction ps s rule: strip_heads.induct)
  case (1 ps s)
  then show ?case
    by (subst strip_heads.simps)
      (auto split: option.splits intro: suffix_order.trans suffix_drop)
qed

lemma trim_end_prefix: "prefix (trim_end s) s"
  using strip_heads_suffix [of "map rev ws_utf8" "rev s"]
  by (simp add: trim_end_def suffix_to_prefix)

lemma headless_prefix: "headless ps s \<Longrightarrow> prefix t s \<Longrightarrow> headless ps t"
  unfolding headless_def using prefix_order.trans by blast

lemma trim_start_trim [simp]: "trim_start (trim s) = trim s"
  unfolding trim_def trim_start_def
  by (rule strip_heads_headless, rule headless_prefix [OF headless_strip_heads trim_end_prefix])

lemma trim_idem [simp]: "trim (trim s) = trim s"
proof -
  have "trim (trim s) = trim_end (trim s)"
    by (metis trim_def trim_start_trim)
  also have "\<dots> = trim s"
    by (simp add: trim_def trim_end_def strip_heads_headless)
  finally show ?thesis .
qed

lemma trim_length_le: "length (trim s) \<le> length s"
proof -
  have "length (trim_end t) \<le> length t" for t
    using trim_end_prefix by (rule prefix_length_le)
  moreover have "length (trim_start s) \<le> length s"
    unfolding trim_start_def using strip_heads_suffix by (rule suffix_length_le)
  ultimately show ?thesis
    unfolding trim_def using order_trans by blast
qed

subsection \<open>Splitting\<close>

fun split_char :: "char \<Rightarrow> string \<Rightarrow> string list" where
  "split_char c [] = [[]]"
| "split_char c (x # xs) =
     (if x = c then [] # split_char c xs
      else (case split_char c xs of [] \<Rightarrow> [[x]] | w # ws \<Rightarrow> (x # w) # ws))"

fun split_once :: "char \<Rightarrow> string \<Rightarrow> (string \<times> string) option" where
  "split_once c [] = None"
| "split_once c (x # xs) =
     (if x = c then Some ([], xs)
      else map_option (\<lambda>(a, b). (x # a, b)) (split_once c xs))"

fun find_char :: "char \<Rightarrow> string \<Rightarrow> nat option" where
  "find_char c [] = None"
| "find_char c (x # xs) = (if x = c then Some 0 else map_option Suc (find_char c xs))"

fun join :: "string \<Rightarrow> string list \<Rightarrow> string" where
  "join d [] = []"
| "join d [w] = w"
| "join d (w # v # ws) = w @ d @ join d (v # ws)"

lemma split_char_ne_Nil [simp]: "split_char c s \<noteq> []"
  by (induction s) (auto split: list.splits)

lemma split_char_no_sep: "w \<in> set (split_char c s) \<Longrightarrow> c \<notin> set w"
proof (induction s arbitrary: w)
  case Nil
  then show ?case by simp
next
  case (Cons x xs)
  obtain v vs where v: "split_char c xs = v # vs"
    by (cases "split_char c xs") auto
  with Cons have "c \<notin> set v" and "\<And>u. u \<in> set vs \<Longrightarrow> c \<notin> set u" by auto
  with Cons.prems v show ?case by (auto split: if_splits)
qed

lemma join_Cons: "ws \<noteq> [] \<Longrightarrow> join d (w # ws) = w @ d @ join d ws"
  by (cases ws) auto

lemma join_append: "as \<noteq> [] \<Longrightarrow> bs \<noteq> [] \<Longrightarrow> join d (as @ bs) = join d as @ d @ join d bs"
proof (induction as)
  case (Cons a as)
  then show ?case by (cases as) (auto simp: join_Cons)
qed simp

lemma join_split_char: "join [c] (split_char c s) = s"
proof (induction s)
  case Nil
  then show ?case by simp
next
  case (Cons x xs)
  obtain w ws where w: "split_char c xs = w # ws"
    by (cases "split_char c xs") auto
  then have "join [c] ((x # w) # ws) = x # join [c] (w # ws)" by (cases ws) auto
  with Cons w show ?case by (auto simp: join_Cons)
qed

lemma split_char_no_occurrence: "c \<notin> set s \<Longrightarrow> split_char c s = [s]"
  by (induction s) auto

lemma split_char_append_sep: "c \<notin> set a \<Longrightarrow> split_char c (a @ c # b) = a # split_char c b"
  by (induction a) auto

lemma split_char_sep_append:
  "split_char c (a @ c # b) = split_char c a @ split_char c b"
proof (induction a)
  case Nil
  then show ?case by simp
next
  case (Cons x a)
  obtain w ws where "split_char c a = w # ws"
    by (cases "split_char c a") auto
  with Cons show ?case by auto
qed

lemma split_char_inj: "split_char c s = split_char c t \<longleftrightarrow> s = t"
proof
  assume "split_char c s = split_char c t"
  then have "join [c] (split_char c s) = join [c] (split_char c t)" by simp
  then show "s = t" by (simp only: join_split_char)
qed simp

lemma split_once_Some:
  "split_once c s = Some (a, b) \<longleftrightarrow> s = a @ c # b \<and> c \<notin> set a"
proof (induction s arbitrary: a)
  case Nil
  then show ?case by simp
next
  case (Cons x xs)
  then show ?case by (cases a) auto
qed

lemma split_once_None: "split_once c s = None \<longleftrightarrow> c \<notin> set s"
  by (induction s) auto

definition strip_cr :: "string \<Rightarrow> string" where
  "strip_cr l = (case strip_suffix [CHR 0x0D] l of Some r \<Rightarrow> r | None \<Rightarrow> l)"

definition lines :: "string \<Rightarrow> string list" where
  "lines s =
     (let ps = split_char (CHR 0x0A) s
      in map strip_cr (butlast ps) @ (if last ps = [] then [] else [last ps]))"

subsection \<open>Parsing unsigned integers\<close>

text \<open>
  \<^verbatim>\<open>uN::from_str_radix\<close>: an optional leading \<open>+\<close> (but not alone), then at least one digit;
  overflow of the type is an error.
\<close>

definition to_digit :: "nat \<Rightarrow> char \<Rightarrow> nat option" where
  "to_digit radix c =
     (let b = byte_of c;
          d = (if 48 \<le> b \<and> b \<le> 57 then b - 48
               else if 97 \<le> b \<and> b \<le> 122 then b - 87
               else if 65 \<le> b \<and> b \<le> 90 then b - 55 else 36)
      in if d < radix then Some d else None)"

fun read_digits :: "nat \<Rightarrow> nat \<Rightarrow> nat \<Rightarrow> string \<Rightarrow> nat option" where
  "read_digits radix maxv acc [] = Some acc"
| "read_digits radix maxv acc (c # cs) =
     (case to_digit radix c of
        None \<Rightarrow> None
      | Some d \<Rightarrow> if acc * radix + d \<le> maxv then read_digits radix maxv (acc * radix + d) cs
                  else None)"

definition parse_uint :: "nat \<Rightarrow> nat \<Rightarrow> string \<Rightarrow> nat option" where
  "parse_uint radix maxv s =
     (case s of
        [] \<Rightarrow> None
      | c # cs \<Rightarrow> if c = CHR ''+'' then (if cs = [] then None else read_digits radix maxv 0 cs)
                  else read_digits radix maxv 0 s)"

lemma read_digits_le: "acc \<le> maxv \<Longrightarrow> read_digits radix maxv acc s = Some n \<Longrightarrow> n \<le> maxv"
  by (induction s arbitrary: acc) (auto split: option.splits if_splits)

lemma parse_uint_le: "parse_uint radix maxv s = Some n \<Longrightarrow> n \<le> maxv"
  using read_digits_le [of 0 maxv radix] by (simp only: parse_uint_def split: list.splits if_splits) auto

definition parse_u8 :: "string \<Rightarrow> u8 option" where
  "parse_u8 s = map_option of_nat (parse_uint 10 255 s)"

definition parse_u16 :: "string \<Rightarrow> u16 option" where
  "parse_u16 s = map_option of_nat (parse_uint 10 65535 s)"

definition parse_u32_radix :: "nat \<Rightarrow> string \<Rightarrow> u32 option" where
  "parse_u32_radix radix s = map_option of_nat (parse_uint radix 4294967295 s)"

definition is_ascii_digit :: "char \<Rightarrow> bool" where
  "is_ascii_digit c \<longleftrightarrow> 48 \<le> byte_of c \<and> byte_of c \<le> 57"

section \<open>Indexing, build-dependent arithmetic, binary search\<close>

text \<open>\<^verbatim>\<open>xs[i]\<close> panics out of range.\<close>

definition index_get :: "'a list \<Rightarrow> nat \<Rightarrow> 'a run" where
  "index_get xs i = (if i < length xs then Ret (xs ! i) else Panic)"

lemma index_get_Ret [simp, run_simps]: "i < length xs \<Longrightarrow> index_get xs i = Ret (xs ! i)"
  by (simp add: index_get_def)

text \<open>
  Overflowing \<^verbatim>\<open>-\<close> and \<^verbatim>\<open><<\<close> panic in a build with overflow checks and wrap (the shift
  amount is masked) without; \<open>checks\<close> says which build it is.
\<close>

definition sub_u8 :: "bool \<Rightarrow> nat \<Rightarrow> nat \<Rightarrow> nat run" where
  "sub_u8 checks a b = (if b \<le> a then Ret (a - b) else if checks then Panic else Ret (a + 256 - b))"

definition shl :: "bool \<Rightarrow> 'a::len word \<Rightarrow> nat \<Rightarrow> 'a word run" where
  "shl checks x n =
     (if n < LENGTH('a) then Ret (push_bit n x)
      else if checks then Panic else Ret (push_bit (n mod LENGTH('a)) x))"

text \<open>\<^verbatim>\<open>slice::binary_search\<close>, the loop of the standard library; the index found, if any.\<close>

function bsearch_loop :: "('a::linorder) list \<Rightarrow> 'a \<Rightarrow> nat \<Rightarrow> nat \<Rightarrow> nat" where
  "bsearch_loop xs x base sz =
     (if sz > 1 then
        (let half = sz div 2; mid = base + half
         in bsearch_loop xs x (if xs ! mid > x then base else mid) (sz - half))
      else base)"
  by pat_completeness auto
termination by (relation "measure (\<lambda>(xs, x, base, sz). sz)") auto

declare bsearch_loop.simps [simp del]

definition binary_search :: "('a::linorder) list \<Rightarrow> 'a \<Rightarrow> nat option" where
  "binary_search xs x =
     (if xs = [] then None
      else (let i = bsearch_loop xs x 0 (length xs)
            in if xs ! i = x then Some i else None))"

lemma bsearch_loop_invariant:
  assumes "sorted xs" "base + sz \<le> length xs" "0 < sz"
    and "\<And>i. i < length xs \<Longrightarrow> xs ! i = x \<Longrightarrow> \<exists>j. base \<le> j \<and> j < base + sz \<and> xs ! j = x"
  shows "bsearch_loop xs x base sz < length xs \<and>
    (x \<in> set xs \<longrightarrow> xs ! bsearch_loop xs x base sz = x)"
  using assms
proof (induction xs x base sz rule: bsearch_loop.induct)
  case (1 xs x base sz)
  show ?case
  proof (cases "sz > 1")
    case False
    with "1.prems"(3) have "sz = 1" by simp
    with 1 False show ?thesis
      by (subst (1 2) bsearch_loop.simps) (auto simp: in_set_conv_nth less_Suc_eq_le dest: le_antisym)
  next
    case True
    let ?half = "sz div 2"
    let ?base = "if xs ! (base + ?half) > x then base else base + ?half"
    have bound: "?base + (sz - ?half) \<le> length xs" "0 < sz - ?half" using "1.prems" True by auto
    have "\<exists>j. ?base \<le> j \<and> j < ?base + (sz - ?half) \<and> xs ! j = x"
      if i: "i < length xs" "xs ! i = x" for i
    proof -
      obtain j where j: "base \<le> j" "j < base + sz" "xs ! j = x" using "1.prems"(4) i by blast
      show ?thesis
      proof (cases "xs ! (base + ?half) > x")
        case gt: True
        have "j < base + ?half"
        proof (rule ccontr)
          assume "\<not> j < base + ?half"
          then have "xs ! (base + ?half) \<le> xs ! j"
            using j "1.prems"(1,2) by (intro sorted_nth_mono) auto
          with gt j show False by simp
        qed
        with gt j True show ?thesis by (intro exI [of _ j]) auto
      next
        case le: False
        show ?thesis
        proof (cases "base + ?half \<le> j")
          case True
          with le j show ?thesis by (intro exI [of _ j]) auto
        next
          case False
          have "xs ! j \<le> xs ! (base + ?half)"
            using False "1.prems"(1,2) True \<open>sz > 1\<close> by (intro sorted_nth_mono) auto
          with le j have "xs ! (base + ?half) = x" by auto
          with le \<open>sz > 1\<close> show ?thesis by (intro exI [of _ "base + ?half"]) auto
        qed
      qed
    qed
    from "1.IH" [OF True refl refl "1.prems"(1) bound this] True show ?thesis
      by (subst (1 2) bsearch_loop.simps) (simp add: Let_def)
  qed
qed


lemma binary_search_iff:
  assumes "sorted xs"
  shows "binary_search xs x \<noteq> None \<longleftrightarrow> x \<in> set xs"
proof (cases "xs = []")
  case False
  have "bsearch_loop xs x 0 (length xs) < length xs \<and>
      (x \<in> set xs \<longrightarrow> xs ! bsearch_loop xs x 0 (length xs) = x)"
    using assms False by (intro bsearch_loop_invariant) auto
  then have "xs ! bsearch_loop xs x 0 (length xs) = x \<longleftrightarrow> x \<in> set xs" by (metis nth_mem)
  with False show ?thesis by (simp add: binary_search_def Let_def)
qed (simp add: binary_search_def)

section \<open>Hash maps\<close>

text \<open>A hash map is an association list with distinct keys; \<open>map_insert\<close> overwrites.\<close>

definition map_insert :: "'k \<Rightarrow> 'v \<Rightarrow> ('k \<times> 'v) list \<Rightarrow> ('k \<times> 'v) list" where
  "map_insert k v m = (k, v) # filter (\<lambda>(k', _). k' \<noteq> k) m"

lemma map_of_map_insert [simp]:
  "map_of (map_insert k v m) = (map_of m)(k \<mapsto> v)"
proof
  fix x
  have "map_of (filter (\<lambda>(k', _). k' \<noteq> k) m) x = (if x = k then None else map_of m x)"
    by (induction m) auto
  then show "map_of (map_insert k v m) x = ((map_of m)(k \<mapsto> v)) x"
    by (simp add: map_insert_def)
qed

lemma map_insert_distinct: "distinct (map fst m) \<Longrightarrow> distinct (map fst (map_insert k v m))"
  by (auto simp: map_insert_def distinct_map_filter)

section \<open>Sequences\<close>

text \<open>Running a step over a sequence of inputs, and a state invariant kept by every step.\<close>

locale kept_invariant =
  fixes step :: "'s \<Rightarrow> 'e \<Rightarrow> 's" and inv :: "'s \<Rightarrow> bool"
  assumes step_inv: "inv s \<Longrightarrow> inv (step s e)"
begin

lemma fold_inv: "inv s \<Longrightarrow> inv (foldl step s es)"
  by (induction es arbitrary: s) (auto intro: step_inv)

end

end
