(* ===== verification/Net_Addr.thy ===== *)
theory Net_Addr
  imports Dae_Prelude
begin

text \<open>
  IP addresses and networks: the standard library's address parsers (\<^verbatim>\<open>std::net\<close>), which the
  rule-set and routing code call, and the interface of the \<^verbatim>\<open>ipnet\<close> package.

  \<^verbatim>\<open>ipnet\<close> is not part of the repository.  Its network type is represented by what it stores
  (an address and a prefix length); the functions the sources call on it are the fields of
  the record \<open>ipnet_lib\<close>, which every definition that needs them takes as an argument.
  \<open>ipnet_lib_ok\<close> states their documented behaviour.
\<close>

section \<open>Addresses\<close>

datatype IpAddr = IpV4 u32 | IpV6 u128

datatype IpNet = NetV4 u32 nat | NetV6 u128 nat

fun net_prefix_len :: "IpNet \<Rightarrow> nat" where
  "net_prefix_len (NetV4 a p) = p"
| "net_prefix_len (NetV6 a p) = p"

fun net_addr :: "IpNet \<Rightarrow> IpAddr" where
  "net_addr (NetV4 a p) = IpV4 a"
| "net_addr (NetV6 a p) = IpV6 a"

text \<open>The invariant of the package's type: the prefix length fits the address family.\<close>

fun net_wf :: "IpNet \<Rightarrow> bool" where
  "net_wf (NetV4 a p) \<longleftrightarrow> p \<le> 32"
| "net_wf (NetV6 a p) \<longleftrightarrow> p \<le> 128"

text \<open>An address belongs to a network when it agrees with it on the first \<open>p\<close> bits.\<close>

fun net_contains :: "IpNet \<Rightarrow> IpAddr \<Rightarrow> bool" where
  "net_contains (NetV4 a p) (IpV4 b) \<longleftrightarrow> drop_bit (32 - p) a = drop_bit (32 - p) b"
| "net_contains (NetV6 a p) (IpV6 b) \<longleftrightarrow> drop_bit (128 - p) a = drop_bit (128 - p) b"
| "net_contains _ _ \<longleftrightarrow> False"

section \<open>Interface of the ipnet package\<close>

record ipnet_lib =
  ipnet_parse :: "string \<Rightarrow> IpNet option"
  ipnet_new :: "IpAddr \<Rightarrow> nat \<Rightarrow> IpNet option"
  ipv4_network :: "u32 \<Rightarrow> nat \<Rightarrow> u32"
  ipv6_network :: "u128 \<Rightarrow> nat \<Rightarrow> u128"

text \<open>
  Documented: \<^verbatim>\<open>IpNet::new\<close> fails exactly when the prefix length is too long and otherwise
  stores its arguments; \<^verbatim>\<open>FromStr\<close> yields well-formed networks; \<^verbatim>\<open>network()\<close> clears the host
  bits.
\<close>

definition ipnet_new_ok :: "ipnet_lib \<Rightarrow> bool" where
  "ipnet_new_ok lib \<longleftrightarrow>
     (\<forall>a p. ipnet_new lib (IpV4 a) p = (if p \<le> 32 then Some (NetV4 a p) else None)) \<and>
     (\<forall>a p. ipnet_new lib (IpV6 a) p = (if p \<le> 128 then Some (NetV6 a p) else None))"

definition ipnet_parse_ok :: "ipnet_lib \<Rightarrow> bool" where
  "ipnet_parse_ok lib \<longleftrightarrow> (\<forall>s n. ipnet_parse lib s = Some n \<longrightarrow> net_wf n)"

definition ipnet_network_ok :: "ipnet_lib \<Rightarrow> bool" where
  "ipnet_network_ok lib \<longleftrightarrow>
     (\<forall>a p. p \<le> 32 \<longrightarrow> ipv4_network lib a p = push_bit (32 - p) (drop_bit (32 - p) a)) \<and>
     (\<forall>a p. p \<le> 128 \<longrightarrow> ipv6_network lib a p = push_bit (128 - p) (drop_bit (128 - p) a))"

definition ipnet_lib_ok :: "ipnet_lib \<Rightarrow> bool" where
  "ipnet_lib_ok lib \<longleftrightarrow> ipnet_new_ok lib \<and> ipnet_parse_ok lib \<and> ipnet_network_ok lib"

section \<open>The standard library's address parsers\<close>

text \<open>
  \<^verbatim>\<open>core::net::parser\<close>.  A reader returns the value and the unread input, or \<open>None\<close>; on failure
  it consumes nothing, so functional back-tracking is exact.
\<close>

definition is_digit_of :: "nat \<Rightarrow> char \<Rightarrow> bool" where
  "is_digit_of radix c \<longleftrightarrow> to_digit radix c \<noteq> None"

definition digits_value :: "nat \<Rightarrow> string \<Rightarrow> nat" where
  "digits_value radix ds =
     foldl (\<lambda>acc c. acc * radix + (case to_digit radix c of None \<Rightarrow> 0 | Some d \<Rightarrow> d)) 0 ds"

definition read_number :: "nat \<Rightarrow> nat \<Rightarrow> bool \<Rightarrow> nat \<Rightarrow> string \<Rightarrow> (nat \<times> string) option" where
  "read_number radix max_digits allow_zero_prefix maxv s =
     (let ds = takeWhile (is_digit_of radix) s; rest = dropWhile (is_digit_of radix) s
      in if length ds > max_digits \<or> ds = [] then None
         else if \<not> allow_zero_prefix \<and> hd ds = CHR ''0'' \<and> length ds > 1 then None
         else if digits_value radix ds \<le> maxv then Some (digits_value radix ds, rest) else None)"

definition read_separator ::
    "char \<Rightarrow> nat \<Rightarrow> (string \<Rightarrow> ('a \<times> string) option) \<Rightarrow> string \<Rightarrow> ('a \<times> string) option" where
  "read_separator sep index inner s =
     (if index = 0 then inner s
      else (case s of [] \<Rightarrow> None | c # cs \<Rightarrow> if c = sep then inner cs else None))"

fun read_octets :: "nat \<Rightarrow> nat \<Rightarrow> string \<Rightarrow> (nat list \<times> string) option" where
  "read_octets i 0 s = Some ([], s)"
| "read_octets i (Suc k) s =
     (case read_separator (CHR ''.'') i (read_number 10 3 False 255) s of
        None \<Rightarrow> None
      | Some (n, s') \<Rightarrow>
          map_option (\<lambda>(ns, s''). (n # ns, s'')) (read_octets (Suc i) k s'))"

definition be_value :: "nat \<Rightarrow> nat list \<Rightarrow> nat" where
  "be_value base ns = foldl (\<lambda>acc n. acc * base + n) 0 ns"

definition read_ipv4_addr :: "string \<Rightarrow> (nat list \<times> string) option" where
  "read_ipv4_addr s = read_octets 0 4 s"

text \<open>
  \<^verbatim>\<open>read_groups\<close>: up to \<open>limit\<close> 16-bit groups; an embedded IPv4 address may end the
  sequence where two groups are left.  The flag says whether it did.
\<close>

fun read_groups :: "nat \<Rightarrow> nat \<Rightarrow> string \<Rightarrow> nat list \<times> bool \<times> string" where
  "read_groups i 0 s = ([], False, s)"
| "read_groups i (Suc left) s =
     (case (if left = 0 then None else read_separator (CHR '':'') i read_ipv4_addr s) of
        Some (os, s') \<Rightarrow>
          ([be_value 256 (take 2 os), be_value 256 (drop 2 os)], True, s')
      | None \<Rightarrow>
          (case read_separator (CHR '':'') i (read_number 16 4 True 65535) s of
             None \<Rightarrow> ([], False, s)
           | Some (g, s') \<Rightarrow>
               (let (gs, v4, s'') = read_groups (Suc i) left s' in (g # gs, v4, s''))))"

definition read_ipv6_addr :: "string \<Rightarrow> (nat list \<times> string) option" where
  "read_ipv6_addr s =
     (let (head, head_ipv4, s1) = read_groups 0 8 s
      in if length head = 8 then Some (head, s1)
         else if head_ipv4 then None
         else (case strip_prefix ''::'' s1 of
                 None \<Rightarrow> None
               | Some s2 \<Rightarrow>
                   (let (tail, _, s3) = read_groups 0 (8 - (length head + 1)) s2
                    in Some (head @ replicate (8 - length head - length tail) 0 @ tail, s3))))"

definition whole :: "('a \<times> string) option \<Rightarrow> 'a option" where
  "whole r = (case r of Some (v, []) \<Rightarrow> Some v | _ \<Rightarrow> None)"

definition parse_ipv4_addr :: "string \<Rightarrow> u32 option" where
  "parse_ipv4_addr s = map_option (\<lambda>os. of_nat (be_value 256 os)) (whole (read_ipv4_addr s))"

definition parse_ipv6_addr :: "string \<Rightarrow> u128 option" where
  "parse_ipv6_addr s = map_option (\<lambda>gs. of_nat (be_value 65536 gs)) (whole (read_ipv6_addr s))"

definition parse_ip_addr :: "string \<Rightarrow> IpAddr option" where
  "parse_ip_addr s =
     (case read_ipv4_addr s of
        Some r \<Rightarrow> map_option (\<lambda>os. IpV4 (of_nat (be_value 256 os))) (whole (Some r))
      | None \<Rightarrow> map_option (\<lambda>gs. IpV6 (of_nat (be_value 65536 gs))) (whole (read_ipv6_addr s)))"

subsection \<open>Digit strings\<close>

lemma foldl_digits_ge:
  "1 \<le> radix \<Longrightarrow> acc \<le> foldl (\<lambda>acc c. acc * radix + g c) acc ds" for acc radix :: nat
proof (induction ds arbitrary: acc)
  case (Cons c ds)
  have "acc \<le> acc * radix + g c" using Cons.prems by (simp add: trans_le_add1)
  also have "\<dots> \<le> foldl (\<lambda>acc c. acc * radix + g c) (acc * radix + g c) ds"
    using Cons by blast
  finally show ?case by simp
qed simp

lemma read_digits_eq:
  assumes "1 \<le> radix" "list_all (is_digit_of radix) ds" "acc \<le> maxv"
  shows "read_digits radix maxv acc ds =
    (let v = foldl (\<lambda>acc c. acc * radix + (case to_digit radix c of None \<Rightarrow> 0 | Some d \<Rightarrow> d)) acc ds
     in if v \<le> maxv then Some v else None)"
  using assms(2,3)
proof (induction ds arbitrary: acc)
  case Nil
  then show ?case by simp
next
  case (Cons c ds)
  then obtain d where d: "to_digit radix c = Some d" by (auto simp: is_digit_of_def)
  show ?case
  proof (cases "acc * radix + d \<le> maxv")
    case True
    with Cons d show ?thesis by simp
  next
    case False
    with foldl_digits_ge [OF assms(1), of "acc * radix + d"
        "\<lambda>c. case to_digit radix c of None \<Rightarrow> 0 | Some d \<Rightarrow> d" ds]
    have "\<not> foldl (\<lambda>acc c. acc * radix + (case to_digit radix c of None \<Rightarrow> 0 | Some d \<Rightarrow> d))
        (acc * radix + d) ds \<le> maxv" by linarith
    with False d show ?thesis by simp
  qed
qed

lemma plus_not_digit: "radix \<le> 36 \<Longrightarrow> \<not> is_digit_of radix (CHR ''+'')"
  by (simp add: is_digit_of_def to_digit_def byte_of_def)

lemma parse_uint_digits:
  assumes "1 \<le> radix" "radix \<le> 36" "list_all (is_digit_of radix) ds" "ds \<noteq> []"
  shows "parse_uint radix maxv ds =
    (if digits_value radix ds \<le> maxv then Some (digits_value radix ds) else None)"
proof -
  from assms(4) obtain c cs where ds: "ds = c # cs" by (cases ds) auto
  with assms(2,3) have "c \<noteq> CHR ''+''" using plus_not_digit by auto
  with ds have "parse_uint radix maxv ds = read_digits radix maxv 0 ds"
    by (simp add: parse_uint_def)
  also have "\<dots> = (if digits_value radix ds \<le> maxv then Some (digits_value radix ds) else None)"
    using read_digits_eq [OF assms(1,3), of 0 maxv] by (simp add: digits_value_def Let_def)
  finally show ?thesis .
qed

lemma is_ascii_digit_iff: "is_ascii_digit c \<longleftrightarrow> is_digit_of 10 c"
  by (auto simp: is_ascii_digit_def is_digit_of_def to_digit_def Let_def)

subsection \<open>The address range of a network\<close>

lemma unat_network:
  "unat (push_bit h (drop_bit h a)) = unat a div 2 ^ h * 2 ^ h" for a :: "'a::len word"
proof -
  have "unat a div 2 ^ h * 2 ^ h < 2 ^ LENGTH('a)"
    using div_times_less_eq_dividend [of "unat a" "2 ^ h"] unsigned_less [of a, where ?'a = nat] by (rule order.strict_trans1)
  then show ?thesis
    unfolding unsigned_push_bit_eq unat_drop_bit_eq
    by (simp add: take_bit_nat_eq_self push_bit_eq_mult drop_bit_eq_div)
qed

lemma unat_network_end:
  fixes a :: "'a::len word"
  assumes "h < LENGTH('a)"
  shows "unat (push_bit h (drop_bit h a) + (2 ^ h - 1)) = unat a div 2 ^ h * 2 ^ h + (2 ^ h - 1)"
proof -
  have one: "unat (2 ^ h :: 'a word) = 2 ^ h"
    using assms unsigned_push_bit_eq [of h "1 :: 'a word", where ?'a = nat]
    by (simp add: take_bit_nat_eq_self push_bit_eq_mult)
  then have "(1 :: 'a word) \<le> 2 ^ h" by (simp add: word_le_nat_alt)
  then have m: "unat (2 ^ h - 1 :: 'a word) = 2 ^ h - 1" by (simp add: unat_sub one)
  have "unat a div 2 ^ h < 2 ^ (LENGTH('a) - h)"
    using assms unsigned_less [of a, where ?'a = nat] by (simp add: less_mult_imp_div_less flip: power_add)
  then have "(unat a div 2 ^ h + 1) * 2 ^ h \<le> 2 ^ (LENGTH('a) - h) * 2 ^ h" by (intro mult_le_mono1) simp
  also have "\<dots> = 2 ^ LENGTH('a)" using assms by (simp flip: power_add)
  finally have "unat a div 2 ^ h * 2 ^ h + (2 ^ h - 1) < 2 ^ LENGTH('a)"
    using zero_less_power [of "2::nat" h] unfolding add_mult_distrib mult_1 by linarith
  then show ?thesis by (simp add: unat_word_ariths unat_network m)
qed

lemma network_range:
  fixes a x :: "'a::len word"
  assumes "h < LENGTH('a)"
  shows "push_bit h (drop_bit h a) \<le> push_bit h (drop_bit h a) + (2 ^ h - 1)"
    and "push_bit h (drop_bit h a) \<le> x \<and> x \<le> push_bit h (drop_bit h a) + (2 ^ h - 1)
      \<longleftrightarrow> drop_bit h a = drop_bit h x"
proof -
  show "push_bit h (drop_bit h a) \<le> push_bit h (drop_bit h a) + (2 ^ h - 1)"
    unfolding word_le_nat_alt unat_network unat_network_end [OF assms] by (rule le_add1)
  have "k * 2 ^ h \<le> n \<and> n \<le> k * 2 ^ h + (2 ^ h - 1) \<longleftrightarrow> k = n div 2 ^ h" for k n :: nat
  proof
    assume "k * 2 ^ h \<le> n \<and> n \<le> k * 2 ^ h + (2 ^ h - 1)"
    then have "k * 2 ^ h \<le> n" "n < Suc k * 2 ^ h"
      using zero_less_power [of "2::nat" h] unfolding mult_Suc by linarith+
    then show "k = n div 2 ^ h" by (metis div_nat_eqI mult.commute)
  next
    assume k: "k = n div 2 ^ h"
    have "n = n div 2 ^ h * 2 ^ h + n mod 2 ^ h" by (rule div_mult_mod_eq [symmetric])
    moreover have "n mod 2 ^ h < 2 ^ h" by simp
    ultimately show "k * 2 ^ h \<le> n \<and> n \<le> k * 2 ^ h + (2 ^ h - 1)" unfolding k by linarith
  qed
  moreover have "drop_bit h a = drop_bit h x \<longleftrightarrow> unat a div 2 ^ h = unat x div 2 ^ h"
    by (metis drop_bit_eq_div unat_drop_bit_eq word_unat_eq_iff)
  ultimately show "push_bit h (drop_bit h a) \<le> x \<and> x \<le> push_bit h (drop_bit h a) + (2 ^ h - 1)
      \<longleftrightarrow> drop_bit h a = drop_bit h x"
    unfolding word_le_nat_alt unat_network unat_network_end [OF assms] by blast
qed

section \<open>A reference instance\<close>

text \<open>
  The functions of the package on networks in CIDR notation, used to show that the documented
  behaviour can be met.
\<close>

definition cidr_parse :: "string \<Rightarrow> IpNet option" where
  "cidr_parse s =
     (case split_once (CHR ''/'') s of
        None \<Rightarrow> None
      | Some (a, l) \<Rightarrow>
          (case (parse_ip_addr a, parse_uint 10 255 l) of
             (Some (IpV4 w), Some p) \<Rightarrow> if p \<le> 32 then Some (NetV4 w p) else None
           | (Some (IpV6 w), Some p) \<Rightarrow> if p \<le> 128 then Some (NetV6 w p) else None
           | _ \<Rightarrow> None))"

definition cidr_new :: "IpAddr \<Rightarrow> nat \<Rightarrow> IpNet option" where
  "cidr_new a p =
     (case a of IpV4 w \<Rightarrow> if p \<le> 32 then Some (NetV4 w p) else None
              | IpV6 w \<Rightarrow> if p \<le> 128 then Some (NetV6 w p) else None)"

definition cidr_lib :: ipnet_lib where
  "cidr_lib =
     \<lparr>ipnet_parse = cidr_parse, ipnet_new = cidr_new,
      ipv4_network = (\<lambda>a p. push_bit (32 - p) (drop_bit (32 - p) a)),
      ipv6_network = (\<lambda>a p. push_bit (128 - p) (drop_bit (128 - p) a))\<rparr>"

lemma cidr_parse_wf: "cidr_parse s = Some n \<Longrightarrow> net_wf n"
  by (auto simp: cidr_parse_def split: option.splits prod.splits IpAddr.splits if_splits)

lemma cidr_lib_ok: "ipnet_lib_ok cidr_lib"
  by (auto simp: ipnet_lib_ok_def ipnet_new_ok_def ipnet_parse_ok_def ipnet_network_ok_def
      cidr_lib_def cidr_new_def intro: cidr_parse_wf)

end
