(* ===== verification/RuleSet_Types.thy ===== *)
theory RuleSet_Types
  imports Net_Addr
begin

text \<open>
  The rule-set data layer's types and pure parsers, \<^verbatim>\<open>control/src/ruleset/types.rs\<close>: the
  configuration entry, the domain patterns and parsed data, and the parsers of the update
  schedule (\<^verbatim>\<open>parse_time\<close>, \<^verbatim>\<open>parse_period\<close>) and of the checksum fragment of a URL.
\<close>

section \<open>Data\<close>

datatype RuleSetType = DomainList | IpList

definition file_extension :: "RuleSetType \<Rightarrow> string" where
  "file_extension t = (case t of DomainList \<Rightarrow> ''.txt'' | IpList \<Rightarrow> ''.txt'')"

definition as_str :: "RuleSetType \<Rightarrow> string" where
  "as_str t = (case t of DomainList \<Rightarrow> ''domain_list'' | IpList \<Rightarrow> ''ip_list'')"

datatype DomainPatternType = Suffix | Keyword | Full | Regex | Domain_t

record DomainPattern =
  pattern_type :: DomainPatternType
  pattern_value :: string

datatype RuleSetUpdate = UpdTime string | UpdPeriod string

record RuleSetConfig =
  cfg_name :: string
  cfg_type :: RuleSetType
  cfg_url :: string
  cfg_expected_sha256 :: "string option"
  cfg_update :: "RuleSetUpdate option"
  cfg_update_on_start :: bool
  cfg_proxy :: "string option"

datatype RuleSetData = RsDomainList "DomainPattern list" | RsIpList "IpNet list"

section \<open>Times of day\<close>

datatype time_error =
  TimeExpectedHHMM | TimeSecondsForbidden | TimeHourNotNumber | TimeMinuteNotNumber
| TimeHourRange u8 | TimeMinuteRange u8

definition parse_time :: "string \<Rightarrow> time_error + u8 \<times> u8" where
  "parse_time hhmm =
     (case split_once (CHR '':'') (trim hhmm) of
        None \<Rightarrow> Inl TimeExpectedHHMM
      | Some (hh, mm) \<Rightarrow>
          if CHR '':'' \<in> set mm then Inl TimeSecondsForbidden
          else if hh = [] \<or> mm = [] then Inl TimeExpectedHHMM
          else res_bind (ok_or TimeHourNotNumber (parse_u8 hh)) (\<lambda>h.
               res_bind (ok_or TimeMinuteNotNumber (parse_u8 mm)) (\<lambda>m.
                 if 23 < h then Inl (TimeHourRange h)
                 else if 59 < m then Inl (TimeMinuteRange m)
                 else Inr (h, m))))"

section \<open>Periods\<close>

datatype period_error =
  PeriodEmpty | PeriodExpectedNumber nat | PeriodBadNumber | PeriodMissingUnit
| PeriodIllegalUnit | PeriodOverflow | PeriodNotPositive

definition u64_max :: nat where
  "u64_max = 18446744073709551615"

definition checked_mul_u64 :: "nat \<Rightarrow> nat \<Rightarrow> nat option" where
  "checked_mul_u64 a b = (if a * b \<le> u64_max then Some (a * b) else None)"

definition checked_add_u64 :: "nat \<Rightarrow> nat \<Rightarrow> nat option" where
  "checked_add_u64 a b = (if a + b \<le> u64_max then Some (a + b) else None)"

definition unit_secs :: "char \<Rightarrow> nat option" where
  "unit_secs c =
     (if c = CHR ''d'' then Some (24 * 60 * 60)
      else if c = CHR ''h'' then Some (60 * 60)
      else if c = CHR ''m'' then Some 60 else None)"

text \<open>
  The scanning loop, on the input not yet read; \<open>i\<close> is the position reached, \<open>tot\<close> the seconds
  so far and \<open>seen\<close> whether a component was read.
\<close>

function period_loop :: "nat \<Rightarrow> string \<Rightarrow> nat \<Rightarrow> bool \<Rightarrow> period_error + nat \<times> bool" where
  "period_loop i cs tot seen =
     (if cs = [] then Inr (tot, seen)
      else
        let ds = takeWhile is_ascii_digit cs; rest = dropWhile is_ascii_digit cs
        in if ds = [] then Inl (PeriodExpectedNumber i)
           else (case parse_uint 10 u64_max ds of
                   None \<Rightarrow> Inl PeriodBadNumber
                 | Some num \<Rightarrow>
                     (case rest of
                        [] \<Rightarrow> Inl PeriodMissingUnit
                      | u # rest' \<Rightarrow>
                          (case unit_secs u of
                             None \<Rightarrow> Inl PeriodIllegalUnit
                           | Some us \<Rightarrow>
                               (case checked_mul_u64 num us of
                                  None \<Rightarrow> Inl PeriodOverflow
                                | Some secs \<Rightarrow>
                                    (case checked_add_u64 tot secs of
                                       None \<Rightarrow> Inl PeriodOverflow
                                     | Some tot' \<Rightarrow>
                                         period_loop (i + length ds + 1) rest' tot' True))))))"
  by pat_completeness auto
termination
proof (relation "measure (\<lambda>(i, cs, tot, seen). length cs)")
  fix i tot :: nat and cs rest rest' :: string and seen u
  assume "rest = dropWhile is_ascii_digit cs" and "rest = u # rest'"
  then have "length (u # rest') \<le> length cs" by (metis length_dropWhile_le)
  then show "((x1, rest', x2, x3), i, cs, tot, seen)
      \<in> measure (\<lambda>(i, cs, tot, seen). length cs)" for x1 x2 x3
    by simp
qed simp

declare period_loop.simps [simp del]

definition parse_period :: "string \<Rightarrow> period_error + nat" where
  "parse_period spec =
     (let s = trim spec
      in if s = [] then Inl PeriodEmpty
         else res_bind (period_loop 0 s 0 False) (\<lambda>(tot, seen).
                if \<not> seen \<or> tot = 0 then Inl PeriodNotPositive else Inr tot))"

section \<open>Checksums in URLs\<close>

definition expected_sha256_from_url :: "string \<Rightarrow> string option" where
  "expected_sha256_from_url url =
     (case split_once (CHR ''#'') url of
        None \<Rightarrow> None
      | Some (_, fragment) \<Rightarrow>
          (case strip_prefix ''sha256='' fragment of
             None \<Rightarrow> None
           | Some s \<Rightarrow> if trim s \<noteq> [] then Some (to_ascii_lowercase (trim s)) else None))"

section \<open>Properties\<close>

text \<open>The grammar of periods: a component is a digit string and a unit.\<close>

type_synonym segment = "string \<times> char"

definition segment_ok :: "segment \<Rightarrow> bool" where
  "segment_ok = (\<lambda>(ds, u). ds \<noteq> [] \<and> list_all is_ascii_digit ds \<and> unit_secs u \<noteq> None)"

definition render_period :: "segment list \<Rightarrow> string" where
  "render_period segs = concat (map (\<lambda>(ds, u). ds @ [u]) segs)"

definition period_value :: "segment list \<Rightarrow> nat" where
  "period_value segs = sum_list (map (\<lambda>(ds, u). digits_value 10 ds * the (unit_secs u)) segs)"


lemma parse_time_range:
  "parse_time s = Inr (h, m) \<Longrightarrow> h \<le> 23 \<and> m \<le> 59"
  by (auto simp: parse_time_def res_bind_eq_Inr not_less split: option.splits if_splits)

text \<open>Every component contributes whole minutes, and overflow never wraps.\<close>

lemma unit_secs_minutes: "unit_secs u = Some us \<Longrightarrow> 60 dvd us"
  by (auto simp: unit_secs_def split: if_splits)

lemma period_loop_minutes:
  "60 dvd tot \<Longrightarrow> tot \<le> u64_max \<Longrightarrow> period_loop i cs tot seen = Inr (t, b)
    \<Longrightarrow> 60 dvd t \<and> t \<le> u64_max"
proof (induction i cs tot seen rule: period_loop.induct)
  case (1 i cs tot seen)
  from "1.prems"(3) show ?case
  proof (subst (asm) period_loop.simps, clarsimp simp: Let_def split: if_splits option.splits list.splits, goal_cases)
    case 1
    then show ?case using "1.prems" by simp
  next
    case (2 num u rest us secs tot')
    then show ?case
      using "1.IH" [of "takeWhile is_ascii_digit cs" "dropWhile is_ascii_digit cs" num u rest us secs tot']
        "1.prems"
      by (auto simp: checked_mul_u64_def checked_add_u64_def dest: unit_secs_minutes split: if_splits)
  qed
qed

lemma parse_period_minutes:
  "parse_period s = Inr secs \<Longrightarrow> 60 \<le> secs \<and> 60 dvd secs \<and> secs \<le> u64_max"
  by (auto simp: parse_period_def Let_def res_bind_eq_Inr split: if_splits
      dest!: period_loop_minutes [rotated 2] dvd_imp_le)

lemma unit_not_digit: "unit_secs u = Some k \<Longrightarrow> \<not> is_ascii_digit u"
  by (auto simp: unit_secs_def is_ascii_digit_def byte_of_def split: if_splits)

lemma unit_secs_pos: "unit_secs u = Some k \<Longrightarrow> 0 < k"
  by (auto simp: unit_secs_def split: if_splits)

lemma period_loop_render:
  "list_all segment_ok segs \<Longrightarrow> tot + period_value segs \<le> u64_max
    \<Longrightarrow> period_loop i (render_period segs) tot seen = Inr (tot + period_value segs, seen \<or> segs \<noteq> [])"
proof (induction segs arbitrary: i tot seen)
  case Nil
  then show ?case by (simp add: render_period_def period_value_def period_loop.simps)
next
  case (Cons seg segs)
  obtain ds u where seg: "seg = (ds, u)" by (cases seg)
  from Cons.prems seg obtain k where ds: "ds \<noteq> []" "list_all is_ascii_digit ds" and u: "unit_secs u = Some k"
    by (auto simp: segment_ok_def)
  let ?cs = "ds @ u # render_period segs"
  have tw: "takeWhile is_ascii_digit ?cs = ds" "dropWhile is_ascii_digit ?cs = u # render_period segs"
    using ds(2) unit_not_digit [OF u] by (simp_all add: takeWhile_append dropWhile_append list_all_iff)
  let ?n = "digits_value 10 ds"
  have le: "tot + ?n * k + period_value segs \<le> u64_max"
    using Cons.prems(2) seg u by (simp add: period_value_def)
  have "?n \<le> ?n * k" using unit_secs_pos [OF u] by simp
  with le have "?n \<le> u64_max" by linarith
  then have n: "parse_uint 10 u64_max ds = Some ?n"
    using ds by (subst parse_uint_digits) (auto simp: is_ascii_digit_iff [abs_def] list_all_iff)
  have step: "period_loop i ?cs tot seen = period_loop (i + length ds + 1) (render_period segs) (tot + ?n * k) True"
    by (subst period_loop.simps) (use ds(1) tw n u le in \<open>simp add: checked_mul_u64_def checked_add_u64_def\<close>)
  have "render_period (seg # segs) = ?cs" by (simp add: render_period_def seg)
  moreover have "period_value (seg # segs) = ?n * k + period_value segs"
    by (simp add: period_value_def seg u)
  ultimately show ?case using step Cons.IH [of "tot + ?n * k"] Cons.prems(1) le by (simp add: add.assoc)
qed

lemma period_loop_segments:
  "tot \<le> u64_max \<Longrightarrow> period_loop i cs tot seen = Inr (t, b) \<Longrightarrow>
    \<exists>segs. list_all segment_ok segs \<and> cs = render_period segs \<and> t = tot + period_value segs
      \<and> t \<le> u64_max \<and> b = (seen \<or> segs \<noteq> [])"
proof (induction i cs tot seen rule: period_loop.induct)
  case (1 i cs tot seen)
  from "1.prems"(2) show ?case
  proof (subst (asm) period_loop.simps, clarsimp simp: Let_def split: if_splits option.splits list.splits, goal_cases)
    case 1
    then show ?case using "1.prems"
      by (intro exI [of _ "[]"]) (simp add: render_period_def period_value_def)
  next
    case (2 num u rest us secs tot')
    let ?ds = "takeWhile is_ascii_digit cs"
    from 2 have tot': "tot' = tot + num * us" "tot' \<le> u64_max"
      by (auto simp: checked_mul_u64_def checked_add_u64_def split: if_splits)
    with "1.IH" [of ?ds "dropWhile is_ascii_digit cs" num u rest us secs tot'] 2
    obtain segs where segs: "list_all segment_ok segs" "rest = render_period segs"
        "t = tot' + period_value segs" "t \<le> u64_max" b by auto
    have ds: "?ds \<noteq> []" "list_all is_ascii_digit ?ds"
      using 2 by (auto simp: list_all_iff dest: set_takeWhileD)
    have num: "num = digits_value 10 ?ds"
      using 2 ds parse_uint_digits [of 10 ?ds u64_max]
      by (auto simp: is_ascii_digit_iff [abs_def] split: if_splits)
    have "cs = ?ds @ u # rest" using 2 by (metis takeWhile_dropWhile_id)
    with segs ds num 2 tot' show ?case
      by (intro exI [of _ "(?ds, u) # segs"])
        (auto simp: segment_ok_def render_period_def period_value_def)
  qed
qed

text \<open>
  a period string is accepted exactly when its trimmed text is a sequence of components, each
  a decimal number followed by \<^verbatim>\<open>d\<close>, \<^verbatim>\<open>h\<close> or \<^verbatim>\<open>m\<close>, whose value in seconds is positive and fits 64 bits;
  the result is that value.  In particular an overflow is rejected, never wrapped.
\<close>

theorem parse_period_spec:
  "parse_period s = Inr secs \<longleftrightarrow>
     (\<exists>segs. list_all segment_ok segs \<and> trim s = render_period segs
        \<and> secs = period_value segs \<and> 0 < secs \<and> secs \<le> u64_max)"
proof
  assume "parse_period s = Inr secs"
  then have l: "period_loop 0 (trim s) 0 False = Inr (secs, True)" and "0 < secs"
    by (auto simp: parse_period_def Let_def res_bind_eq_Inr split: if_splits)
  with period_loop_segments [OF _ l]
  show "\<exists>segs. list_all segment_ok segs \<and> trim s = render_period segs
        \<and> secs = period_value segs \<and> 0 < secs \<and> secs \<le> u64_max" by auto
next
  assume "\<exists>segs. list_all segment_ok segs \<and> trim s = render_period segs
        \<and> secs = period_value segs \<and> 0 < secs \<and> secs \<le> u64_max"
  then obtain segs where segs: "list_all segment_ok segs" "trim s = render_period segs"
    "secs = period_value segs" "0 < secs" "secs \<le> u64_max" by blast
  then have "segs \<noteq> []" by (auto simp: period_value_def)
  then have "render_period segs \<noteq> []"
    by (cases segs) (auto simp: render_period_def)
  then show "parse_period s = Inr secs"
    using segs \<open>segs \<noteq> []\<close> period_loop_render [of segs 0 0 False]
    by (simp add: parse_period_def)
qed

lemma parse_time_lenient: "parse_time ''+9:005'' = Inr (9, 5)"
  by code_simp

text \<open>
  a schedule time that parses denotes a minute of a day.
\<close>

theorem parse_time_in_day:
  assumes "parse_time s = Inr (h, m)"
  shows "unat h * 60 + unat m < 24 * 60"
proof -
  from parse_time_range [OF assms] have "unat h \<le> 23" and "unat m \<le> 59"
    by (simp_all add: word_le_nat_alt)
  then show ?thesis by linarith
qed

theorem parse_time_in_day_witness:
  "parse_time '' 21:47 '' = Inr (21, 47) \<and> unat (21 :: u8) * 60 + unat (47 :: u8) < 24 * 60"
proof -
  have h: "parse_time '' 21:47 '' = Inr (21, 47)" by code_simp
  show ?thesis using h parse_time_in_day [OF h] by blast
qed

end
