(* ===== verification/Ref_Parse.thy ===== *)
theory Ref_Parse
  imports RuleSet_Types
begin

text \<open>
  Rule-set references and the linear domain matcher, \<^verbatim>\<open>control/src/ruleset/refparse.rs\<close>.  The
  regular-expression engine (the \<^verbatim>\<open>regex\<close> package) is the parameter \<open>rx\<close>: \<open>rx p\<close> is \<open>None\<close> when
  \<^verbatim>\<open>Regex::new(p)\<close> fails and otherwise the predicate \<^verbatim>\<open>is_match\<close>.
\<close>

type_synonym regex_engine = "string \<Rightarrow> (string \<Rightarrow> bool) option"

section \<open>References\<close>

datatype RuleSetRef = SetRef string | PlainRef string

definition parse_ref :: "string \<Rightarrow> RuleSetRef" where
  "parse_ref v =
     (case strip_prefix ''set:'' (trim v) of
        Some name \<Rightarrow> SetRef (trim name)
      | None \<Rightarrow> PlainRef (trim v))"

definition is_ruleset_ref :: "string \<Rightarrow> bool" where
  "is_ruleset_ref v = (case parse_ref v of SetRef _ \<Rightarrow> True | PlainRef _ \<Rightarrow> False)"

definition ref_label :: "string \<Rightarrow> string" where
  "ref_label v = trim v"

section \<open>Domain matching\<close>

abbreviation dot :: char where
  "dot \<equiv> CHR ''.''"

definition normalize_qname :: "string \<Rightarrow> string" where
  "normalize_qname q = to_ascii_lowercase (trim_end_char dot (trim q))"

definition regex_matches :: "regex_engine \<Rightarrow> string \<Rightarrow> string \<Rightarrow> bool" where
  "regex_matches rx p q = (case rx p of None \<Rightarrow> False | Some m \<Rightarrow> m q)"

definition match_domain_pattern :: "regex_engine \<Rightarrow> string \<Rightarrow> DomainPattern \<Rightarrow> bool" where
  "match_domain_pattern rx qname0 pattern =
     (let qname = normalize_qname qname0
      in case pattern_type pattern of
           Suffix \<Rightarrow>
             (let v = to_ascii_lowercase (trim_start_char dot (pattern_value pattern))
              in qname = v \<or> ends_with qname (dot # v))
         | Domain_t \<Rightarrow>
             (let v = to_ascii_lowercase (trim_start_char dot (pattern_value pattern))
              in qname \<noteq> v \<and> ends_with qname (dot # v))
         | Full \<Rightarrow>
             (let v = to_ascii_lowercase (trim_end_char dot (pattern_value pattern))
              in qname = v)
         | Keyword \<Rightarrow>
             (let v = to_ascii_lowercase (pattern_value pattern)
              in v \<noteq> [] \<and> str_contains qname v)
         | Regex \<Rightarrow> regex_matches rx (pattern_value pattern) qname)"

definition match_domain_patterns :: "regex_engine \<Rightarrow> string \<Rightarrow> DomainPattern list \<Rightarrow> bool" where
  "match_domain_patterns rx qname patterns = list_ex (match_domain_pattern rx qname) patterns"

definition match_qname_value :: "regex_engine \<Rightarrow> string \<Rightarrow> string \<Rightarrow> bool" where
  "match_qname_value rx qname0 value0 =
     (let qname = normalize_qname qname0; v = trim value0
      in case (case strip_prefix ''suffix:'' v of
                 Some r \<Rightarrow> Some r | None \<Rightarrow> strip_prefix ''domain:'' v) of
           Some rest \<Rightarrow>
             (let rest = to_ascii_lowercase (trim_start_char dot rest)
              in qname = rest \<or> ends_with qname (dot # rest))
         | None \<Rightarrow>
           (case strip_prefix ''full:'' v of
              Some rest \<Rightarrow> qname = to_ascii_lowercase (trim_end_char dot (trim rest))
            | None \<Rightarrow>
              (case strip_prefix ''keyword:'' v of
                 Some rest \<Rightarrow>
                   (let rest = to_ascii_lowercase (trim rest)
                    in rest \<noteq> [] \<and> str_contains qname rest)
               | None \<Rightarrow>
                 (case strip_prefix ''regex:'' v of
                    Some rest \<Rightarrow> regex_matches rx (trim rest) qname
                  | None \<Rightarrow>
                      (let v = to_ascii_lowercase (trim_start_char dot v)
                       in qname = v \<or> ends_with qname (dot # v))))))"

definition domain_pattern_to_string :: "DomainPattern \<Rightarrow> string" where
  "domain_pattern_to_string p =
     (case pattern_type p of
        Suffix \<Rightarrow> ''suffix:'' @ pattern_value p
      | Full \<Rightarrow> ''full:'' @ pattern_value p
      | Regex \<Rightarrow> ''regex:'' @ pattern_value p
      | Domain_t \<Rightarrow> ''domain:'' @ pattern_value p
      | Keyword \<Rightarrow> ''keyword:'' @ pattern_value p)"

section \<open>Properties\<close>

lemma normalize_qname_last: "normalize_qname q \<noteq> [] \<Longrightarrow> last (normalize_qname q) \<noteq> dot"
proof -
  assume ne: "normalize_qname q \<noteq> []"
  then have "trim_end_char dot (trim q) \<noteq> []" by (auto simp: normalize_qname_def)
  then have "last (trim_end_char dot (trim q)) \<noteq> dot" by (rule trim_end_char_last)
  then show ?thesis
    using \<open>trim_end_char dot (trim q) \<noteq> []\<close> ascii_lower_eq_iff [of dot]
    by (simp add: normalize_qname_def to_ascii_lowercase_def last_map byte_of_def)
qed

lemma normalize_qname_lower [simp]:
  "to_ascii_lowercase (normalize_qname q) = normalize_qname q"
  by (simp add: normalize_qname_def)

text \<open>
  A suffix condition in terms of labels: \<open>q\<close> is \<open>v\<close> or ends in \<open>.v\<close> exactly when the label list
  of \<open>v\<close> is a suffix of that of \<open>q\<close>.
\<close>

lemma suffix_labels:
  "q = v \<or> ends_with q (dot # v) \<longleftrightarrow> suffix (split_char dot v) (split_char dot q)"
proof
  assume "q = v \<or> ends_with q (dot # v)"
  then show "suffix (split_char dot v) (split_char dot q)"
    by (auto simp: ends_with_def suffix_def split_char_sep_append)
next
  assume "suffix (split_char dot v) (split_char dot q)"
  then obtain ls where ls: "split_char dot q = ls @ split_char dot v" by (auto simp: suffix_def)
  show "q = v \<or> ends_with q (dot # v)"
  proof (cases "ls = []")
    case True
    with ls show ?thesis by (simp add: split_char_inj)
  next
    case False
    have "q = join [dot] (ls @ split_char dot v)" by (metis ls join_split_char)
    also have "\<dots> = join [dot] ls @ dot # v"
      using False by (simp add: join_append join_split_char)
    finally show ?thesis by (auto simp: ends_with_def suffix_def)
  qed
qed

text \<open>Matching never depends on the case of the query name or on trailing dots.\<close>

lemma match_domain_pattern_normalized:
  "normalize_qname q = normalize_qname q' \<Longrightarrow>
    match_domain_pattern rx q p = match_domain_pattern rx q' p"
  by (simp add: match_domain_pattern_def)

lemma parse_ref_plain_iff: "parse_ref v = PlainRef w \<longleftrightarrow> w = trim v \<and> \<not> prefix ''set:'' (trim v)"
  by (auto simp: parse_ref_def strip_prefix_def)

end
