(* ===== verification/Rule_List.thy ===== *)
theory Rule_List
  imports Ref_Parse
begin

text \<open>
  Text domain and IP lists, \<^verbatim>\<open>control/src/ruleset/list.rs\<close>.  The line parsers slice the line at
  fixed byte offsets; a slice that falls inside a multi-byte character panics, which is a value
  of the model (\<open>Panic\<close>).
\<close>

section \<open>Errors and keywords\<close>

datatype ListError =
  InvalidIp (err_line: nat) (err_value: string)
| InvalidDomain (err_line: nat) (err_value: string)
| UnrecognizedRule (err_line: nat) (err_value: string)

definition NON_IP_RULE_PREFIXES :: "string list" where
  "NON_IP_RULE_PREFIXES =
     [''domain'', ''domain-suffix'', ''domain-keyword'', ''domain-regex'', ''geoip'', ''match'',
      ''final'', ''rule-set'', ''process-name'', ''process-path'', ''user-agent'', ''src-ip'',
      ''src-port'', ''dst-port'', ''protocol'', ''network'', ''url-regex'', ''ip-asn'']"

definition NON_DOMAIN_RULE_PREFIXES :: "string list" where
  "NON_DOMAIN_RULE_PREFIXES =
     [''ip-cidr'', ''ip-cidr6'', ''ip-asn'', ''geoip'', ''match'', ''final'', ''rule-set'',
      ''process-name'', ''process-path'', ''user-agent'', ''src-ip'', ''src-port'', ''dst-port'',
      ''protocol'', ''network'', ''url-regex'']"

text \<open>A keyword together with its trailing-comma form.\<close>

type_synonym RuleKeywordSet = "(string \<times> string) list"

definition RuleKeywordSet_new :: "string list \<Rightarrow> RuleKeywordSet" where
  "RuleKeywordSet_new keywords = map (\<lambda>k. (k, k @ '','')) keywords"

definition NON_IP_RULE_KEYWORDS :: RuleKeywordSet where
  "NON_IP_RULE_KEYWORDS = RuleKeywordSet_new NON_IP_RULE_PREFIXES"

definition NON_DOMAIN_RULE_KEYWORDS :: RuleKeywordSet where
  "NON_DOMAIN_RULE_KEYWORDS = RuleKeywordSet_new NON_DOMAIN_RULE_PREFIXES"

definition strip_rule_keyword :: "string \<Rightarrow> string \<Rightarrow> string option run" where
  "strip_rule_keyword line keyword =
     (let k = length keyword
      in if k < length line \<and> line ! k = CHR '',''
         then run_bind (str_to line k) (\<lambda>h.
                if eq_ignore_ascii_case h keyword
                then run_bind (str_from line (k + 1)) (\<lambda>r. Ret (Some (trim r)))
                else Ret None)
         else Ret None)"

definition line_is_rule_keyword :: "string \<Rightarrow> RuleKeywordSet \<Rightarrow> bool" where
  "line_is_rule_keyword line keywords =
     (let lower = to_ascii_lowercase line
      in list_ex (\<lambda>(kw, pre). lower = kw \<or> starts_with lower pre) keywords)"

definition first_arg :: "string \<Rightarrow> string" where
  "first_arg rest = trim (hd (split_char (CHR '','') rest))"

section \<open>IP lists\<close>

definition parse_ip_line :: "ipnet_lib \<Rightarrow> string \<Rightarrow> IpNet option" where
  "parse_ip_line lib line =
     (case ipnet_parse lib line of
        Some net \<Rightarrow> Some net
      | None \<Rightarrow>
          (case parse_ip_addr line of
             None \<Rightarrow> None
           | Some addr \<Rightarrow>
               ipnet_new lib addr (case addr of IpV4 _ \<Rightarrow> 32 | IpV6 _ \<Rightarrow> 128)))"

text \<open>One line: \<open>Inr None\<close> skips it, \<open>Inr (Some net)\<close> adds a network.\<close>

definition parse_ip_list_line ::
    "ipnet_lib \<Rightarrow> nat \<Rightarrow> string \<Rightarrow> (ListError + IpNet option) run" where
  "parse_ip_list_line lib idx raw =
     (let line = trim raw
      in if line = [] \<or> starts_with line ''#'' then Ret (Inr None)
         else run_bind (strip_rule_keyword line ''IP-CIDR'') (\<lambda>r1.
           case r1 of
             Some rest \<Rightarrow>
               Ret (res_bind (ok_or (InvalidIp (idx + 1) line) (parse_ip_line lib (first_arg rest)))
                      (\<lambda>net. Inr (Some net)))
           | None \<Rightarrow>
             run_bind (strip_rule_keyword line ''IP-CIDR6'') (\<lambda>r2.
               case r2 of
                 Some rest \<Rightarrow>
                   Ret (res_bind
                          (ok_or (InvalidIp (idx + 1) line) (parse_ip_line lib (first_arg rest)))
                          (\<lambda>net. Inr (Some net)))
               | None \<Rightarrow>
                   if line_is_rule_keyword line NON_IP_RULE_KEYWORDS then Ret (Inr None)
                   else (case parse_ip_line lib line of
                           Some net \<Rightarrow> Ret (Inr (Some net))
                         | None \<Rightarrow>
                             if CHR '','' \<in> set line
                             then Ret (Inl (UnrecognizedRule (idx + 1) line))
                             else Ret (Inl (InvalidIp (idx + 1) line))))))"

text \<open>The loop over the numbered lines, shared by the two list parsers.\<close>

fun list_loop ::
    "(nat \<Rightarrow> string \<Rightarrow> (ListError + 'a option) run) \<Rightarrow> nat \<Rightarrow> string list \<Rightarrow> 'a list
      \<Rightarrow> (ListError + 'a list) run" where
  "list_loop f idx [] out = Ret (Inr out)"
| "list_loop f idx (raw # raws) out =
     try_bind (f idx raw) (\<lambda>r.
       case r of None \<Rightarrow> list_loop f (idx + 1) raws out
               | Some x \<Rightarrow> list_loop f (idx + 1) raws (out @ [x]))"

definition parse_ip_list :: "ipnet_lib \<Rightarrow> string \<Rightarrow> (ListError + IpNet list) run" where
  "parse_ip_list lib txt = list_loop (parse_ip_list_line lib) 0 (lines txt) []"

section \<open>Domain lists\<close>

definition has_ci_prefix :: "string \<Rightarrow> string \<Rightarrow> bool run" where
  "has_ci_prefix line p =
     (if length p \<le> length line
      then run_bind (str_to line (length p)) (\<lambda>h. Ret (eq_ignore_ascii_case h p))
      else Ret False)"

fun any_ci_prefix :: "string \<Rightarrow> string list \<Rightarrow> bool run" where
  "any_ci_prefix line [] = Ret False"
| "any_ci_prefix line (p # ps) =
     run_bind (has_ci_prefix line p) (\<lambda>b. if b then Ret True else any_ci_prefix line ps)"

definition is_native_domain_prefix :: "string \<Rightarrow> bool run" where
  "is_native_domain_prefix line =
     any_ci_prefix line [''full:'', ''domain:'', ''suffix:'', ''keyword:'', ''regex:'']"

fun rule_domain_loop ::
    "string \<Rightarrow> (string \<times> DomainPatternType) list \<Rightarrow> DomainPattern option run" where
  "rule_domain_loop line [] = Ret None"
| "rule_domain_loop line ((keyword, ty) # kws) =
     run_bind (strip_rule_keyword line keyword) (\<lambda>r.
       case r of
         None \<Rightarrow> rule_domain_loop line kws
       | Some rest \<Rightarrow>
           (let v = first_arg rest
            in if v = [] then Ret None
               else Ret (Some \<lparr>pattern_type = ty, pattern_value = v\<rparr>)))"

definition parse_rule_domain :: "string \<Rightarrow> DomainPattern option run" where
  "parse_rule_domain line =
     rule_domain_loop line
       [(''DOMAIN-SUFFIX'', Suffix), (''DOMAIN-KEYWORD'', Keyword), (''DOMAIN-REGEX'', Regex),
        (''DOMAIN'', Full)]"

fun domain_line_loop ::
    "string \<Rightarrow> (string \<times> DomainPatternType) list \<Rightarrow> DomainPattern option run" where
  "domain_line_loop line [] =
     (if line = [] then Ret None
      else Ret (Some \<lparr>pattern_type = Suffix, pattern_value = line\<rparr>))"
| "domain_line_loop line ((p, ty) # ps) =
     run_bind (has_ci_prefix line p) (\<lambda>b.
       if b then
         run_bind (str_from line (length p)) (\<lambda>r.
           let v = trim r
           in if v = [] then Ret None
              else Ret (Some \<lparr>pattern_type = ty, pattern_value = v\<rparr>))
       else domain_line_loop line ps)"

definition parse_domain_line :: "string \<Rightarrow> DomainPattern option run" where
  "parse_domain_line line =
     domain_line_loop line
       [(''full:'', Full), (''domain:'', Domain_t), (''suffix:'', Suffix), (''keyword:'', Keyword),
        (''regex:'', Regex)]"

definition parse_domain_list_line :: "nat \<Rightarrow> string \<Rightarrow> (ListError + DomainPattern option) run" where
  "parse_domain_list_line idx raw =
     (let line = trim raw
      in if line = [] \<or> starts_with line ''#'' then Ret (Inr None)
         else run_bind (parse_rule_domain line) (\<lambda>r1.
           case r1 of
             Some pat \<Rightarrow> Ret (Inr (Some pat))
           | None \<Rightarrow>
               if line_is_rule_keyword line NON_DOMAIN_RULE_KEYWORDS then Ret (Inr None)
               else run_bind (parse_domain_line line) (\<lambda>r2.
                 case r2 of
                   Some pat \<Rightarrow> Ret (Inr (Some pat))
                 | None \<Rightarrow>
                     run_bind (is_native_domain_prefix line) (\<lambda>b.
                       if b then Ret (Inl (InvalidDomain (idx + 1) line))
                       else Ret (Inl (UnrecognizedRule (idx + 1) line))))))"

definition parse_domain_list :: "string \<Rightarrow> (ListError + DomainPattern list) run" where
  "parse_domain_list txt = list_loop parse_domain_list_line 0 (lines txt) []"

section \<open>Properties\<close>

subsection \<open>ASCII text never panics\<close>

definition is_ascii :: "string \<Rightarrow> bool" where
  "is_ascii s \<longleftrightarrow> (\<forall>c \<in> set s. byte_of c < 128)"

lemma set_trim: "set (trim s) \<subseteq> set s"
proof -
  have "set (trim_start s) \<subseteq> set s"
    unfolding trim_start_def using strip_heads_suffix by (rule set_mono_suffix)
  moreover have "set (trim_end t) \<subseteq> set t" for t
    using trim_end_prefix by (rule set_mono_prefix)
  ultimately show ?thesis unfolding trim_def by blast
qed

lemma is_ascii_trim: "is_ascii s \<Longrightarrow> is_ascii (trim s)"
  using set_trim by (auto simp: is_ascii_def)

lemma is_ascii_boundary: "is_ascii s \<Longrightarrow> n \<le> length s \<Longrightarrow> is_char_boundary s n"
proof -
  assume "is_ascii s" and "n \<le> length s"
  then have "n < length s \<Longrightarrow> byte_of (s ! n) < 128" by (simp add: is_ascii_def)
  with \<open>n \<le> length s\<close> show ?thesis
    by (auto simp: is_char_boundary_def is_continuation_def)
qed

lemma is_ascii_split: "is_ascii s \<Longrightarrow> w \<in> set (split_char c s) \<Longrightarrow> is_ascii w"
proof (induction s arbitrary: w)
  case Nil
  then show ?case by simp
next
  case (Cons x xs)
  obtain v vs where v: "split_char c xs = v # vs" by (cases "split_char c xs") auto
  from Cons.prems(1) have "is_ascii xs" and "byte_of x < 128" by (auto simp: is_ascii_def)
  with Cons.IH v have "is_ascii v" and "\<And>u. u \<in> set vs \<Longrightarrow> is_ascii u" by auto
  with Cons.prems v show ?case by (auto simp: is_ascii_def split: if_splits)
qed

lemma is_ascii_strip_cr: "is_ascii l \<Longrightarrow> is_ascii (strip_cr l)"
  by (auto simp: strip_cr_def is_ascii_def split: option.splits)

lemma is_ascii_lines: "is_ascii s \<Longrightarrow> l \<in> set (lines s) \<Longrightarrow> is_ascii l"
proof -
  assume s: "is_ascii s" and "l \<in> set (lines s)"
  then consider w where "w \<in> set (split_char (CHR 0x0A) s)" "l = strip_cr w"
    | "l \<in> set (split_char (CHR 0x0A) s)"
    by (auto simp: lines_def Let_def split: if_splits dest: in_set_butlastD)
  then show "is_ascii l"
    using s by cases (auto intro: is_ascii_strip_cr is_ascii_split)
qed

lemma strip_rule_keyword_total:
  "is_ascii line \<Longrightarrow> strip_rule_keyword line k \<noteq> Panic"
  by (auto simp: strip_rule_keyword_def Let_def str_to_def str_from_def is_ascii_boundary)

lemma has_ci_prefix_total:
  "is_ascii line \<Longrightarrow> has_ci_prefix line p \<noteq> Panic"
  by (auto simp: has_ci_prefix_def str_to_def is_ascii_boundary)

lemma has_ci_prefix_True: "has_ci_prefix line p = Ret True \<Longrightarrow> length p \<le> length line"
  by (auto simp: has_ci_prefix_def split: if_splits)

lemma any_ci_prefix_total: "is_ascii line \<Longrightarrow> any_ci_prefix line ps \<noteq> Panic"
proof (induction ps)
  case (Cons p ps)
  then show ?case using has_ci_prefix_total [of line p] by (cases "has_ci_prefix line p") auto
qed simp

lemma rule_domain_loop_total: "is_ascii line \<Longrightarrow> rule_domain_loop line kws \<noteq> Panic"
proof (induction kws)
  case (Cons kw kws)
  then show ?case using strip_rule_keyword_total [of line "fst kw"]
    by (cases kw; cases "strip_rule_keyword line (fst kw)") (auto simp: Let_def split: option.splits)
qed simp

lemma domain_line_loop_total: "is_ascii line \<Longrightarrow> domain_line_loop line ps \<noteq> Panic"
proof (induction ps)
  case (Cons p ps)
  then show ?case using has_ci_prefix_total [of line "fst p"] has_ci_prefix_True [of line "fst p"]
    by (cases p; cases "has_ci_prefix line (fst p)")
      (auto simp: Let_def str_from_def is_ascii_boundary)
qed simp

lemma parse_domain_list_line_total:
  assumes "is_ascii raw"
  shows "parse_domain_list_line idx raw \<noteq> Panic"
proof -
  have a: "is_ascii (trim raw)" using assms by (rule is_ascii_trim)
  have "parse_rule_domain (trim raw) \<noteq> Panic"
    unfolding parse_rule_domain_def by (rule rule_domain_loop_total [OF a])
  moreover have "parse_domain_line (trim raw) \<noteq> Panic"
    unfolding parse_domain_line_def by (rule domain_line_loop_total [OF a])
  moreover have "is_native_domain_prefix (trim raw) \<noteq> Panic"
    unfolding is_native_domain_prefix_def by (rule any_ci_prefix_total [OF a])
  ultimately show ?thesis
    by (auto simp: parse_domain_list_line_def Let_def run_bind_eq_Panic split: option.splits if_splits)
qed

lemma parse_ip_list_line_total:
  assumes "is_ascii raw"
  shows "parse_ip_list_line lib idx raw \<noteq> Panic"
  using strip_rule_keyword_total [OF is_ascii_trim [OF assms]]
  by (auto simp: parse_ip_list_line_def Let_def run_bind_eq_Panic split: option.splits if_splits)

lemma list_loop_total:
  "(\<And>i raw. raw \<in> set raws \<Longrightarrow> f i raw \<noteq> Panic) \<Longrightarrow> list_loop f idx raws out \<noteq> Panic"
  by (induction raws arbitrary: idx out) (auto simp: try_bind_eq_Panic split: option.splits)

text \<open>parsing an ASCII list returns, a list or an error, and never panics.\<close>

theorem list_parsers_total:
  assumes "is_ascii txt"
  shows "parse_domain_list txt \<noteq> Panic \<and> parse_ip_list lib txt \<noteq> Panic"
  unfolding parse_domain_list_def parse_ip_list_def
  by (intro conjI list_loop_total parse_domain_list_line_total parse_ip_list_line_total
      is_ascii_lines [OF assms])

theorem list_parsers_total_witness:
  "is_ascii ''full:a.b'' \<and> parse_domain_list ''full:a.b'' \<noteq> Panic
    \<and> parse_ip_list cidr_lib ''full:a.b'' \<noteq> Panic"
proof -
  have h: "is_ascii ''full:a.b''" by code_simp
  show ?thesis using h list_parsers_total [OF h, of cidr_lib] by blast
qed

subsection \<open>Text outside ASCII\<close>

lemma keyword_ascii: "(kw, pre) \<in> set NON_DOMAIN_RULE_KEYWORDS \<Longrightarrow> is_ascii kw \<and> CHR '','' \<in> set pre"
  by (auto simp: NON_DOMAIN_RULE_KEYWORDS_def NON_DOMAIN_RULE_PREFIXES_def RuleKeywordSet_new_def
      is_ascii_def byte_of_def)

lemma not_rule_keyword:
  assumes "n < length line" "is_continuation (line ! n)" "CHR '','' \<notin> set line"
  shows "\<not> line_is_rule_keyword line NON_DOMAIN_RULE_KEYWORDS"
proof -
  have low: "to_ascii_lowercase line ! n = line ! n"
    using assms(1,2) by (auto simp: to_ascii_lowercase_def is_continuation_def ascii_lower_def)
  have "line ! n \<in> set (to_ascii_lowercase line)"
    using assms(1) low by (metis length_to_ascii_lowercase nth_mem)
  then have asc: "\<not> is_ascii (to_ascii_lowercase line)"
    using assms(2) by (auto simp: is_ascii_def is_continuation_def intro!: bexI [of _ "line ! n"])
  have comma: "CHR '','' \<notin> set (to_ascii_lowercase line)"
    using assms(3) by (simp add: in_set_lowercase)
  have "\<not> (to_ascii_lowercase line = kw \<or> starts_with (to_ascii_lowercase line) pre)"
    if "(kw, pre) \<in> set NON_DOMAIN_RULE_KEYWORDS" for kw pre
    using keyword_ascii [OF that] asc comma by (auto simp: starts_with_def dest: set_mono_prefix)
  then show ?thesis
    by (auto simp: line_is_rule_keyword_def Let_def list_ex_iff)
qed

lemma strip_rule_keyword_no_comma:
  "CHR '','' \<notin> set line \<Longrightarrow> strip_rule_keyword line k = Ret None"
proof -
  assume "CHR '','' \<notin> set line"
  then have "\<not> (length k < length line \<and> line ! length k = CHR '','')" by (metis nth_mem)
  then show ?thesis unfolding strip_rule_keyword_def Let_def by (simp only: if_False)
qed

text \<open>
  a domain line outside ASCII can make the parser panic instead of returning: the native
  prefixes are compared by slicing the line at byte 5, so any line without commas whose byte 5
  is inside a multi-byte character panics.
\<close>

theorem domain_list_panics_on_multibyte:
  assumes "5 < length (trim raw)" "is_continuation (trim raw ! 5)"
    and "CHR '','' \<notin> set (trim raw)" "\<not> starts_with (trim raw) ''#''"
  shows "parse_domain_list_line idx raw = Panic"
proof -
  have "parse_rule_domain (trim raw) = Ret None"
    using assms(3) by (simp add: parse_rule_domain_def strip_rule_keyword_no_comma)
  moreover have "\<not> line_is_rule_keyword (trim raw) NON_DOMAIN_RULE_KEYWORDS"
    using assms(1-3) by (rule not_rule_keyword)
  moreover have len: "length ''full:'' = 5" by simp
  have "has_ci_prefix (trim raw) ''full:'' = Panic"
    unfolding has_ci_prefix_def str_to_def is_char_boundary_def len using assms(1,2) by simp
  then have "parse_domain_line (trim raw) = Panic"
    by (simp only: parse_domain_line_def domain_line_loop.simps(2) run_bind.simps)
  moreover have "trim raw \<noteq> []" using assms(1) by auto
  ultimately show ?thesis
    using assms(4) by (simp add: parse_domain_list_line_def)
qed

text \<open>The two characters U+4F8B U+5B50 followed by \<^verbatim>\<open>.cn\<close>.\<close>

definition idn_line :: string where
  "idn_line = [CHR 0xE4, CHR 0xBE, CHR 0x8B, CHR 0xE5, CHR 0xAD, CHR 0x90] @ ''.cn''"

theorem domain_list_panics_on_multibyte_witness:
  "trim idn_line = idn_line \<and> is_continuation (idn_line ! 5)
    \<and> parse_domain_list_line 0 idn_line = Panic"
proof -
  have t: "trim idn_line = idn_line" by code_simp
  have h: "5 < length (trim idn_line)" "is_continuation (trim idn_line ! 5)"
      "CHR '','' \<notin> set (trim idn_line)" "\<not> starts_with (trim idn_line) ''#''"
    unfolding t by code_simp+
  show ?thesis using t h domain_list_panics_on_multibyte [OF h, of 0] by simp
qed

subsection \<open>Unknown rule lines\<close>

lemma domain_line_loop_None:
  "domain_line_loop line ps = Ret None \<Longrightarrow> line \<noteq> [] \<Longrightarrow>
    any_ci_prefix line (map fst ps) = Ret True"
proof (induction ps)
  case (Cons p ps)
  obtain q ty where p: "p = (q, ty)" by (cases p)
  from Cons.prems p show ?case
  proof (cases "has_ci_prefix line q")
    case (Ret b)
    then show ?thesis using Cons p by (cases b) simp_all
  qed simp
qed simp

lemma parse_domain_line_None:
  assumes "parse_domain_line line = Ret None" "line \<noteq> []"
  shows "is_native_domain_prefix line = Ret True"
  using domain_line_loop_None [OF assms(1) [unfolded parse_domain_line_def] assms(2)]
  by (simp only: is_native_domain_prefix_def list.map fst_conv)

text \<open>
  the domain-list parser never reports an unrecognised rule line; a rule with an unknown
  keyword is taken as a suffix pattern.
\<close>

theorem domain_list_never_unrecognized:
  "parse_domain_list txt \<noteq> Ret (Inl (UnrecognizedRule n l))"
proof -
  have line: "parse_domain_list_line idx raw \<noteq> Ret (Inl (UnrecognizedRule n l))" for idx raw
    by (auto simp: parse_domain_list_line_def Let_def run_bind_eq_Ret parse_domain_line_None
        split: option.splits if_splits)
  have "list_loop parse_domain_list_line idx raws out \<noteq> Ret (Inl (UnrecognizedRule n l))"
    for idx raws out
    by (induction raws arbitrary: idx out) (auto simp: try_bind_eq_Inl line split: option.splits)
  then show ?thesis by (simp add: parse_domain_list_def)
qed

subsection \<open>Results of a parse\<close>

lemma list_loop_Inr:
  "list_loop f idx raws out = Ret (Inr res) \<Longrightarrow> x \<in> set res \<Longrightarrow>
    x \<in> set out \<or> (\<exists>i raw. raw \<in> set raws \<and> f i raw = Ret (Inr (Some x)))"
proof (induction raws arbitrary: idx out)
  case (Cons raw raws)
  from Cons.prems(1) obtain r where r: "f idx raw = Ret (Inr r)"
      and l: "(case r of None \<Rightarrow> list_loop f (idx + 1) raws out
               | Some x \<Rightarrow> list_loop f (idx + 1) raws (out @ [x])) = Ret (Inr res)"
    unfolding list_loop.simps try_bind_eq_Inr by blast
  show ?case
  proof (cases r)
    case None
    with l Cons.IH [of "idx + 1" out] Cons.prems(2) show ?thesis by auto
  next
    case (Some y)
    with l Cons.IH [of "idx + 1" "out @ [y]"] Cons.prems(2) r show ?thesis by auto
  qed
qed simp

lemma list_loop_Inl:
  "list_loop f idx raws out = Ret (Inl e) \<Longrightarrow>
    \<exists>k < length raws. f (idx + k) (raws ! k) = Ret (Inl e)
      \<and> (\<forall>j < k. \<exists>r. f (idx + j) (raws ! j) = Ret (Inr r))"
proof (induction raws arbitrary: idx out)
  case (Cons raw raws)
  show ?case
  proof (cases "f idx raw = Ret (Inl e)")
    case True
    then show ?thesis by (intro exI [of _ 0]) simp
  next
    case False
    with Cons.prems obtain r where r: "f idx raw = Ret (Inr r)"
        and l: "\<exists>out. list_loop f (idx + 1) raws out = Ret (Inl e)"
      by (auto simp: try_bind_eq_Inl split: option.splits)
    then obtain k where k: "k < length raws" "f (idx + 1 + k) (raws ! k) = Ret (Inl e)"
        "\<forall>j < k. \<exists>r. f (idx + 1 + j) (raws ! j) = Ret (Inr r)"
      using Cons.IH [of "idx + 1"] by blast
    have "\<exists>r. f (idx + j) ((raw # raws) ! j) = Ret (Inr r)" if "j < Suc k" for j
      using that k(3) r by (cases j) auto
    with k(1,2) show ?thesis by (intro exI [of _ "Suc k"]) auto
  qed
qed simp

lemma list_loop_all:
  "list_all2 (\<lambda>raw x. \<forall>i. f i raw = Ret (Inr (Some x))) raws xs \<Longrightarrow>
    list_loop f idx raws out = Ret (Inr (out @ xs))"
  by (induction raws xs arbitrary: idx out rule: list_all2_induct) auto

lemma parse_ip_line_wf: "ipnet_lib_ok lib \<Longrightarrow> parse_ip_line lib s = Some n \<Longrightarrow> net_wf n"
  by (auto simp: parse_ip_line_def ipnet_lib_ok_def ipnet_parse_ok_def ipnet_new_ok_def
      split: option.splits IpAddr.splits)

lemma parse_ip_list_line_Some:
  "parse_ip_list_line lib idx raw = Ret (Inr (Some n)) \<Longrightarrow> \<exists>s. parse_ip_line lib s = Some n"
  by (auto simp: parse_ip_list_line_def Let_def outcome_iffs split: option.splits if_splits)

lemma parse_ip_list_line_error:
  "parse_ip_list_line lib idx raw = Ret (Inl e) \<Longrightarrow> err_line e = idx + 1 \<and> err_value e = trim raw"
  by (auto simp: parse_ip_list_line_def Let_def outcome_iffs ok_or_def split: option.splits if_splits)

text \<open>every network an IP list yields is well formed.\<close>

theorem parse_ip_list_wf:
  assumes "ipnet_lib_ok lib" and "parse_ip_list lib txt = Ret (Inr nets)"
  shows "list_all net_wf nets"
proof -
  have "\<exists>s. parse_ip_line lib s = Some n" if "n \<in> set nets" for n
    using list_loop_Inr [OF assms(2) [unfolded parse_ip_list_def] that] parse_ip_list_line_Some
    by auto
  then show ?thesis using parse_ip_line_wf [OF assms(1)] by (auto simp: list_all_iff)
qed

theorem parse_ip_list_wf_witness:
  "parse_ip_list cidr_lib ''10.0.0.0/8'' = Ret (Inr [NetV4 167772160 8])
    \<and> list_all net_wf [NetV4 167772160 8]"
proof -
  have h: "parse_ip_list cidr_lib ''10.0.0.0/8'' = Ret (Inr [NetV4 167772160 8])" by code_simp
  show ?thesis using h parse_ip_list_wf [OF cidr_lib_ok h] by blast
qed

text \<open>
  an IP-list error names the first offending line by its 1-based number and trimmed text, and
  every line before it parsed.
\<close>

theorem parse_ip_list_error_location:
  assumes "parse_ip_list lib txt = Ret (Inl e)"
  shows "\<exists>k < length (lines txt). err_line e = k + 1 \<and> err_value e = trim (lines txt ! k)
    \<and> (\<forall>j < k. \<exists>r. parse_ip_list_line lib j (lines txt ! j) = Ret (Inr r))"
proof -
  from list_loop_Inl [OF assms [unfolded parse_ip_list_def]] obtain k where
    "k < length (lines txt)" "parse_ip_list_line lib k (lines txt ! k) = Ret (Inl e)"
    "\<forall>j < k. \<exists>r. parse_ip_list_line lib j (lines txt ! j) = Ret (Inr r)" by auto
  with parse_ip_list_line_error show ?thesis by fastforce
qed

theorem parse_ip_list_error_location_witness:
  "parse_ip_list cidr_lib ''x'' = Ret (Inl (InvalidIp 1 ''x''))
    \<and> (\<exists>k < length (lines ''x''). err_line (InvalidIp 1 ''x'') = k + 1)"
proof -
  have h: "parse_ip_list cidr_lib ''x'' = Ret (Inl (InvalidIp 1 ''x''))" by code_simp
  show ?thesis using h parse_ip_list_error_location [OF h] by blast
qed

subsection \<open>Printing a pattern and reading it back\<close>

definition ascii_ws :: "char set" where
  "ascii_ws = {CHR 0x20, CHR 0x09, CHR 0x0A, CHR 0x0B, CHR 0x0C, CHR 0x0D}"

lemma ws_utf8_table:
  "list_all (\<lambda>p. list_all (\<lambda>c. byte_of c < 128) p \<longrightarrow> length p = 1 \<and> hd p \<in> ascii_ws) ws_utf8"
  by code_simp

lemma ws_utf8_ascii: "p \<in> set ws_utf8 \<Longrightarrow> is_ascii p \<Longrightarrow> \<exists>c \<in> ascii_ws. p = [c]"
proof -
  assume "p \<in> set ws_utf8" and "is_ascii p"
  with ws_utf8_table have "length p = 1" and "hd p \<in> ascii_ws"
    unfolding is_ascii_def list_all_iff by blast+
  then show ?thesis by (cases p) auto
qed

lemma is_ascii_prefix: "is_ascii s \<Longrightarrow> prefix p s \<Longrightarrow> is_ascii p"
  unfolding is_ascii_def using set_mono_prefix by blast

lemma ws_utf8_single: "c \<in> ascii_ws \<Longrightarrow> [c] \<in> set ws_utf8 \<and> [c] \<in> set (map rev ws_utf8)"
  by (auto simp: ws_utf8_def ascii_ws_def)

lemma is_ascii_rev [simp]: "is_ascii (rev s) = is_ascii s"
  by (simp add: is_ascii_def)

lemma headless_ws_ascii:
  assumes "is_ascii s"
  shows "headless ws_utf8 s \<longleftrightarrow> s = [] \<or> hd s \<notin> ascii_ws"
    and "headless (map rev ws_utf8) s \<longleftrightarrow> s = [] \<or> hd s \<notin> ascii_ws"
proof -
  have one: "prefix p s \<Longrightarrow> p \<in> set ws_utf8 \<union> set (map rev ws_utf8) \<Longrightarrow>
      s \<noteq> [] \<and> hd s \<in> ascii_ws" for p
  proof -
    assume p: "prefix p s" and "p \<in> set ws_utf8 \<union> set (map rev ws_utf8)"
    then obtain q where q: "q \<in> set ws_utf8" "p = q \<or> p = rev q" by auto
    with is_ascii_prefix [OF assms p] have "is_ascii q" by auto
    from ws_utf8_ascii [OF q(1) this] q(2) obtain c where "c \<in> ascii_ws" "p = [c]" by auto
    with p show ?thesis by (cases s) auto
  qed
  have two: "s \<noteq> [] \<Longrightarrow> hd s \<in> ascii_ws \<Longrightarrow> \<exists>p. prefix p s \<and> p \<noteq> [] \<and> p \<in> set ws_utf8 \<and> p \<in> set (map rev ws_utf8)"
    using ws_utf8_single [of "hd s"] by (intro exI [of _ "[hd s]"]) (cases s; simp)
  show "headless ws_utf8 s \<longleftrightarrow> s = [] \<or> hd s \<notin> ascii_ws"
    unfolding headless_def using one two by blast
  show "headless (map rev ws_utf8) s \<longleftrightarrow> s = [] \<or> hd s \<notin> ascii_ws"
    unfolding headless_def using one two by blast
qed

lemma trim_ascii_fixed:
  assumes "is_ascii s" "s \<noteq> []"
  shows "trim s = s \<longleftrightarrow> hd s \<notin> ascii_ws \<and> last s \<notin> ascii_ws"
proof
  assume t: "trim s = s"
  have "headless ws_utf8 s"
    using trim_start_trim [of s] t headless_strip_heads [of ws_utf8 s] by (simp add: trim_start_def)
  moreover have "headless (map rev ws_utf8) (rev s)"
    using t headless_strip_heads [of "map rev ws_utf8" "rev (trim_start s)"]
    by (metis trim_def trim_end_def rev_rev_ident)
  ultimately show "hd s \<notin> ascii_ws \<and> last s \<notin> ascii_ws"
    using assms headless_ws_ascii [of s] headless_ws_ascii [of "rev s"] by (simp add: hd_rev)
next
  assume "hd s \<notin> ascii_ws \<and> last s \<notin> ascii_ws"
  then have "headless ws_utf8 s" and "headless (map rev ws_utf8) (rev s)"
    using assms headless_ws_ascii [of s] headless_ws_ascii [of "rev s"] by (simp_all add: hd_rev)
  then show "trim s = s"
    by (simp add: trim_def trim_start_def trim_end_def strip_heads_headless)
qed

lemma ws_heads:
  "list_all (\<lambda>p. p \<noteq> [] \<and> (byte_of (hd p) < 128 \<longrightarrow> length p = 1)) ws_utf8"
  "list_all (\<lambda>p. p \<noteq> [] \<and> (byte_of (hd p) < 128 \<longrightarrow> length p = 1)) (map rev ws_utf8)"
  by code_simp+

lemma strip_heads_ws:
  assumes "c \<in> ascii_ws" "ps = ws_utf8 \<or> ps = map rev ws_utf8"
  shows "strip_heads ps (c # s) = strip_heads ps s"
proof -
  have mem: "[c] \<in> set ps" using ws_utf8_single [OF assms(1)] assms(2) by auto
  have "byte_of c < 128" using assms(1) by (auto simp: ascii_ws_def byte_of_def)
  moreover have "list_all (\<lambda>p. p \<noteq> [] \<and> (byte_of (hd p) < 128 \<longrightarrow> length p = 1)) ps"
    using ws_heads assms(2) by auto
  ultimately have one: "p = [c]" if "p \<in> set ps" "prefix p (c # s)" for p
    using that by (cases p) (auto simp: list_all_iff)
  have "find (\<lambda>p. p \<noteq> [] \<and> prefix p (c # s)) ps = Some [c]"
  proof (cases "find (\<lambda>p. p \<noteq> [] \<and> prefix p (c # s)) ps")
    case None
    with mem show ?thesis by (auto simp: find_None_iff)
  next
    case (Some p)
    then have "p \<in> set ps" "prefix p (c # s)" by (auto simp: find_Some_iff)
    with one Some show ?thesis by simp
  qed
  then show ?thesis by (subst strip_heads.simps) simp
qed

lemma strip_heads_all_ws:
  "set a \<subseteq> ascii_ws \<Longrightarrow> ps = ws_utf8 \<or> ps = map rev ws_utf8 \<Longrightarrow> strip_heads ps (a @ s) = strip_heads ps s"
  by (induction a) (auto simp: strip_heads_ws)

text \<open>Surrounding white space is removed from text that neither starts nor ends with it.\<close>

lemma trim_pad:
  assumes "is_ascii s" "s \<noteq> []" "hd s \<notin> ascii_ws" "last s \<notin> ascii_ws" "set a \<subseteq> ascii_ws" "set b \<subseteq> ascii_ws"
  shows "trim (a @ s @ b) = s"
proof -
  have asc: "byte_of c < 128" if "c \<in> ascii_ws" for c using that by (auto simp: ascii_ws_def byte_of_def)
  have "is_ascii (s @ b)" using assms(1,6) asc by (auto simp: is_ascii_def)
  then have "headless ws_utf8 (s @ b)" using headless_ws_ascii(1) assms(2,3) by simp
  then have 1: "trim_start (a @ s @ b) = s @ b"
    unfolding trim_start_def using strip_heads_all_ws [OF assms(5), of ws_utf8 "s @ b"]
    by (simp add: strip_heads_headless)
  have "headless (map rev ws_utf8) (rev s)"
    using headless_ws_ascii(2) [of "rev s"] assms(1,2,4) by (simp add: hd_rev)
  then have "strip_heads (map rev ws_utf8) (rev b @ rev s) = rev s"
    using strip_heads_all_ws [of "rev b" "map rev ws_utf8" "rev s"] assms(6)
    by (simp add: strip_heads_headless)
  with 1 show ?thesis by (simp add: trim_def trim_end_def)
qed

lemma prefix_comma_colon:
  assumes "prefix (a @ [CHR '','']) (kw @ CHR '':'' # w)" "CHR '':'' \<notin> set a" "CHR '','' \<notin> set kw"
  shows False
  using assms(1) unfolding prefix_append
proof
  assume "prefix (a @ [CHR '','']) kw"
  with assms(3) show False using set_mono_prefix by fastforce
next
  assume "\<exists>us. a @ [CHR '',''] = kw @ us \<and> prefix us (CHR '':'' # w)"
  then obtain us where us: "a @ [CHR '',''] = kw @ us" "prefix us (CHR '':'' # w)" by blast
  show False
  proof (cases us)
    case Nil
    with us assms(3) show False by (metis append_Nil2 in_set_conv_decomp)
  next
    case (Cons u us')
    with us have "CHR '':'' \<in> set (a @ [CHR '',''])" by simp
    with assms(2) show False by simp
  qed
qed

lemma prefix_colon:
  assumes "CHR '':'' \<notin> set a" "CHR '':'' \<notin> set kw"
  shows "prefix (a @ '':'') (kw @ CHR '':'' # w) \<longleftrightarrow> a = kw"
  using assms
proof (induction a arbitrary: kw)
  case Nil
  then show ?case by (cases kw) auto
next
  case (Cons x a)
  then show ?case by (cases kw) auto
qed


lemma lowercase_append [simp]:
  "to_ascii_lowercase (a @ b) = to_ascii_lowercase a @ to_ascii_lowercase b"
  by (simp add: to_ascii_lowercase_def)

lemma has_ci_prefix_ascii:
  assumes "is_ascii line"
  shows "has_ci_prefix line p = Ret (prefix (to_ascii_lowercase p) (to_ascii_lowercase line))"
proof (cases "length p \<le> length line")
  case True
  then have "take (length p) (to_ascii_lowercase line) = to_ascii_lowercase (take (length p) line)"
    by (simp add: to_ascii_lowercase_def take_map)
  moreover have "prefix (to_ascii_lowercase p) (to_ascii_lowercase line) \<longleftrightarrow>
      take (length p) (to_ascii_lowercase line) = to_ascii_lowercase p"
    by (metis append_eq_conv_conj length_map prefix_def to_ascii_lowercase_def)
  ultimately show ?thesis using True assms
    by (simp add: has_ci_prefix_def str_to_def is_ascii_boundary eq_ignore_ascii_case_def)
next
  case False
  then have "\<not> prefix (to_ascii_lowercase p) (to_ascii_lowercase line)"
    by (auto simp: to_ascii_lowercase_def dest: prefix_length_le)
  with False show ?thesis by (simp add: has_ci_prefix_def)
qed

lemma ascii_lower_comma: "ascii_lower (CHR '','') = CHR '',''" "ascii_lower (CHR '':'') = CHR '':''"
  by code_simp+

lemma strip_rule_keyword_None:
  assumes "is_ascii line"
    and "\<not> prefix (to_ascii_lowercase k @ '','') (to_ascii_lowercase line)"
  shows "strip_rule_keyword line k = Ret None"
proof -
  have "\<not> eq_ignore_ascii_case (take (length k) line) k"
    if l: "length k < length line" "line ! length k = CHR '',''"
  proof
    assume e: "eq_ignore_ascii_case (take (length k) line) k"
    have "line = take (length k) line @ CHR '','' # drop (Suc (length k)) line"
      using l id_take_nth_drop by metis
    then have "to_ascii_lowercase line = to_ascii_lowercase (take (length k) line)
        @ '','' @ to_ascii_lowercase (drop (Suc (length k)) line)"
      by (metis append_Cons append_Nil ascii_lower_comma(1) list.simps(9) lowercase_append
          to_ascii_lowercase_def)
    with e assms(2) show False by (simp add: eq_ignore_ascii_case_def)
  qed
  with assms(1) show ?thesis
    by (auto simp: strip_rule_keyword_def Let_def str_to_def is_ascii_boundary)
qed

definition pattern_key :: "DomainPatternType \<Rightarrow> string" where
  "pattern_key ty =
     (case ty of Suffix \<Rightarrow> ''suffix'' | Full \<Rightarrow> ''full'' | Regex \<Rightarrow> ''regex''
               | Domain_t \<Rightarrow> ''domain'' | Keyword \<Rightarrow> ''keyword'')"

lemma to_string_key: "domain_pattern_to_string p = pattern_key (pattern_type p) @ CHR '':'' # pattern_value p"
  by (simp add: domain_pattern_to_string_def pattern_key_def split: DomainPatternType.splits)


definition key_ok :: "string \<Rightarrow> bool" where
  "key_ok k \<longleftrightarrow> k \<noteq> [] \<and> hd k \<noteq> CHR ''#'' \<and> hd k \<notin> ascii_ws
     \<and> list_all (\<lambda>c. c \<noteq> CHR '':'' \<and> c \<noteq> CHR '','' \<and> c \<noteq> CHR 0x0A \<and> byte_of c < 128 \<and> ascii_lower c = c) k"

lemma key_ok_table: "list_all key_ok [''suffix'', ''full'', ''regex'', ''domain'', ''keyword'']"
  by code_simp

lemma pattern_key_ok: "key_ok (pattern_key ty)"
  using key_ok_table by (simp add: pattern_key_def split: DomainPatternType.splits)

lemma pattern_key_props:
  "CHR '':'' \<notin> set (pattern_key ty)" "CHR '','' \<notin> set (pattern_key ty)"
  "is_ascii (pattern_key ty)" "to_ascii_lowercase (pattern_key ty) = pattern_key ty"
  "pattern_key ty \<noteq> []" "hd (pattern_key ty) \<notin> ascii_ws" "hd (pattern_key ty) \<noteq> CHR ''#''"
  "CHR 0x0A \<notin> set (pattern_key ty)"
  using pattern_key_ok [of ty]
  by (auto simp: key_ok_def list_all_iff is_ascii_def to_ascii_lowercase_def map_idI)

text \<open>A pattern in the form the list format can carry: non-empty, trimmed, ASCII, on one line.\<close>

definition canonical_pattern :: "DomainPattern \<Rightarrow> bool" where
  "canonical_pattern p \<longleftrightarrow>
     pattern_value p \<noteq> [] \<and> is_ascii (pattern_value p) \<and> trim (pattern_value p) = pattern_value p
       \<and> CHR 0x0A \<notin> set (pattern_value p)"

lemma to_string_lowercase:
  "to_ascii_lowercase (domain_pattern_to_string p)
     = pattern_key (pattern_type p) @ CHR '':'' # to_ascii_lowercase (pattern_value p)"
  using pattern_key_props(4) [of "pattern_type p"]
  by (simp add: to_string_key) (simp add: to_ascii_lowercase_def ascii_lower_comma)

lemma to_string_ascii: "canonical_pattern p \<Longrightarrow> is_ascii (domain_pattern_to_string p)"
  using pattern_key_props(3) [of "pattern_type p"]
  by (auto simp: to_string_key canonical_pattern_def is_ascii_def)

lemma to_string_trim:
  assumes "canonical_pattern p"
  shows "trim (domain_pattern_to_string p) = domain_pattern_to_string p"
    and "last (domain_pattern_to_string p) \<notin> ascii_ws"
proof -
  let ?v = "pattern_value p"
  from assms have "last ?v \<notin> ascii_ws" and v: "?v \<noteq> []"
    using trim_ascii_fixed [of ?v] by (auto simp: canonical_pattern_def)
  then show l: "last (domain_pattern_to_string p) \<notin> ascii_ws" by (simp add: to_string_key)
  show "trim (domain_pattern_to_string p) = domain_pattern_to_string p"
    using trim_ascii_fixed [OF to_string_ascii [OF assms]] l pattern_key_props(5,6) [of "pattern_type p"]
    by (simp add: to_string_key)
qed


lemma rule_domain_loop_None:
  assumes "is_ascii line"
    and "list_all (\<lambda>(k, _). \<not> prefix (to_ascii_lowercase k @ '','') (to_ascii_lowercase line)) kws"
  shows "rule_domain_loop line kws = Ret None"
  using assms(2)
  by (induction kws) (auto simp: strip_rule_keyword_None [OF assms(1)])

lemma domain_line_loop_key:
  assumes "canonical_pattern p" "(pattern_key (pattern_type p) @ '':'', pattern_type p) \<in> set kws"
    and "list_all (\<lambda>(k, ty). k = pattern_key ty @ '':'') kws"
  shows "domain_line_loop (domain_pattern_to_string p) kws = Ret (Some p)"
  using assms(2,3)
proof (induction kws)
  case (Cons a kws)
  obtain ty where a: "a = (pattern_key ty @ '':'', ty)" using Cons.prems(2) by auto
  have inj: "pattern_key ty = pattern_key (pattern_type p) \<longleftrightarrow> ty = pattern_type p"
    by (simp add: pattern_key_def split: DomainPatternType.splits)
  have "to_ascii_lowercase (pattern_key ty @ '':'') = pattern_key ty @ '':''"
    by (simp add: pattern_key_props(4)) (simp add: to_ascii_lowercase_def ascii_lower_comma)
  then have h: "has_ci_prefix (domain_pattern_to_string p) (pattern_key ty @ '':'') = Ret (ty = pattern_type p)"
    unfolding has_ci_prefix_ascii [OF to_string_ascii [OF assms(1)]] to_string_lowercase
    using prefix_colon [OF pattern_key_props(1) pattern_key_props(1)] inj by simp
  show ?case
  proof (cases "ty = pattern_type p")
    case True
    have "str_from (domain_pattern_to_string p) (length (pattern_key ty @ '':'')) = Ret (pattern_value p)"
      using True is_ascii_boundary [OF to_string_ascii [OF assms(1)], of "length (pattern_key ty @ '':'')"]
      by (simp add: str_from_def to_string_key)
    with True h assms(1) show ?thesis unfolding a domain_line_loop.simps
      by (simp add: canonical_pattern_def Let_def)
  next
    case False
    with h Cons show ?thesis unfolding a domain_line_loop.simps by (auto simp: inj)
  qed
qed simp

lemma not_keyword_prefix:
  assumes "CHR '':'' \<notin> set k"
  shows "\<not> prefix (k @ '','') (to_ascii_lowercase (domain_pattern_to_string p))"
  unfolding to_string_lowercase
  using prefix_comma_colon [OF _ assms pattern_key_props(2)] by blast

lemma no_colon_keywords:
  "list_all (\<lambda>k. CHR '':'' \<notin> set k) (map to_ascii_lowercase
     [''DOMAIN-SUFFIX'', ''DOMAIN-KEYWORD'', ''DOMAIN-REGEX'', ''DOMAIN''] @ NON_DOMAIN_RULE_PREFIXES)"
  by code_simp

lemma parse_rule_domain_to_string:
  assumes "canonical_pattern p"
  shows "parse_rule_domain (domain_pattern_to_string p) = Ret None"
  unfolding parse_rule_domain_def
  by (rule rule_domain_loop_None [OF to_string_ascii [OF assms]])
    (use no_colon_keywords in \<open>simp only: list.pred_inject list_all_append list.map
        prod.case not_keyword_prefix simp_thms\<close>)

lemma not_rule_keyword_to_string:
  "\<not> line_is_rule_keyword (domain_pattern_to_string p) NON_DOMAIN_RULE_KEYWORDS"
proof -
  have n: "CHR '':'' \<notin> set k" if "k \<in> set NON_DOMAIN_RULE_PREFIXES" for k
    using no_colon_keywords that by (auto simp: list_all_iff)
  have "CHR '':'' \<in> set (to_ascii_lowercase (domain_pattern_to_string p))"
    by (simp add: to_string_lowercase)
  with n not_keyword_prefix show ?thesis
    by (auto simp: line_is_rule_keyword_def Let_def NON_DOMAIN_RULE_KEYWORDS_def
        RuleKeywordSet_new_def list_ex_iff starts_with_def)
qed

lemma parse_domain_list_line_to_string:
  assumes "canonical_pattern p"
  shows "parse_domain_list_line idx (domain_pattern_to_string p) = Ret (Inr (Some p))"
proof -
  have "parse_domain_line (domain_pattern_to_string p) = Ret (Some p)"
    unfolding parse_domain_line_def
    by (rule domain_line_loop_key [OF assms]) (cases "pattern_type p"; simp add: pattern_key_def)+
  moreover have "domain_pattern_to_string p \<noteq> []" by (simp add: to_string_key)
  moreover have "\<not> starts_with (domain_pattern_to_string p) ''#''"
    using pattern_key_props(5,7) [of "pattern_type p"]
    by (cases "pattern_key (pattern_type p)") (auto simp: to_string_key starts_with_def)
  ultimately show ?thesis
    using to_string_trim(1) [OF assms] parse_rule_domain_to_string [OF assms]
      not_rule_keyword_to_string [of p]
    by (simp add: parse_domain_list_line_def)
qed

lemma lines_Cons:
  assumes "CHR 0x0A \<notin> set l" "l = [] \<or> last l \<noteq> CHR 0x0D"
  shows "lines (l @ CHR 0x0A # rest) = l # lines rest"
proof -
  have "strip_cr l = l"
    using assms(2) by (auto simp: strip_cr_def strip_suffix_def suffix_def)
  with assms(1) show ?thesis
    by (simp add: lines_def Let_def split_char_append_sep)
qed

definition print_domain_list :: "DomainPattern list \<Rightarrow> string" where
  "print_domain_list ps = concat (map (\<lambda>p. domain_pattern_to_string p @ [CHR 0x0A]) ps)"

lemma lines_print: "list_all canonical_pattern ps \<Longrightarrow>
    lines (print_domain_list ps) = map domain_pattern_to_string ps"
proof (induction ps)
  case Nil
  then show ?case by (simp add: print_domain_list_def lines_def)
next
  case (Cons p ps)
  have "CHR 0x0A \<notin> set (domain_pattern_to_string p)"
    using Cons.prems pattern_key_props(8) by (simp add: to_string_key canonical_pattern_def)
  moreover have "last (domain_pattern_to_string p) \<noteq> CHR 0x0D"
    using to_string_trim(2) [of p] Cons.prems by (auto simp: ascii_ws_def)
  ultimately show ?case
    using Cons by (simp add: print_domain_list_def lines_Cons)
qed

text \<open>
  C21: a domain list written one pattern per line in the keyed form of
  \<^verbatim>\<open>domain_pattern_to_string\<close> reads back as the same patterns in the same order, for patterns whose
  values are non-empty trimmed ASCII text on one line.
\<close>

theorem domain_list_roundtrip:
  assumes "list_all canonical_pattern ps"
  shows "parse_domain_list (print_domain_list ps) = Ret (Inr ps)"
proof -
  have "list_all2 (\<lambda>raw p. \<forall>i. parse_domain_list_line i raw = Ret (Inr (Some p)))
      (map domain_pattern_to_string ps) ps"
    using assms parse_domain_list_line_to_string
    by (auto simp: list_all2_conv_all_nth list_all_length)
  from list_loop_all [OF this, of 0 "[]"] show ?thesis
    by (simp add: parse_domain_list_def lines_print [OF assms])
qed

theorem domain_list_roundtrip_witness:
  "parse_domain_list (print_domain_list [\<lparr>pattern_type = Keyword, pattern_value = ''ad,s''\<rparr>])
    = Ret (Inr [\<lparr>pattern_type = Keyword, pattern_value = ''ad,s''\<rparr>])"
proof -
  have "list_all canonical_pattern [\<lparr>pattern_type = Keyword, pattern_value = ''ad,s''\<rparr>]"
    by code_simp
  then show ?thesis by (rule domain_list_roundtrip)
qed

end
