(* ===== verification/Compiled_Ip.thy ===== *)
theory Compiled_Ip
  imports Rule_List
begin

text \<open>
  Compiled IP sets, the first half of \<^verbatim>\<open>control/src/ruleset/compiled.rs\<close>: a CIDR list becomes
  sorted disjoint address ranges searched by bisection.  \<open>checks\<close> says whether the build has
  overflow checks; the ipnet package is the parameter \<open>lib\<close>.
\<close>

section \<open>Compiled IP sets\<close>

record CompiledIpSet =
  set_v4 :: "(u32 \<times> u32) list"
  set_v6 :: "(u128 \<times> u128) list"

definition ipv4_range_end :: "bool \<Rightarrow> ipnet_lib \<Rightarrow> u32 \<Rightarrow> nat \<Rightarrow> u32 run" where
  "ipv4_range_end checks lib a p =
     run_bind (sub_u8 checks 32 p) (\<lambda>host_bits.
       if host_bits = 0 then Ret (ipv4_network lib a p)
       else run_bind (shl checks 1 host_bits) (\<lambda>m. Ret (ipv4_network lib a p + (m - 1))))"

definition ipv6_range_end :: "bool \<Rightarrow> ipnet_lib \<Rightarrow> u128 \<Rightarrow> nat \<Rightarrow> u128 run" where
  "ipv6_range_end checks lib a p =
     run_bind (sub_u8 checks 128 p) (\<lambda>host_bits.
       if host_bits = 0 then Ret (ipv6_network lib a p)
       else run_bind (shl checks 1 host_bits) (\<lambda>m. Ret (ipv6_network lib a p + (m - 1))))"

text \<open>The merging loop over the sorted ranges; \<open>out\<close> is the vector built so far.\<close>

fun merge_loop :: "('a::linorder \<times> 'a) list \<Rightarrow> ('a \<times> 'a) list \<Rightarrow> ('a \<times> 'a) list" where
  "merge_loop out [] = out"
| "merge_loop out ((s, e) # rs) =
     (if out \<noteq> [] \<and> s \<le> snd (last out)
      then (if e > snd (last out) then merge_loop (butlast out @ [(fst (last out), e)]) rs
            else merge_loop out rs)
      else merge_loop (out @ [(s, e)]) rs)"

definition merge_ranges :: "('a::linorder \<times> 'a) list \<Rightarrow> ('a \<times> 'a) list" where
  "merge_ranges ranges = merge_loop [] (sort_key fst ranges)"

text \<open>The loop finding the number of ranges that start at or below \<open>ip\<close>.\<close>

function start_search :: "('a::linorder \<times> 'a) list \<Rightarrow> 'a \<Rightarrow> nat \<Rightarrow> nat \<Rightarrow> nat run" where
  "start_search ranges ip lo hi =
     (if lo < hi then
        (let mid = (lo + hi) div 2
         in run_bind (index_get ranges mid) (\<lambda>r.
              if fst r \<le> ip then start_search ranges ip (mid + 1) hi
              else start_search ranges ip lo mid))
      else Ret lo)"
  by pat_completeness auto
termination by (relation "measure (\<lambda>(ranges, ip, lo, hi). hi - lo)") auto

declare start_search.simps [simp del]

definition contains_in_ranges :: "('a::linorder \<times> 'a) list \<Rightarrow> 'a \<Rightarrow> bool run" where
  "contains_in_ranges ranges ip =
     (if ranges = [] then Ret False
      else run_bind (start_search ranges ip 0 (length ranges)) (\<lambda>lo.
        if lo > 0 then run_bind (index_get ranges (lo - 1)) (\<lambda>r. Ret (snd r \<ge> ip))
        else Ret False))"

fun compile_ranges ::
    "bool \<Rightarrow> ipnet_lib \<Rightarrow> IpNet list \<Rightarrow> (u32 \<times> u32) list \<Rightarrow> (u128 \<times> u128) list
      \<Rightarrow> ((u32 \<times> u32) list \<times> (u128 \<times> u128) list) run" where
  "compile_ranges checks lib [] v4 v6 = Ret (v4, v6)"
| "compile_ranges checks lib (NetV4 a p # nets) v4 v6 =
     run_bind (ipv4_range_end checks lib a p) (\<lambda>e.
       compile_ranges checks lib nets (v4 @ [(ipv4_network lib a p, e)]) v6)"
| "compile_ranges checks lib (NetV6 a p # nets) v4 v6 =
     run_bind (ipv6_range_end checks lib a p) (\<lambda>e.
       compile_ranges checks lib nets v4 (v6 @ [(ipv6_network lib a p, e)]))"

definition CompiledIpSet_compile :: "bool \<Rightarrow> ipnet_lib \<Rightarrow> IpNet list \<Rightarrow> CompiledIpSet run" where
  "CompiledIpSet_compile checks lib nets =
     run_bind (compile_ranges checks lib nets [] []) (\<lambda>(v4, v6).
       Ret \<lparr>set_v4 = merge_ranges v4, set_v6 = merge_ranges v6\<rparr>)"

definition CompiledIpSet_contains :: "CompiledIpSet \<Rightarrow> IpAddr \<Rightarrow> bool run" where
  "CompiledIpSet_contains cs ip =
     (case ip of IpV4 a \<Rightarrow> contains_in_ranges (set_v4 cs) a
               | IpV6 a \<Rightarrow> contains_in_ranges (set_v6 cs) a)"

subsection \<open>Merged ranges\<close>

definition range_mem :: "'a::linorder \<Rightarrow> 'a \<times> 'a \<Rightarrow> bool" where
  "range_mem x r \<longleftrightarrow> fst r \<le> x \<and> x \<le> snd r"

definition ranges_mem :: "'a::linorder \<Rightarrow> ('a \<times> 'a) list \<Rightarrow> bool" where
  "ranges_mem x rs \<longleftrightarrow> (\<exists>r \<in> set rs. range_mem x r)"

lemma ranges_mem_simps [simp]:
  "\<not> ranges_mem x []" "ranges_mem x (r # rs) \<longleftrightarrow> range_mem x r \<or> ranges_mem x rs"
  "ranges_mem x (rs @ rs') \<longleftrightarrow> ranges_mem x rs \<or> ranges_mem x rs'"
  by (auto simp: ranges_mem_def)

definition ranges_wf :: "('a::linorder \<times> 'a) list \<Rightarrow> bool" where
  "ranges_wf rs \<longleftrightarrow> sorted_wrt (\<lambda>r r'. snd r < fst r') rs \<and> (\<forall>r \<in> set rs. fst r \<le> snd r)"

lemma ranges_wf_snoc:
  "ranges_wf (rs @ [r]) \<longleftrightarrow>
     ranges_wf rs \<and> (\<forall>r' \<in> set rs. snd r' < fst r) \<and> fst r \<le> snd r"
  by (auto simp: ranges_wf_def sorted_wrt_append)

lemma ranges_wf_last: "ranges_wf rs \<Longrightarrow> r \<in> set rs \<Longrightarrow> snd r \<le> snd (last rs)"
proof (induction rs rule: rev_induct)
  case (snoc x xs)
  then show ?case by (fastforce simp: ranges_wf_snoc)
qed simp

lemma merge_loop_spec:
  assumes "ranges_wf out" "sorted (map fst rs)" "\<forall>r \<in> set rs. fst r \<le> snd r"
    and "out \<noteq> [] \<longrightarrow> (\<forall>r \<in> set rs. fst (last out) \<le> fst r)"
  shows "ranges_wf (merge_loop out rs) \<and>
    (\<forall>x. ranges_mem x (merge_loop out rs) \<longleftrightarrow> ranges_mem x out \<or> ranges_mem x rs)"
  using assms
proof (induction out rs rule: merge_loop.induct)
  case (2 out s e rs)
  have rest: "sorted (map fst rs)" "\<forall>r \<in> set rs. fst r \<le> snd r" "\<forall>r \<in> set rs. s \<le> fst r"
    and se: "s \<le> e" using "2.prems" by auto
  consider (new) "out = [] \<or> \<not> s \<le> snd (last out)" | (grow) "out \<noteq> []" "s \<le> snd (last out)" "e > snd (last out)"
    | (skip) "out \<noteq> []" "s \<le> snd (last out)" "\<not> e > snd (last out)" by blast
  then show ?case
  proof cases
    case new
    have "snd r < s" if "r \<in> set out" for r
      using ranges_wf_last [OF "2.prems"(1) that] new that by auto
    then have "ranges_wf (out @ [(s, e)])"
      using "2.prems"(1) se by (simp add: ranges_wf_snoc)
    with "2.IH"(3) new rest show ?thesis by auto
  next
    case skip
    have "fst (last out) \<le> s" using "2.prems"(4) skip by auto
    then have "range_mem x (s, e) \<Longrightarrow> range_mem x (last out)" for x
      using skip by (auto simp: range_mem_def)
    moreover have "last out \<in> set out" using skip by simp
    ultimately have absorb: "range_mem x (s, e) \<Longrightarrow> ranges_mem x out" for x
      by (auto simp: ranges_mem_def)
    have eq: "merge_loop out ((s, e) # rs) = merge_loop out rs" using skip by simp
    have "out \<noteq> [] \<longrightarrow> (\<forall>r \<in> set rs. fst (last out) \<le> fst r)" using "2.prems"(4) by simp
    from "2.IH"(2) [OF _ skip(3) "2.prems"(1) rest(1,2) this] skip absorb show ?thesis
      unfolding eq by auto
  next
    case grow
    obtain ini a b where out: "out = ini @ [(a, b)]"
      using grow(1) by (metis append_butlast_last_id prod.exhaust)
    have a: "a \<le> s" using "2.prems"(4) out by auto
    have w: "ranges_wf (ini @ [(a, e)])"
      using "2.prems"(1) a se unfolding out by (auto simp: ranges_wf_snoc)
    have mem: "range_mem x (a, e) \<longleftrightarrow> range_mem x (a, b) \<or> range_mem x (s, e)" for x
      using a grow(2,3) out by (auto simp: range_mem_def)
    have eq: "merge_loop out ((s, e) # rs) = merge_loop (ini @ [(a, e)]) rs"
      using grow out by simp
    have ar: "\<forall>r \<in> set rs. a \<le> fst r" using rest(3) a by auto
    have ih: "ranges_wf (merge_loop (ini @ [(a, e)]) rs) \<and>
        (\<forall>x. ranges_mem x (merge_loop (ini @ [(a, e)]) rs) \<longleftrightarrow>
          ranges_mem x (ini @ [(a, e)]) \<or> ranges_mem x rs)"
      using "2.IH"(1) [OF _ grow(3)] grow w rest(1,2) ar unfolding out by auto
    show ?thesis unfolding eq using ih mem by (auto simp: out)
  qed
qed auto


lemma start_search_spec:
  assumes "lo \<le> hi" "hi \<le> length ranges" "sorted (map fst ranges)"
    and "\<forall>i < lo. fst (ranges ! i) \<le> ip" "\<forall>i < length ranges. hi \<le> i \<longrightarrow> ip < fst (ranges ! i)"
  shows "\<exists>k \<le> length ranges. start_search ranges ip lo hi = Ret k \<and>
    (\<forall>i < k. fst (ranges ! i) \<le> ip) \<and> (\<forall>i < length ranges. k \<le> i \<longrightarrow> ip < fst (ranges ! i))"
  using assms
proof (induction ranges ip lo hi rule: start_search.induct)
  case (1 ranges ip lo hi)
  show ?case
  proof (cases "lo < hi")
    case False
    with "1.prems" show ?thesis by (subst start_search.simps) (auto intro!: exI [of _ lo])
  next
    case True
    let ?mid = "(lo + hi) div 2"
    have mid: "?mid < length ranges" "lo \<le> ?mid" "?mid < hi" using True "1.prems"(2) by auto
    have mono: "i \<le> j \<Longrightarrow> j < length ranges \<Longrightarrow> fst (ranges ! i) \<le> fst (ranges ! j)" for i j
      using sorted_nth_mono [OF "1.prems"(3), of i j] by simp
    show ?thesis
    proof (cases "fst (ranges ! ?mid) \<le> ip")
      case le: True
      have "\<forall>i < ?mid + 1. fst (ranges ! i) \<le> ip"
        using mono [of _ ?mid] mid(1) le order_trans by (metis Suc_eq_plus1 less_Suc_eq_le)
      with "1.IH"(1) [OF True refl index_get_Ret [OF mid(1)] le] mid le True "1.prems" show ?thesis
        by (subst start_search.simps) (simp add: Let_def)
    next
      case gt: False
      have "\<forall>i < length ranges. ?mid \<le> i \<longrightarrow> ip < fst (ranges ! i)"
        using mono [of ?mid] gt by (metis leD leI order_trans)
      with "1.IH"(2) [OF True refl index_get_Ret [OF mid(1)] gt] mid gt True "1.prems" show ?thesis
        by (subst start_search.simps) (simp add: Let_def)
    qed
  qed
qed

lemma contains_in_ranges_iff:
  assumes "ranges_wf ranges"
  shows "contains_in_ranges ranges ip = Ret (ranges_mem ip ranges)"
proof -
  have nth: "i < j \<Longrightarrow> j < length ranges \<Longrightarrow> snd (ranges ! i) < fst (ranges ! j)" for i j
    using assms by (auto simp: ranges_wf_def sorted_wrt_iff_nth_less)
  have wf: "i < length ranges \<Longrightarrow> fst (ranges ! i) \<le> snd (ranges ! i)" for i
    using assms by (auto simp: ranges_wf_def)
  have "fst (ranges ! i) \<le> fst (ranges ! j)" if "i \<le> j" "j < length ranges" for i j
    using nth [of i j] wf [of i] that by (cases "i = j") auto
  then have srt: "sorted (map fst ranges)" by (auto simp: sorted_iff_nth_mono)
  obtain k where k: "k \<le> length ranges" "start_search ranges ip 0 (length ranges) = Ret k"
      "\<forall>i < k. fst (ranges ! i) \<le> ip" "\<forall>i < length ranges. k \<le> i \<longrightarrow> ip < fst (ranges ! i)"
    using start_search_spec [of 0 "length ranges" ranges ip] srt by auto
  have "ranges_mem ip ranges \<longleftrightarrow> 0 < k \<and> ip \<le> snd (ranges ! (k - 1))"
  proof
    assume "ranges_mem ip ranges"
    then obtain i where i: "i < length ranges" "fst (ranges ! i) \<le> ip" "ip \<le> snd (ranges ! i)"
      by (auto simp: ranges_mem_def range_mem_def in_set_conv_nth)
    with k(4) have "i < k" by (meson leD leI)
    moreover have "i = k - 1"
    proof (rule ccontr)
      assume "i \<noteq> k - 1"
      with \<open>i < k\<close> k(1) nth [of i "k - 1"] have "snd (ranges ! i) < fst (ranges ! (k - 1))" by auto
      moreover have "fst (ranges ! (k - 1)) \<le> ip" using k(3) \<open>i < k\<close> by auto
      ultimately show False using i(3) by auto
    qed
    ultimately show "0 < k \<and> ip \<le> snd (ranges ! (k - 1))" using i by auto
  next
    assume a: "0 < k \<and> ip \<le> snd (ranges ! (k - 1))"
    with k(1,3) have "range_mem ip (ranges ! (k - 1))" "ranges ! (k - 1) \<in> set ranges"
      by (auto simp: range_mem_def)
    then show "ranges_mem ip ranges" by (auto simp: ranges_mem_def)
  qed
  with k show ?thesis by (auto simp: contains_in_ranges_def)
qed

text \<open>Any arrangement of the ranges sorted by start gives a set with the same members.\<close>

lemma merge_any_order:
  assumes "set ys = set rs" "sorted (map fst ys)" "\<forall>r \<in> set rs. fst r \<le> snd r"
  shows "contains_in_ranges (merge_loop [] ys) ip = Ret (ranges_mem ip rs)"
proof -
  have "ranges_mem ip ys = ranges_mem ip rs" using assms(1) by (simp add: ranges_mem_def)
  moreover have "ranges_wf (merge_loop [] ys) \<and> (\<forall>x. ranges_mem x (merge_loop [] ys) \<longleftrightarrow> ranges_mem x ys)"
    using merge_loop_spec [of "[]" ys] assms by (simp add: ranges_wf_def)
  ultimately show ?thesis by (simp add: contains_in_ranges_iff)
qed

lemma merge_ranges_contains:
  assumes "\<forall>r \<in> set rs. fst r \<le> snd r"
  shows "contains_in_ranges (merge_ranges rs) ip = Ret (ranges_mem ip rs)"
  unfolding merge_ranges_def using assms by (intro merge_any_order) auto

subsection \<open>Compiled sets answer like their networks\<close>

lemma ipv4_range_end_eq:
  assumes "ipnet_lib_ok lib" "0 < p" "p \<le> 32"
  shows "ipv4_range_end checks lib a p = Ret (ipv4_network lib a p + (2 ^ (32 - p) - 1))"
  using assms(2,3) by (auto simp: ipv4_range_end_def sub_u8_def shl_def)

lemma ipv6_range_end_eq:
  assumes "ipnet_lib_ok lib" "0 < p" "p \<le> 128"
  shows "ipv6_range_end checks lib a p = Ret (ipv6_network lib a p + (2 ^ (128 - p) - 1))"
  using assms(2,3) by (auto simp: ipv6_range_end_def sub_u8_def shl_def)

text \<open>A network the compiler handles: well formed, and not the whole address space.\<close>

definition compilable_net :: "IpNet \<Rightarrow> bool" where
  "compilable_net n \<longleftrightarrow> net_wf n \<and> 0 < net_prefix_len n"

definition ranges4 :: "ipnet_lib \<Rightarrow> IpNet list \<Rightarrow> (u32 \<times> u32) list" where
  "ranges4 lib nets = List.map_filter
     (\<lambda>n. case n of NetV4 a p \<Rightarrow> Some (ipv4_network lib a p, ipv4_network lib a p + (2 ^ (32 - p) - 1))
                  | NetV6 _ _ \<Rightarrow> None) nets"

definition ranges6 :: "ipnet_lib \<Rightarrow> IpNet list \<Rightarrow> (u128 \<times> u128) list" where
  "ranges6 lib nets = List.map_filter
     (\<lambda>n. case n of NetV6 a p \<Rightarrow> Some (ipv6_network lib a p, ipv6_network lib a p + (2 ^ (128 - p) - 1))
                  | NetV4 _ _ \<Rightarrow> None) nets"

lemma compile_ranges_eq:
  assumes "ipnet_lib_ok lib" "list_all compilable_net nets"
  shows "compile_ranges checks lib nets v4 v6 = Ret (v4 @ ranges4 lib nets, v6 @ ranges6 lib nets)"
  using assms(2)
proof (induction nets arbitrary: v4 v6)
  case (Cons n nets)
  then show ?case
    by (cases n) (simp_all add: compilable_net_def ranges4_def ranges6_def
        ipv4_range_end_eq [OF assms(1)] ipv6_range_end_eq [OF assms(1)])
qed (simp add: ranges4_def ranges6_def)

lemma ipv4_network_eq: "ipnet_lib_ok lib \<Longrightarrow> p \<le> 32 \<Longrightarrow>
    ipv4_network lib a p = push_bit (32 - p) (drop_bit (32 - p) a)"
  by (simp add: ipnet_lib_ok_def ipnet_network_ok_def)

lemma ipv6_network_eq: "ipnet_lib_ok lib \<Longrightarrow> p \<le> 128 \<Longrightarrow>
    ipv6_network lib a p = push_bit (128 - p) (drop_bit (128 - p) a)"
  by (simp add: ipnet_lib_ok_def ipnet_network_ok_def)

lemma range_of_net4:
  assumes "ipnet_lib_ok lib" "compilable_net (NetV4 a p)"
  shows "ipv4_network lib a p \<le> ipv4_network lib a p + (2 ^ (32 - p) - 1)"
    and "range_mem x (ipv4_network lib a p, ipv4_network lib a p + (2 ^ (32 - p) - 1))
      \<longleftrightarrow> net_contains (NetV4 a p) (IpV4 x)"
proof -
  have p: "p \<le> 32" and h: "32 - p < LENGTH(32)" using assms(2) by (auto simp: compilable_net_def)
  show "ipv4_network lib a p \<le> ipv4_network lib a p + (2 ^ (32 - p) - 1)"
    unfolding ipv4_network_eq [OF assms(1) p] by (rule network_range(1) [OF h])
  show "range_mem x (ipv4_network lib a p, ipv4_network lib a p + (2 ^ (32 - p) - 1))
      \<longleftrightarrow> net_contains (NetV4 a p) (IpV4 x)"
    unfolding ipv4_network_eq [OF assms(1) p] range_mem_def fst_conv snd_conv net_contains.simps
    by (rule network_range(2) [OF h])
qed

lemma range_of_net6:
  assumes "ipnet_lib_ok lib" "compilable_net (NetV6 a p)"
  shows "ipv6_network lib a p \<le> ipv6_network lib a p + (2 ^ (128 - p) - 1)"
    and "range_mem x (ipv6_network lib a p, ipv6_network lib a p + (2 ^ (128 - p) - 1))
      \<longleftrightarrow> net_contains (NetV6 a p) (IpV6 x)"
proof -
  have p: "p \<le> 128" and h: "128 - p < LENGTH(128)" using assms(2) by (auto simp: compilable_net_def)
  show "ipv6_network lib a p \<le> ipv6_network lib a p + (2 ^ (128 - p) - 1)"
    unfolding ipv6_network_eq [OF assms(1) p] by (rule network_range(1) [OF h])
  show "range_mem x (ipv6_network lib a p, ipv6_network lib a p + (2 ^ (128 - p) - 1))
      \<longleftrightarrow> net_contains (NetV6 a p) (IpV6 x)"
    unfolding ipv6_network_eq [OF assms(1) p] range_mem_def fst_conv snd_conv net_contains.simps
    by (rule network_range(2) [OF h])
qed

lemma ranges4_spec:
  assumes "ipnet_lib_ok lib" "list_all compilable_net nets"
  shows "\<forall>r \<in> set (ranges4 lib nets). fst r \<le> snd r"
    and "ranges_mem x (ranges4 lib nets) \<longleftrightarrow> (\<exists>n \<in> set nets. net_contains n (IpV4 x))"
  using assms(2)
proof (induction nets)
  case (Cons n nets)
  {
    case 1
    with Cons.IH(1) range_of_net4(1) [OF assms(1)] show ?case
      by (cases n) (auto simp: ranges4_def)
  next
    case 2
    with Cons.IH(2) range_of_net4(2) [OF assms(1)] show ?case
      by (cases n) (auto simp: ranges4_def simp del: net_contains.simps(1))
  }
qed (simp_all add: ranges4_def)

lemma ranges6_spec:
  assumes "ipnet_lib_ok lib" "list_all compilable_net nets"
  shows "\<forall>r \<in> set (ranges6 lib nets). fst r \<le> snd r"
    and "ranges_mem x (ranges6 lib nets) \<longleftrightarrow> (\<exists>n \<in> set nets. net_contains n (IpV6 x))"
  using assms(2)
proof (induction nets)
  case (Cons n nets)
  {
    case 1
    with Cons.IH(1) range_of_net6(1) [OF assms(1)] show ?case
      by (cases n) (auto simp: ranges6_def)
  next
    case 2
    with Cons.IH(2) range_of_net6(2) [OF assms(1)] show ?case
      by (cases n) (auto simp: ranges6_def simp del: net_contains.simps(2))
  }
qed (simp_all add: ranges6_def)

lemma compile_contains:
  assumes "ipnet_lib_ok lib" "list_all compilable_net nets"
  shows "\<exists>cs. CompiledIpSet_compile checks lib nets = Ret cs \<and>
    (\<forall>ip. CompiledIpSet_contains cs ip = Ret (\<exists>n \<in> set nets. net_contains n ip))"
  using merge_ranges_contains [OF ranges4_spec(1) [OF assms]] ranges4_spec(2) [OF assms]
    merge_ranges_contains [OF ranges6_spec(1) [OF assms]] ranges6_spec(2) [OF assms]
  by (simp add: CompiledIpSet_compile_def compile_ranges_eq [OF assms] CompiledIpSet_contains_def
      split: IpAddr.splits)

section \<open>The contract of a compiled matcher\<close>

text \<open>
  A list of patterns is compiled once and queried many times; on the inputs the compiler handles,
  a query answers like a linear scan of the patterns.
\<close>

locale compiled_matcher =
  fixes compile :: "'p list \<Rightarrow> 'c run"
    and answer :: "'c \<Rightarrow> 'q \<Rightarrow> bool run"
    and hit :: "'p \<Rightarrow> 'q \<Rightarrow> bool"
    and pats_ok :: "'p list \<Rightarrow> bool"
    and query_ok :: "'q \<Rightarrow> bool"
  assumes compile_answers:
    "pats_ok ps \<Longrightarrow> \<exists>c. compile ps = Ret c \<and> (\<forall>q. query_ok q \<longrightarrow> answer c q = Ret (\<exists>p \<in> set ps. hit p q))"
begin

lemma lookup_eq:
  assumes "pats_ok ps" "query_ok q"
  shows "run_bind (compile ps) (\<lambda>c. answer c q) = Ret (\<exists>p \<in> set ps. hit p q)"
  using compile_answers [OF assms(1)] assms(2) by auto

lemma lookup_cong:
  assumes "pats_ok ps" "pats_ok ps'" "set ps = set ps'" "query_ok q"
  shows "run_bind (compile ps) (\<lambda>c. answer c q) = run_bind (compile ps') (\<lambda>c. answer c q)"
  using assms by (simp add: lookup_eq)

lemma answer_eq:
  assumes "pats_ok ps" "compile ps = Ret c" "query_ok q"
  shows "answer c q = Ret (\<exists>p \<in> set ps. hit p q)"
  using compile_answers [OF assms(1)] assms by auto

end

interpretation ip_set: compiled_matcher
  "CompiledIpSet_compile checks lib" CompiledIpSet_contains net_contains
  "\<lambda>nets. ipnet_lib_ok lib \<and> list_all compilable_net nets" "\<lambda>_. True" for checks lib
  by unfold_locales (use compile_contains in blast)

section \<open>Properties\<close>

text \<open>
  C9: a compiled IP set answers exactly like a linear scan of its networks: compiling networks with
  valid, non-zero prefix lengths succeeds in every build, and a lookup, which never indexes out of
  bounds, is true exactly for the addresses some network contains.
\<close>

theorem compiled_ip_set_correct:
  assumes "ipnet_lib_ok lib" "list_all compilable_net nets"
  shows "run_bind (CompiledIpSet_compile checks lib nets) (\<lambda>cs. CompiledIpSet_contains cs ip)
    = Ret (\<exists>n \<in> set nets. net_contains n ip)"
  using assms by (intro ip_set.lookup_eq) auto

theorem compiled_ip_set_correct_witness:
  "run_bind (CompiledIpSet_compile True cidr_lib [NetV4 167772160 8, NetV4 2886729728 12])
      (\<lambda>cs. CompiledIpSet_contains cs (IpV4 167772161))
    = Ret (\<exists>n \<in> set [NetV4 167772160 8, NetV4 2886729728 12]. net_contains n (IpV4 167772161))"
  by (rule compiled_ip_set_correct) (simp_all add: cidr_lib_ok compilable_net_def)

text \<open>
  the answers of a compiled IP set depend only on which networks are listed, not on their order
  or on repetitions.
\<close>

theorem compiled_ip_set_order:
  assumes "ipnet_lib_ok lib" "list_all compilable_net nets" "set nets = set nets'"
  shows "run_bind (CompiledIpSet_compile checks lib nets) (\<lambda>cs. CompiledIpSet_contains cs ip)
    = run_bind (CompiledIpSet_compile checks lib nets') (\<lambda>cs. CompiledIpSet_contains cs ip)"
  using assms by (intro ip_set.lookup_cong) (auto simp: list_all_iff)

theorem compiled_ip_set_order_witness:
  "run_bind (CompiledIpSet_compile False cidr_lib [NetV4 0 8, NetV4 16777216 8, NetV4 0 8])
      (\<lambda>cs. CompiledIpSet_contains cs (IpV4 5))
    = run_bind (CompiledIpSet_compile False cidr_lib [NetV4 16777216 8, NetV4 0 8])
      (\<lambda>cs. CompiledIpSet_contains cs (IpV4 5))"
  by (rule compiled_ip_set_order) (auto simp: cidr_lib_ok compilable_net_def)

text \<open>
  a network with prefix length 0, the whole address space, is compiled wrongly: with overflow
  checks the shift by the full width panics, and without them the set contains address 0 alone.
\<close>

theorem zero_prefix_miscompiled:
  assumes "ipnet_lib_ok lib"
  shows "CompiledIpSet_compile True lib [NetV4 a 0] = Panic
    \<and> run_bind (CompiledIpSet_compile False lib [NetV4 a 0]) (\<lambda>cs. CompiledIpSet_contains cs (IpV4 x))
        = Ret (x = 0)
    \<and> net_contains (NetV4 a 0) (IpV4 x)"
proof -
  have d: "drop_bit 32 w = 0" for w :: u32
    by (rule bit_eqI) (auto simp: bit_drop_bit_eq dest: bit_imp_le_length)
  have n: "ipv4_network lib a 0 = 0" by (simp add: ipv4_network_eq [OF assms] d)
  have c: "contains_in_ranges (merge_ranges [(0 :: u32, 0)]) x = Ret (x = 0)"
    using merge_ranges_contains [of "[(0 :: u32, 0)]" x] by (auto simp: range_mem_def)
  show ?thesis using c d
    by (simp add: CompiledIpSet_compile_def ipv4_range_end_def sub_u8_def shl_def n
        CompiledIpSet_contains_def)
qed

theorem zero_prefix_miscompiled_witness:
  "CompiledIpSet_compile True cidr_lib [NetV4 0 0] = Panic
    \<and> run_bind (CompiledIpSet_compile False cidr_lib [NetV4 0 0])
        (\<lambda>cs. CompiledIpSet_contains cs (IpV4 134744072)) = Ret ((134744072 :: u32) = 0)
    \<and> net_contains (NetV4 0 0) (IpV4 134744072)"
  by (rule zero_prefix_miscompiled [OF cidr_lib_ok])

end
