(* ===== verification/Compiled_Domain.thy ===== *)
theory Compiled_Domain
  imports Compiled_Ip
begin

text \<open>
  Compiled domain sets, the second half of \<^verbatim>\<open>control/src/ruleset/compiled.rs\<close>: suffix patterns in
  a trie over reversed labels with 32-bit child indices, full and subdomain patterns in sorted
  vectors, keywords and regular expressions scanned.
\<close>

section \<open>The suffix trie\<close>

record SuffixTrieNode =
  children :: "string \<Rightarrow> u32 option"
  terminal :: bool

type_synonym SuffixTrie = "SuffixTrieNode list"

definition SuffixTrieNode_default :: SuffixTrieNode where
  "SuffixTrieNode_default = \<lparr>children = (\<lambda>_. None), terminal = False\<rparr>"

definition SuffixTrie_new :: SuffixTrie where
  "SuffixTrie_new = [SuffixTrieNode_default]"

text \<open>The descent of \<^verbatim>\<open>insert\<close>: missing children are appended, their index cast to 32 bits.\<close>

fun trie_descend :: "SuffixTrie \<Rightarrow> nat \<Rightarrow> string list \<Rightarrow> (SuffixTrie \<times> nat) run" where
  "trie_descend nodes node [] = Ret (nodes, node)"
| "trie_descend nodes node (label # labels) =
     run_bind (index_get nodes node) (\<lambda>n.
       case children n label of
         Some i \<Rightarrow> trie_descend nodes (unat i) labels
       | None \<Rightarrow>
           (let idx = (of_nat (length nodes) :: u32);
                nodes' = nodes @ [SuffixTrieNode_default];
                nodes'' = nodes'[node := (nodes' ! node)\<lparr>children := (children (nodes' ! node))(label \<mapsto> idx)\<rparr>]
            in trie_descend nodes'' (unat idx) labels))"

definition SuffixTrie_insert :: "SuffixTrie \<Rightarrow> string \<Rightarrow> SuffixTrie run" where
  "SuffixTrie_insert nodes v =
     run_bind (trie_descend nodes 0 (rev (split_char dot v))) (\<lambda>(nodes', node).
       run_bind (index_get nodes' node) (\<lambda>n. Ret (nodes'[node := n\<lparr>terminal := True\<rparr>])))"

fun trie_find :: "SuffixTrie \<Rightarrow> nat \<Rightarrow> string list \<Rightarrow> bool run" where
  "trie_find nodes node [] = Ret False"
| "trie_find nodes node (label # labels) =
     run_bind (index_get nodes node) (\<lambda>n.
       case children n label of
         None \<Rightarrow> Ret False
       | Some i \<Rightarrow>
           run_bind (index_get nodes (unat i)) (\<lambda>m.
             if terminal m then Ret True else trie_find nodes (unat i) labels))"

definition SuffixTrie_contains :: "SuffixTrie \<Rightarrow> string \<Rightarrow> bool run" where
  "SuffixTrie_contains nodes q = trie_find nodes 0 (rev (split_char dot q))"

section \<open>The compiled set\<close>

record CompiledDomainSet =
  ds_suffix :: SuffixTrie
  ds_full :: "string list"
  ds_domain :: "string list"
  ds_keyword :: "string list"
  ds_regex :: "string list"

text \<open>\<^verbatim>\<open>sort\<close> followed by \<^verbatim>\<open>dedup\<close>.\<close>

definition sort_dedup :: "string list \<Rightarrow> string list" where
  "sort_dedup xs = remdups_adj (sort xs)"

text \<open>One iteration of the compile loop on the five collections.\<close>

definition compile_pattern :: "CompiledDomainSet \<Rightarrow> DomainPattern \<Rightarrow> CompiledDomainSet run" where
  "compile_pattern cs p =
     (case pattern_type p of
        Suffix \<Rightarrow>
          (let v = to_ascii_lowercase (trim_start_char dot (pattern_value p))
           in if v = [] then Ret cs
              else run_bind (SuffixTrie_insert (ds_suffix cs) v) (\<lambda>t. Ret (cs\<lparr>ds_suffix := t\<rparr>)))
      | Full \<Rightarrow>
          (let v = to_ascii_lowercase (trim_end_char dot (pattern_value p))
           in Ret (if v = [] then cs else cs\<lparr>ds_full := ds_full cs @ [v]\<rparr>))
      | Domain_t \<Rightarrow>
          (let v = to_ascii_lowercase (trim_start_char dot (pattern_value p))
           in Ret (if v = [] then cs else cs\<lparr>ds_domain := ds_domain cs @ [v]\<rparr>))
      | Keyword \<Rightarrow>
          (let v = to_ascii_lowercase (pattern_value p)
           in Ret (if v = [] then cs else cs\<lparr>ds_keyword := ds_keyword cs @ [v]\<rparr>))
      | Regex \<Rightarrow>
          Ret (if pattern_value p = [] then cs
               else cs\<lparr>ds_regex := ds_regex cs @ [pattern_value p]\<rparr>))"

fun compile_patterns :: "CompiledDomainSet \<Rightarrow> DomainPattern list \<Rightarrow> CompiledDomainSet run" where
  "compile_patterns cs [] = Ret cs"
| "compile_patterns cs (p # ps) = run_bind (compile_pattern cs p) (\<lambda>cs'. compile_patterns cs' ps)"

definition CompiledDomainSet_compile :: "DomainPattern list \<Rightarrow> CompiledDomainSet run" where
  "CompiledDomainSet_compile patterns =
     run_bind
       (compile_patterns
          \<lparr>ds_suffix = SuffixTrie_new, ds_full = [], ds_domain = [], ds_keyword = [], ds_regex = []\<rparr>
          patterns)
       (\<lambda>cs. Ret \<lparr>ds_suffix = ds_suffix cs, ds_full = sort_dedup (ds_full cs),
                  ds_domain = sort_dedup (ds_domain cs), ds_keyword = sort_dedup (ds_keyword cs),
                  ds_regex = sort_dedup (ds_regex cs)\<rparr>)"

text \<open>The suffixes that start after a dot, in the order of \<^verbatim>\<open>match_indices\<close>.\<close>

fun after_dots :: "string \<Rightarrow> string list" where
  "after_dots [] = []"
| "after_dots (c # cs) = (if c = dot then cs # after_dots cs else after_dots cs)"

definition domain_matches :: "CompiledDomainSet \<Rightarrow> string \<Rightarrow> bool" where
  "domain_matches cs q = list_ex (\<lambda>s. binary_search (ds_domain cs) s \<noteq> None) (after_dots q)"

text \<open>The lazily compiled expressions; those the engine rejects are dropped.\<close>

definition regex_compiled :: "regex_engine \<Rightarrow> CompiledDomainSet \<Rightarrow> (string \<Rightarrow> bool) list" where
  "regex_compiled rx cs = List.map_filter rx (ds_regex cs)"

definition CompiledDomainSet_matches :: "regex_engine \<Rightarrow> CompiledDomainSet \<Rightarrow> string \<Rightarrow> bool run" where
  "CompiledDomainSet_matches rx cs qname =
     (let q = to_ascii_lowercase (trim_end_char dot (trim qname))
      in if q = [] then Ret False
         else run_bind (SuffixTrie_contains (ds_suffix cs) q) (\<lambda>b.
           if b then Ret True
           else if binary_search (ds_full cs) q \<noteq> None then Ret True
           else if domain_matches cs q then Ret True
           else if list_ex (str_contains q) (ds_keyword cs) then Ret True
           else Ret (list_ex (\<lambda>r. r q) (regex_compiled rx cs))))"

section \<open>The trie as a set of label paths\<close>

fun walk :: "SuffixTrie \<Rightarrow> nat \<Rightarrow> string list \<Rightarrow> nat option" where
  "walk t n [] = Some n"
| "walk t n (l # ls) = (case children (t ! n) l of None \<Rightarrow> None | Some i \<Rightarrow> walk t (unat i) ls)"

definition edge_up :: "SuffixTrie \<Rightarrow> bool" where
  "edge_up t \<longleftrightarrow> (\<forall>n l i. n < length t \<longrightarrow> children (t ! n) l = Some i \<longrightarrow> n < unat i \<and> unat i < length t)"

definition edge_inj :: "SuffixTrie \<Rightarrow> bool" where
  "edge_inj t \<longleftrightarrow> (\<forall>n m l l' i j. n < length t \<longrightarrow> m < length t \<longrightarrow> children (t ! n) l = Some i \<longrightarrow>
     children (t ! m) l' = Some j \<longrightarrow> unat i = unat j \<longrightarrow> n = m \<and> l = l')"

definition trie_wf :: "SuffixTrie \<Rightarrow> bool" where
  "trie_wf t \<longleftrightarrow> t \<noteq> [] \<and> edge_up t \<and> edge_inj t"

definition trie_paths :: "SuffixTrie \<Rightarrow> string list set" where
  "trie_paths t = {ls. \<exists>m. walk t 0 ls = Some m \<and> terminal (t ! m)}"

lemma edge_upD: "edge_up t \<Longrightarrow> n < length t \<Longrightarrow> children (t ! n) l = Some i \<Longrightarrow> n < unat i \<and> unat i < length t"
  by (auto simp: edge_up_def)

lemma walk_bound:
  "edge_up t \<Longrightarrow> n < length t \<Longrightarrow> walk t n ls = Some m \<Longrightarrow>
    m < length t \<and> n + length ls \<le> m"
proof (induction ls arbitrary: n)
  case (Cons l ls)
  then obtain i where i: "children (t ! n) l = Some i" "walk t (unat i) ls = Some m"
    by (auto split: option.splits)
  with edge_upD [OF Cons.prems(1,2) i(1)] Cons.IH [of "unat i"] Cons.prems(1) show ?case by simp
qed simp

lemma walk_append:
  "walk t n (a @ b) = (case walk t n a of None \<Rightarrow> None | Some m \<Rightarrow> walk t m b)"
  by (induction a arbitrary: n) (auto split: option.splits)

lemma walk_inj:
  assumes "trie_wf t" "n < length t"
  shows "walk t n a = Some m \<Longrightarrow> walk t n b = Some m \<Longrightarrow> a = b"
proof (induction a arbitrary: b m rule: rev_induct)
  case Nil
  with walk_bound [of t n b m] assms show ?case by (simp add: trie_wf_def)
next
  case (snoc l a)
  have up: "edge_up t" using assms(1) by (simp add: trie_wf_def)
  from snoc.prems(1) obtain k i where k: "walk t n a = Some k" "children (t ! k) l = Some i" "unat i = m"
    by (auto simp: walk_append split: option.splits)
  have km: "k < length t" using walk_bound [OF up assms(2) k(1)] by simp
  with edge_upD [OF up _ k(2)] walk_bound [OF up assms(2) k(1)] k(3) have "n < m" by simp
  then have "b \<noteq> []" using snoc.prems(2) by auto
  then obtain b' l' where b: "b = b' @ [l']" by (metis rev_exhaust)
  with snoc.prems(2) obtain k' i' where k': "walk t n b' = Some k'" "children (t ! k') l' = Some i'" "unat i' = m"
    by (auto simp: walk_append split: option.splits)
  have "k' < length t" using walk_bound [OF up assms(2) k'(1)] by simp
  with assms(1) km k(2,3) k'(2,3) have "k = k' \<and> l = l'" unfolding trie_wf_def edge_inj_def by metis
  with snoc.IH [OF k(1)] k'(1) b show ?case by simp
qed

lemma trie_wf_new: "trie_wf SuffixTrie_new" "trie_paths SuffixTrie_new = {}" "length SuffixTrie_new = 1"
proof -
  show "trie_wf SuffixTrie_new" "length SuffixTrie_new = 1"
    by (simp_all add: trie_wf_def SuffixTrie_new_def SuffixTrieNode_default_def edge_up_def edge_inj_def)
  have "walk SuffixTrie_new 0 ls = Some m \<Longrightarrow> m = 0" for ls m
    by (cases ls) (auto simp: SuffixTrie_new_def SuffixTrieNode_default_def)
  moreover have "\<not> terminal (SuffixTrie_new ! 0)"
    by (simp add: SuffixTrie_new_def SuffixTrieNode_default_def)
  ultimately show "trie_paths SuffixTrie_new = {}" unfolding trie_paths_def by blast
qed

subsection \<open>Adding a child\<close>

definition add_child :: "SuffixTrie \<Rightarrow> nat \<Rightarrow> string \<Rightarrow> SuffixTrie" where
  "add_child t node l =
     (t @ [SuffixTrieNode_default])[node :=
        (t ! node)\<lparr>children := (children (t ! node))(l \<mapsto> of_nat (length t))\<rparr>]"

lemma length_add_child [simp]: "length (add_child t node l) = Suc (length t)"
  by (simp add: add_child_def)

lemma nth_add_child:
  assumes "node < length t"
  shows "add_child t node l ! n =
    (if n = node then (t ! node)\<lparr>children := (children (t ! node))(l \<mapsto> of_nat (length t))\<rparr>
     else if n < length t then t ! n else (t @ [SuffixTrieNode_default]) ! n)"
  using assms by (auto simp: add_child_def nth_list_update nth_append)

lemma children_add_child:
  assumes "node < length t" "n < Suc (length t)"
  shows "children (add_child t node l ! n) l' =
    (if n = node \<and> l' = l then Some (of_nat (length t))
     else if n < length t then children (t ! n) l' else None)"
  using assms by (auto simp: nth_add_child nth_append SuffixTrieNode_default_def)

lemma terminal_add_child:
  assumes "node < length t" "n < Suc (length t)"
  shows "terminal (add_child t node l ! n) = (if n < length t then terminal (t ! n) else False)"
  using assms by (auto simp: nth_add_child nth_append SuffixTrieNode_default_def)

lemma unat_index: "n < 2 ^ 32 \<Longrightarrow> unat (of_nat n :: u32) = n"
  by (simp add: unsigned_of_nat take_bit_nat_eq_self)

lemma add_child_wf:
  assumes wf: "trie_wf t" and node: "node < length t" and free: "children (t ! node) l = None"
    and room: "length t < 2 ^ 32"
  shows "trie_wf (add_child t node l)"
proof -
  have up: "edge_up t" and inj: "edge_inj t" using wf by (simp_all add: trie_wf_def)
  have c: "\<And>n l'. n < Suc (length t) \<Longrightarrow> children (add_child t node l ! n) l' =
      (if n = node \<and> l' = l then Some (of_nat (length t)) else if n < length t then children (t ! n) l' else None)"
    using children_add_child [OF node] by blast
  have "edge_up (add_child t node l)"
    unfolding edge_up_def length_add_child
    using c edge_upD [OF up] node unat_index [OF room] by (auto split: if_splits intro: less_SucI)
  moreover have "n = m \<and> k = k'"
    if "n < Suc (length t)" "m < Suc (length t)" "children (add_child t node l ! n) k = Some i"
      "children (add_child t node l ! m) k' = Some j" "unat i = unat j" for n m k k' i j
  proof -
    have old: "unat i' < length t" if "children (t ! n') l' = Some i'" "n' < length t" for n' l' i'
      using edge_upD [OF up that(2,1)] by simp
    show ?thesis
    proof (cases "(n = node \<and> k = l) \<or> (m = node \<and> k' = l)")
      case True
      then show ?thesis using that c old unat_index [OF room]
        by (auto split: if_splits) (metis less_irrefl)+
    next
      case False
      then have "children (t ! n) k = Some i" "children (t ! m) k' = Some j" "n < length t" "m < length t"
        using that c by (auto split: if_splits)
      with inj \<open>unat i = unat j\<close> show ?thesis unfolding edge_inj_def by blast
    qed
  qed
  then have "edge_inj (add_child t node l)" unfolding edge_inj_def length_add_child by blast
  moreover have "add_child t node l \<noteq> []" by (metis length_add_child length_0_conv nat.distinct(1))
  ultimately show ?thesis by (simp add: trie_wf_def)
qed


lemma walk_add_child:
  assumes wf: "trie_wf t" and node: "node < length t" and free: "children (t ! node) l = None"
    and room: "length t < 2 ^ 32"
  shows "n < length t \<Longrightarrow> walk t n ls = Some m \<Longrightarrow> walk (add_child t node l) n ls = Some m"
    and "n < length t \<Longrightarrow> walk (add_child t node l) n ls = Some m \<Longrightarrow> m < length t \<Longrightarrow> walk t n ls = Some m"
proof -
  let ?t = "add_child t node l"
  have up: "edge_up t" and up': "edge_up ?t"
    using wf add_child_wf [OF assms] by (simp_all add: trie_wf_def)
  show "n < length t \<Longrightarrow> walk t n ls = Some m \<Longrightarrow> walk ?t n ls = Some m"
  proof (induction ls arbitrary: n)
    case (Cons k ks)
    then obtain i where i: "children (t ! n) k = Some i" "walk t (unat i) ks = Some m"
      by (auto split: option.splits)
    then have "children (?t ! n) k = Some i"
      using children_add_child [OF node, of n] Cons.prems(1) free by auto
    with i Cons.IH [of "unat i"] edge_upD [OF up Cons.prems(1) i(1)] show ?case by simp
  qed simp
  show "n < length t \<Longrightarrow> walk ?t n ls = Some m \<Longrightarrow> m < length t \<Longrightarrow> walk t n ls = Some m"
  proof (induction ls arbitrary: n)
    case (Cons k ks)
    then obtain i where i: "children (?t ! n) k = Some i" "walk ?t (unat i) ks = Some m"
      by (auto split: option.splits)
    have ib: "unat i < Suc (length t)" using edge_upD [OF up' _ i(1)] Cons.prems(1) by simp
    then have "unat i \<le> m" using walk_bound [OF up' _ i(2)] by simp
    then have "unat i < length t" using Cons.prems(3) by simp
    then have "children (t ! n) k = Some i"
      using i(1) children_add_child [OF node, of n] Cons.prems(1) unat_index [OF room]
      by (auto split: if_splits)
    with Cons.IH [OF \<open>unat i < length t\<close> i(2) Cons.prems(3)] show ?case by simp
  qed simp
qed

lemma paths_add_child:
  assumes "trie_wf t" "node < length t" "children (t ! node) l = None" "length t < 2 ^ 32"
  shows "trie_paths (add_child t node l) = trie_paths t"
proof -
  let ?t = "add_child t node l"
  have ne: "0 < length t" and up: "edge_up t" using assms(1) by (auto simp: trie_wf_def)
  have up': "edge_up ?t" using add_child_wf [OF assms] by (simp add: trie_wf_def)
  have "walk ?t 0 ls = Some m \<and> terminal (?t ! m) \<longleftrightarrow> walk t 0 ls = Some m \<and> terminal (t ! m)" for ls m
  proof
    assume a: "walk ?t 0 ls = Some m \<and> terminal (?t ! m)"
    then have "m < Suc (length t)" using walk_bound [OF up', of 0 ls m] by simp
    with a terminal_add_child [OF assms(2)] have "m < length t" "terminal (t ! m)" by (auto split: if_splits)
    with a walk_add_child(2) [OF assms ne] show "walk t 0 ls = Some m \<and> terminal (t ! m)" by blast
  next
    assume a: "walk t 0 ls = Some m \<and> terminal (t ! m)"
    then have "m < length t" using walk_bound [OF up ne, of ls m] by simp
    with a terminal_add_child [OF assms(2), of m] walk_add_child(1) [OF assms ne]
    show "walk ?t 0 ls = Some m \<and> terminal (?t ! m)" by simp
  qed
  then show ?thesis by (simp add: trie_paths_def)
qed

subsection \<open>Insertion and lookup\<close>

lemma trie_descend_add:
  assumes "node < length t" "children (t ! node) l = None" "length t < 2 ^ 32"
  shows "trie_descend t node (l # ls) = trie_descend (add_child t node l) (length t) ls"
proof -
  have "(t @ [SuffixTrieNode_default]) ! node = t ! node" using assms(1) by (simp add: nth_append)
  with assms show ?thesis by (simp add: Let_def add_child_def unat_index)
qed

lemma trie_descend_spec:
  assumes "trie_wf t" "node < length t" "length t + length ls \<le> 2 ^ 32"
  shows "\<exists>t' m. trie_descend t node ls = Ret (t', m) \<and> trie_wf t' \<and> walk t' node ls = Some m
    \<and> length t \<le> length t' \<and> length t' \<le> length t + length ls \<and> trie_paths t' = trie_paths t
    \<and> (\<forall>n ks k. n < length t \<longrightarrow> walk t n ks = Some k \<longrightarrow> walk t' n ks = Some k)"
  using assms
proof (induction ls arbitrary: t node)
  case (Cons l ls)
  have up: "edge_up t" using Cons.prems(1) by (simp add: trie_wf_def)
  show ?case
  proof (cases "children (t ! node) l")
    case (Some i)
    have i: "unat i < length t" using edge_upD [OF up Cons.prems(2) Some] by simp
    obtain t' m where t': "trie_descend t (unat i) ls = Ret (t', m)" "trie_wf t'" "walk t' (unat i) ls = Some m"
        "length t \<le> length t'" "length t' \<le> length t + length ls" "trie_paths t' = trie_paths t"
        "\<And>n ks k. n < length t \<Longrightarrow> walk t n ks = Some k \<Longrightarrow> walk t' n ks = Some k"
      using Cons.IH [OF Cons.prems(1) i] Cons.prems(3) by auto
    have "walk t' node [l] = Some (unat i)" using t'(7) [OF Cons.prems(2), of "[l]"] Some by simp
    then have "walk t' node (l # ls) = Some m"
      using walk_append [of t' node "[l]" ls] t'(3) by simp
    moreover have "trie_descend t node (l # ls) = Ret (t', m)" using Some t'(1) Cons.prems(2) by simp
    ultimately show ?thesis using t' by (intro exI [of _ t'] exI [of _ m]) auto
  next
    case None
    let ?t = "add_child t node l"
    have room: "length t < 2 ^ 32" using Cons.prems(3) by simp
    note add = Cons.prems(1,2) None room
    obtain t' m where t': "trie_descend ?t (length t) ls = Ret (t', m)" "trie_wf t'" "walk t' (length t) ls = Some m"
        "length ?t \<le> length t'" "length t' \<le> length ?t + length ls" "trie_paths t' = trie_paths ?t"
        "\<And>n ks k. n < length ?t \<Longrightarrow> walk ?t n ks = Some k \<Longrightarrow> walk t' n ks = Some k"
      using Cons.IH [OF add_child_wf [OF add], of "length t"] Cons.prems(3) by auto
    have "walk ?t node [l] = Some (length t)"
      using children_add_child [OF Cons.prems(2), of node l l] Cons.prems(2) unat_index [OF room] by simp
    then have "walk t' node [l] = Some (length t)" using t'(7) [of node "[l]"] Cons.prems(2) by simp
    then have w: "walk t' node (l # ls) = Some m"
      using walk_append [of t' node "[l]" ls] t'(3) by simp
    have keep: "walk t' n ks = Some k" if "n < length t" "walk t n ks = Some k" for n ks k
      using t'(7) [of n ks k] walk_add_child(1) [OF add that] that(1) by simp
    have "trie_descend t node (l # ls) = Ret (t', m)"
      using trie_descend_add [OF Cons.prems(2) None room] t'(1) by simp
    with w keep t' paths_add_child [OF add] show ?thesis
      by (intro exI [of _ t'] exI [of _ m]) auto
  qed
qed auto

lemma walk_children_cong:
  "(\<And>n. n < length t \<Longrightarrow> children (t' ! n) = children (t ! n)) \<Longrightarrow> edge_up t \<Longrightarrow> n < length t \<Longrightarrow>
    walk t' n ls = walk t n ls"
proof (induction ls arbitrary: n)
  case (Cons l ls)
  show ?case
  proof (cases "children (t ! n) l")
    case (Some i)
    with Cons.IH [of "unat i"] Cons.prems edge_upD [OF Cons.prems(2,3) Some] show ?thesis by simp
  qed (use Cons.prems in simp)
qed simp

lemma mark_terminal:
  assumes wf: "trie_wf t" and w: "walk t 0 ls = Some m"
  defines "t' \<equiv> t[m := (t ! m)\<lparr>terminal := True\<rparr>]"
  shows "trie_wf t'" and "trie_paths t' = insert ls (trie_paths t)"
proof -
  have ne: "0 < length t" and up: "edge_up t" using wf by (auto simp: trie_wf_def)
  have m: "m < length t" using walk_bound [OF up ne w] by simp
  have c: "children (t' ! n) = children (t ! n)" if "n < length t" for n
    using that m by (simp add: t'_def nth_list_update)
  have tm: "terminal (t' ! n) \<longleftrightarrow> n = m \<or> terminal (t ! n)" if "n < length t" for n
    using that m by (simp add: t'_def nth_list_update)
  show "trie_wf t'"
    using wf c unfolding trie_wf_def edge_up_def edge_inj_def by (simp add: t'_def)
  have walk: "walk t' 0 ks = walk t 0 ks" for ks using walk_children_cong [OF c up ne] by blast
  show "trie_paths t' = insert ls (trie_paths t)"
  proof (rule set_eqI)
    fix ks
    show "ks \<in> trie_paths t' \<longleftrightarrow> ks \<in> insert ls (trie_paths t)"
    proof (cases "walk t 0 ks")
      case None
      with w show ?thesis by (auto simp: trie_paths_def walk)
    next
      case (Some k)
      then have "k < length t" using walk_bound [OF up ne] by blast
      moreover have "k = m \<longleftrightarrow> ks = ls"
        using walk_inj [OF wf ne Some, of ls] Some w by (metis option.inject)
      ultimately show ?thesis using Some tm by (auto simp: trie_paths_def walk)
    qed
  qed
qed

lemma SuffixTrie_insert_spec:
  assumes "trie_wf t" "length t + length (split_char dot v) \<le> 2 ^ 32"
  shows "\<exists>t'. SuffixTrie_insert t v = Ret t' \<and> trie_wf t'
    \<and> length t' \<le> length t + length (split_char dot v)
    \<and> trie_paths t' = insert (rev (split_char dot v)) (trie_paths t)"
proof -
  have ne: "0 < length t" using assms(1) by (auto simp: trie_wf_def)
  obtain t1 m where t1: "trie_descend t 0 (rev (split_char dot v)) = Ret (t1, m)" "trie_wf t1"
      "walk t1 0 (rev (split_char dot v)) = Some m" "length t1 \<le> length t + length (split_char dot v)"
      "trie_paths t1 = trie_paths t"
    using trie_descend_spec [OF assms(1) ne, of "rev (split_char dot v)"] assms(2) by auto
  have "m < length t1" using walk_bound [OF _ _ t1(3)] t1(2) by (simp add: trie_wf_def)
  with t1 mark_terminal [OF t1(2,3)] show ?thesis by (simp add: SuffixTrie_insert_def)
qed

lemma trie_find_spec:
  assumes "trie_wf t" "node < length t"
  shows "trie_find t node ls =
    Ret (\<exists>p. p \<noteq> [] \<and> prefix p ls \<and> (\<exists>m. walk t node p = Some m \<and> terminal (t ! m)))"
  using assms(2)
proof (induction ls arbitrary: node)
  case (Cons l ls)
  have up: "edge_up t" using assms(1) by (simp add: trie_wf_def)
  have pre: "p \<noteq> [] \<and> prefix p (l # ls) \<longleftrightarrow> (\<exists>p'. p = l # p' \<and> prefix p' ls)" for p
    by (cases p) auto
  show ?case
  proof (cases "children (t ! node) l")
    case None
    then have "walk t node p = None" if "p \<noteq> [] \<and> prefix p (l # ls)" for p
      using that unfolding pre by auto
    with None Cons.prems show ?thesis by auto
  next
    case (Some i)
    have i: "unat i < length t" using edge_upD [OF up Cons.prems Some] by simp
    let ?hit = "\<lambda>p'. \<exists>m. walk t (unat i) p' = Some m \<and> terminal (t ! m)"
    have "(\<exists>p. p \<noteq> [] \<and> prefix p (l # ls) \<and> (\<exists>m. walk t node p = Some m \<and> terminal (t ! m)))
        \<longleftrightarrow> (\<exists>p'. prefix p' ls \<and> ?hit p')"
    proof -
      have "walk t node (l # p') = walk t (unat i) p'" for p' using Some by simp
      with pre show ?thesis by metis
    qed
    also have "\<dots> \<longleftrightarrow> terminal (t ! unat i) \<or> (\<exists>p'. p' \<noteq> [] \<and> prefix p' ls \<and> ?hit p')"
    proof -
      have "?hit [] \<longleftrightarrow> terminal (t ! unat i)" by simp
      then show ?thesis by (metis Nil_prefix)
    qed
    finally show ?thesis using Some Cons.IH [OF i] Cons.prems i by simp
  qed
qed simp

subsection \<open>The index of suffixes as an interface\<close>

text \<open>
  What the compiled set relies on: an index of names that grows by insertion while it has room, and
  whose lookup finds the names that are label suffixes of the query.
\<close>

locale suffix_index =
  fixes new :: 't
    and ins :: "'t \<Rightarrow> string \<Rightarrow> 't run"
    and mem :: "'t \<Rightarrow> string \<Rightarrow> bool run"
    and inv :: "'t \<Rightarrow> bool"
    and used :: "'t \<Rightarrow> nat"
    and names :: "'t \<Rightarrow> string set"
    and capacity :: nat
  assumes inv_new: "inv new" and names_new: "names new = {}" and used_new: "used new = 1"
    and ins_ok: "inv t \<Longrightarrow> used t + length (split_char dot v) \<le> capacity \<Longrightarrow>
      \<exists>t'. ins t v = Ret t' \<and> inv t' \<and> names t' = insert v (names t)
        \<and> used t' \<le> used t + length (split_char dot v)"
    and mem_ok: "inv t \<Longrightarrow> mem t q = Ret (\<exists>v \<in> names t. q = v \<or> ends_with q (dot # v))"
begin

lemma ins_mem:
  assumes "inv t" "used t + length (split_char dot v) \<le> capacity"
  shows "\<exists>t'. ins t v = Ret t' \<and> mem t' v = Ret True
    \<and> (\<forall>q. mem t q = Ret True \<longrightarrow> mem t' q = Ret True)"
  using ins_ok [OF assms] mem_ok assms(1) by auto

lemma mem_new: "mem new q = Ret False"
  using mem_ok [OF inv_new] names_new by simp

end

definition trie_names :: "SuffixTrie \<Rightarrow> string set" where
  "trie_names t = {v. rev (split_char dot v) \<in> trie_paths t}"

text \<open>Every stored path comes from a name.\<close>

definition trie_inv :: "SuffixTrie \<Rightarrow> bool" where
  "trie_inv t \<longleftrightarrow> trie_wf t \<and> trie_paths t = (\<lambda>v. rev (split_char dot v)) ` trie_names t"

lemma SuffixTrie_contains_spec:
  assumes "trie_inv t"
  shows "SuffixTrie_contains t q = Ret (\<exists>v \<in> trie_names t. q = v \<or> ends_with q (dot # v))"
proof -
  have wf: "trie_wf t" and ne: "0 < length t" using assms by (auto simp: trie_inv_def trie_wf_def)
  have paths: "trie_paths t = (\<lambda>v. rev (split_char dot v)) ` trie_names t"
    using assms by (simp add: trie_inv_def)
  let ?qs = "rev (split_char dot q)"
  have "SuffixTrie_contains t q = Ret (\<exists>p. p \<noteq> [] \<and> prefix p ?qs \<and> p \<in> trie_paths t)"
    by (simp add: SuffixTrie_contains_def trie_find_spec [OF wf ne] trie_paths_def)
  also have "(\<exists>p. p \<noteq> [] \<and> prefix p ?qs \<and> p \<in> trie_paths t) \<longleftrightarrow>
      (\<exists>v \<in> trie_names t. prefix (rev (split_char dot v)) ?qs)"
    unfolding paths image_iff by (metis rev_is_Nil_conv split_char_ne_Nil)
  also have "\<dots> \<longleftrightarrow> (\<exists>v \<in> trie_names t. q = v \<or> ends_with q (dot # v))"
    by (simp add: suffix_labels suffix_to_prefix)
  finally show ?thesis .
qed

interpretation trie: suffix_index
  SuffixTrie_new SuffixTrie_insert SuffixTrie_contains trie_inv length trie_names "2 ^ 32"
proof unfold_locales
  show "trie_inv SuffixTrie_new" "trie_names SuffixTrie_new = {}" "length SuffixTrie_new = 1"
    using trie_wf_new by (simp_all add: trie_inv_def trie_names_def)
next
  fix t v
  assume inv: "trie_inv t" and room: "length t + length (split_char dot v) \<le> 2 ^ 32"
  then obtain t' where t': "SuffixTrie_insert t v = Ret t'" "trie_wf t'"
      "length t' \<le> length t + length (split_char dot v)"
      "trie_paths t' = insert (rev (split_char dot v)) (trie_paths t)"
    using SuffixTrie_insert_spec [of t v] by (auto simp: trie_inv_def)
  have "trie_names t' = insert v (trie_names t)"
    unfolding trie_names_def t'(4) by (auto simp: split_char_inj)
  with t' inv show "\<exists>t'. SuffixTrie_insert t v = Ret t' \<and> trie_inv t' \<and>
      trie_names t' = insert v (trie_names t) \<and> length t' \<le> length t + length (split_char dot v)"
    by (auto simp: trie_inv_def)
qed (rule SuffixTrie_contains_spec)

section \<open>The compiled set as a linear scan\<close>

text \<open>The form in which the compiler stores a pattern's value.\<close>

definition norm_value :: "DomainPattern \<Rightarrow> string" where
  "norm_value p =
     (case pattern_type p of
        Suffix \<Rightarrow> to_ascii_lowercase (trim_start_char dot (pattern_value p))
      | Domain_t \<Rightarrow> to_ascii_lowercase (trim_start_char dot (pattern_value p))
      | Full \<Rightarrow> to_ascii_lowercase (trim_end_char dot (pattern_value p))
      | Keyword \<Rightarrow> to_ascii_lowercase (pattern_value p)
      | Regex \<Rightarrow> pattern_value p)"

definition stored :: "DomainPatternType \<Rightarrow> DomainPattern list \<Rightarrow> string set" where
  "stored ty ps = {norm_value p |p. p \<in> set ps \<and> pattern_type p = ty \<and> norm_value p \<noteq> []}"

definition suffix_cost :: "DomainPattern list \<Rightarrow> nat" where
  "suffix_cost ps =
     sum_list (map (\<lambda>p. if pattern_type p = Suffix then length (split_char dot (norm_value p)) else 0) ps)"

lemma suffix_cost_Cons [simp]:
  "suffix_cost (p # ps) =
    (if pattern_type p = Suffix then length (split_char dot (norm_value p)) else 0) + suffix_cost ps"
  by (simp add: suffix_cost_def)

lemma stored_Nil [simp]: "stored ty [] = {}"
  by (simp add: stored_def)

lemma stored_Cons [simp]:
  "stored ty (p # ps) =
    (if pattern_type p = ty \<and> norm_value p \<noteq> [] then insert (norm_value p) (stored ty ps) else stored ty ps)"
  by (auto simp: stored_def)

lemma compile_pattern_spec:
  assumes "trie_inv (ds_suffix cs)"
    and "length (ds_suffix cs) + suffix_cost [p] \<le> 2 ^ 32"
  shows "\<exists>cs'. compile_pattern cs p = Ret cs' \<and> trie_inv (ds_suffix cs')
    \<and> length (ds_suffix cs') \<le> length (ds_suffix cs) + suffix_cost [p]
    \<and> trie_names (ds_suffix cs') = trie_names (ds_suffix cs) \<union> stored Suffix [p]
    \<and> set (ds_full cs') = set (ds_full cs) \<union> stored Full [p]
    \<and> set (ds_domain cs') = set (ds_domain cs) \<union> stored Domain_t [p]
    \<and> set (ds_keyword cs') = set (ds_keyword cs) \<union> stored Keyword [p]
    \<and> set (ds_regex cs') = set (ds_regex cs) \<union> stored Regex [p]"
proof (cases "pattern_type p")
  case Suffix
  show ?thesis
  proof (cases "norm_value p = []")
    case True
    with Suffix assms show ?thesis by (auto simp: compile_pattern_def norm_value_def Let_def)
  next
    case False
    have "length (ds_suffix cs) + length (split_char dot (norm_value p)) \<le> 2 ^ 32"
      using assms(2) Suffix by (simp add: suffix_cost_def)
    from trie.ins_ok [OF assms(1) this] obtain t' where
      "SuffixTrie_insert (ds_suffix cs) (norm_value p) = Ret t'" "trie_inv t'"
      "trie_names t' = insert (norm_value p) (trie_names (ds_suffix cs))"
      "length t' \<le> length (ds_suffix cs) + length (split_char dot (norm_value p))" by blast
    moreover have "compile_pattern cs p = run_bind (SuffixTrie_insert (ds_suffix cs) (norm_value p))
        (\<lambda>t. Ret (cs\<lparr>ds_suffix := t\<rparr>))"
      using Suffix False by (simp add: compile_pattern_def norm_value_def Let_def)
    ultimately show ?thesis using Suffix False by (simp add: suffix_cost_def)
  qed
qed (use assms in \<open>auto simp: compile_pattern_def norm_value_def Let_def\<close>)

lemma compile_patterns_spec:
  assumes "trie_inv (ds_suffix cs)" "length (ds_suffix cs) + suffix_cost ps \<le> 2 ^ 32"
  shows "\<exists>cs'. compile_patterns cs ps = Ret cs' \<and> trie_inv (ds_suffix cs')
    \<and> trie_names (ds_suffix cs') = trie_names (ds_suffix cs) \<union> stored Suffix ps
    \<and> set (ds_full cs') = set (ds_full cs) \<union> stored Full ps
    \<and> set (ds_domain cs') = set (ds_domain cs) \<union> stored Domain_t ps
    \<and> set (ds_keyword cs') = set (ds_keyword cs) \<union> stored Keyword ps
    \<and> set (ds_regex cs') = set (ds_regex cs) \<union> stored Regex ps"
  using assms
proof (induction ps arbitrary: cs)
  case (Cons p ps)
  have split: "suffix_cost (p # ps) = suffix_cost [p] + suffix_cost ps"
    and un: "stored ty (p # ps) = stored ty [p] \<union> stored ty ps" for ty
    by (auto simp: suffix_cost_def stored_def)
  obtain cs1 where c1: "compile_pattern cs p = Ret cs1" "trie_inv (ds_suffix cs1)"
      "length (ds_suffix cs1) \<le> length (ds_suffix cs) + suffix_cost [p]"
      "trie_names (ds_suffix cs1) = trie_names (ds_suffix cs) \<union> stored Suffix [p]"
      "set (ds_full cs1) = set (ds_full cs) \<union> stored Full [p]"
      "set (ds_domain cs1) = set (ds_domain cs) \<union> stored Domain_t [p]"
      "set (ds_keyword cs1) = set (ds_keyword cs) \<union> stored Keyword [p]"
      "set (ds_regex cs1) = set (ds_regex cs) \<union> stored Regex [p]"
    using compile_pattern_spec [OF Cons.prems(1), of p] Cons.prems(2) unfolding split by auto
  have "length (ds_suffix cs1) + suffix_cost ps \<le> 2 ^ 32"
    using c1(3) Cons.prems(2) unfolding split by linarith
  from Cons.IH [OF c1(2) this] show ?case
    unfolding un compile_patterns.simps c1(1) run_bind.simps c1(4-) by (simp only: Un_assoc)
qed simp

lemma set_sort_dedup [simp]: "set (sort_dedup xs) = set xs" "sorted (sort_dedup xs)"
  by (simp_all add: sort_dedup_def sorted_remdups_adj)

lemma after_dots_iff: "s \<in> set (after_dots q) \<longleftrightarrow> ends_with q (dot # s)"
proof (induction q)
  case (Cons c q)
  have "ends_with (c # q) (dot # s) \<longleftrightarrow> (c = dot \<and> q = s) \<or> ends_with q (dot # s)"
    by (auto simp: ends_with_def suffix_Cons)
  with Cons show ?case by auto
qed (simp add: ends_with_def)

definition hits :: "regex_engine \<Rightarrow> DomainPatternType \<Rightarrow> string \<Rightarrow> string \<Rightarrow> bool" where
  "hits rx ty v q =
     (case ty of Suffix \<Rightarrow> q = v \<or> ends_with q (dot # v) | Full \<Rightarrow> q = v
               | Domain_t \<Rightarrow> ends_with q (dot # v) | Keyword \<Rightarrow> str_contains q v
               | Regex \<Rightarrow> regex_matches rx v q)"

lemma match_domain_pattern_hits:
  assumes "normalize_qname qname \<noteq> []" "pattern_type p = Regex \<longrightarrow> pattern_value p \<noteq> []"
  shows "match_domain_pattern rx qname p \<longleftrightarrow>
    norm_value p \<noteq> [] \<and> hits rx (pattern_type p) (norm_value p) (normalize_qname qname)"
proof -
  let ?q = "normalize_qname qname"
  have "\<not> ends_with ?q [dot]"
    using normalize_qname_last [OF assms(1)] by (auto simp: ends_with_def suffix_def)
  moreover have "ends_with ?q (dot # v) \<Longrightarrow> ?q \<noteq> v" for v
    by (auto simp: ends_with_def suffix_def dest: arg_cong [of _ _ length])
  ultimately show ?thesis using assms
    by (cases "pattern_type p") (auto simp: match_domain_pattern_def norm_value_def hits_def Let_def)
qed

lemma hits_stored:
  assumes "normalize_qname qname \<noteq> []" "\<forall>p \<in> set ps. pattern_type p = Regex \<longrightarrow> pattern_value p \<noteq> []"
  shows "match_domain_patterns rx qname ps \<longleftrightarrow>
    (\<exists>ty. \<exists>v \<in> stored ty ps. hits rx ty v (normalize_qname qname))"
  using assms match_domain_pattern_hits [OF assms(1)]
  by (fastforce simp: match_domain_patterns_def list_ex_iff stored_def)

definition compilable_patterns :: "DomainPattern list \<Rightarrow> bool" where
  "compilable_patterns ps \<longleftrightarrow>
     1 + suffix_cost ps \<le> 2 ^ 32
       \<and> list_all (\<lambda>p. pattern_type p = Regex \<longrightarrow> pattern_value p \<noteq> []) ps"

lemma regex_compiled_iff:
  "list_ex (\<lambda>r. r q) (regex_compiled rx cs) \<longleftrightarrow> (\<exists>v \<in> set (ds_regex cs). regex_matches rx v q)"
proof -
  have "list_ex (\<lambda>r. r q) (List.map_filter rx vs) \<longleftrightarrow> (\<exists>v \<in> set vs. regex_matches rx v q)" for vs
    by (induction vs) (auto simp: regex_matches_def split: option.splits)
  then show ?thesis by (simp add: regex_compiled_def)
qed

lemma ex_pattern_type: "(\<exists>ty. P ty) \<longleftrightarrow> P Suffix \<or> P Full \<or> P Domain_t \<or> P Keyword \<or> P Regex"
  by (metis DomainPatternType.exhaust)

lemma matches_stored:
  assumes "normalize_qname qname \<noteq> []" "trie_inv (ds_suffix cs)"
    and "sorted (ds_full cs)" "sorted (ds_domain cs)"
    and "trie_names (ds_suffix cs) = stored Suffix ps" "set (ds_full cs) = stored Full ps"
      "set (ds_domain cs) = stored Domain_t ps" "set (ds_keyword cs) = stored Keyword ps"
      "set (ds_regex cs) = stored Regex ps"
  shows "CompiledDomainSet_matches rx cs qname =
    Ret (\<exists>ty. \<exists>v \<in> stored ty ps. hits rx ty v (normalize_qname qname))"
proof -
  let ?q = "normalize_qname qname"
  have "(\<exists>ty. \<exists>v \<in> stored ty ps. hits rx ty v ?q) \<longleftrightarrow>
      (\<exists>v \<in> stored Suffix ps. ?q = v \<or> ends_with ?q (dot # v)) \<or> ?q \<in> stored Full ps
      \<or> (\<exists>v \<in> stored Domain_t ps. ends_with ?q (dot # v))
      \<or> (\<exists>v \<in> stored Keyword ps. str_contains ?q v) \<or> (\<exists>v \<in> stored Regex ps. regex_matches rx v ?q)"
    unfolding ex_pattern_type hits_def by auto
  moreover have "domain_matches cs ?q \<longleftrightarrow> (\<exists>v \<in> stored Domain_t ps. ends_with ?q (dot # v))"
    unfolding domain_matches_def list_ex_iff binary_search_iff [OF assms(4)] assms(7)
    using after_dots_iff by blast
  moreover have "binary_search (ds_full cs) ?q \<noteq> None \<longleftrightarrow> ?q \<in> stored Full ps"
    using binary_search_iff [OF assms(3)] assms(6) by simp
  moreover have "list_ex (str_contains ?q) (ds_keyword cs) \<longleftrightarrow> (\<exists>v \<in> stored Keyword ps. str_contains ?q v)"
    using assms(8) by (simp add: list_ex_iff)
  moreover have "list_ex (\<lambda>r. r ?q) (regex_compiled rx cs) \<longleftrightarrow> (\<exists>v \<in> stored Regex ps. regex_matches rx v ?q)"
    using regex_compiled_iff assms(9) by simp
  moreover have "SuffixTrie_contains (ds_suffix cs) ?q = Ret (\<exists>v \<in> stored Suffix ps. ?q = v \<or> ends_with ?q (dot # v))"
    using trie.mem_ok [OF assms(2)] assms(5) by simp
  moreover have "to_ascii_lowercase (trim_end_char dot (trim qname)) = ?q" by (simp add: normalize_qname_def)
  ultimately show ?thesis using assms(1)
    unfolding CompiledDomainSet_matches_def by (simp only: Let_def run_bind.simps if_False split: if_split) simp
qed

lemma compile_domain_matches:
  assumes "compilable_patterns ps"
  shows "\<exists>cs. CompiledDomainSet_compile ps = Ret cs \<and> (\<forall>qname. normalize_qname qname \<noteq> [] \<longrightarrow>
    CompiledDomainSet_matches rx cs qname = Ret (\<exists>p \<in> set ps. match_domain_pattern rx qname p))"
proof -
  let ?init = "\<lparr>ds_suffix = SuffixTrie_new, ds_full = [], ds_domain = [], ds_keyword = [], ds_regex = []\<rparr>"
  have "\<exists>cs'. compile_patterns ?init ps = Ret cs' \<and> trie_inv (ds_suffix cs')
    \<and> trie_names (ds_suffix cs') = stored Suffix ps \<and> set (ds_full cs') = stored Full ps
    \<and> set (ds_domain cs') = stored Domain_t ps \<and> set (ds_keyword cs') = stored Keyword ps
    \<and> set (ds_regex cs') = stored Regex ps"
    using compile_patterns_spec [of ?init ps] assms trie.inv_new trie.names_new trie.used_new
    by (simp add: compilable_patterns_def)
  then obtain cs' where cs': "compile_patterns ?init ps = Ret cs'" "trie_inv (ds_suffix cs')"
    "trie_names (ds_suffix cs') = stored Suffix ps" "set (ds_full cs') = stored Full ps"
    "set (ds_domain cs') = stored Domain_t ps" "set (ds_keyword cs') = stored Keyword ps"
    "set (ds_regex cs') = stored Regex ps" by blast
  let ?cs = "\<lparr>ds_suffix = ds_suffix cs', ds_full = sort_dedup (ds_full cs'),
    ds_domain = sort_dedup (ds_domain cs'), ds_keyword = sort_dedup (ds_keyword cs'),
    ds_regex = sort_dedup (ds_regex cs')\<rparr>"
  have "CompiledDomainSet_compile ps = Ret ?cs" by (simp add: CompiledDomainSet_compile_def cs'(1))
  moreover have "CompiledDomainSet_matches rx ?cs qname = Ret (\<exists>p \<in> set ps. match_domain_pattern rx qname p)"
    if "normalize_qname qname \<noteq> []" for qname
    using matches_stored [OF that, of ?cs ps rx] cs' hits_stored [OF that, of ps rx] assms
    by (simp add: compilable_patterns_def list_all_iff match_domain_patterns_def list_ex_iff)
  ultimately show ?thesis by blast
qed

interpretation domain_set: compiled_matcher
  CompiledDomainSet_compile "CompiledDomainSet_matches rx" "\<lambda>p q. match_domain_pattern rx q p"
  compilable_patterns "\<lambda>q. normalize_qname q \<noteq> []" for rx
  by unfold_locales (use compile_domain_matches in blast)

text \<open>
  C10: a compiled domain set (trie, sorted vectors with binary search, scans) answers exactly like
  the linear scan of the pattern list, for a query that is not empty after normalisation, a list
  whose suffix patterns have fewer than \<open>2 ^ 32\<close> labels in total and no empty regular expression;
  neither compiling nor matching panics.
\<close>

theorem compiled_domain_set_correct:
  assumes "compilable_patterns ps" "normalize_qname qname \<noteq> []"
  shows "run_bind (CompiledDomainSet_compile ps) (\<lambda>cs. CompiledDomainSet_matches rx cs qname)
    = Ret (match_domain_patterns rx qname ps)"
  using domain_set.lookup_eq [OF assms, of rx] by (simp add: match_domain_patterns_def list_ex_iff)

theorem compiled_domain_set_correct_witness:
  "run_bind (CompiledDomainSet_compile
      [\<lparr>pattern_type = Suffix, pattern_value = ''.B.c''\<rparr>, \<lparr>pattern_type = Domain_t, pattern_value = ''d''\<rparr>])
      (\<lambda>cs. CompiledDomainSet_matches (\<lambda>_. None) cs ''a.b.c'')
    = Ret (match_domain_patterns (\<lambda>_. None) ''a.b.c''
      [\<lparr>pattern_type = Suffix, pattern_value = ''.B.c''\<rparr>, \<lparr>pattern_type = Domain_t, pattern_value = ''d''\<rparr>])"
proof -
  have "compilable_patterns
      [\<lparr>pattern_type = Suffix, pattern_value = ''.B.c''\<rparr>, \<lparr>pattern_type = Domain_t, pattern_value = ''d''\<rparr>]"
    and "normalize_qname ''a.b.c'' \<noteq> []" by code_simp+
  then show ?thesis by (rule compiled_domain_set_correct)
qed

text \<open>
  The two differ on the inputs excluded above: the compiled set rejects every query that normalises
  to nothing, and it drops an empty regular expression.
\<close>

lemma compiled_domain_set_empty_query:
  "run_bind (CompiledDomainSet_compile [\<lparr>pattern_type = Full, pattern_value = ''.''\<rparr>])
      (\<lambda>cs. CompiledDomainSet_matches rx cs ''.'') = Ret False"
  "match_domain_patterns rx ''.'' [\<lparr>pattern_type = Full, pattern_value = ''.''\<rparr>]"
proof -
  have n: "normalize_qname ''.'' = []" by code_simp
  then show "run_bind (CompiledDomainSet_compile [\<lparr>pattern_type = Full, pattern_value = ''.''\<rparr>])
      (\<lambda>cs. CompiledDomainSet_matches rx cs ''.'') = Ret False"
    by (simp add: CompiledDomainSet_compile_def compile_pattern_def Let_def
        CompiledDomainSet_matches_def normalize_qname_def)
  have "to_ascii_lowercase (trim_end_char dot ''.'') = []" by code_simp
  with n show "match_domain_patterns rx ''.'' [\<lparr>pattern_type = Full, pattern_value = ''.''\<rparr>]"
    by (simp add: match_domain_patterns_def match_domain_pattern_def)
qed

lemma compiled_domain_set_empty_regex:
  assumes "rx [] = Some (\<lambda>_. True)" "normalize_qname qname \<noteq> []"
  shows "run_bind (CompiledDomainSet_compile [\<lparr>pattern_type = Regex, pattern_value = []\<rparr>])
      (\<lambda>cs. CompiledDomainSet_matches rx cs qname) = Ret False"
    and "match_domain_patterns rx qname [\<lparr>pattern_type = Regex, pattern_value = []\<rparr>]"
proof -
  have "CompiledDomainSet_compile [\<lparr>pattern_type = Regex, pattern_value = []\<rparr>] = CompiledDomainSet_compile []"
    by (simp add: CompiledDomainSet_compile_def compile_pattern_def)
  then show "run_bind (CompiledDomainSet_compile [\<lparr>pattern_type = Regex, pattern_value = []\<rparr>])
      (\<lambda>cs. CompiledDomainSet_matches rx cs qname) = Ret False"
    using domain_set.lookup_eq [of "[]" qname rx] assms(2)
    by (simp add: compilable_patterns_def suffix_cost_def)
  show "match_domain_patterns rx qname [\<lparr>pattern_type = Regex, pattern_value = []\<rparr>]"
    using assms(1) by (simp add: match_domain_patterns_def match_domain_pattern_def regex_matches_def)
qed

end
