(* ===== verification/Rule_Cache.thy ===== *)
theory Rule_Cache
  imports Compiled_Domain
begin

text \<open>
  The in-memory rule set cache, \<^verbatim>\<open>control/src/ruleset/cache.rs\<close>, and the compiled view of a rule
  set (\<^verbatim>\<open>compile_rule_set\<close> of \<^verbatim>\<open>compiled.rs\<close>).  The lock is part of the state: a panic while the
  write guard is held poisons it, after which every access fails.
\<close>

section \<open>Compiled rule sets\<close>

datatype CompiledRuleSet = CIpList CompiledIpSet | CDomainList CompiledDomainSet

definition compile_rule_set :: "bool \<Rightarrow> ipnet_lib \<Rightarrow> RuleSetData \<Rightarrow> CompiledRuleSet run" where
  "compile_rule_set checks lib data =
     (case data of
        RsIpList nets \<Rightarrow> run_bind (CompiledIpSet_compile checks lib nets) (\<lambda>c. Ret (CIpList c))
      | RsDomainList pats \<Rightarrow> run_bind (CompiledDomainSet_compile pats) (\<lambda>c. Ret (CDomainList c)))"

section \<open>The cache\<close>

record RuleSetCache =
  cache_data :: "(string \<times> RuleSetData) list"
  cache_compiled :: "(string \<times> CompiledRuleSet) list"
  cache_poisoned :: bool

definition RuleSetCache_new :: RuleSetCache where
  "RuleSetCache_new = \<lparr>cache_data = [], cache_compiled = [], cache_poisoned = False\<rparr>"

text \<open>A write returns the new state and whether it panicked.\<close>

definition cache_insert ::
    "bool \<Rightarrow> ipnet_lib \<Rightarrow> RuleSetCache \<Rightarrow> string \<Rightarrow> RuleSetData \<Rightarrow> RuleSetCache \<times> unit run" where
  "cache_insert checks lib c name data =
     (if cache_poisoned c then (c, Ret ())
      else (case compile_rule_set checks lib data of
              Panic \<Rightarrow> (c\<lparr>cache_poisoned := True\<rparr>, Panic)
            | Ret compiled \<Rightarrow>
                (c\<lparr>cache_compiled := map_insert name compiled (cache_compiled c),
                   cache_data := map_insert name data (cache_data c)\<rparr>, Ret ())))"

fun compile_all ::
    "bool \<Rightarrow> ipnet_lib \<Rightarrow> (string \<times> RuleSetData) list \<Rightarrow> (string \<times> CompiledRuleSet) list run" where
  "compile_all checks lib [] = Ret []"
| "compile_all checks lib ((k, v) # m) =
     run_bind (compile_rule_set checks lib v) (\<lambda>c.
       run_bind (compile_all checks lib m) (\<lambda>cs. Ret ((k, c) # cs)))"

definition cache_replace_all ::
    "bool \<Rightarrow> ipnet_lib \<Rightarrow> RuleSetCache \<Rightarrow> (string \<times> RuleSetData) list \<Rightarrow> RuleSetCache \<times> unit run" where
  "cache_replace_all checks lib c m =
     (if cache_poisoned c then (c, Ret ())
      else (case compile_all checks lib m of
              Panic \<Rightarrow> (c\<lparr>cache_poisoned := True\<rparr>, Panic)
            | Ret compiled \<Rightarrow> (c\<lparr>cache_data := m, cache_compiled := compiled\<rparr>, Ret ())))"

definition cache_get :: "RuleSetCache \<Rightarrow> string \<Rightarrow> RuleSetData option" where
  "cache_get c name = (if cache_poisoned c then None else map_of (cache_data c) name)"

definition cache_contains :: "RuleSetCache \<Rightarrow> string \<Rightarrow> bool" where
  "cache_contains c name = (if cache_poisoned c then False else map_of (cache_data c) name \<noteq> None)"

definition cache_len :: "RuleSetCache \<Rightarrow> nat" where
  "cache_len c = (if cache_poisoned c then 0 else length (cache_data c))"

definition cache_is_empty :: "RuleSetCache \<Rightarrow> bool" where
  "cache_is_empty c \<longleftrightarrow> cache_len c = 0"

definition get_set_ips :: "RuleSetCache \<Rightarrow> string \<Rightarrow> IpNet list option" where
  "get_set_ips c name =
     (if cache_poisoned c then None
      else (case map_of (cache_data c) name of
              Some (RsIpList nets) \<Rightarrow> Some nets
            | _ \<Rightarrow> None))"

definition get_set_domains :: "RuleSetCache \<Rightarrow> string \<Rightarrow> DomainPattern list option" where
  "get_set_domains c name =
     (if cache_poisoned c then None
      else (case map_of (cache_data c) name of
              Some (RsDomainList pats) \<Rightarrow> Some pats
            | _ \<Rightarrow> None))"

definition domain_set_matches :: "regex_engine \<Rightarrow> RuleSetCache \<Rightarrow> string \<Rightarrow> string \<Rightarrow> bool run" where
  "domain_set_matches rx c name qname =
     (if cache_poisoned c then Ret False
      else (case map_of (cache_compiled c) name of
              Some (CDomainList d) \<Rightarrow> CompiledDomainSet_matches rx d qname
            | _ \<Rightarrow> Ret False))"

section \<open>Properties\<close>

text \<open>The two maps of the cache have the same keys, and the view is the compiled data.\<close>

definition view_ok ::
    "bool \<Rightarrow> ipnet_lib \<Rightarrow> RuleSetData option \<Rightarrow> CompiledRuleSet option \<Rightarrow> bool" where
  "view_ok checks lib d k \<longleftrightarrow>
     (case d of None \<Rightarrow> k = None | Some d \<Rightarrow> (\<exists>k'. compile_rule_set checks lib d = Ret k' \<and> k = Some k'))"

definition cache_inv :: "bool \<Rightarrow> ipnet_lib \<Rightarrow> RuleSetCache \<Rightarrow> bool" where
  "cache_inv checks lib c \<longleftrightarrow>
     (\<forall>n. view_ok checks lib (map_of (cache_data c) n) (map_of (cache_compiled c) n))
       \<and> distinct (map fst (cache_data c))"

datatype cache_write = WriteInsert string RuleSetData | WriteReplace "(string \<times> RuleSetData) list"

text \<open>A hash map passed to \<^verbatim>\<open>replace_all\<close> has distinct keys.\<close>

definition cache_step :: "bool \<Rightarrow> ipnet_lib \<Rightarrow> RuleSetCache \<Rightarrow> cache_write \<Rightarrow> RuleSetCache" where
  "cache_step checks lib c w =
     (case w of WriteInsert n d \<Rightarrow> fst (cache_insert checks lib c n d)
              | WriteReplace m \<Rightarrow> if distinct (map fst m) then fst (cache_replace_all checks lib c m) else c)"

lemma view_ok_simps [simp]:
  "view_ok checks lib None k \<longleftrightarrow> k = None"
  "view_ok checks lib (Some d) k \<longleftrightarrow> (\<exists>k'. compile_rule_set checks lib d = Ret k' \<and> k = Some k')"
  by (simp_all add: view_ok_def)

lemma compile_all_map_of:
  "compile_all checks lib m = Ret cs \<Longrightarrow> view_ok checks lib (map_of m n) (map_of cs n)"
  by (induction m arbitrary: cs) (auto simp: run_bind_eq_Ret)

lemma cache_inv_poison [simp]: "cache_inv checks lib (c\<lparr>cache_poisoned := b\<rparr>) = cache_inv checks lib c"
  by (simp add: cache_inv_def)

lemma cache_insert_inv:
  assumes "cache_inv checks lib c"
  shows "cache_inv checks lib (fst (cache_insert checks lib c n d))"
proof (cases "cache_poisoned c")
  case False
  show ?thesis
  proof (cases "compile_rule_set checks lib d")
    case (Ret k)
    with False assms show ?thesis
      by (auto simp: cache_insert_def cache_inv_def intro: map_insert_distinct)
  qed (use False assms in \<open>simp add: cache_insert_def\<close>)
qed (use assms in \<open>simp add: cache_insert_def\<close>)

lemma cache_replace_all_inv:
  assumes "cache_inv checks lib c" "distinct (map fst m)"
  shows "cache_inv checks lib (fst (cache_replace_all checks lib c m))"
proof (cases "cache_poisoned c")
  case False
  show ?thesis
  proof (cases "compile_all checks lib m")
    case (Ret cs)
    with False assms compile_all_map_of [OF Ret] show ?thesis
      by (simp add: cache_replace_all_def cache_inv_def)
  qed (use False assms in \<open>simp add: cache_replace_all_def\<close>)
qed (use assms in \<open>simp add: cache_replace_all_def\<close>)

interpretation cache: kept_invariant "cache_step checks lib" "cache_inv checks lib" for checks lib
  by unfold_locales
    (auto simp: cache_step_def cache_insert_inv cache_replace_all_inv split: cache_write.splits)

lemma cache_inv_new: "cache_inv checks lib RuleSetCache_new"
  by (simp add: cache_inv_def RuleSetCache_new_def)



text \<open>
  a panic while the cache is being written poisons the lock for good: every later query answers
  as if the cache were empty and every later write is ignored.
\<close>

theorem cache_poisoned_forever:
  assumes "snd (cache_insert checks lib c name data) = Panic"
  shows "let c' = foldl (cache_step checks lib) (fst (cache_insert checks lib c name data)) ws
    in cache_get c' n = None \<and> cache_len c' = 0 \<and> domain_set_matches rx c' n q = Ret False
       \<and> c' = fst (cache_insert checks lib c name data)"
proof -
  let ?c = "fst (cache_insert checks lib c name data)"
  have p: "cache_poisoned ?c"
    using assms by (auto simp: cache_insert_def split: if_splits run.splits)
  have "foldl (cache_step checks lib) ?c ws = ?c"
    by (induction ws) (use p in \<open>auto simp: cache_step_def cache_insert_def cache_replace_all_def
        split: cache_write.splits\<close>)
  with p show ?thesis by (simp add: cache_get_def cache_len_def domain_set_matches_def)
qed

theorem cache_poisoned_forever_witness:
  "let c' = foldl (cache_step True cidr_lib)
      (fst (cache_insert True cidr_lib RuleSetCache_new ''all'' (RsIpList [NetV4 0 0])))
      [WriteInsert ''b'' (RsIpList [])]
    in cache_get c' ''b'' = None \<and> cache_len c' = 0 \<and> domain_set_matches (\<lambda>_. None) c' ''b'' ''x'' = Ret False
       \<and> c' = fst (cache_insert True cidr_lib RuleSetCache_new ''all'' (RsIpList [NetV4 0 0]))"
  by (rule cache_poisoned_forever)
    (simp add: cache_insert_def RuleSetCache_new_def compile_rule_set_def CompiledIpSet_compile_def
      ipv4_range_end_def sub_u8_def shl_def)

end
