(* ===== verification/Rule_Store.thy ===== *)
theory Rule_Store
  imports Rule_Cache
begin

text \<open>
  Rule sets on disk: the data directory (\<^verbatim>\<open>control/src/ruleset/store.rs\<close>), the binary cache
  (\<^verbatim>\<open>compiled.rs\<close>), parsing by type and checksums (\<^verbatim>\<open>mod.rs\<close>), and the update of a rule set
  (\<^verbatim>\<open>download.rs\<close>).  The file system is a map from paths to contents; every operation may fail, as
  the schedule \<open>os_fails\<close> says, and a failed write may leave any content behind.  The HTTP client,
  SHA-256, JSON and bincode packages are parameters.
\<close>

section \<open>Standard library\<close>

fun show_nat :: "nat \<Rightarrow> string" where
  "show_nat n = (if n < 10 then [char_of (48 + n)] else show_nat (n div 10) @ [char_of (48 + n mod 10)])"

declare show_nat.simps [simp del]

definition hex_digit :: "nat \<Rightarrow> char" where
  "hex_digit n = (if n < 10 then char_of (48 + n) else char_of (87 + n))"

text \<open>\<^verbatim>\<open>PathBuf::join\<close>, \<^verbatim>\<open>parent\<close> and \<^verbatim>\<open>with_extension\<close> on paths that end in a file name.\<close>

abbreviation slash :: char where
  "slash \<equiv> CHR ''/''"

definition path_join :: "string \<Rightarrow> string \<Rightarrow> string" where
  "path_join root p =
     (if starts_with p [slash] then p
      else if root = [] \<or> ends_with root [slash] then root @ p
      else root @ slash # p)"

definition rsplit_once :: "char \<Rightarrow> string \<Rightarrow> (string \<times> string) option" where
  "rsplit_once c s = map_option (\<lambda>(a, b). (rev b, rev a)) (split_once c (rev s))"

definition file_stem :: "string \<Rightarrow> string" where
  "file_stem f = (case rsplit_once dot f of None \<Rightarrow> f | Some (b, _) \<Rightarrow> if b = [] then f else b)"

definition path_parent :: "string \<Rightarrow> string" where
  "path_parent p = (case rsplit_once slash p of None \<Rightarrow> [] | Some (d, _) \<Rightarrow> d)"

definition with_extension :: "string \<Rightarrow> string \<Rightarrow> string" where
  "with_extension p ext =
     (case rsplit_once slash p of
        None \<Rightarrow> file_stem p @ dot # ext
      | Some (d, f) \<Rightarrow> d @ slash # file_stem f @ dot # ext)"

section \<open>The file system\<close>

record world =
  files :: "string \<Rightarrow> string option"
  clock :: nat
  counter :: u64
  sleeps :: "nat list"

record os =
  os_fails :: "nat \<Rightarrow> bool"
  os_torn :: "nat \<Rightarrow> string option"
  os_pid :: nat
  os_nanos :: "nat \<Rightarrow> nat"
  os_now :: "nat \<Rightarrow> string"

datatype io_error = NotFound | OtherIo

type_synonym 'a io = "world \<Rightarrow> 'a \<times> world"

definition io_try :: "('e + 'a) io \<Rightarrow> ('a \<Rightarrow> ('e + 'b) io) \<Rightarrow> ('e + 'b) io" where
  "io_try m f w = (case m w of (Inl e, w') \<Rightarrow> (Inl e, w') | (Inr x, w') \<Rightarrow> f x w')"

definition io_seq :: "'a io \<Rightarrow> ('a \<Rightarrow> 'b io) \<Rightarrow> 'b io" where
  "io_seq m f w = (case m w of (x, w') \<Rightarrow> f x w')"

definition io_ret :: "'a \<Rightarrow> 'a io" where
  "io_ret x w = (x, w)"

definition io_map_err :: "('d \<Rightarrow> 'e) \<Rightarrow> ('d + 'a) io \<Rightarrow> ('e + 'a) io" where
  "io_map_err g m w = (case m w of (Inl e, w') \<Rightarrow> (Inl (g e), w') | (Inr x, w') \<Rightarrow> (Inr x, w'))"

definition tick :: "world \<Rightarrow> world" where
  "tick w = w\<lparr>clock := clock w + 1\<rparr>"

text \<open>An operation with no effect on file contents: create a directory, open, sync.\<close>

definition fs_touch :: "os \<Rightarrow> (io_error + unit) io" where
  "fs_touch os w = (if os_fails os (clock w) then Inl OtherIo else Inr (), tick w)"

definition fs_open :: "os \<Rightarrow> string \<Rightarrow> (io_error + unit) io" where
  "fs_open os p w =
     (if os_fails os (clock w) then Inl OtherIo
      else if files w p = None then Inl NotFound else Inr (), tick w)"

definition fs_read :: "os \<Rightarrow> string \<Rightarrow> (io_error + string) io" where
  "fs_read os p w =
     (if os_fails os (clock w) then Inl OtherIo
      else (case files w p of None \<Rightarrow> Inl NotFound | Some b \<Rightarrow> Inr b), tick w)"

definition fs_write :: "os \<Rightarrow> string \<Rightarrow> string \<Rightarrow> (io_error + unit) io" where
  "fs_write os p b w =
     (if os_fails os (clock w)
      then (Inl OtherIo,
            tick (case os_torn os (clock w) of
                    None \<Rightarrow> w | Some t \<Rightarrow> w\<lparr>files := (files w)(p \<mapsto> t)\<rparr>))
      else (Inr (), tick (w\<lparr>files := (files w)(p \<mapsto> b)\<rparr>)))"

definition fs_rename :: "os \<Rightarrow> string \<Rightarrow> string \<Rightarrow> (io_error + unit) io" where
  "fs_rename os p q w =
     (if os_fails os (clock w) then (Inl OtherIo, tick w)
      else (case files w p of
              None \<Rightarrow> (Inl NotFound, tick w)
            | Some b \<Rightarrow> (Inr (), tick (w\<lparr>files := ((files w)(p := None))(q \<mapsto> b)\<rparr>))))"

definition fs_remove :: "os \<Rightarrow> string \<Rightarrow> (io_error + unit) io" where
  "fs_remove os p w =
     (if os_fails os (clock w) then (Inl OtherIo, tick w)
      else (Inr (), tick (w\<lparr>files := (files w)(p := None)\<rparr>)))"

section \<open>The data directory\<close>

datatype StoreError =
  CreateDirError string
| IoError string
| MetaParse string
| MetaSerialize string
| Corrupt

datatype RuleSetState = Ready | Pending | Downloading | Degraded | Failed string

record RuleSetMeta =
  meta_name :: string
  meta_url :: string
  meta_type :: RuleSetType
  meta_last_updated :: "string option"
  meta_etag :: "string option"
  meta_last_modified :: "string option"
  meta_sha256 :: "string option"
  meta_size :: u64
  meta_state :: RuleSetState

record ScannedRuleSet =
  sc_name :: string
  sc_type :: RuleSetType
  sc_data :: "RuleSetData option"
  sc_meta :: "RuleSetMeta option"
  sc_sha256 :: "string option"
  sc_damaged :: bool

text \<open>The packages the code calls; \<open>bin\<close> is the binary cache file of a checksum and a rule set.\<close>

record rs_libs =
  lib_ipnet :: ipnet_lib
  lib_sha256 :: "string \<Rightarrow> u8 list"
  lib_meta_enc :: "RuleSetMeta \<Rightarrow> string option"
  lib_meta_dec :: "string \<Rightarrow> RuleSetMeta option"
  lib_bin_enc :: "string \<times> RuleSetData \<Rightarrow> string option"
  lib_bin_dec :: "string \<Rightarrow> (string \<times> RuleSetData) option"

definition random_suffix :: "os \<Rightarrow> string io" where
  "random_suffix os w =
     (dot # show_nat (os_pid os) @ dot # show_nat (os_nanos os (clock w)) @ dot # show_nat (unat (counter w)),
      w\<lparr>counter := counter w + 1\<rparr>)"

definition tmp_dir :: "string \<Rightarrow> string" where
  "tmp_dir root = path_join root ''.tmp''"

definition checksum_dir :: "string \<Rightarrow> string" where
  "checksum_dir root = path_join root ''.checksum''"

definition meta_dir :: "string \<Rightarrow> string" where
  "meta_dir root = path_join root ''.meta''"

definition data_file_path :: "string \<Rightarrow> string \<Rightarrow> RuleSetType \<Rightarrow> string" where
  "data_file_path root name ty = path_join root (name @ file_extension ty)"

definition tmp_file_path :: "os \<Rightarrow> string \<Rightarrow> string \<Rightarrow> string io" where
  "tmp_file_path os root name =
     io_seq (random_suffix os) (\<lambda>sfx. io_ret (path_join (tmp_dir root) (name @ ''.tmp'' @ sfx)))"

definition checksum_file_path :: "string \<Rightarrow> string \<Rightarrow> string" where
  "checksum_file_path root name = path_join (checksum_dir root) (name @ ''.sha256'')"

definition meta_file_path :: "string \<Rightarrow> string \<Rightarrow> string" where
  "meta_file_path root name = path_join (meta_dir root) (name @ ''.json'')"

definition RUN_DATA_DIR :: string where
  "RUN_DATA_DIR = ''/run/dae-rs/''"

fun create_dirs :: "os \<Rightarrow> string list \<Rightarrow> (StoreError + unit) io" where
  "create_dirs os [] = io_ret (Inr ())"
| "create_dirs os (d # ds) =
     io_try (io_map_err (\<lambda>_. CreateDirError d) (fs_touch os)) (\<lambda>_. create_dirs os ds)"

definition ensure_dirs :: "os \<Rightarrow> string \<Rightarrow> (StoreError + unit) io" where
  "ensure_dirs os root =
     create_dirs os [root, tmp_dir root, checksum_dir root, meta_dir root, RUN_DATA_DIR]"

definition atomic_replace :: "os \<Rightarrow> string \<Rightarrow> string \<Rightarrow> (StoreError + unit) io" where
  "atomic_replace os tmp dest =
     io_try (io_map_err (\<lambda>_. IoError tmp) (fs_open os tmp)) (\<lambda>_.
     io_try (io_map_err (\<lambda>_. IoError tmp) (fs_touch os)) (\<lambda>_.
     io_try (io_map_err (\<lambda>_. IoError dest) (fs_rename os tmp dest)) (\<lambda>_.
     io_seq (fs_touch os) (\<lambda>r.
       case r of Inl _ \<Rightarrow> io_ret (Inr ())
               | Inr _ \<Rightarrow> io_seq (fs_touch os) (\<lambda>_. io_ret (Inr ()))))))"

definition atomic_write_bytes :: "os \<Rightarrow> string \<Rightarrow> string \<Rightarrow> (StoreError + unit) io" where
  "atomic_write_bytes os path data =
     io_try (io_map_err (\<lambda>_. CreateDirError (path_parent path)) (fs_touch os)) (\<lambda>_.
     io_seq (random_suffix os) (\<lambda>sfx.
       let tmp = with_extension path (''tmp'' @ sfx)
       in io_try (io_map_err (\<lambda>_. IoError tmp) (fs_write os tmp [])) (\<lambda>_.
          io_try (io_map_err (\<lambda>_. IoError tmp) (fs_write os tmp data)) (\<lambda>_.
          io_try (io_map_err (\<lambda>_. IoError tmp) (fs_touch os)) (\<lambda>_.
          io_map_err (\<lambda>_. IoError path) (fs_rename os tmp path))))))"

definition read_checksum :: "os \<Rightarrow> string \<Rightarrow> string \<Rightarrow> (StoreError + string option) io" where
  "read_checksum os root name =
     (let path = checksum_file_path root name
      in io_seq (fs_read os path) (\<lambda>r. io_ret
           (case r of
              Inr s \<Rightarrow> if utf8_valid s then Inr (Some (to_ascii_lowercase (trim s))) else Inl (IoError path)
            | Inl NotFound \<Rightarrow> Inr None
            | Inl OtherIo \<Rightarrow> Inl (IoError path))))"

definition write_checksum :: "os \<Rightarrow> string \<Rightarrow> string \<Rightarrow> string \<Rightarrow> (StoreError + unit) io" where
  "write_checksum os root name sha =
     atomic_write_bytes os (checksum_file_path root name) (sha @ [CHR 0x0A])"

definition read_meta :: "os \<Rightarrow> rs_libs \<Rightarrow> string \<Rightarrow> string \<Rightarrow> (StoreError + RuleSetMeta option) io" where
  "read_meta os libs root name =
     (let path = meta_file_path root name
      in io_seq (fs_read os path) (\<lambda>r. io_ret
           (case r of
              Inr b \<Rightarrow> (case lib_meta_dec libs b of
                          None \<Rightarrow> Inl (MetaParse name) | Some m \<Rightarrow> Inr (Some m))
            | Inl NotFound \<Rightarrow> Inr None
            | Inl OtherIo \<Rightarrow> Inl (IoError path))))"

definition write_meta :: "os \<Rightarrow> rs_libs \<Rightarrow> string \<Rightarrow> string \<Rightarrow> RuleSetMeta \<Rightarrow> (StoreError + unit) io" where
  "write_meta os libs root name m =
     (case lib_meta_enc libs m of
        None \<Rightarrow> io_ret (Inl (MetaSerialize name))
      | Some json \<Rightarrow> atomic_write_bytes os (meta_file_path root name) json)"

section \<open>Parsing and the binary cache\<close>

datatype DownloadError =
  InvalidProxy
| ClientBuild
| RequestError
| HttpStatus nat
| ChecksumMismatch string string
| DownloadIo string

datatype RuleSetError =
  ErrList ListError
| ErrStore StoreError
| ErrDownload DownloadError
| ErrUtf8

definition parse_rule_set_data :: "rs_libs \<Rightarrow> RuleSetType \<Rightarrow> string \<Rightarrow> (RuleSetError + RuleSetData) run" where
  "parse_rule_set_data libs ty bytes =
     (case ty of
        DomainList \<Rightarrow>
          if utf8_valid bytes
          then run_bind (parse_domain_list bytes) (\<lambda>r.
                 Ret (case r of Inl e \<Rightarrow> Inl (ErrList e) | Inr v \<Rightarrow> Inr (RsDomainList v)))
          else Ret (Inl ErrUtf8)
      | IpList \<Rightarrow>
          if utf8_valid bytes
          then run_bind (parse_ip_list (lib_ipnet libs) bytes) (\<lambda>r.
                 Ret (case r of Inl e \<Rightarrow> Inl (ErrList e) | Inr v \<Rightarrow> Inr (RsIpList v)))
          else Ret (Inl ErrUtf8))"

definition sha256_hex :: "rs_libs \<Rightarrow> string \<Rightarrow> string" where
  "sha256_hex libs bytes =
     concat (map (\<lambda>b. [hex_digit (unat b div 16), hex_digit (unat b mod 16)]) (lib_sha256 libs bytes))"

definition rule_set_cache_path :: "string \<Rightarrow> string \<Rightarrow> string" where
  "rule_set_cache_path run_dir name = path_join run_dir (name @ ''.bin'')"

definition save_rule_set_cache ::
    "os \<Rightarrow> rs_libs \<Rightarrow> string \<Rightarrow> string \<Rightarrow> string \<Rightarrow> RuleSetData \<Rightarrow> unit io" where
  "save_rule_set_cache os libs run_dir name source_sha data =
     (case lib_bin_enc libs (source_sha, data) of
        None \<Rightarrow> io_ret ()
      | Some bytes \<Rightarrow>
          io_seq (fs_touch os) (\<lambda>r.
            case r of
              Inl _ \<Rightarrow> io_ret ()
            | Inr _ \<Rightarrow>
                io_seq (fs_write os (rule_set_cache_path run_dir name) bytes) (\<lambda>_. io_ret ())))"

definition load_rule_set_cache ::
    "os \<Rightarrow> rs_libs \<Rightarrow> string \<Rightarrow> string \<Rightarrow> string \<Rightarrow> RuleSetData option io" where
  "load_rule_set_cache os libs run_dir name source_sha =
     io_seq (fs_read os (rule_set_cache_path run_dir name)) (\<lambda>r. io_ret
       (case r of
          Inl _ \<Rightarrow> None
        | Inr bytes \<Rightarrow>
            (case lib_bin_dec libs bytes of
               None \<Rightarrow> None
             | Some (sha, data) \<Rightarrow> if sha = source_sha then Some data else None)))"

definition load_rule_set_data_cached ::
    "os \<Rightarrow> rs_libs \<Rightarrow> string \<Rightarrow> RuleSetType \<Rightarrow> string \<Rightarrow> string \<Rightarrow> string
      \<Rightarrow> (RuleSetError + RuleSetData) run io" where
  "load_rule_set_data_cached os libs run_dir ty name source_sha bytes =
     io_seq (load_rule_set_cache os libs run_dir name source_sha) (\<lambda>c.
       case c of
         Some data \<Rightarrow> io_ret (Ret (Inr data))
       | None \<Rightarrow>
           (case parse_rule_set_data libs ty bytes of
              Panic \<Rightarrow> io_ret Panic
            | Ret (Inl e) \<Rightarrow> io_ret (Ret (Inl e))
            | Ret (Inr data) \<Rightarrow>
                io_seq (save_rule_set_cache os libs run_dir name source_sha data) (\<lambda>_.
                  io_ret (Ret (Inr data)))))"

section \<open>The start-up scan\<close>

text \<open>A panic of the blocking parse task is a join error; both leave no data.\<close>

definition scan_entry ::
    "os \<Rightarrow> rs_libs \<Rightarrow> string \<Rightarrow> string \<Rightarrow> RuleSetConfig \<Rightarrow> (StoreError + ScannedRuleSet) io" where
  "scan_entry os libs run_dir root cfg =
     (let path = data_file_path root (cfg_name cfg) (cfg_type cfg)
      in io_try (read_meta os libs root (cfg_name cfg)) (\<lambda>meta.
         io_try (read_checksum os root (cfg_name cfg)) (\<lambda>recorded_sha.
         io_seq (fs_read os path) (\<lambda>r.
           case r of
             Inl NotFound \<Rightarrow>
               io_ret (Inr \<lparr>sc_name = cfg_name cfg, sc_type = cfg_type cfg, sc_data = None,
                            sc_meta = meta, sc_sha256 = recorded_sha, sc_damaged = False\<rparr>)
           | Inl OtherIo \<Rightarrow> io_ret (Inl (IoError path))
           | Inr bytes \<Rightarrow>
               (let actual_sha = sha256_hex libs bytes;
                    mismatch = (case recorded_sha of
                                  Some rec \<Rightarrow> \<not> eq_ignore_ascii_case rec actual_sha
                                | None \<Rightarrow> False)
                in io_seq
                     (if mismatch then io_ret None
                      else io_seq (load_rule_set_data_cached os libs run_dir (cfg_type cfg)
                                     (cfg_name cfg) actual_sha bytes) (\<lambda>p. io_ret
                             (case p of Ret (Inr parsed) \<Rightarrow> Some parsed | _ \<Rightarrow> None)))
                     (\<lambda>data. io_ret (Inr
                        \<lparr>sc_name = cfg_name cfg, sc_type = cfg_type cfg, sc_data = data,
                         sc_meta = meta, sc_sha256 = recorded_sha,
                         sc_damaged = (mismatch \<or> data = None)\<rparr>)))))))"

fun scan_loop ::
    "os \<Rightarrow> rs_libs \<Rightarrow> string \<Rightarrow> string \<Rightarrow> RuleSetConfig list \<Rightarrow> (string \<times> ScannedRuleSet) list
      \<Rightarrow> (StoreError + (string \<times> ScannedRuleSet) list) io" where
  "scan_loop os libs run_dir root [] out = io_ret (Inr out)"
| "scan_loop os libs run_dir root (cfg # cfgs) out =
     io_try (scan_entry os libs run_dir root cfg) (\<lambda>s.
       scan_loop os libs run_dir root cfgs (map_insert (cfg_name cfg) s out))"

definition scan ::
    "os \<Rightarrow> rs_libs \<Rightarrow> string \<Rightarrow> string \<Rightarrow> RuleSetConfig list
      \<Rightarrow> (StoreError + (string \<times> ScannedRuleSet) list) io" where
  "scan os libs run_dir root entries = scan_loop os libs run_dir root entries []"

definition load_cache_from_dir ::
    "os \<Rightarrow> rs_libs \<Rightarrow> string \<Rightarrow> string \<Rightarrow> RuleSetConfig list \<Rightarrow> (string \<times> RuleSetData) list io" where
  "load_cache_from_dir os libs run_dir root entries =
     io_seq (scan os libs run_dir root entries) (\<lambda>r. io_ret
       (case r of
          Inl _ \<Rightarrow> []
        | Inr scanned \<Rightarrow>
            List.map_filter (\<lambda>(name, item). map_option (\<lambda>d. (name, d)) (sc_data item)) scanned))"

section \<open>Download and update\<close>

record DownloadOptions =
  opt_max_retries :: nat
  opt_retry_base_delay :: nat

definition DownloadOptions_default :: DownloadOptions where
  "DownloadOptions_default = \<lparr>opt_max_retries = 3, opt_retry_base_delay = 2\<rparr>"

record DownloadedInfo =
  info_size :: u64
  info_sha256 :: string
  info_etag :: "string option"
  info_last_modified :: "string option"
  info_not_modified :: bool

record DownloadRequest =
  req_url :: string
  req_proxy :: "string option"
  req_dest_tmp :: string
  req_expected_sha256 :: "string option"
  req_etag :: "string option"
  req_last_modified :: "string option"
  req_options :: DownloadOptions

text \<open>
  The HTTP client: building it may fail; the \<open>n\<close>-th attempt of a request either fails to be sent or
  gets a status, the two validator headers and a body (\<open>None\<close> when reading the body fails).
\<close>

datatype http_reply = SendError | Reply nat "string option" "string option" "string option"

record http_client =
  client_build :: "string option \<Rightarrow> DownloadError option"
  client_get :: "nat \<Rightarrow> string \<Rightarrow> string option \<Rightarrow> string option \<Rightarrow> http_reply"

datatype UpdateOutcome = Updated RuleSetData | NotModified

definition attempt_once ::
    "os \<Rightarrow> rs_libs \<Rightarrow> http_client \<Rightarrow> nat \<Rightarrow> DownloadRequest \<Rightarrow> (DownloadError + DownloadedInfo) io" where
  "attempt_once os libs client n req =
     (case client_get client n (req_url req) (req_etag req) (req_last_modified req) of
        SendError \<Rightarrow> io_ret (Inl RequestError)
      | Reply status etag lm body \<Rightarrow>
          if status = 304
          then io_ret (Inr \<lparr>info_size = 0, info_sha256 = [], info_etag = etag,
                            info_last_modified = lm, info_not_modified = True\<rparr>)
          else if \<not> (200 \<le> status \<and> status < 300) then io_ret (Inl (HttpStatus status))
          else (case body of
                  None \<Rightarrow> io_ret (Inl RequestError)
                | Some bytes \<Rightarrow>
                    (let sha256 = sha256_hex libs bytes;
                         done = io_try (io_map_err (\<lambda>_. DownloadIo (req_dest_tmp req))
                                  (fs_write os (req_dest_tmp req) bytes)) (\<lambda>_. io_ret
                                  (Inr \<lparr>info_size = of_nat (length bytes), info_sha256 = sha256,
                                        info_etag = etag, info_last_modified = lm,
                                        info_not_modified = False\<rparr>))
                     in case req_expected_sha256 req of
                          None \<Rightarrow> done
                        | Some expected \<Rightarrow>
                            if \<not> eq_ignore_ascii_case sha256 expected
                            then io_seq (fs_remove os (req_dest_tmp req)) (\<lambda>_. io_ret
                                   (Inl (ChecksumMismatch expected sha256)))
                            else done)))"

definition is_retryable :: "DownloadError \<Rightarrow> bool" where
  "is_retryable e =
     (case e of RequestError \<Rightarrow> True | HttpStatus status \<Rightarrow> status \<ge> 500 | _ \<Rightarrow> False)"

text \<open>\<open>left\<close> attempts remain after this one; the last attempt always returns.\<close>

fun download_attempts ::
    "os \<Rightarrow> rs_libs \<Rightarrow> http_client \<Rightarrow> DownloadRequest \<Rightarrow> nat \<Rightarrow> nat \<Rightarrow> (DownloadError + DownloadedInfo) io" where
  "download_attempts os libs client req left attempt =
     io_seq (attempt_once os libs client attempt req) (\<lambda>r.
       case r of
         Inr info \<Rightarrow> io_ret (Inr info)
       | Inl e \<Rightarrow>
           if is_retryable e
           then (case left of
                   0 \<Rightarrow> io_ret (Inl e)
                 | Suc left' \<Rightarrow>
                     io_seq (\<lambda>w. ((), w\<lparr>sleeps := sleeps w @
                               [opt_retry_base_delay (req_options req) * 2 ^ attempt]\<rparr>)) (\<lambda>_.
                       download_attempts os libs client req left' (attempt + 1)))
           else io_ret (Inl e))"

declare download_attempts.simps [simp del]

definition download_impl ::
    "os \<Rightarrow> rs_libs \<Rightarrow> http_client \<Rightarrow> DownloadRequest \<Rightarrow> (DownloadError + DownloadedInfo) io" where
  "download_impl os libs client req =
     (case client_build client (req_proxy req) of
        Some e \<Rightarrow> io_ret (Inl e)
      | None \<Rightarrow> download_attempts os libs client req (opt_max_retries (req_options req)) 0)"

definition download ::
    "os \<Rightarrow> rs_libs \<Rightarrow> http_client \<Rightarrow> string \<Rightarrow> string option \<Rightarrow> string \<Rightarrow> string option
      \<Rightarrow> (DownloadError + DownloadedInfo) io" where
  "download os libs client url proxy dest_tmp expected =
     download_impl os libs client
       \<lparr>req_url = url, req_proxy = proxy, req_dest_tmp = dest_tmp, req_expected_sha256 = expected,
        req_etag = None, req_last_modified = None, req_options = DownloadOptions_default\<rparr>"

definition download_with_meta ::
    "os \<Rightarrow> rs_libs \<Rightarrow> http_client \<Rightarrow> string \<Rightarrow> string option \<Rightarrow> string \<Rightarrow> string option \<Rightarrow> string option
      \<Rightarrow> string option \<Rightarrow> DownloadOptions \<Rightarrow> (DownloadError + DownloadedInfo) io" where
  "download_with_meta os libs client url proxy dest_tmp etag lm expected options =
     download_impl os libs client
       \<lparr>req_url = url, req_proxy = proxy, req_dest_tmp = dest_tmp, req_expected_sha256 = expected,
        req_etag = etag, req_last_modified = lm, req_options = options\<rparr>"

text \<open>The part of the update after the download: read back, parse, install, record.\<close>

definition install_download ::
    "os \<Rightarrow> rs_libs \<Rightarrow> RuleSetConfig \<Rightarrow> string \<Rightarrow> string \<Rightarrow> DownloadedInfo
      \<Rightarrow> (RuleSetError + UpdateOutcome) io" where
  "install_download os libs cfg root tmp_path info =
     io_try (io_map_err (\<lambda>_. ErrStore (IoError tmp_path)) (fs_read os tmp_path)) (\<lambda>bytes.
     case parse_rule_set_data libs (cfg_type cfg) bytes of
       Panic \<Rightarrow> io_seq (fs_remove os tmp_path) (\<lambda>_. io_ret (Inl (ErrStore Corrupt)))
     | Ret (Inl e) \<Rightarrow> io_seq (fs_remove os tmp_path) (\<lambda>_. io_ret (Inl e))
     | Ret (Inr parsed) \<Rightarrow>
         io_try (io_map_err ErrStore (atomic_replace os tmp_path
                   (data_file_path root (cfg_name cfg) (cfg_type cfg)))) (\<lambda>_.
         io_try (io_map_err ErrStore (write_checksum os root (cfg_name cfg) (info_sha256 info))) (\<lambda>_.
         io_seq (\<lambda>w. (os_now os (clock w), w)) (\<lambda>now.
         io_try (io_map_err ErrStore (write_meta os libs root (cfg_name cfg)
                   \<lparr>meta_name = cfg_name cfg, meta_url = cfg_url cfg, meta_type = cfg_type cfg,
                    meta_last_updated = Some now, meta_etag = info_etag info,
                    meta_last_modified = info_last_modified info,
                    meta_sha256 = Some (info_sha256 info), meta_size = info_size info,
                    meta_state = Ready\<rparr>)) (\<lambda>_.
         io_ret (Inr (Updated parsed)))))))"

definition update_rule_set ::
    "os \<Rightarrow> rs_libs \<Rightarrow> http_client \<Rightarrow> RuleSetConfig \<Rightarrow> string \<Rightarrow> string option
      \<Rightarrow> (RuleSetError + UpdateOutcome) io" where
  "update_rule_set os libs client cfg root proxy =
     io_try (io_map_err ErrStore (ensure_dirs os root)) (\<lambda>_.
     io_try (io_map_err ErrStore (read_meta os libs root (cfg_name cfg))) (\<lambda>prev_meta.
     io_try (io_map_err ErrStore (read_checksum os root (cfg_name cfg))) (\<lambda>prev_sha.
     io_seq (tmp_file_path os root (cfg_name cfg)) (\<lambda>tmp_path.
     io_try (io_map_err ErrDownload (download_with_meta os libs client (cfg_url cfg) proxy tmp_path
               (Option.bind prev_meta meta_etag) (Option.bind prev_meta meta_last_modified)
               (cfg_expected_sha256 cfg) DownloadOptions_default)) (\<lambda>info.
     if info_not_modified info then io_ret (Inr NotModified)
     else if (case prev_sha of Some prev \<Rightarrow> eq_ignore_ascii_case prev (info_sha256 info) | None \<Rightarrow> False)
     then io_seq (fs_remove os tmp_path) (\<lambda>_. io_ret (Inr NotModified))
     else install_download os libs cfg root tmp_path info)))))"

section \<open>Frames\<close>

text \<open>An action leaves the content of one path alone.\<close>

definition frame :: "string \<Rightarrow> 'a io \<Rightarrow> bool" where
  "frame d m \<longleftrightarrow> (\<forall>w. files (snd (m w)) d = files w d)"

lemma frame_files: "frame d m \<Longrightarrow> m w = (x, w') \<Longrightarrow> files w' d = files w d"
  by (metis frame_def snd_conv)

lemma frame_ret [intro!]: "frame d (io_ret x)"
  by (simp add: frame_def io_ret_def)

lemma frame_try [intro!]: "frame d m \<Longrightarrow> (\<And>x. frame d (f x)) \<Longrightarrow> frame d (io_try m f)"
  by (auto simp: frame_def io_try_def split: prod.splits sum.splits) (metis snd_conv)+

lemma frame_seq [intro!]: "frame d m \<Longrightarrow> (\<And>x. frame d (f x)) \<Longrightarrow> frame d (io_seq m f)"
  by (auto simp: frame_def io_seq_def split: prod.splits) (metis snd_conv)+

lemma frame_map_err [intro!]: "frame d m \<Longrightarrow> frame d (io_map_err g m)"
  by (auto simp: frame_def io_map_err_def split: prod.splits sum.splits) (metis snd_conv)+

lemma frame_touch [intro!]: "frame d (fs_touch os)" "frame d (fs_open os p)" "frame d (fs_read os p)"
  by (simp_all add: frame_def fs_touch_def fs_open_def fs_read_def tick_def)

lemma frame_write [intro!]: "p \<noteq> d \<Longrightarrow> frame d (fs_write os p b)"
  by (auto simp: frame_def fs_write_def tick_def split: option.splits)

lemma frame_rename [intro!]: "p \<noteq> d \<Longrightarrow> q \<noteq> d \<Longrightarrow> frame d (fs_rename os p q)"
  by (auto simp: frame_def fs_rename_def tick_def split: option.splits)

lemma frame_remove [intro!]: "p \<noteq> d \<Longrightarrow> frame d (fs_remove os p)"
  by (auto simp: frame_def fs_remove_def tick_def)

lemma frame_suffix [intro!]: "frame d (random_suffix os)"
  by (simp add: frame_def random_suffix_def)

lemma frame_create_dirs [intro!]: "frame d (create_dirs os ds)"
  by (induction ds) auto

lemma frame_reads [intro!]:
  "frame d (ensure_dirs os root)" "frame d (read_meta os libs root name)"
  "frame d (read_checksum os root name)" "frame d (tmp_file_path os root name)"
  by (auto simp: ensure_dirs_def read_meta_def read_checksum_def tmp_file_path_def Let_def
      simp del: create_dirs.simps)

lemma frame_atomic_write:
  assumes "path \<noteq> d" "\<And>e. with_extension path e \<noteq> d"
  shows "frame d (atomic_write_bytes os path b)"
  using assms by (auto simp: atomic_write_bytes_def Let_def)

lemma frame_attempt:
  assumes "req_dest_tmp req \<noteq> d"
  shows "frame d (attempt_once os libs client n req)"
  using assms by (auto simp: attempt_once_def Let_def split: http_reply.splits option.splits)

lemma frame_attempts:
  assumes "req_dest_tmp req \<noteq> d"
  shows "frame d (download_attempts os libs client req left attempt)"
proof (induction left arbitrary: attempt)
  case 0
  show ?case
    by (subst download_attempts.simps) (auto intro!: frame_seq frame_attempt assms split: sum.splits)
next
  case (Suc left)
  have "frame d (\<lambda>w. ((), w\<lparr>sleeps := f w\<rparr>))" for f by (simp add: frame_def)
  with Suc show ?case
    by (subst download_attempts.simps) (auto intro!: frame_seq frame_attempt assms split: sum.splits)
qed

lemma frame_download:
  assumes "tmp \<noteq> d"
  shows "frame d (download_with_meta os libs client url proxy tmp etag lm expected options)"
  using assms frame_attempts
  by (auto simp: download_with_meta_def download_impl_def split: option.splits)

section \<open>Paths of one rule set\<close>

text \<open>The naming constraint the validator enforces, as far as paths depend on it.\<close>

definition plain_name :: "string \<Rightarrow> bool" where
  "plain_name name \<longleftrightarrow> name \<noteq> [] \<and> slash \<notin> set name \<and> dot \<notin> set name"

definition dir_prefix :: "string \<Rightarrow> string" where
  "dir_prefix root = (if root = [] \<or> ends_with root [slash] then root else root @ [slash])"

lemma path_join_eq: "\<not> starts_with p [slash] \<Longrightarrow> path_join root p = dir_prefix root @ p"
  by (simp add: path_join_def dir_prefix_def)

lemma plain_not_absolute: "plain_name name \<Longrightarrow> \<not> starts_with (name @ x) [slash]"
  by (cases name) (auto simp: plain_name_def starts_with_def)

lemma sub_dirs:
  "tmp_dir root = dir_prefix root @ ''.tmp''" "checksum_dir root = dir_prefix root @ ''.checksum''"
  "meta_dir root = dir_prefix root @ ''.meta''"
  by (simp_all add: tmp_dir_def checksum_dir_def meta_dir_def path_join_eq starts_with_def)

lemma dir_prefix_sub: "p \<noteq> [] \<Longrightarrow> last p \<noteq> slash \<Longrightarrow> dir_prefix (root @ p) = root @ p @ [slash]"
  by (auto simp: dir_prefix_def ends_with_def suffix_def) (metis last_appendR last_snoc)

lemma rule_set_paths:
  assumes "plain_name name"
  shows "data_file_path root name ty = dir_prefix root @ name @ ''.txt''"
    and "path_join (tmp_dir root) (name @ s) = dir_prefix root @ ''.tmp/'' @ name @ s"
    and "checksum_file_path root name = dir_prefix root @ ''.checksum/'' @ name @ ''.sha256''"
    and "meta_file_path root name = dir_prefix root @ ''.meta/'' @ name @ ''.json''"
  using plain_not_absolute [OF assms]
  by (simp_all add: data_file_path_def checksum_file_path_def meta_file_path_def sub_dirs
      path_join_eq file_extension_def dir_prefix_sub split: RuleSetType.splits)

lemma rsplit_once_last: "c \<notin> set b \<Longrightarrow> rsplit_once c (a @ c # b) = Some (a, b)"
proof -
  assume "c \<notin> set b"
  then have "split_once c (rev (a @ c # b)) = Some (rev b, rev a)" by (simp add: split_once_Some)
  then show ?thesis by (simp add: rsplit_once_def)
qed


lemma with_extension_eq:
  "slash \<notin> set f \<Longrightarrow> with_extension (a @ slash # f) e = a @ slash # file_stem f @ dot # e"
  by (simp add: with_extension_def rsplit_once_last)

lemma data_path_ne:
  assumes "plain_name name" "slash \<in> set q"
  shows "dir_prefix root @ q \<noteq> data_file_path root name ty"
proof
  assume "dir_prefix root @ q = data_file_path root name ty"
  then have "q = name @ ''.txt''" by (simp add: rule_set_paths(1) [OF assms(1)])
  with assms show False by (auto simp: plain_name_def)
qed

lemma other_paths:
  assumes "plain_name name"
  shows "path_join (tmp_dir root) (name @ s) \<noteq> data_file_path root name ty"
    and "checksum_file_path root name \<noteq> data_file_path root name ty"
    and "meta_file_path root name \<noteq> data_file_path root name ty"
    and "with_extension (checksum_file_path root name) e \<noteq> data_file_path root name ty"
    and "with_extension (meta_file_path root name) e \<noteq> data_file_path root name ty"
proof -
  note ne = data_path_ne [OF assms]
  show "path_join (tmp_dir root) (name @ s) \<noteq> data_file_path root name ty"
    unfolding rule_set_paths(2) [OF assms] by (rule ne) simp
  show "checksum_file_path root name \<noteq> data_file_path root name ty"
    unfolding rule_set_paths(3) [OF assms] by (rule ne) simp
  show "meta_file_path root name \<noteq> data_file_path root name ty"
    unfolding rule_set_paths(4) [OF assms] by (rule ne) simp
  have s: "slash \<notin> set (name @ ''.sha256'')" "slash \<notin> set (name @ ''.json'')"
    using assms by (auto simp: plain_name_def)
  have "with_extension (checksum_file_path root name) e =
      dir_prefix root @ ''.checksum/'' @ file_stem (name @ ''.sha256'') @ dot # e"
    using with_extension_eq [OF s(1), of "dir_prefix root @ ''.checksum''" e]
    by (simp add: rule_set_paths(3) [OF assms])
  also have "\<dots> \<noteq> data_file_path root name ty" by (rule ne) simp
  finally show "with_extension (checksum_file_path root name) e \<noteq> data_file_path root name ty" .
  have "with_extension (meta_file_path root name) e =
      dir_prefix root @ ''.meta/'' @ file_stem (name @ ''.json'') @ dot # e"
    using with_extension_eq [OF s(2), of "dir_prefix root @ ''.meta''" e]
    by (simp add: rule_set_paths(4) [OF assms])
  also have "\<dots> \<noteq> data_file_path root name ty" by (rule ne) simp
  finally show "with_extension (meta_file_path root name) e \<noteq> data_file_path root name ty" .
qed

section \<open>Pre- and postconditions\<close>

definition triple :: "(world \<Rightarrow> bool) \<Rightarrow> 'a io \<Rightarrow> ('a \<Rightarrow> world \<Rightarrow> bool) \<Rightarrow> bool" where
  "triple P m Q \<longleftrightarrow> (\<forall>w. P w \<longrightarrow> Q (fst (m w)) (snd (m w)))"

lemma triple_try:
  assumes "triple P m (\<lambda>r w. case r of Inl e \<Rightarrow> Q (Inl e) w | Inr x \<Rightarrow> R x w)" "\<And>x. triple (R x) (f x) Q"
  shows "triple P (io_try m f) Q"
  unfolding triple_def
proof (intro allI impI)
  fix w assume "P w"
  obtain r w' where m: "m w = (r, w')" by force
  with assms(1) \<open>P w\<close> have "case r of Inl e \<Rightarrow> Q (Inl e) w' | Inr x \<Rightarrow> R x w'"
    unfolding triple_def by (metis fst_conv snd_conv)
  with m assms(2) show "Q (fst (io_try m f w)) (snd (io_try m f w))"
    by (cases r) (auto simp: io_try_def triple_def)
qed

lemma triple_seq:
  assumes "triple P m R" "\<And>x. triple (R x) (f x) Q"
  shows "triple P (io_seq m f) Q"
  unfolding triple_def
proof (intro allI impI)
  fix w assume "P w"
  obtain r w' where m: "m w = (r, w')" by force
  with assms(1) \<open>P w\<close> have "R r w'" unfolding triple_def by (metis fst_conv snd_conv)
  with m assms(2) show "Q (fst (io_seq m f w)) (snd (io_seq m f w))"
    by (simp add: io_seq_def triple_def)
qed

lemma triple_map_err:
  assumes "triple P m (\<lambda>r w. case r of Inl e \<Rightarrow> Q (Inl (g e)) w | Inr x \<Rightarrow> Q (Inr x) w)"
  shows "triple P (io_map_err g m) Q"
  using assms by (auto simp: triple_def io_map_err_def split: prod.splits sum.splits)

lemma triple_ret: "(\<And>w. P w \<Longrightarrow> Q x w) \<Longrightarrow> triple P (io_ret x) Q"
  by (simp add: triple_def io_ret_def)

lemma triple_conseq: "triple P m Q \<Longrightarrow> (\<And>w. P' w \<Longrightarrow> P w) \<Longrightarrow> (\<And>r w. Q r w \<Longrightarrow> Q' r w) \<Longrightarrow> triple P' m Q'"
  by (simp add: triple_def)

lemma triple_frame: "frame d m \<Longrightarrow> (\<And>r w. files w d = F \<Longrightarrow> Q r w) \<Longrightarrow> triple (\<lambda>w. files w d = F) m Q"
  by (simp add: triple_def frame_def)


section \<open>Updating keeps verified content\<close>

text \<open>
  What an update may put in the data file: content with the expected checksum, if one is
  configured, that parses.
\<close>

definition verified :: "rs_libs \<Rightarrow> RuleSetConfig \<Rightarrow> string \<Rightarrow> bool" where
  "verified libs cfg b \<longleftrightarrow>
     (case cfg_expected_sha256 cfg of None \<Rightarrow> True | Some e \<Rightarrow> eq_ignore_ascii_case (sha256_hex libs b) e)
       \<and> (\<exists>data. parse_rule_set_data libs (cfg_type cfg) b = Ret (Inr data))"

definition downloaded :: "rs_libs \<Rightarrow> DownloadRequest \<Rightarrow> DownloadedInfo \<Rightarrow> world \<Rightarrow> bool" where
  "downloaded libs req info w \<longleftrightarrow> info_not_modified info \<or>
     (\<exists>b. files w (req_dest_tmp req) = Some b \<and> info_sha256 info = sha256_hex libs b
        \<and> (case req_expected_sha256 req of None \<Rightarrow> True
             | Some e \<Rightarrow> eq_ignore_ascii_case (sha256_hex libs b) e))"

lemma attempt_downloaded:
  "attempt_once os libs client n req w = (Inr info, w') \<Longrightarrow> downloaded libs req info w'"
  by (auto simp: attempt_once_def Let_def io_ret_def io_try_def io_seq_def io_map_err_def fs_write_def
      fs_remove_def tick_def downloaded_def split: http_reply.splits option.splits if_splits)

lemma attempts_downloaded:
  "download_attempts os libs client req left attempt w = (Inr info, w') \<Longrightarrow> downloaded libs req info w'"
proof (induction left arbitrary: attempt w)
  case 0
  then show ?case
    by (subst (asm) download_attempts.simps)
      (auto simp: io_seq_def io_ret_def split: prod.splits sum.splits if_splits intro: attempt_downloaded)
next
  case (Suc left)
  from Suc.prems show ?case
    by (subst (asm) download_attempts.simps)
      (auto simp: io_seq_def io_ret_def split: prod.splits sum.splits if_splits
        intro: attempt_downloaded Suc.IH)
qed

lemma triple_download:
  assumes "tmp \<noteq> d"
  shows "triple (\<lambda>w. files w d = F)
    (download_with_meta os libs client url proxy tmp etag lm expected options)
    (\<lambda>r w. files w d = F \<and> (\<forall>info. r = Inr info \<longrightarrow> info_not_modified info \<or>
       (\<exists>b. files w tmp = Some b \<and> info_sha256 info = sha256_hex libs b
          \<and> (case expected of None \<Rightarrow> True | Some e \<Rightarrow> eq_ignore_ascii_case (sha256_hex libs b) e))))"
proof -
  let ?m = "download_with_meta os libs client url proxy tmp etag lm expected options"
  let ?req = "\<lparr>req_url = url, req_proxy = proxy, req_dest_tmp = tmp, req_expected_sha256 = expected,
    req_etag = etag, req_last_modified = lm, req_options = options\<rparr>"
  have "downloaded libs ?req info (snd (?m w))" if r: "fst (?m w) = Inr info" for w info
  proof (cases "client_build client proxy")
    case None
    then have m: "?m = download_attempts os libs client ?req (opt_max_retries options) 0"
      by (simp add: download_with_meta_def download_impl_def)
    have "?m w = (Inr info, snd (?m w))" using r by (metis prod.collapse)
    then show ?thesis unfolding m by (rule attempts_downloaded)
  next
    case (Some e)
    with r show ?thesis by (simp add: download_with_meta_def download_impl_def io_ret_def)
  qed
  with frame_download [OF assms, of os libs client url proxy etag lm expected options] show ?thesis
    by (simp add: triple_def frame_def downloaded_def)
qed


lemma triple_atomic_replace:
  assumes "tmp \<noteq> d"
  shows "triple (\<lambda>w. files w d = F \<and> files w tmp = Some b) (atomic_replace os tmp d)
    (\<lambda>r w. files w d = F \<or> files w d = Some b)"
  using assms
  by (auto simp: triple_def atomic_replace_def io_try_def io_map_err_def io_seq_def io_ret_def fs_open_def
      fs_touch_def fs_rename_def tick_def)

definition data_ok :: "rs_libs \<Rightarrow> RuleSetConfig \<Rightarrow> string \<Rightarrow> string option \<Rightarrow> world \<Rightarrow> bool" where
  "data_ok libs cfg d F w \<longleftrightarrow> files w d = F \<or> (\<exists>b. files w d = Some b \<and> verified libs cfg b)"

lemma triple_data_ok_frame: "frame d m \<Longrightarrow> triple (data_ok libs cfg d F) m (\<lambda>_. data_ok libs cfg d F)"
  by (simp add: triple_def frame_def data_ok_def)

lemma update_finish:
  assumes "plain_name (cfg_name cfg)" "d = data_file_path root (cfg_name cfg) (cfg_type cfg)"
    and "tmp \<noteq> d" "verified libs cfg b" "frame d k"
  shows "triple (\<lambda>w. files w d = F \<and> files w tmp = Some b)
    (io_try (io_map_err ErrStore (atomic_replace os tmp d)) (\<lambda>_.
     io_try (io_map_err ErrStore (write_checksum os root (cfg_name cfg) sha)) (\<lambda>_.
     io_seq (\<lambda>w. (os_now os (clock w), w)) (\<lambda>now.
     io_try (io_map_err ErrStore (write_meta os libs root (cfg_name cfg) (m now))) (\<lambda>_. k)))))
    (\<lambda>_. data_ok libs cfg d F)"
proof -
  have w: "frame d (write_checksum os root (cfg_name cfg) sha)"
    unfolding write_checksum_def assms(2)
    by (rule frame_atomic_write) (use other_paths [OF assms(1)] in auto)
  have "frame d (write_meta os libs root (cfg_name cfg) m')" for m'
    unfolding write_meta_def assms(2)
    by (auto split: option.splits intro!: frame_atomic_write) (use other_paths [OF assms(1)] in auto)
  moreover have "frame d (\<lambda>w. (os_now os (clock w), w))" by (simp add: frame_def)
  ultimately have rest: "frame d (io_try (io_map_err ErrStore (write_checksum os root (cfg_name cfg) sha)) (\<lambda>_.
     io_seq (\<lambda>w. (os_now os (clock w), w)) (\<lambda>now.
     io_try (io_map_err ErrStore (write_meta os libs root (cfg_name cfg) (m now))) (\<lambda>_. k))))"
    using w assms(5) by blast
  have "triple (\<lambda>w. files w d = F \<and> files w tmp = Some b) (atomic_replace os tmp d) (\<lambda>_. data_ok libs cfg d F)"
    using triple_atomic_replace [OF assms(3)]
    by (rule triple_conseq) (use assms(4) in \<open>auto simp: data_ok_def\<close>)
  then show ?thesis
    by (intro triple_try [where R = "\<lambda>_. data_ok libs cfg d F"] triple_map_err triple_data_ok_frame rest)
      (simp add: triple_def split: sum.splits)
qed


lemma update_install:
  assumes "plain_name (cfg_name cfg)" "d = data_file_path root (cfg_name cfg) (cfg_type cfg)" "tmp \<noteq> d"
    and "case cfg_expected_sha256 cfg of None \<Rightarrow> True | Some e \<Rightarrow> eq_ignore_ascii_case (sha256_hex libs b) e"
  shows "triple (\<lambda>w. files w d = F \<and> files w tmp = Some b) (install_download os libs cfg root tmp info)
    (\<lambda>_. data_ok libs cfg d F)"
  unfolding install_download_def assms(2) [symmetric]
proof (rule triple_try [where R = "\<lambda>bytes w. bytes = b \<and> files w d = F \<and> files w tmp = Some b"], goal_cases)
  case 1
  show ?case
    by (rule triple_map_err) (auto simp: triple_def fs_read_def tick_def data_ok_def split: sum.splits)
next
  case (2 bytes)
  have drop: "triple (\<lambda>w. bytes = b \<and> files w d = F \<and> files w tmp = Some b)
      (io_seq (fs_remove os tmp) (\<lambda>_. io_ret x)) (\<lambda>_. data_ok libs cfg d F)" for x :: "RuleSetError + UpdateOutcome"
    by (rule triple_conseq [OF triple_data_ok_frame]) (use assms(3) in \<open>auto simp: data_ok_def\<close>)
  show ?case
  proof (cases "parse_rule_set_data libs (cfg_type cfg) bytes")
    case (Ret p)
    show ?thesis
    proof (cases p)
      case (Inr parsed)
      show ?thesis
      proof (cases "bytes = b")
        case True
        with Ret Inr assms(4) have v: "verified libs cfg b" by (simp add: verified_def)
        have pre: "bytes = b \<and> files w d = F \<and> files w tmp = Some b \<Longrightarrow> files w d = F \<and> files w tmp = Some b" for w
          by simp
        show ?thesis unfolding Ret Inr run.case sum.case
          by (rule triple_conseq [OF update_finish [OF assms(1-3) v frame_ret] pre])
      qed (simp add: triple_def)
    qed (use Ret drop in simp)
  qed (use drop in simp)
qed

text \<open>
  C15: whatever fails on the way, an update leaves the data file of a rule set either as it was or
  holding content that matches the configured checksum and parses as the configured type.
\<close>

theorem update_keeps_verified:
  assumes "plain_name (cfg_name cfg)" "d = data_file_path root (cfg_name cfg) (cfg_type cfg)"
  shows "files (snd (update_rule_set os libs client cfg root proxy w)) d = files w d
    \<or> (\<exists>b. files (snd (update_rule_set os libs client cfg root proxy w)) d = Some b \<and> verified libs cfg b)"
proof -
  let ?F = "files w d"
  let ?I = "\<lambda>w. files w d = ?F"
  have ok: "?I w' \<Longrightarrow> data_ok libs cfg d ?F w'" for w' by (simp add: data_ok_def)
  have fr: "frame d m \<Longrightarrow> triple ?I (io_map_err g m)
      (\<lambda>r w. case r of Inl e \<Rightarrow> data_ok libs cfg d ?F w | Inr _ \<Rightarrow> ?I w)"
    for g :: "'x \<Rightarrow> RuleSetError" and m :: "('x + 'y) io"
    by (rule triple_conseq [OF triple_frame [OF frame_map_err]]) (auto intro: ok split: sum.splits)
  have "triple ?I (update_rule_set os libs client cfg root proxy) (\<lambda>_. data_ok libs cfg d ?F)"
    unfolding update_rule_set_def assms(2) [symmetric]
  proof (intro triple_try [where R = "\<lambda>_. ?I"] fr frame_reads, goal_cases)
    case (1 _ prev_meta prev_sha)
    show ?case
    proof (rule triple_seq [where R = "\<lambda>tmp w. tmp \<noteq> d \<and> ?I w"], goal_cases)
      case 1
      show ?case using other_paths(1) [OF assms(1)]
        by (auto simp: triple_def tmp_file_path_def io_seq_def io_ret_def random_suffix_def assms(2))
    next
      case (2 tmp)
      show ?case
      proof (cases "tmp \<noteq> d")
        case True
        let ?D = "\<lambda>info w. ?I w \<and> (info_not_modified info \<or>
            (\<exists>b. files w tmp = Some b \<and> info_sha256 info = sha256_hex libs b
              \<and> (case cfg_expected_sha256 cfg of None \<Rightarrow> True
                 | Some e \<Rightarrow> eq_ignore_ascii_case (sha256_hex libs b) e)))"
        have pre: "tmp \<noteq> d \<and> ?I w' \<Longrightarrow> ?I w'" for w' by simp
        show ?thesis
        proof (rule triple_try [where R = ?D], goal_cases)
          case 1
          show ?case
            by (intro triple_map_err triple_conseq [OF triple_download [OF True] pre])
              (auto simp: data_ok_def split: sum.splits)
        next
          case (2 info)
          have rm: "triple (?D info) (io_seq (fs_remove os tmp) (\<lambda>_. io_ret (Inr NotModified)))
              (\<lambda>_. data_ok libs cfg d ?F)"
            by (rule triple_conseq [OF triple_data_ok_frame]) (use True in \<open>auto simp: data_ok_def\<close>)
          have nm: "triple (?D info) (io_ret (Inr NotModified)) (\<lambda>_. data_ok libs cfg d ?F)"
            by (rule triple_ret) (simp add: data_ok_def)
          show ?case
          proof (cases "info_not_modified info")
            case False
            have ex: "triple (?D info) m Q" if "\<And>b. (case cfg_expected_sha256 cfg of None \<Rightarrow> True
                 | Some e \<Rightarrow> eq_ignore_ascii_case (sha256_hex libs b) e) \<Longrightarrow>
                triple (\<lambda>w. ?I w \<and> files w tmp = Some b) m Q"
              for m :: "(RuleSetError + UpdateOutcome) io" and Q
              using that False unfolding triple_def by blast
            show ?thesis
            proof (cases "case prev_sha of Some prev \<Rightarrow> eq_ignore_ascii_case prev (info_sha256 info) | None \<Rightarrow> False")
              case same: True
              show ?thesis unfolding if_not_P [OF False] if_P [OF same] by (rule rm)
            next
              case new: False
              show ?thesis unfolding if_not_P [OF False] if_not_P [OF new]
                by (rule ex) (rule update_install [OF assms True])
            qed
          qed (use nm in simp)
        qed
      qed (simp add: triple_def)
    qed
  qed
  then show ?thesis by (simp add: triple_def data_ok_def)
qed

text \<open>A concrete environment for the witnesses: nothing fails and the packages are trivial.\<close>

definition calm_os :: os where
  "calm_os = \<lparr>os_fails = (\<lambda>_. False), os_torn = (\<lambda>_. None), os_pid = 1, os_nanos = (\<lambda>_. 0), os_now = (\<lambda>_. [])\<rparr>"

definition demo_libs :: rs_libs where
  "demo_libs = \<lparr>lib_ipnet = cidr_lib, lib_sha256 = map (\<lambda>c. of_nat (byte_of c)),
     lib_meta_enc = (\<lambda>_. Some []), lib_meta_dec = (\<lambda>_. None),
     lib_bin_enc = (\<lambda>_. None), lib_bin_dec = (\<lambda>_. None)\<rparr>"

definition demo_cfg :: RuleSetConfig where
  "demo_cfg = \<lparr>cfg_name = ''cn'', cfg_type = DomainList, cfg_url = ''u'', cfg_expected_sha256 = None,
     cfg_update = None, cfg_update_on_start = False, cfg_proxy = None\<rparr>"

definition demo_client :: "string \<Rightarrow> http_client" where
  "demo_client body = \<lparr>client_build = (\<lambda>_. None), client_get = (\<lambda>_ _ _ _. Reply 200 None None (Some body))\<rparr>"

definition demo_world :: "(string \<Rightarrow> string option) \<Rightarrow> world" where
  "demo_world fs = \<lparr>files = fs, clock = 0, counter = 0, sleeps = []\<rparr>"

lemma demo_name: "plain_name (cfg_name demo_cfg)"
  by (simp add: demo_cfg_def plain_name_def)

theorem update_keeps_verified_witness:
  "let d = data_file_path ''/d/'' (cfg_name demo_cfg) (cfg_type demo_cfg);
       w' = snd (update_rule_set calm_os demo_libs (demo_client ''a.b'') demo_cfg ''/d/'' None (demo_world (\<lambda>_. None)))
   in files w' d = files (demo_world (\<lambda>_. None)) d \<or> (\<exists>b. files w' d = Some b \<and> verified demo_libs demo_cfg b)"
  unfolding Let_def by (rule update_keeps_verified [OF demo_name refl])

subsection \<open>Retries\<close>

lemma attempt_sleeps: "sleeps (snd (attempt_once os libs client n req w)) = sleeps w"
  by (auto simp: attempt_once_def Let_def io_ret_def io_try_def io_seq_def io_map_err_def fs_write_def
      fs_remove_def tick_def split: http_reply.splits option.splits)

lemma attempts_schedule:
  "\<exists>k \<le> left. sleeps (snd (download_attempts os libs client req left attempt w)) =
      sleeps w @ map (\<lambda>i. opt_retry_base_delay (req_options req) * 2 ^ i) [attempt ..< attempt + k]
    \<and> (\<forall>e. fst (download_attempts os libs client req left attempt w) = Inl e \<longrightarrow> is_retryable e \<longrightarrow> k = left)"
proof (induction left arbitrary: attempt w)
  case 0
  obtain r w1 where a: "attempt_once os libs client attempt req w = (r, w1)" by force
  then have "sleeps w1 = sleeps w" using attempt_sleeps by (metis snd_conv)
  then show ?case
    by (subst (1 2) download_attempts.simps) (auto simp: a io_seq_def io_ret_def split: sum.splits)
next
  case (Suc left)
  obtain r w1 where a: "attempt_once os libs client attempt req w = (r, w1)" by force
  have s: "sleeps w1 = sleeps w" using attempt_sleeps a by (metis snd_conv)
  show ?case
  proof (cases "\<exists>e. r = Inl e \<and> is_retryable e")
    case True
    let ?d = "opt_retry_base_delay (req_options req)"
    let ?w = "w1\<lparr>sleeps := sleeps w1 @ [?d * 2 ^ attempt]\<rparr>"
    have eq: "download_attempts os libs client req (Suc left) attempt w =
        download_attempts os libs client req left (attempt + 1) ?w"
      using True by (subst download_attempts.simps) (auto simp: a io_seq_def)
    obtain k where k: "k \<le> left"
      "sleeps (snd (download_attempts os libs client req left (attempt + 1) ?w)) =
        sleeps ?w @ map (\<lambda>i. ?d * 2 ^ i) [attempt + 1 ..< attempt + 1 + k]"
      "\<forall>e. fst (download_attempts os libs client req left (attempt + 1) ?w) = Inl e \<longrightarrow> is_retryable e \<longrightarrow> k = left"
      using Suc.IH [of "attempt + 1" ?w] by blast
    have "[attempt ..< attempt + Suc k] = attempt # [attempt + 1 ..< attempt + 1 + k]"
      using upt_conv_Cons [of attempt "attempt + Suc k"] by simp
    then have "sleeps (snd (download_attempts os libs client req (Suc left) attempt w)) =
        sleeps w @ map (\<lambda>i. ?d * 2 ^ i) [attempt ..< attempt + Suc k]"
      unfolding eq k(2) using s by simp
    with k show ?thesis unfolding eq by (intro exI [of _ "Suc k"]) auto
  next
    case False
    then have "download_attempts os libs client req (Suc left) attempt w = (r, w1)"
      by (subst download_attempts.simps) (auto simp: a io_seq_def io_ret_def split: sum.splits)
    with s False show ?thesis by (intro exI [of _ 0]) auto
  qed
qed


definition demo_req :: DownloadRequest where
  "demo_req = \<lparr>req_url = ''u'', req_proxy = None, req_dest_tmp = ''/t'', req_expected_sha256 = None,
     req_etag = None, req_last_modified = None, req_options = DownloadOptions_default\<rparr>"


subsection \<open>Updates that do not repair\<close>

lemma hex_digit_byte: "n < 16 \<Longrightarrow> byte_of (hex_digit n) = (if n < 10 then 48 + n else 87 + n)"
  by (simp add: hex_digit_def byte_of_def)

lemma sha256_hex_bytes: "c \<in> set (sha256_hex libs b) \<Longrightarrow> 48 \<le> byte_of c \<and> byte_of c \<le> 102 \<and> \<not> (58 \<le> byte_of c \<and> byte_of c < 97)"
proof -
  have d: "48 \<le> byte_of (hex_digit n) \<and> byte_of (hex_digit n) \<le> 102
      \<and> \<not> (58 \<le> byte_of (hex_digit n) \<and> byte_of (hex_digit n) < 97)" if "n < 16" for n
    using hex_digit_byte [OF that] that by (cases "n < 10") auto
  assume "c \<in> set (sha256_hex libs b)"
  then obtain x :: u8 where x: "c = hex_digit (unat x div 16) \<or> c = hex_digit (unat x mod 16)"
    by (auto simp: sha256_hex_def)
  have "unat x < 256" using unsigned_less [of x, where ?'a = nat] by simp
  then have "unat x div 16 < 16" "unat x mod 16 < 16" by auto
  with d x show ?thesis by metis
qed

lemma is_ascii_utf8: "is_ascii s \<Longrightarrow> utf8_valid s"
  by (induction s) (auto simp: is_ascii_def utf8_tail_def)

lemma trim_newline:
  assumes "is_ascii s" "\<And>c. c \<in> set s \<Longrightarrow> c \<notin> ascii_ws"
  shows "trim (s @ [CHR 0x0A]) = s"
proof (cases "s = []")
  case True
  moreover have "trim [CHR 0x0A] = []" by code_simp
  ultimately show ?thesis by simp
next
  case False
  with assms show ?thesis
    using trim_pad [of s "[]" "[CHR 0x0A]"] by (simp add: ascii_ws_def)
qed

lemma recorded_checksum:
  assumes "\<not> os_fails os (clock w)"
    and "files w (checksum_file_path root name) = Some (sha256_hex libs b @ [CHR 0x0A])"
  shows "read_checksum os root name w = (Inr (Some (sha256_hex libs b)), tick w)"
proof -
  let ?s = "sha256_hex libs b"
  have "is_ascii ?s" using sha256_hex_bytes [of _ libs b] by (fastforce simp: is_ascii_def)
  moreover have "c \<notin> ascii_ws" if "c \<in> set ?s" for c
    using sha256_hex_bytes [OF that] by (auto simp: ascii_ws_def byte_of_def)
  ultimately have "trim (?s @ [CHR 0x0A]) = ?s" by (rule trim_newline)
  moreover have "to_ascii_lowercase ?s = ?s"
    unfolding to_ascii_lowercase_def using sha256_hex_bytes [of _ libs b]
    by (intro map_idI) (fastforce simp: ascii_lower_def)
  moreover have "utf8_valid (?s @ [CHR 0x0A])"
    using \<open>is_ascii ?s\<close> by (intro is_ascii_utf8) (simp add: is_ascii_def byte_of_def)
  ultimately show ?thesis using assms by (simp add: read_checksum_def io_seq_def io_ret_def fs_read_def Let_def)
qed


lemma files_tick [simp]: "files (tick w) = files w" "clock (tick w) = clock w + 1" "files (w\<lparr>counter := n\<rparr>) = files w"
  by (simp_all add: tick_def)

lemma calm_ensure_dirs:
  assumes "os_fails os = (\<lambda>_. False)"
  shows "\<exists>w'. ensure_dirs os root w = (Inr (), w') \<and> files w' = files w"
proof -
  have "\<exists>w'. create_dirs os ds w = (Inr (), w') \<and> files w' = files w" for ds
    using assms by (induction ds arbitrary: w)
      (auto simp: io_ret_def io_try_def io_map_err_def fs_touch_def, metis files_tick(1))
  then show ?thesis unfolding ensure_dirs_def by blast
qed

lemma calm_missing_meta:
  assumes "os_fails os = (\<lambda>_. False)" "files w (meta_file_path root name) = None"
  shows "read_meta os libs root name w = (Inr None, tick w)"
  using assms by (simp add: read_meta_def Let_def io_seq_def io_ret_def fs_read_def)

text \<open>
  an update compares the download with the recorded checksum and never with the data file, so
  when the data file is missing or damaged but its checksum file is intact, downloading the very
  same content reports that nothing changed and the data file is not restored.
\<close>

theorem update_does_not_repair:
  assumes "os_fails os = (\<lambda>_. False)" "plain_name (cfg_name cfg)" "cfg_expected_sha256 cfg = None"
    and "d = data_file_path root (cfg_name cfg) (cfg_type cfg)"
    and "files w (meta_file_path root (cfg_name cfg)) = None"
    and "files w (checksum_file_path root (cfg_name cfg)) = Some (sha256_hex libs b @ [CHR 0x0A])"
    and "client_build client proxy = None"
    and "client_get client 0 (cfg_url cfg) None None = Reply 200 et lm (Some b)"
  shows "fst (update_rule_set os libs client cfg root proxy w) = Inr NotModified
    \<and> files (snd (update_rule_set os libs client cfg root proxy w)) d = files w d"
proof -
  obtain w1 where w1: "ensure_dirs os root w = (Inr (), w1)" "files w1 = files w"
    using calm_ensure_dirs [OF assms(1)] by blast
  have m: "read_meta os libs root (cfg_name cfg) w1 = (Inr None, tick w1)"
    using calm_missing_meta [OF assms(1)] assms(5) w1(2) by simp
  have c: "read_checksum os root (cfg_name cfg) (tick w1) = (Inr (Some (sha256_hex libs b)), tick (tick w1))"
    by (rule recorded_checksum) (use assms(1,6) w1(2) in simp_all)
  obtain tmp w2 where t: "tmp_file_path os root (cfg_name cfg) (tick (tick w1)) = (tmp, w2)" "files w2 = files w"
      "tmp \<noteq> d"
    using w1(2) other_paths(1) [OF assms(2)]
    by (simp add: tmp_file_path_def io_seq_def io_ret_def random_suffix_def assms(4))
  let ?info = "\<lparr>info_size = of_nat (length b), info_sha256 = sha256_hex libs b, info_etag = et,
    info_last_modified = lm, info_not_modified = False\<rparr>"
  have a: "download_with_meta os libs client (cfg_url cfg) proxy tmp None None None DownloadOptions_default w2 =
      (Inr ?info, tick (w2\<lparr>files := (files w2)(tmp \<mapsto> b)\<rparr>))"
    using assms(1,7,8)
    by (simp add: download_with_meta_def download_impl_def download_attempts.simps attempt_once_def
        io_seq_def io_try_def io_map_err_def io_ret_def fs_write_def Let_def)
  show ?thesis
    using w1 m c t a assms(1,3)
    by (simp add: update_rule_set_def io_try_def io_map_err_def io_seq_def io_ret_def
        eq_ignore_ascii_case_def fs_remove_def)
qed

theorem update_does_not_repair_witness:
  "let w = demo_world [checksum_file_path ''/d'' ''cn'' \<mapsto> sha256_hex demo_libs ''a.b'' @ [CHR 0x0A]];
       r = update_rule_set calm_os demo_libs (demo_client ''a.b'') demo_cfg ''/d'' None w
   in fst r = Inr NotModified
     \<and> files (snd r) (data_file_path ''/d'' ''cn'' DomainList) = files w (data_file_path ''/d'' ''cn'' DomainList)"
proof -
  let ?w = "demo_world [checksum_file_path ''/d'' ''cn'' \<mapsto> sha256_hex demo_libs ''a.b'' @ [CHR 0x0A]]"
  have c: "cfg_name demo_cfg = ''cn''" "cfg_type demo_cfg = DomainList" "cfg_expected_sha256 demo_cfg = None"
    by (simp_all add: demo_cfg_def)
  have "meta_file_path ''/d'' ''cn'' \<noteq> checksum_file_path ''/d'' ''cn''" by code_simp
  then have "fst (update_rule_set calm_os demo_libs (demo_client ''a.b'') demo_cfg ''/d'' None ?w) = Inr NotModified
      \<and> files (snd (update_rule_set calm_os demo_libs (demo_client ''a.b'') demo_cfg ''/d'' None ?w))
          (data_file_path ''/d'' ''cn'' DomainList) = files ?w (data_file_path ''/d'' ''cn'' DomainList)"
    using c demo_name
    by (intro update_does_not_repair [where b = "''a.b''" and et = None and lm = None])
      (simp_all add: calm_os_def demo_client_def demo_world_def)
  then show ?thesis by (simp add: Let_def)
qed

subsection \<open>The binary cache\<close>

text \<open>
  the binary cache is keyed by name and source checksum only: once a rule set has been cached
  under one type, loading the same bytes under the other type returns the data of the old type.
\<close>

theorem binary_cache_ignores_type:
  assumes "os_fails os = (\<lambda>_. False)"
    and "lib_bin_enc libs (sha256_hex libs b, data) = Some enc"
    and "lib_bin_dec libs enc = Some (sha256_hex libs b, data)"
    and "files w (rule_set_cache_path run_dir name) = None"
    and "parse_rule_set_data libs ty b = Ret (Inr data)"
  shows "let w' = snd (load_rule_set_data_cached os libs run_dir ty name (sha256_hex libs b) b w)
    in fst (load_rule_set_data_cached os libs run_dir ty' name (sha256_hex libs b) b w') = Ret (Inr data)"
  using assms
  by (simp add: load_rule_set_data_cached_def load_rule_set_cache_def save_rule_set_cache_def
      io_seq_def io_ret_def fs_read_def fs_touch_def fs_write_def Let_def)

definition tagged_libs :: rs_libs where
  "tagged_libs = demo_libs\<lparr>lib_bin_enc := (\<lambda>_. Some []), lib_bin_dec := (\<lambda>_. Some ([], RsDomainList []))\<rparr>"

theorem binary_cache_ignores_type_witness:
  "let w' = snd (load_rule_set_data_cached calm_os tagged_libs ''/run'' DomainList ''cn'' (sha256_hex tagged_libs []) []
        (demo_world (\<lambda>_. None)))
   in fst (load_rule_set_data_cached calm_os tagged_libs ''/run'' IpList ''cn'' (sha256_hex tagged_libs []) [] w')
     = Ret (Inr (RsDomainList []))"
  by (rule binary_cache_ignores_type [where enc = "[]"])
    (simp_all add: calm_os_def tagged_libs_def demo_libs_def demo_world_def sha256_hex_def
      parse_rule_set_data_def parse_domain_list_def lines_def)

subsection \<open>An update is what the next scan loads\<close>

lemma io_try_Inr: "io_try m f w = (Inr y, w') \<longleftrightarrow> (\<exists>x w1. m w = (Inr x, w1) \<and> f x w1 = (Inr y, w'))"
  by (auto simp: io_try_def split: prod.splits sum.splits)

lemma io_map_err_Inr: "io_map_err g m w = (Inr x, w') \<longleftrightarrow> m w = (Inr x, w')"
  by (auto simp: io_map_err_def split: prod.splits sum.splits)

lemma io_seq_eq: "io_seq m f w = (y, w') \<longleftrightarrow> (\<exists>x w1. m w = (x, w1) \<and> f x w1 = (y, w'))"
  by (auto simp: io_seq_def split: prod.splits)

lemma io_ret_eq: "io_ret x w = (y, w') \<longleftrightarrow> y = x \<and> w' = w"
  by (auto simp: io_ret_def)

lemmas io_success = io_try_Inr io_map_err_Inr io_seq_eq io_ret_eq

lemma atomic_write_success:
  "atomic_write_bytes os path b w = (Inr (), w') \<Longrightarrow> files w' path = Some b"
  by (auto simp: atomic_write_bytes_def io_success Let_def fs_write_def fs_rename_def fs_touch_def
      random_suffix_def split: if_splits option.splits)

lemma atomic_replace_success:
  "atomic_replace os tmp d w = (Inr (), w') \<Longrightarrow> files w' d = files w tmp"
  by (auto simp: atomic_replace_def io_success fs_open_def fs_rename_def fs_touch_def
      split: if_splits option.splits sum.splits)

lemma meta_checksum_paths:
  assumes "plain_name name"
  shows "meta_file_path root name \<noteq> checksum_file_path root name"
    and "with_extension (meta_file_path root name) e \<noteq> checksum_file_path root name"
proof -
  show "meta_file_path root name \<noteq> checksum_file_path root name" by (simp add: rule_set_paths [OF assms])
  have "slash \<notin> set (name @ ''.json'')" using assms by (auto simp: plain_name_def)
  from with_extension_eq [OF this, of "dir_prefix root @ ''.meta''" e]
  show "with_extension (meta_file_path root name) e \<noteq> checksum_file_path root name"
    by (simp add: rule_set_paths [OF assms])
qed

lemma write_meta_frame:
  assumes "plain_name name"
  shows "frame (checksum_file_path root name) (write_meta os libs root name m)"
    and "frame (data_file_path root name ty) (write_meta os libs root name m)"
    and "frame (data_file_path root name ty) (write_checksum os root name sha)"
  using meta_checksum_paths [OF assms] other_paths [OF assms]
  by (auto simp: write_meta_def write_checksum_def split: option.splits intro!: frame_atomic_write)

lemma update_installs:
  assumes "plain_name (cfg_name cfg)"
    and "update_rule_set os libs client cfg root proxy w = (Inr (Updated data), w')"
  obtains b m j where "files w' (data_file_path root (cfg_name cfg) (cfg_type cfg)) = Some b"
    "parse_rule_set_data libs (cfg_type cfg) b = Ret (Inr data)"
    "files w' (checksum_file_path root (cfg_name cfg)) = Some (sha256_hex libs b @ [CHR 0x0A])"
    "files w' (meta_file_path root (cfg_name cfg)) = Some j" "lib_meta_enc libs m = Some j"
proof -
  let ?n = "cfg_name cfg"
  let ?d = "data_file_path root ?n (cfg_type cfg)"
  from assms(2) obtain tmp w1 and meta :: "RuleSetMeta option" and info w2 where
    dl: "download_with_meta os libs client (cfg_url cfg) proxy tmp (Option.bind meta meta_etag)
        (Option.bind meta meta_last_modified) (cfg_expected_sha256 cfg) DownloadOptions_default w1 = (Inr info, w2)"
    and nm: "\<not> info_not_modified info"
    and inst: "install_download os libs cfg root tmp info w2 = (Inr (Updated data), w')"
    unfolding update_rule_set_def
    by (auto simp: io_success split: if_splits)
  from inst obtain b w3 where rd: "fs_read os tmp w2 = (Inr b, w3)"
    and cont: "(case parse_rule_set_data libs (cfg_type cfg) b of
       Panic \<Rightarrow> io_seq (fs_remove os tmp) (\<lambda>_. io_ret (Inl (ErrStore Corrupt)))
     | Ret (Inl e) \<Rightarrow> io_seq (fs_remove os tmp) (\<lambda>_. io_ret (Inl e))
     | Ret (Inr parsed) \<Rightarrow>
         io_try (io_map_err ErrStore (atomic_replace os tmp ?d)) (\<lambda>_.
         io_try (io_map_err ErrStore (write_checksum os root (cfg_name cfg) (info_sha256 info))) (\<lambda>_.
         io_seq (\<lambda>w. (os_now os (clock w), w)) (\<lambda>now.
         io_try (io_map_err ErrStore (write_meta os libs root (cfg_name cfg)
                   \<lparr>meta_name = cfg_name cfg, meta_url = cfg_url cfg, meta_type = cfg_type cfg,
                    meta_last_updated = Some now, meta_etag = info_etag info,
                    meta_last_modified = info_last_modified info,
                    meta_sha256 = Some (info_sha256 info), meta_size = info_size info,
                    meta_state = Ready\<rparr>)) (\<lambda>_.
         io_ret (Inr (Updated parsed))))))) w3 = (Inr (Updated data), w')"
    unfolding install_download_def io_try_Inr io_map_err_Inr by blast
  then obtain w4 w5 m where p: "parse_rule_set_data libs (cfg_type cfg) b = Ret (Inr data)"
    and rp: "atomic_replace os tmp ?d w3 = (Inr (), w4)"
    and ck: "write_checksum os root ?n (info_sha256 info) w4 = (Inr (), w5)"
    and mt: "write_meta os libs root ?n m w5 = (Inr (), w')"
    by (auto simp: io_success split: run.splits sum.splits)
  have tmp: "files w2 tmp = Some b" "files w3 = files w2"
    using rd by (auto simp: fs_read_def split: if_splits option.splits)
  have sha: "info_sha256 info = sha256_hex libs b"
    using triple_download [of tmp "tmp @ ''x''" "files w1 (tmp @ ''x'')" os libs client "cfg_url cfg" proxy
        "Option.bind meta meta_etag" "Option.bind meta meta_last_modified" "cfg_expected_sha256 cfg"
        DownloadOptions_default] dl nm tmp(1)
    unfolding triple_def by (metis (no_types, lifting) append_self_conv fst_conv list.distinct(1) option.inject snd_conv)
  note fr = write_meta_frame [OF assms(1)]
  have d4: "files w4 ?d = Some b" using atomic_replace_success [OF rp] tmp by simp
  then have d: "files w' ?d = Some b"
    using frame_files [OF fr(3) ck] frame_files [OF fr(2) mt] by simp
  have "files w5 (checksum_file_path root ?n) = Some (sha256_hex libs b @ [CHR 0x0A])"
    using atomic_write_success [OF ck [unfolded write_checksum_def]] sha by simp
  then have c: "files w' (checksum_file_path root ?n) = Some (sha256_hex libs b @ [CHR 0x0A])"
    using frame_files [OF fr(1) mt] by simp
  from mt obtain j where j: "lib_meta_enc libs m = Some j"
    by (auto simp: write_meta_def io_ret_def split: option.splits)
  with mt have "files w' (meta_file_path root ?n) = Some j"
    by (auto simp: write_meta_def intro: atomic_write_success)
  with d p c j that show thesis by blast
qed

text \<open>
  C16: an update that reports success is what the next start loads: when nothing fails and no binary
  cache entry is readable, scanning the entry finds the new data undamaged.
\<close>

theorem update_then_scan:
  assumes "plain_name (cfg_name cfg)"
    and "update_rule_set os libs client cfg root proxy w = (Inr (Updated data), w')"
    and "\<And>m j. lib_meta_enc libs m = Some j \<Longrightarrow> lib_meta_dec libs j \<noteq> None"
    and "os_fails os' = (\<lambda>_. False)"
    and "\<And>bytes. files w' (rule_set_cache_path run_dir (cfg_name cfg)) = Some bytes \<Longrightarrow> lib_bin_dec libs bytes = None"
  shows "\<exists>s. fst (scan_entry os' libs run_dir root cfg w') = Inr s \<and> sc_data s = Some data \<and> \<not> sc_damaged s"
proof -
  obtain b m j where f: "files w' (data_file_path root (cfg_name cfg) (cfg_type cfg)) = Some b"
      "parse_rule_set_data libs (cfg_type cfg) b = Ret (Inr data)"
      "files w' (checksum_file_path root (cfg_name cfg)) = Some (sha256_hex libs b @ [CHR 0x0A])"
      "files w' (meta_file_path root (cfg_name cfg)) = Some j" "lib_meta_enc libs m = Some j"
    by (rule update_installs [OF assms(1,2)])
  obtain mm where "lib_meta_dec libs j = Some mm" using assms(3) [OF f(5)] by blast
  then have rm: "read_meta os' libs root (cfg_name cfg) w' = (Inr (Some mm), tick w')"
    using f(4) assms(4) by (simp add: read_meta_def Let_def io_seq_def io_ret_def fs_read_def)
  have rc: "read_checksum os' root (cfg_name cfg) (tick w') = (Inr (Some (sha256_hex libs b)), tick (tick w'))"
    by (rule recorded_checksum) (use assms(4) f(3) in simp_all)
  have "fst (load_rule_set_data_cached os' libs run_dir (cfg_type cfg) (cfg_name cfg)
      (sha256_hex libs b) b (tick (tick (tick w')))) = Ret (Inr data)"
    using f(2) assms(4,5)
    by (cases "files w' (rule_set_cache_path run_dir (cfg_name cfg))")
      (simp_all add: load_rule_set_data_cached_def load_rule_set_cache_def io_seq_def io_ret_def fs_read_def
        case_prod_beta)
  then obtain w2 where ld: "load_rule_set_data_cached os' libs run_dir (cfg_type cfg) (cfg_name cfg)
      (sha256_hex libs b) b (tick (tick (tick w'))) = (Ret (Inr data), w2)" by (metis prod.collapse)
  show ?thesis
    using rm rc ld f(1) assms(4)
    by (simp add: scan_entry_def Let_def io_try_def io_seq_def io_ret_def fs_read_def eq_ignore_ascii_case_def)
qed


definition demo_meta :: RuleSetMeta where
  "demo_meta = \<lparr>meta_name = [], meta_url = [], meta_type = DomainList, meta_last_updated = None,
     meta_etag = None, meta_last_modified = None, meta_sha256 = None, meta_size = 0, meta_state = Ready\<rparr>"

definition json_libs :: rs_libs where
  "json_libs = demo_libs\<lparr>lib_meta_dec := (\<lambda>_. Some demo_meta)\<rparr>"

lemma calm_atomic_write:
  assumes "os_fails os = (\<lambda>_. False)"
  shows "\<exists>w'. atomic_write_bytes os path b w = (Inr (), w')"
  using assms
  by (simp add: atomic_write_bytes_def io_try_def io_map_err_def io_seq_def fs_touch_def fs_write_def
      fs_rename_def random_suffix_def Let_def)

lemma calm_atomic_replace:
  assumes "os_fails os = (\<lambda>_. False)" "files w tmp = Some b"
  shows "\<exists>w'. atomic_replace os tmp d w = (Inr (), w')"
  using assms
  by (simp add: atomic_replace_def io_try_def io_map_err_def io_seq_def io_ret_def fs_touch_def fs_open_def
      fs_rename_def)

text \<open>With no faults and no record of an earlier download, a parsable reply is installed.\<close>

lemma update_succeeds:
  assumes calm: "os_fails os = (\<lambda>_. False)"
    and new: "files w (meta_file_path root (cfg_name cfg)) = None"
      "files w (checksum_file_path root (cfg_name cfg)) = None" "cfg_expected_sha256 cfg = None"
    and net: "client_build client proxy = None"
      "client_get client 0 (cfg_url cfg) None None = Reply 200 et lm (Some b)"
    and parse: "parse_rule_set_data libs (cfg_type cfg) b = Ret (Inr data)"
    and enc: "\<And>m. lib_meta_enc libs m \<noteq> None"
  shows "fst (update_rule_set os libs client cfg root proxy w) = Inr (Updated data)"
proof -
  obtain w1 where w1: "ensure_dirs os root w = (Inr (), w1)" "files w1 = files w"
    using calm_ensure_dirs [OF calm] by blast
  have m: "read_meta os libs root (cfg_name cfg) w1 = (Inr None, tick w1)"
    using calm_missing_meta [OF calm] new(1) w1(2) by simp
  have c: "read_checksum os root (cfg_name cfg) (tick w1) = (Inr None, tick (tick w1))"
    using calm new(2) w1(2) by (simp add: read_checksum_def Let_def io_seq_def io_ret_def fs_read_def)
  obtain tmp w2 where t: "tmp_file_path os root (cfg_name cfg) (tick (tick w1)) = (tmp, w2)"
    by (meson surj_pair)
  let ?info = "\<lparr>info_size = of_nat (length b), info_sha256 = sha256_hex libs b, info_etag = et,
    info_last_modified = lm, info_not_modified = False\<rparr>"
  let ?w3 = "tick (w2\<lparr>files := (files w2)(tmp \<mapsto> b)\<rparr>)"
  have a: "download_with_meta os libs client (cfg_url cfg) proxy tmp None None None DownloadOptions_default w2 =
      (Inr ?info, ?w3)"
    using calm net
    by (simp add: download_with_meta_def download_impl_def download_attempts.simps attempt_once_def
        io_seq_def io_try_def io_map_err_def io_ret_def fs_write_def Let_def)
  obtain w4 where r: "atomic_replace os tmp (data_file_path root (cfg_name cfg) (cfg_type cfg)) (tick ?w3) = (Inr (), w4)"
    using calm_atomic_replace [OF calm, of "tick ?w3" tmp b] by auto
  have "\<exists>w'. install_download os libs cfg root tmp ?info ?w3 = (Inr (Updated data), w')"
  proof -
    obtain w5 where k: "write_checksum os root (cfg_name cfg) (sha256_hex libs b) w4 = (Inr (), w5)"
      using calm_atomic_write [OF calm] unfolding write_checksum_def by blast
    have "\<exists>w'. write_meta os libs root (cfg_name cfg) m w5 = (Inr (), w')" for m
      using calm_atomic_write [OF calm] enc [of m] by (auto simp: write_meta_def)
    with r k parse calm show ?thesis
      by (auto simp: install_download_def io_success fs_read_def)
  qed
  then show ?thesis
    using w1 m c t a new(3)
    by (auto simp: update_rule_set_def io_try_def io_map_err_def io_seq_def)
qed

theorem update_then_scan_witness:
  "\<exists>s. fst (scan_entry calm_os json_libs ''/run'' ''/d'' demo_cfg
        (snd (update_rule_set calm_os json_libs (demo_client []) demo_cfg ''/d'' None (demo_world (\<lambda>_. None))))) = Inr s
     \<and> sc_data s = Some (RsDomainList []) \<and> \<not> sc_damaged s"
proof (rule update_then_scan [OF demo_name])
  let ?r = "update_rule_set calm_os json_libs (demo_client []) demo_cfg ''/d'' None (demo_world (\<lambda>_. None))"
  have "fst ?r = Inr (Updated (RsDomainList []))"
    by (rule update_succeeds [where b = "[]" and et = None and lm = None])
      (simp_all add: calm_os_def demo_world_def demo_cfg_def demo_client_def json_libs_def demo_libs_def
        parse_rule_set_data_def parse_domain_list_def lines_def)
  then show "?r = (Inr (Updated (RsDomainList [])), snd ?r)" by (metis prod.collapse)
qed (simp_all add: json_libs_def demo_libs_def calm_os_def)

end
