(* ===== verification/Match_Set.thy ===== *)
theory Match_Set
  imports Rule_Cache
begin

text \<open>
  The match entries shared with the kernel program, \<^verbatim>\<open>control/src/net/ebpf.rs\<close>: a sixteen-byte
  union, five scalar fields, and the constants of types and outbounds.  The union is kept as its
  bytes, little-endian as on the supported hosts; bytes a variant does not cover are zero.
\<close>

section \<open>Little-endian bytes\<close>

fun le_bytes :: "nat \<Rightarrow> nat \<Rightarrow> u8 list" where
  "le_bytes 0 k = []"
| "le_bytes (Suc n) k = of_nat (k mod 256) # le_bytes n (k div 256)"

fun le_value :: "u8 list \<Rightarrow> nat" where
  "le_value [] = 0"
| "le_value (b # bs) = unat b + 256 * le_value bs"

lemma length_le_bytes [simp]: "length (le_bytes n k) = n"
  by (induction n arbitrary: k) auto

lemma unat_byte: "unat (of_nat (k mod 256) :: u8) = k mod 256"
  by (simp add: unsigned_of_nat take_bit_nat_eq_self)

lemma le_value_le_bytes: "k < 256 ^ n \<Longrightarrow> le_value (le_bytes n k) = k"
proof (induction n arbitrary: k)
  case (Suc n)
  then have "k div 256 < 256 ^ n" by (simp add: less_mult_imp_div_less mult.commute)
  with Suc.IH [of "k div 256"] show ?case by (simp add: unat_byte)
qed simp

lemma le_value_less: "le_value bs < 256 ^ length bs"
proof (induction bs)
  case (Cons b bs)
  have "unat b < 256" using unsigned_less [of b, where ?'a = nat] by simp
  moreover have "256 * le_value bs + 256 \<le> 256 * 256 ^ length bs"
    using Cons mult_le_mono2 [of "le_value bs + 1" "256 ^ length bs" 256] by simp
  ultimately show ?case by simp
qed simp

section \<open>Match entries\<close>

type_synonym MatchSetValue = "u8 list"

record MatchSet =
  ms_value :: MatchSetValue
  ms_not :: u8
  ms_type :: u8
  ms_outbound :: u8
  ms_must :: u8
  ms_mark :: u32

definition MatchSetValue_zeroed :: MatchSetValue where
  "MatchSetValue_zeroed = replicate 16 0"

definition MatchSet_zeroed :: MatchSet where
  "MatchSet_zeroed = \<lparr>ms_value = MatchSetValue_zeroed, ms_not = 0, ms_type = 0, ms_outbound = 0,
     ms_must = 0, ms_mark = 0\<rparr>"

text \<open>Writing and reading the variants of the union.\<close>

definition put_index :: "u32 \<Rightarrow> MatchSetValue \<Rightarrow> MatchSetValue" where
  "put_index x v = le_bytes 4 (unat x) @ drop 4 v"

definition get_index :: "MatchSetValue \<Rightarrow> u32" where
  "get_index v = of_nat (le_value (take 4 v))"

definition put_port_range :: "u16 \<Rightarrow> u16 \<Rightarrow> MatchSetValue \<Rightarrow> MatchSetValue" where
  "put_port_range s e v = le_bytes 2 (unat s) @ le_bytes 2 (unat e) @ drop 4 v"

definition get_port_start :: "MatchSetValue \<Rightarrow> u16" where
  "get_port_start v = of_nat (le_value (take 2 v))"

definition get_port_end :: "MatchSetValue \<Rightarrow> u16" where
  "get_port_end v = of_nat (le_value (take 2 (drop 2 v)))"

text \<open>The single-byte variants \<^verbatim>\<open>l4proto_type\<close>, \<^verbatim>\<open>ip_version\<close> and \<^verbatim>\<open>dscp\<close>.\<close>

definition put_byte :: "u8 \<Rightarrow> MatchSetValue \<Rightarrow> MatchSetValue" where
  "put_byte b v = b # drop 1 v"

definition get_byte :: "MatchSetValue \<Rightarrow> u8" where
  "get_byte v = hd v"

text \<open>The name variant: at most sixteen bytes, padded with zeros.\<close>

definition comm_bytes :: "string \<Rightarrow> MatchSetValue" where
  "comm_bytes s =
     (let len = min (length s) 16
      in map (\<lambda>c. of_nat (byte_of c)) (take len s) @ replicate (16 - len) 0)"

definition get_pname :: "MatchSetValue \<Rightarrow> string" where
  "get_pname v = map (\<lambda>b. char_of (unat b)) v"

abbreviation "MT_DOMAIN_SET \<equiv> (0 :: u8)"
abbreviation "MT_IP_SET \<equiv> (1 :: u8)"
abbreviation "MT_SOURCE_IP_SET \<equiv> (2 :: u8)"
abbreviation "MT_PORT \<equiv> (3 :: u8)"
abbreviation "MT_SOURCE_PORT \<equiv> (4 :: u8)"
abbreviation "MT_L4_PROTO \<equiv> (5 :: u8)"
abbreviation "MT_IP_VERSION \<equiv> (6 :: u8)"
abbreviation "MT_MAC \<equiv> (7 :: u8)"
abbreviation "MT_PROCESS_NAME \<equiv> (8 :: u8)"
abbreviation "MT_DSCP \<equiv> (9 :: u8)"
abbreviation "MT_FALLBACK \<equiv> (10 :: u8)"
abbreviation "MT_MUST_RULES \<equiv> (11 :: u8)"
abbreviation "MT_UPSTREAM \<equiv> (12 :: u8)"
abbreviation "MT_QTYPE \<equiv> (13 :: u8)"

abbreviation "OB_DIRECT \<equiv> (0 :: u8)"
abbreviation "OB_BLOCK \<equiv> (1 :: u8)"
abbreviation "OB_MUST_RULES \<equiv> (252 :: u8)"
abbreviation "OB_CONTROL_PLANE_ROUTING \<equiv> (253 :: u8)"
abbreviation "OB_LOGICAL_OR \<equiv> (254 :: u8)"
abbreviation "OB_LOGICAL_AND \<equiv> (255 :: u8)"
abbreviation "OB_LOGICAL_MASK \<equiv> (254 :: u8)"

text \<open>The bytes written to the kernel map: the \<^verbatim>\<open>repr(C)\<close> layout of the entry, 24 bytes.\<close>

definition MatchSet_bytes :: "MatchSet \<Rightarrow> u8 list" where
  "MatchSet_bytes ms =
     ms_value ms @ [ms_not ms, ms_type ms, ms_outbound ms, ms_must ms] @ le_bytes 4 (unat (ms_mark ms))"

definition match_sets_to_bytes :: "MatchSet list \<Rightarrow> u8 list list" where
  "match_sets_to_bytes mss = map MatchSet_bytes mss"

section \<open>LPM keys\<close>

record LpmKey =
  lpm_prefixlen :: u32
  lpm_data :: "u8 list"

record CidrEntry =
  ce_ip :: "u8 list"
  ce_prefix_len :: u8
  ce_pad :: "u8 list"

text \<open>\<^verbatim>\<open>octets()\<close>: network byte order.\<close>

definition octets4 :: "u32 \<Rightarrow> u8 list" where
  "octets4 a = rev (le_bytes 4 (unat a))"

definition octets6 :: "u128 \<Rightarrow> u8 list" where
  "octets6 a = rev (le_bytes 16 (unat a))"

definition mapped_bytes :: "u32 \<Rightarrow> u8 list" where
  "mapped_bytes a = replicate 10 0 @ [255, 255] @ octets4 a"

definition cidrs_to_lpm_entries :: "IpNet list \<Rightarrow> (LpmKey \<times> u32) list" where
  "cidrs_to_lpm_entries cidrs =
     map (\<lambda>cidr. case cidr of
            NetV4 a p \<Rightarrow> (\<lparr>lpm_prefixlen = of_nat p + 96, lpm_data = mapped_bytes a\<rparr>, 1)
          | NetV6 a p \<Rightarrow> (\<lparr>lpm_prefixlen = of_nat p, lpm_data = octets6 a\<rparr>, 1)) cidrs"

definition cidrs_to_cidr_entries :: "IpNet list \<Rightarrow> (u32 \<times> CidrEntry) list" where
  "cidrs_to_cidr_entries cidrs =
     map (\<lambda>(i, cidr). case cidr of
            NetV4 a p \<Rightarrow> (of_nat i, \<lparr>ce_ip = mapped_bytes a, ce_prefix_len = of_nat p + 96, ce_pad = replicate 7 0\<rparr>)
          | NetV6 a p \<Rightarrow> (of_nat i, \<lparr>ce_ip = octets6 a, ce_prefix_len = of_nat p, ce_pad = replicate 7 0\<rparr>))
       (enumerate 0 cidrs)"

section \<open>Reading back what was written\<close>

definition ms_wf :: "MatchSet \<Rightarrow> bool" where
  "ms_wf ms \<longleftrightarrow> length (ms_value ms) = 16"

lemma unat_lt: "unat (x :: 'a::len word) < 2 ^ LENGTH('a)"
  by (rule unsigned_less)

lemma put_get_index [simp]: "get_index (put_index x v) = x"
  using unat_lt [of x] by (simp add: get_index_def put_index_def le_value_le_bytes)

lemma put_get_ports [simp]:
  "get_port_start (put_port_range s e v) = s" "get_port_end (put_port_range s e v) = e"
  using unat_lt [of s] unat_lt [of e]
  by (simp_all add: get_port_start_def get_port_end_def put_port_range_def le_value_le_bytes)

lemma put_get_byte [simp]: "get_byte (put_byte b v) = b"
  by (simp add: get_byte_def put_byte_def)

lemma get_pname_comm:
  "get_pname (comm_bytes s) = take 16 s @ replicate (16 - length s) (CHR 0x00)"
proof -
  have "char_of (unat (of_nat (byte_of c) :: u8)) = c" for c
    using byte_of_less [of c] by (simp add: unsigned_of_nat take_bit_nat_eq_self byte_of_def)
  then have "map ((\<lambda>b. char_of (unat b)) \<circ> (\<lambda>c. of_nat (byte_of c) :: u8)) xs = xs" for xs
    by (simp add: map_idI)
  moreover have "char_of (0 :: nat) = CHR 0x00" by code_simp
  ultimately show ?thesis
    by (simp add: get_pname_def comm_bytes_def Let_def min_def)
qed

lemma length_values [simp]:
  "length MatchSetValue_zeroed = 16" "length v = 16 \<Longrightarrow> length (put_index x v) = 16"
  "length v = 16 \<Longrightarrow> length (put_port_range s e v) = 16" "length v = 16 \<Longrightarrow> length (put_byte b v) = 16"
  "length (comm_bytes n) = 16"
  by (simp_all add: MatchSetValue_zeroed_def put_index_def put_port_range_def put_byte_def comm_bytes_def Let_def)

end
