(* ===== verification/Routing_IR.thy ===== *)
theory Routing_IR
  imports Match_Set
begin

text \<open>
  Parsing of routing rules into the intermediate representation, the first part of
  \<^verbatim>\<open>control/src/routing/matcher.rs\<close>: functions, outbound actions, rules and programs.  The loops
  of the source run over characters; every character they test is ASCII, so the model runs over
  the bytes.
\<close>

section \<open>Errors\<close>

datatype RouteError =
  EmptyFunction
| ExpectedOpen string
| ExpectedClose string
| EmptyProxy
| BadMark string
| UnexpectedParam string
| MissingGroup
| UnknownOutbound string
| UnknownFunction string
| BadPort string
| BadProto string
| BadVersion string
| BadDomainKey string
| BadDscp string
| BadMac string
| BadCidr string
| RuleSetDataMissing string
| CapacityExceeded

section \<open>Functions\<close>

record Function =
  fn_name :: string
  fn_not :: bool
  fn_params :: "string list"

text \<open>Splitting on commas outside parentheses; \<open>current\<close> is the part being read.\<close>

fun comma_loop :: "string list \<Rightarrow> string \<Rightarrow> nat \<Rightarrow> string \<Rightarrow> string list" where
  "comma_loop parts current depth [] =
     (let t = trim current in if t = [] then parts else parts @ [t])"
| "comma_loop parts current depth (ch # cs) =
     (if ch = CHR ''('' then comma_loop parts (current @ [ch]) (depth + 1) cs
      else if ch = CHR '')'' \<and> depth > 0 then comma_loop parts (current @ [ch]) (depth - 1) cs
      else if ch = CHR '')'' then comma_loop parts (current @ [ch]) depth cs
      else if ch = CHR '','' \<and> depth = 0
      then (let t = trim current in comma_loop (if t = [] then parts else parts @ [t]) [] depth cs)
      else comma_loop parts (current @ [ch]) depth cs)"

definition parse_comma_separated :: "string \<Rightarrow> string list" where
  "parse_comma_separated input = comma_loop [] [] 0 input"

definition Function_from_str :: "string \<Rightarrow> RouteError + Function" where
  "Function_from_str s0 =
     (let s = trim s0
      in if s = [] then Inl EmptyFunction
         else (let (neg, rest) = (case strip_prefix ''!'' s of
                                    Some stripped \<Rightarrow> (True, trim stripped)
                                  | None \<Rightarrow> (False, s))
               in case split_once (CHR ''('') rest of
                    None \<Rightarrow> Inl (ExpectedOpen rest)
                  | Some (before, after) \<Rightarrow>
                      (case strip_suffix '')'' after of
                         None \<Rightarrow> Inl (ExpectedClose rest)
                       | Some inner \<Rightarrow>
                           Inr \<lparr>fn_name = trim before, fn_not = neg,
                                fn_params = map trim (parse_comma_separated inner)\<rparr>)))"

section \<open>Outbound actions\<close>

record Outbound =
  ob_name :: string
  ob_mark :: u32
  ob_must :: bool

definition Outbound_new :: "string \<Rightarrow> Outbound" where
  "Outbound_new name = \<lparr>ob_name = name, ob_mark = 0, ob_must = False\<rparr>"

definition parse_mark_value :: "string \<Rightarrow> RouteError + u32" where
  "parse_mark_value s0 =
     (let s = trim s0
      in ok_or (BadMark s)
           (case (case strip_prefix ''0x'' s of Some h \<Rightarrow> Some h | None \<Rightarrow> strip_prefix ''0X'' s) of
              Some hex \<Rightarrow> parse_u32_radix 16 hex
            | None \<Rightarrow> parse_u32_radix 10 s))"

fun proxy_params_loop :: "string list \<Rightarrow> string \<Rightarrow> u32 \<Rightarrow> bool \<Rightarrow> RouteError + Outbound" where
  "proxy_params_loop [] name mark must =
     (if name = [] then Inl MissingGroup else Inr \<lparr>ob_name = name, ob_mark = mark, ob_must = must\<rparr>)"
| "proxy_params_loop (p # parts) name mark must =
     (let part = trim p
      in if part = ''must'' then proxy_params_loop parts name mark True
         else (case strip_prefix ''mark='' part of
                 Some v \<Rightarrow> res_bind (parse_mark_value v) (\<lambda>m. proxy_params_loop parts name m must)
               | None \<Rightarrow>
                   if name = [] then proxy_params_loop parts part mark must
                   else Inl (UnexpectedParam part)))"

definition parse_proxy_params :: "string \<Rightarrow> RouteError + Outbound" where
  "parse_proxy_params inner =
     (let parts = parse_comma_separated inner
      in if parts = [] then Inl EmptyProxy else proxy_params_loop parts [] 0 False)"

definition parse_action :: "string \<Rightarrow> RouteError + Outbound" where
  "parse_action action0 =
     (let action = trim action0
      in if action = ''direct'' \<or> action = ''block'' then Inr (Outbound_new action)
         else (case Option.bind (strip_prefix ''proxy('' action) (strip_suffix '')'') of
                 Some inner \<Rightarrow> parse_proxy_params inner
               | None \<Rightarrow> Inr (Outbound_new action)))"

section \<open>Rules and programs\<close>

text \<open>\<^verbatim>\<open>config::RouteRule\<close>, \<^verbatim>\<open>config::RoutingConfig\<close> and the names of \<^verbatim>\<open>config::OutboundsConfig\<close>.\<close>

record RouteRule =
  rr_match :: string
  rr_action :: string

record RoutingConfig =
  rc_rules :: "RouteRule list"
  rc_fallback :: string

record OutboundsConfig =
  oc_nodes :: "string list"
  oc_groups :: "string list"

record NormalizedRule =
  nr_functions :: "Function list"
  nr_outbound :: Outbound

record NormalizedProgram =
  np_rules :: "NormalizedRule list"
  np_fallback :: Outbound

fun and_loop :: "string list \<Rightarrow> string \<Rightarrow> nat \<Rightarrow> string \<Rightarrow> string list" where
  "and_loop parts current depth [] =
     (let t = trim current in if t = [] then parts else parts @ [t])"
| "and_loop parts current depth (ch # cs) =
     (if ch = CHR ''('' then and_loop parts (current @ [ch]) (depth + 1) cs
      else if ch = CHR '')'' \<and> depth > 0 then and_loop parts (current @ [ch]) (depth - 1) cs
      else if ch = CHR '')'' then and_loop parts (current @ [ch]) depth cs
      else if ch = CHR ''&'' \<and> depth = 0
      then (if ends_with current ''&''
            then (let t = trim (butlast current)
                  in and_loop (if t = [] then parts else parts @ [t]) [] depth cs)
            else and_loop parts (current @ [ch]) depth cs)
      else and_loop parts (current @ [ch]) depth cs)"

definition split_and_respecting_parens :: "string \<Rightarrow> string list" where
  "split_and_respecting_parens input = and_loop [] [] 0 input"

fun parse_functions :: "string list \<Rightarrow> RouteError + Function list" where
  "parse_functions [] = Inr []"
| "parse_functions (s # ss) =
     (let func_str = trim s
      in if func_str = [] then parse_functions ss
         else res_bind (Function_from_str func_str) (\<lambda>f.
                res_bind (parse_functions ss) (\<lambda>fs. Inr (f # fs))))"

definition parse_rule :: "RouteRule \<Rightarrow> RouteError + NormalizedRule" where
  "parse_rule rule =
     (let match_expr = trim (rr_match rule)
      in if match_expr = [] \<or> match_expr = ''fallback''
         then res_bind (parse_action (rr_action rule)) (\<lambda>ob.
                Inr \<lparr>nr_functions = [], nr_outbound = ob\<rparr>)
         else res_bind (parse_action (rr_action rule)) (\<lambda>ob.
                res_bind (parse_functions (split_and_respecting_parens match_expr)) (\<lambda>fs.
                  Inr \<lparr>nr_functions = fs, nr_outbound = ob\<rparr>)))"

fun parse_rules :: "RouteRule list \<Rightarrow> RouteError + NormalizedRule list" where
  "parse_rules [] = Inr []"
| "parse_rules (r # rs) =
     res_bind (parse_rule r) (\<lambda>n. res_bind (parse_rules rs) (\<lambda>ns. Inr (n # ns)))"

definition from_config :: "RoutingConfig \<Rightarrow> RouteError + NormalizedProgram" where
  "from_config routing =
     res_bind (parse_rules (rc_rules routing)) (\<lambda>rules.
       res_bind (parse_action (rc_fallback routing)) (\<lambda>fallback.
         Inr \<lparr>np_rules = rules, np_fallback = fallback\<rparr>))"

section \<open>Lowering helpers\<close>

fun add_value :: "string \<Rightarrow> string \<Rightarrow> (string \<times> string list) list \<Rightarrow> (string \<times> string list) list" where
  "add_value k v [] = [(k, [v])]"
| "add_value k v ((k', vs) # m) = (if k' = k then (k', vs @ [v]) # m else (k', vs) # add_value k v m)"

fun group_loop ::
    "string list \<Rightarrow> (string \<times> string list) list \<Rightarrow> string list \<Rightarrow> (string \<times> string list) list \<times> string list" where
  "group_loop [] m order = (m, order)"
| "group_loop (raw # raws) m order =
     (let (key, val) = (case split_once (CHR '':'') raw of
                          Some (k, v) \<Rightarrow> (trim k, trim v)
                        | None \<Rightarrow> ([], trim raw));
          inserted = (map_of m key = None)
      in group_loop raws (add_value key val m)
           (if inserted \<and> key \<noteq> [] then order @ [key] else order))"

definition group_params_by_key :: "string list \<Rightarrow> (string \<times> string list) list \<times> string list" where
  "group_params_by_key raw_params =
     (let (m, order) = group_loop raw_params [] []
      in case map_of m [] of
           Some unkeyed \<Rightarrow> (m, if list_ex (\<lambda>v. v \<noteq> []) unkeyed then order @ [[]] else order)
         | None \<Rightarrow> (m, order))"

definition compute_override_outbound :: "bool \<Rightarrow> bool \<Rightarrow> Outbound \<Rightarrow> Outbound" where
  "compute_override_outbound is_last_in_function is_last_function rule_outbound =
     (if \<not> is_last_in_function then rule_outbound\<lparr>ob_name := ''LOGICAL_OR''\<rparr>
      else if \<not> is_last_function then rule_outbound\<lparr>ob_name := ''LOGICAL_AND''\<rparr>
      else rule_outbound)"

definition builtin_outbound :: "string \<Rightarrow> u8 option" where
  "builtin_outbound name =
     (if name = ''direct'' then Some OB_DIRECT
      else if name = ''block'' then Some OB_BLOCK
      else if name = ''LOGICAL_OR'' then Some OB_LOGICAL_OR
      else if name = ''LOGICAL_AND'' then Some OB_LOGICAL_AND
      else if name = ''must'' \<or> name = ''must_direct'' then Some OB_MUST_RULES
      else if name = ''control_plane_routing'' then Some OB_CONTROL_PLANE_ROUTING
      else None)"

definition resolve_outbound_id :: "Outbound \<Rightarrow> (string \<times> u8) list \<Rightarrow> RouteError + u8" where
  "resolve_outbound_id outbound id_map =
     (case builtin_outbound (ob_name outbound) of
        Some i \<Rightarrow> Inr i
      | None \<Rightarrow> ok_or (UnknownOutbound (ob_name outbound)) (map_of id_map (ob_name outbound)))"

definition lookup_outbound_id_for_ms :: "Outbound \<Rightarrow> u8" where
  "lookup_outbound_id_for_ms outbound =
     (case builtin_outbound (ob_name outbound) of Some i \<Rightarrow> i | None \<Rightarrow> OB_CONTROL_PLANE_ROUTING)"

definition build_outbound_id_map :: "OutboundsConfig \<Rightarrow> (string \<times> u8) list" where
  "build_outbound_id_map outbounds =
     (let m0 = foldl (\<lambda>m (k, v). map_insert k v m) []
                 [(''direct'', OB_DIRECT), (''block'', OB_BLOCK), (''must'', OB_MUST_RULES),
                  (''must_direct'', OB_MUST_RULES), (''control_plane_routing'', OB_CONTROL_PLANE_ROUTING)];
          m1 = foldl (\<lambda>m n. map_insert n OB_CONTROL_PLANE_ROUTING m) m0 (oc_nodes outbounds)
      in foldl (\<lambda>m g. map_insert g OB_CONTROL_PLANE_ROUTING m) m1 (oc_groups outbounds))"

text \<open>An entry with the fields every builder sets the same way.\<close>

definition mk_entry :: "u8 \<Rightarrow> MatchSetValue \<Rightarrow> bool \<Rightarrow> u8 \<Rightarrow> Outbound \<Rightarrow> MatchSet" where
  "mk_entry ty v neg outbound_id ov =
     \<lparr>ms_value = v, ms_not = (if neg then 1 else 0), ms_type = ty, ms_outbound = outbound_id,
      ms_must = (if ob_must ov then 1 else 0), ms_mark = ob_mark ov\<rparr>"

definition build_fallback_matchset :: "u8 \<Rightarrow> Outbound \<Rightarrow> MatchSet" where
  "build_fallback_matchset outbound_id rule_outbound =
     mk_entry MT_FALLBACK MatchSetValue_zeroed False outbound_id rule_outbound"

section \<open>Printing a rule and parsing it back\<close>

definition render_function :: "Function \<Rightarrow> string" where
  "render_function f =
     (if fn_not f then ''!'' else []) @ fn_name f @ ''('' @ join '','' (fn_params f) @ '')''"

definition wf_param :: "string \<Rightarrow> bool" where
  "wf_param p \<longleftrightarrow> p \<noteq> [] \<and> is_ascii p \<and> trim p = p \<and> set p \<inter> set ''(),'' = {}"

definition wf_function :: "Function \<Rightarrow> bool" where
  "wf_function f \<longleftrightarrow> fn_name f \<noteq> [] \<and> is_ascii (fn_name f) \<and> trim (fn_name f) = fn_name f
     \<and> set (fn_name f) \<inter> set ''()&!'' = {} \<and> list_all wf_param (fn_params f)"

lemma set_join: "set (join d ws) \<subseteq> set d \<union> (\<Union> (set ` set ws))"
  by (induction ws rule: induct_list012) (auto simp: join_Cons)

lemma is_ascii_join: "is_ascii d \<Longrightarrow> (\<And>w. w \<in> set ws \<Longrightarrow> is_ascii w) \<Longrightarrow> is_ascii (join d ws)"
  using set_join [of d ws] unfolding is_ascii_def by blast

lemma is_ascii_seps: "is_ascii '','' " "is_ascii '' && ''"
  by (simp_all add: is_ascii_def byte_of_def)

lemma set_join_sub: "w \<in> set ws \<Longrightarrow> set w \<subseteq> set (join d ws)"
  by (induction ws rule: induct_list012) (auto simp: join_Cons)

lemma hd_last_join:
  assumes "ws \<noteq> []" "list_all (\<lambda>w. w \<noteq> []) ws"
  shows "join d ws \<noteq> [] \<and> hd (join d ws) = hd (hd ws) \<and> last (join d ws) = last (last ws)"
  using assms by (induction ws rule: induct_list012) (auto simp: join_Cons)

lemma comma_loop_plain:
  "set s \<inter> set ''(),'' = {} \<Longrightarrow> comma_loop parts cur d (s @ rest) = comma_loop parts (cur @ s) d rest"
  by (induction s arbitrary: cur) auto

lemma comma_loop_params:
  assumes "list_all wf_param ps"
  shows "comma_loop parts [] 0 (join '','' ps) = parts @ ps"
  using assms
proof (induction ps arbitrary: parts)
  case Nil
  have "trim [] = []" by code_simp
  then show ?case by simp
next
  case (Cons p ps)
  then have p: "set p \<inter> set ''(),'' = {}" "trim p = p" "p \<noteq> []" by (auto simp: wf_param_def)
  show ?case
  proof (cases ps)
    case Nil
    with p comma_loop_plain [OF p(1), of parts "[]" 0 "[]"] show ?thesis by simp
  next
    case (Cons q qs)
    then have "join '','' (p # ps) = p @ '','' @ join '','' ps" by (simp add: join_Cons)
    with comma_loop_plain [OF p(1), of parts "[]" 0 "'','' @ join '','' ps"] p Cons.IH [of "parts @ [p]"] \<open>list_all wf_param (p # ps)\<close>
    show ?thesis by (simp add: Let_def)
  qed
qed

lemma wf_function_ends:
  assumes "wf_function f"
  shows "is_ascii (render_function f)" "render_function f \<noteq> []"
    "hd (render_function f) \<notin> ascii_ws" "last (render_function f) = CHR '')''"
proof -
  have n: "fn_name f \<noteq> []" "hd (fn_name f) \<notin> ascii_ws" "is_ascii (fn_name f)"
    using assms trim_ascii_fixed [of "fn_name f"] by (auto simp: wf_function_def)
  have "is_ascii p" if "p \<in> set (fn_params f)" for p
    using assms that by (auto simp: wf_function_def list_all_iff wf_param_def)
  then have "is_ascii (join '','' (fn_params f))"
    using is_ascii_join is_ascii_seps(1) by blast
  with n show "is_ascii (render_function f)" by (auto simp: render_function_def is_ascii_def byte_of_def)
  show "render_function f \<noteq> []" "last (render_function f) = CHR '')''"
    by (simp_all add: render_function_def)
  show "hd (render_function f) \<notin> ascii_ws"
    using n by (auto simp: render_function_def ascii_ws_def)
qed

lemma Function_from_str_parts:
  assumes "trim s = s" "s \<noteq> []"
    and "(case strip_prefix ''!'' s of Some st \<Rightarrow> (True, trim st) | None \<Rightarrow> (False, s)) = (neg, rest)"
    and "split_once (CHR ''('') rest = Some (before, after)" "strip_suffix '')'' after = Some inner"
  shows "Function_from_str s = Inr \<lparr>fn_name = trim before, fn_not = neg,
           fn_params = map trim (parse_comma_separated inner)\<rparr>"
  using assms by (simp add: Function_from_str_def Let_def del: strip_suffix_Some strip_prefix_Some)

lemma function_reads_back:
  assumes "wf_function f"
  shows "Function_from_str (render_function f) = Inr f"
proof -
  note e = wf_function_ends [OF assms]
  have t: "trim (render_function f) = render_function f"
    using trim_ascii_fixed [OF e(1,2)] e(3,4) by (simp add: ascii_ws_def)
  let ?rest = "fn_name f @ ''('' @ join '','' (fn_params f) @ '')''"
  have r: "trim ?rest = ?rest"
  proof -
    have "?rest = render_function (f\<lparr>fn_not := False\<rparr>)" by (simp add: render_function_def)
    moreover have "wf_function (f\<lparr>fn_not := False\<rparr>)" using assms by (simp add: wf_function_def)
    ultimately show ?thesis
      using wf_function_ends [of "f\<lparr>fn_not := False\<rparr>"] trim_ascii_fixed [of ?rest] by (simp add: ascii_ws_def)
  qed
  have sp: "strip_prefix ''!'' (render_function f) = (if fn_not f then Some ?rest else None)"
    using assms by (cases "fn_name f") (auto simp: render_function_def strip_prefix_def wf_function_def)
  have so: "split_once (CHR ''('') ?rest = Some (fn_name f, join '','' (fn_params f) @ '')'')"
    using assms by (auto simp: split_once_Some wf_function_def)
  have ss: "strip_suffix '')'' (join '','' (fn_params f) @ '')'') = Some (join '','' (fn_params f))"
    by simp
  have ps: "map trim (parse_comma_separated (join '','' (fn_params f))) = fn_params f"
    using comma_loop_params [of "fn_params f" "[]"] assms
    by (auto simp: parse_comma_separated_def wf_function_def list_all_iff wf_param_def intro!: map_idI)
  have n: "trim (fn_name f) = fn_name f" using assms by (simp add: wf_function_def)
  have "(case strip_prefix ''!'' (render_function f) of Some st \<Rightarrow> (True, trim st) | None \<Rightarrow> (False, render_function f))
      = (fn_not f, ?rest)"
    using r unfolding sp by (auto simp: render_function_def)
  from Function_from_str_parts [OF t e(2) this so ss] show ?thesis
    unfolding ps n by simp
qed

lemma and_loop_plain:
  "set s \<inter> set ''()&'' = {} \<Longrightarrow> and_loop parts cur d (s @ rest) = and_loop parts (cur @ s) d rest"
  by (induction s arbitrary: cur) auto

lemma and_loop_inner:
  "set s \<inter> set ''()'' = {} \<Longrightarrow> and_loop parts cur (Suc d) (s @ rest) = and_loop parts (cur @ s) (Suc d) rest"
  by (induction s arbitrary: cur) auto

lemma and_loop_function:
  assumes "wf_function f"
  shows "and_loop parts cur 0 (render_function f @ rest) = and_loop parts (cur @ render_function f) 0 rest"
proof -
  let ?pre = "(if fn_not f then ''!'' else []) @ fn_name f"
  let ?j = "join '','' (fn_params f)"
  have 1: "set ?pre \<inter> set ''()&'' = {}" using assms by (auto simp: wf_function_def)
  have "set p \<inter> set ''()'' = {}" if "p \<in> set (fn_params f)" for p
    using assms that by (auto simp: wf_function_def list_all_iff wf_param_def)
  then have 2: "set ?j \<inter> set ''()'' = {}" using set_join [of "'',''" "fn_params f"] by fastforce
  have "and_loop parts cur 0 (?pre @ ''('' @ ?j @ '')'' @ rest) =
      and_loop parts (cur @ ?pre @ ''('' @ ?j @ '')'') 0 rest"
    using and_loop_plain [OF 1, of parts cur 0 "''('' @ ?j @ '')'' @ rest"]
      and_loop_inner [OF 2, of parts "cur @ ?pre @ ''(''" 0 "'')'' @ rest"]
    by simp
  then show ?thesis by (simp add: render_function_def)
qed

lemma and_loop_rule:
  assumes "list_all wf_function fs" "fs \<noteq> []" "cur = [] \<or> cur = '' ''"
  shows "and_loop parts cur 0 (join '' && '' (map render_function fs)) = parts @ map render_function fs"
  using assms
proof (induction fs arbitrary: parts cur)
  case (Cons f fs)
  have wf: "wf_function f" using Cons.prems by simp
  note e = wf_function_ends [OF wf]
  have ws: "set cur \<subseteq> ascii_ws" "set '' '' \<subseteq> ascii_ws" using Cons.prems(3) by (auto simp: ascii_ws_def)
  have l: "last (render_function f) \<notin> ascii_ws" using e(4) by (simp add: ascii_ws_def)
  have t0: "trim (cur @ render_function f) = render_function f"
    using trim_pad [OF e(1-3) l ws(1), of "[]"] by simp
  have t1: "trim (cur @ render_function f @ '' '') = render_function f"
    using trim_pad [OF e(1-3) l ws] by simp
  show ?case
  proof (cases fs)
    case Nil
    with and_loop_function [OF wf, of parts cur "[]"] t0 e(2) show ?thesis by simp
  next
    case (Cons g gs)
    let ?rest = "join '' && '' (map render_function fs)"
    have "and_loop parts cur 0 (render_function f @ '' && '' @ ?rest) = and_loop (parts @ [render_function f]) '' '' 0 ?rest"
      using t1 e(2)
      by (simp add: and_loop_function [OF wf] ends_with_def suffix_def Let_def butlast_append)
    moreover have "join '' && '' (map render_function (f # fs)) = render_function f @ '' && '' @ ?rest"
      using Cons by (simp add: join_Cons)
    ultimately show ?thesis using Cons.IH [of "'' ''" "parts @ [render_function f]"] \<open>list_all wf_function (f # fs)\<close> Cons
      by simp
  qed
qed simp

lemma parse_functions_render:
  "list_all wf_function fs \<Longrightarrow> parse_functions (map render_function fs) = Inr fs"
proof (induction fs)
  case (Cons f fs)
  then have wf: "wf_function f" by simp
  note e = wf_function_ends [OF wf]
  have "trim (render_function f) = render_function f"
    using trim_ascii_fixed [OF e(1,2)] e(3,4) by (simp add: ascii_ws_def)
  with Cons e(2) function_reads_back [OF wf] show ?case by (simp add: Let_def)
qed simp


text \<open>Decimal printing of a number, and the action of an outbound.\<close>

fun show_dec :: "nat \<Rightarrow> string" where
  "show_dec n = (if n < 10 then [char_of (48 + n)] else show_dec (n div 10) @ [char_of (48 + n mod 10)])"

declare show_dec.simps [simp del]

definition render_outbound :: "Outbound \<Rightarrow> string" where
  "render_outbound ob =
     ''proxy('' @ join '','' ([ob_name ob] @ (if ob_mark ob = 0 then [] else [''mark='' @ show_dec (unat (ob_mark ob))])
       @ (if ob_must ob then [''must''] else [])) @ '')''"

definition wf_outbound :: "Outbound \<Rightarrow> bool" where
  "wf_outbound ob \<longleftrightarrow> wf_param (ob_name ob) \<and> ob_name ob \<noteq> ''must'' \<and> strip_prefix ''mark='' (ob_name ob) = None"

definition render_rule :: "NormalizedRule \<Rightarrow> RouteRule" where
  "render_rule r = \<lparr>rr_match = join '' && '' (map render_function (nr_functions r)),
     rr_action = render_outbound (nr_outbound r)\<rparr>"

definition render_program :: "NormalizedProgram \<Rightarrow> RoutingConfig" where
  "render_program p = \<lparr>rc_rules = map render_rule (np_rules p), rc_fallback = render_outbound (np_fallback p)\<rparr>"

definition wf_program :: "NormalizedProgram \<Rightarrow> bool" where
  "wf_program p \<longleftrightarrow> wf_outbound (np_fallback p)
     \<and> list_all (\<lambda>r. list_all wf_function (nr_functions r) \<and> wf_outbound (nr_outbound r)) (np_rules p)"

lemma to_digit_dec: "d < 10 \<Longrightarrow> to_digit 10 (char_of (48 + d)) = Some d"
  by (simp add: to_digit_def byte_of_def Let_def)

lemma show_dec_digits:
  "show_dec n \<noteq> [] \<and> list_all (is_digit_of 10) (show_dec n) \<and> digits_value 10 (show_dec n) = n"
proof (induction n rule: show_dec.induct)
  case (1 n)
  show ?case
  proof (cases "n < 10")
    case True
    then show ?thesis by (simp add: show_dec.simps [of n] is_digit_of_def digits_value_def to_digit_dec)
  next
    case False
    with 1 show ?thesis
      by (simp add: show_dec.simps [of n] is_digit_of_def digits_value_def to_digit_dec)
  qed
qed

lemma digit_bytes: "is_digit_of 10 c \<Longrightarrow> 48 \<le> byte_of c \<and> byte_of c \<le> 57"
  by (auto simp: is_digit_of_def to_digit_def Let_def split: if_splits)

lemma show_dec_chars:
  assumes "c \<in> set (show_dec n)"
  shows "byte_of c < 128" "c \<notin> ascii_ws" "c \<notin> set ''(),xX''"
  using assms show_dec_digits [of n] digit_bytes [of c]
  by (auto simp: list_all_iff ascii_ws_def byte_of_def)

lemma parse_mark_show_dec: "parse_mark_value (show_dec (unat m)) = Inr m"
proof -
  let ?s = "show_dec (unat m)"
  have ne: "?s \<noteq> []" using show_dec_digits by blast
  then have "hd ?s \<notin> ascii_ws" "last ?s \<notin> ascii_ws" using show_dec_chars(2) [of _ "unat m"] by (metis hd_in_set, metis last_in_set)
  moreover have "is_ascii ?s" using show_dec_chars(1) [of _ "unat m"] by (auto simp: is_ascii_def)
  ultimately have "trim ?s = ?s" using trim_ascii_fixed [of ?s] ne by blast
  moreover have "strip_prefix ''0x'' ?s = None" "strip_prefix ''0X'' ?s = None"
    using show_dec_chars(3) [of _ "unat m"] by (fastforce simp: strip_prefix_def prefix_def)+
  moreover have "parse_u32_radix 10 ?s = Some m"
    using parse_uint_digits [of 10 ?s 4294967295] show_dec_digits [of "unat m"] unat_lt [of m]
    by (simp add: parse_u32_radix_def)
  ultimately show ?thesis by (simp add: parse_mark_value_def Let_def)
qed

lemma render_outbound_parts:
  assumes "wf_outbound ob"
  defines "ps \<equiv> [ob_name ob] @ (if ob_mark ob = 0 then [] else [''mark='' @ show_dec (unat (ob_mark ob))])
       @ (if ob_must ob then [''must''] else [])"
  shows "list_all wf_param ps" "proxy_params_loop ps [] 0 False = Inr ob"
proof -
  let ?m = "''mark='' @ show_dec (unat (ob_mark ob))"
  have ne: "show_dec (unat (ob_mark ob)) \<noteq> []" using show_dec_digits by blast
  have asc: "is_ascii ?m"
    using show_dec_chars(1) [of _ "unat (ob_mark ob)"] by (auto simp: is_ascii_def byte_of_def)
  have "last ?m \<notin> ascii_ws" using show_dec_chars(2) [of "last (show_dec (unat (ob_mark ob)))" "unat (ob_mark ob)"] ne by simp
  then have t: "trim ?m = ?m" using trim_ascii_fixed [OF asc] by (simp add: ascii_ws_def)
  have m: "wf_param ?m"
    using asc t show_dec_chars(3) [of _ "unat (ob_mark ob)"] by (auto simp: wf_param_def)
  have must: "wf_param ''must''" "trim ''must'' = ''must''" by code_simp+
  from m must assms show "list_all wf_param ps" by (simp add: wf_outbound_def)
  have n: "trim (ob_name ob) = ob_name ob" "ob_name ob \<noteq> []" using assms by (simp_all add: wf_outbound_def wf_param_def)
  have sp: "strip_prefix ''mark='' ?m = Some (show_dec (unat (ob_mark ob)))" by simp
  have "?m \<noteq> ''must''" by simp
  with sp t have step: "proxy_params_loop (?m # rest) nm 0 b = proxy_params_loop rest nm (ob_mark ob) b" for rest nm b
    by (simp add: Let_def parse_mark_show_dec del: strip_prefix_Some)
  show "proxy_params_loop ps [] 0 False = Inr ob"
    using n assms must step unfolding ps_def wf_outbound_def by (simp add: Let_def)
qed

lemma outbound_reads_back:
  assumes "wf_outbound ob"
  shows "parse_action (render_outbound ob) = Inr ob"
proof -
  define ps where "ps = [ob_name ob] @ (if ob_mark ob = 0 then [] else [''mark='' @ show_dec (unat (ob_mark ob))])
       @ (if ob_must ob then [''must''] else [])"
  note p = render_outbound_parts [OF assms, folded ps_def]
  have r: "render_outbound ob = ''proxy('' @ join '','' ps @ '')''" by (simp add: render_outbound_def ps_def)
  have "is_ascii p" if "p \<in> set ps" for p using p(1) that by (auto simp: list_all_iff wf_param_def)
  then have "is_ascii (join '','' ps)" using is_ascii_join is_ascii_seps(1) by blast
  then have "is_ascii (render_outbound ob)" unfolding r by (auto simp: is_ascii_def byte_of_def)
  then have t: "trim (render_outbound ob) = render_outbound ob"
    using trim_ascii_fixed [of "render_outbound ob"] unfolding r by (simp add: ascii_ws_def)
  have c: "parse_comma_separated (join '','' ps) = ps"
    using comma_loop_params [OF p(1), of "[]"] by (simp add: parse_comma_separated_def)
  have sp: "strip_prefix ''proxy('' (render_outbound ob) = Some (join '','' ps @ '')'')"
      "strip_suffix '')'' (join '','' ps @ '')'') = Some (join '','' ps)" by (simp_all add: r)
  have "render_outbound ob \<noteq> ''direct''" "render_outbound ob \<noteq> ''block''" by (simp_all add: r)
  moreover have "ps \<noteq> []" by (simp add: ps_def)
  ultimately show ?thesis using t sp c p(2)
    by (simp add: parse_action_def parse_proxy_params_def Let_def del: strip_prefix_Some strip_suffix_Some)
qed

lemma rule_trimmed:
  assumes "list_all wf_function fs" "fs \<noteq> []"
  shows "trim (join '' && '' (map render_function fs)) = join '' && '' (map render_function fs)"
proof -
  let ?ws = "map render_function fs"
  let ?m = "join '' && '' ?ws"
  note e = wf_function_ends
  have wf: "wf_function f" if "f \<in> set fs" for f using assms(1) that by (simp add: list_all_iff)
  have "list_all (\<lambda>w. w \<noteq> []) ?ws" using wf e(2) by (auto simp: list_all_iff)
  then have m: "?m \<noteq> []" "hd ?m = hd (hd ?ws)" "last ?m = last (last ?ws)"
    using hd_last_join [of ?ws "'' && ''"] assms(2) by auto
  have "hd ?m \<notin> ascii_ws" using m(2) assms(2) wf e(3) by (simp add: hd_map)
  moreover have "last ?m \<notin> ascii_ws" using m(3) assms(2) wf e(4) by (simp add: last_map ascii_ws_def)
  moreover have "is_ascii w" if "w \<in> set ?ws" for w using that wf e(1) by auto
  then have "is_ascii ?m" using is_ascii_join is_ascii_seps(2) by blast
  ultimately show ?thesis using trim_ascii_fixed m(1) by blast
qed

lemma rule_reads_back:
  assumes "list_all wf_function (nr_functions r)" "wf_outbound (nr_outbound r)"
  shows "parse_rule (render_rule r) = Inr r"
proof (cases "nr_functions r")
  case Nil
  have "trim [] = []" by code_simp
  with Nil outbound_reads_back [OF assms(2)] show ?thesis by (simp add: parse_rule_def render_rule_def)
next
  case (Cons f fs)
  let ?m = "join '' && '' (map render_function (nr_functions r))"
  have loop: "and_loop [] [] 0 ?m = map render_function (nr_functions r)"
    using and_loop_rule [OF assms(1), of "[]" "[]"] Cons by simp
  have "CHR ''('' \<in> set ?m"
    using set_join_sub [of "render_function f" "map render_function (nr_functions r)" "'' && ''"] Cons
    by (auto simp: render_function_def)
  then have "?m \<noteq> []" "?m \<noteq> ''fallback''" by auto
  moreover have "trim ?m = ?m" using rule_trimmed [OF assms(1)] Cons by simp
  ultimately show ?thesis
    using loop parse_functions_render [OF assms(1)] outbound_reads_back [OF assms(2)]
    by (simp add: parse_rule_def render_rule_def split_and_respecting_parens_def Let_def)
qed

text \<open>
  C18: printing a well-formed routing program as the rules of the configuration file (functions with
  their negation and parameters joined by \<open>&&\<close>, outbounds as \<open>proxy(name,mark=..,must)\<close>) and parsing the
  result gives the program back: no function, parameter, negation, mark or \<open>must\<close> flag is lost or
  reordered by the two hand-written splitters.
\<close>

theorem program_roundtrip:
  assumes "wf_program p"
  shows "from_config (render_program p) = Inr p"
proof -
  have "parse_rules (map render_rule rs) = Inr rs"
    if "list_all (\<lambda>r. list_all wf_function (nr_functions r) \<and> wf_outbound (nr_outbound r)) rs" for rs
    using that by (induction rs) (simp_all add: rule_reads_back)
  then show ?thesis
    using assms outbound_reads_back by (simp add: from_config_def render_program_def wf_program_def)
qed

theorem program_roundtrip_witness:
  "from_config (render_program
     \<lparr>np_rules = [\<lparr>nr_functions = [\<lparr>fn_name = ''domain'', fn_not = False, fn_params = [''suffix:a.b'', ''full:c'']\<rparr>,
                                  \<lparr>fn_name = ''dport'', fn_not = True, fn_params = [''80'']\<rparr>],
                  nr_outbound = \<lparr>ob_name = ''hk'', ob_mark = 7, ob_must = True\<rparr>\<rparr>],
      np_fallback = \<lparr>ob_name = ''direct'', ob_mark = 0, ob_must = False\<rparr>\<rparr>) = Inr
     \<lparr>np_rules = [\<lparr>nr_functions = [\<lparr>fn_name = ''domain'', fn_not = False, fn_params = [''suffix:a.b'', ''full:c'']\<rparr>,
                                  \<lparr>fn_name = ''dport'', fn_not = True, fn_params = [''80'']\<rparr>],
                  nr_outbound = \<lparr>ob_name = ''hk'', ob_mark = 7, ob_must = True\<rparr>\<rparr>],
      np_fallback = \<lparr>ob_name = ''direct'', ob_mark = 0, ob_must = False\<rparr>\<rparr>"
  by (rule program_roundtrip) code_simp

end
