(* ===== verification/Routing_Lower.thy ===== *)
theory Routing_Lower
  imports Routing_IR
begin

text \<open>
  Lowering of one routing function to match entries, the middle part of
  \<^verbatim>\<open>control/src/routing/matcher.rs\<close>: the parsers of parameter values, the deduplicated table of
  address sets, the registered function parsers with their \<^verbatim>\<open>RulesBuilder\<close>, and
  \<^verbatim>\<open>build_match_set_for_function\<close>, which the compiler uses.
\<close>

section \<open>Parameter values\<close>

text \<open>
  \<^verbatim>\<open>IpNet::new(..).unwrap()\<close> panics when the call fails; the cache is absent or present.
\<close>

fun parse_cidr_values :: "ipnet_lib \<Rightarrow> string list \<Rightarrow> RuleSetCache option \<Rightarrow> (RouteError + IpNet list) run" where
  "parse_cidr_values lib [] cache = Ret (Inr [])"
| "parse_cidr_values lib (val # vals) cache =
     (case parse_ref val of
        SetRef name \<Rightarrow>
          (case cache of
             None \<Rightarrow> Ret (Inl (RuleSetDataMissing val))
           | Some c \<Rightarrow>
               (case get_set_ips c name of
                  None \<Rightarrow> Ret (Inl (RuleSetDataMissing val))
                | Some nets \<Rightarrow>
                    try_bind (parse_cidr_values lib vals cache) (\<lambda>rest. Ret (Inr (nets @ rest)))))
      | PlainRef v \<Rightarrow>
          (case ipnet_parse lib v of
             Some cidr \<Rightarrow> try_bind (parse_cidr_values lib vals cache) (\<lambda>rest. Ret (Inr (cidr # rest)))
           | None \<Rightarrow>
               (case parse_ipv4_addr v of
                  Some a \<Rightarrow>
                    (case ipnet_new lib (IpV4 a) 32 of
                       None \<Rightarrow> Panic
                     | Some n \<Rightarrow> try_bind (parse_cidr_values lib vals cache) (\<lambda>rest. Ret (Inr (n # rest))))
                | None \<Rightarrow>
                    (case parse_ipv6_addr v of
                       Some a \<Rightarrow>
                         (case ipnet_new lib (IpV6 a) 128 of
                            None \<Rightarrow> Panic
                          | Some n \<Rightarrow> try_bind (parse_cidr_values lib vals cache) (\<lambda>rest. Ret (Inr (n # rest))))
                     | None \<Rightarrow> Ret (Inl (BadCidr val))))))"

definition parse_mac_address :: "string \<Rightarrow> RouteError + u8 list" where
  "parse_mac_address s0 =
     (let s = trim s0; parts = split_char (CHR '':'') s
      in if length parts \<noteq> 6 then Inl (BadMac s)
         else res_map (\<lambda>part. ok_or (BadMac part) (map_option of_nat (parse_uint 16 255 part))) parts)"

section \<open>The table of address sets\<close>

abbreviation "FNV_OFFSET_BASIS \<equiv> (14695981039346656037 :: u64)"
abbreviation "FNV_PRIME \<equiv> (1099511628211 :: u64)"

definition fnv_step :: "u64 \<Rightarrow> u64 \<Rightarrow> u64" where
  "fnv_step h b = (h XOR b) * FNV_PRIME"

definition net_octets :: "IpNet \<Rightarrow> u8 list" where
  "net_octets n = (case net_addr n of IpV4 a \<Rightarrow> octets4 a | IpV6 a \<Rightarrow> octets6 a)"

definition hash_cidrs :: "IpNet list \<Rightarrow> u64" where
  "hash_cidrs cidrs =
     foldl (\<lambda>h cidr. foldl (\<lambda>h b. fnv_step h (ucast b)) (fnv_step h (of_nat (net_prefix_len cidr))) (net_octets cidr))
       FNV_OFFSET_BASIS cidrs"

text \<open>The tables threaded through the compilation, and the next domain set index.\<close>

record Lowering =
  lw_tries :: "IpNet list list"
  lw_dedup :: "(u64 \<times> nat) list"
  lw_domain_idx :: nat

definition push_trie :: "IpNet list \<Rightarrow> Lowering \<Rightarrow> nat \<times> Lowering" where
  "push_trie cidrs st =
     (let index = length (lw_tries st)
      in (index, st\<lparr>lw_tries := lw_tries st @ [cidrs], lw_dedup := map_insert (hash_cidrs cidrs) index (lw_dedup st)\<rparr>))"

definition find_or_create_lpm_trie :: "IpNet list \<Rightarrow> Lowering \<Rightarrow> (nat \<times> Lowering) run" where
  "find_or_create_lpm_trie cidrs st =
     (case map_of (lw_dedup st) (hash_cidrs cidrs) of
        Some index \<Rightarrow>
          run_bind (index_get (lw_tries st) index) (\<lambda>t.
            if t = cidrs then Ret (index, st) else Ret (push_trie cidrs st))
      | None \<Rightarrow> Ret (push_trie cidrs st))"

section \<open>Entries\<close>

text \<open>A port or a port range, for \<^verbatim>\<open>dport\<close> and \<^verbatim>\<open>sport\<close>.\<close>

definition port_entry :: "u8 \<Rightarrow> string \<Rightarrow> bool \<Rightarrow> u8 \<Rightarrow> Outbound \<Rightarrow> RouteError + MatchSet" where
  "port_entry ty val neg outbound_id ov =
     (case split_once (CHR ''-'') val of
        Some (start_str, end_str) \<Rightarrow>
          res_bind (ok_or (BadPort start_str) (parse_u16 (trim start_str))) (\<lambda>start.
            res_bind (ok_or (BadPort end_str) (parse_u16 (trim end_str))) (\<lambda>stop.
              Inr (mk_entry ty (put_port_range start stop MatchSetValue_zeroed) neg outbound_id ov)))
      | None \<Rightarrow>
          res_bind (ok_or (BadPort val) (parse_u16 val)) (\<lambda>port.
            Inr (mk_entry ty (put_port_range port port MatchSetValue_zeroed) neg outbound_id ov)))"

definition dscp_entry :: "string \<Rightarrow> bool \<Rightarrow> u8 \<Rightarrow> Outbound \<Rightarrow> RouteError + MatchSet" where
  "dscp_entry val neg outbound_id ov =
     res_bind (ok_or (BadDscp val) (parse_u8 val)) (\<lambda>dscp.
       Inr (mk_entry MT_DSCP (put_byte dscp MatchSetValue_zeroed) neg outbound_id ov))"

text \<open>
  The bit of a protocol name.  \<^verbatim>\<open>to_lowercase\<close> maps no character outside ASCII to a letter of
  \<^verbatim>\<open>tcp\<close> or \<^verbatim>\<open>udp\<close>, so lowering the ASCII letters decides the same comparison.
\<close>

definition proto_bit :: "string \<Rightarrow> u8 option" where
  "proto_bit val =
     (if to_ascii_lowercase val = ''tcp'' then Some 1
      else if to_ascii_lowercase val = ''udp'' then Some 2 else None)"

definition version_bit :: "string \<Rightarrow> u8 option" where
  "version_bit val = (if trim val = ''4'' then Some 1 else if trim val = ''6'' then Some 2 else None)"

definition or_bits :: "u8 list \<Rightarrow> u8" where
  "or_bits bs = foldl (OR) 0 bs"

section \<open>Registered function parsers\<close>

type_synonym FunctionParser =
  "Function \<Rightarrow> string \<Rightarrow> string list \<Rightarrow> Outbound \<Rightarrow> (RouteError + MatchSet list) run"

text \<open>The entry of a parser that produces exactly one: the identifier comes from the outbound.\<close>

definition ms_for :: "u8 \<Rightarrow> MatchSetValue \<Rightarrow> Function \<Rightarrow> Outbound \<Rightarrow> MatchSet" where
  "ms_for ty v f ov = mk_entry ty v (fn_not f) (lookup_outbound_id_for_ms ov) ov"

definition parse_dip_fn :: "ipnet_lib \<Rightarrow> FunctionParser" where
  "parse_dip_fn lib f key values ov =
     try_bind (parse_cidr_values lib values None) (\<lambda>_.
       Ret (Inr [ms_for MT_IP_SET (put_index 0 MatchSetValue_zeroed) f ov]))"

definition parse_sip_fn :: "ipnet_lib \<Rightarrow> FunctionParser" where
  "parse_sip_fn lib f key values ov =
     try_bind (parse_cidr_values lib values None) (\<lambda>_.
       Ret (Inr [ms_for MT_SOURCE_IP_SET (put_index 0 MatchSetValue_zeroed) f ov]))"

definition parse_dport_fn :: FunctionParser where
  "parse_dport_fn f key values ov =
     Ret (res_map (\<lambda>val. port_entry MT_PORT val (fn_not f) (lookup_outbound_id_for_ms ov) ov) values)"

definition parse_sport_fn :: FunctionParser where
  "parse_sport_fn f key values ov =
     Ret (res_map (\<lambda>val. port_entry MT_SOURCE_PORT val (fn_not f) (lookup_outbound_id_for_ms ov) ov) values)"

definition parse_l4proto_fn :: FunctionParser where
  "parse_l4proto_fn f key values ov =
     Ret (res_bind (res_map (\<lambda>val. ok_or (BadProto val) (proto_bit val)) values) (\<lambda>bits.
       Inr [ms_for MT_L4_PROTO (put_byte (or_bits bits) MatchSetValue_zeroed) f ov]))"

definition parse_ipversion_fn :: FunctionParser where
  "parse_ipversion_fn f key values ov =
     Ret (res_bind (res_map (\<lambda>val. ok_or (BadVersion val) (version_bit val)) values) (\<lambda>bits.
       Inr [ms_for MT_IP_VERSION (put_byte (or_bits bits) MatchSetValue_zeroed) f ov]))"

definition parse_domain_fn :: FunctionParser where
  "parse_domain_fn f key values ov =
     (if key \<in> set [[], ''suffix'', ''keyword'', ''regex'', ''full'', ''domain'']
      then Ret (Inr [ms_for MT_DOMAIN_SET (put_index 0 MatchSetValue_zeroed) f ov])
      else Ret (Inl (BadDomainKey key)))"

definition parse_process_name_fn :: FunctionParser where
  "parse_process_name_fn f key values ov =
     Ret (Inr (map (\<lambda>val. ms_for MT_PROCESS_NAME (comm_bytes val) f ov) values))"

definition parse_dscp_fn :: FunctionParser where
  "parse_dscp_fn f key values ov =
     Ret (res_map (\<lambda>val. dscp_entry val (fn_not f) (lookup_outbound_id_for_ms ov) ov) values)"

definition parse_mac_fn :: FunctionParser where
  "parse_mac_fn f key values ov =
     Ret (res_bind (res_map parse_mac_address values) (\<lambda>_.
       Inr [ms_for MT_MAC (put_index 0 MatchSetValue_zeroed) f ov]))"

definition parse_qtype_fn :: FunctionParser where
  "parse_qtype_fn f key values ov = Ret (Inr [ms_for MT_QTYPE MatchSetValue_zeroed f ov])"

definition parse_upstream_fn :: FunctionParser where
  "parse_upstream_fn f key values ov =
     Ret (Inr (map (\<lambda>val. ms_for MT_UPSTREAM (comm_bytes val) f ov) values))"

section \<open>RulesBuilder\<close>

type_synonym RulesBuilder = "(string \<times> FunctionParser) list"

definition RulesBuilder_new :: RulesBuilder where
  "RulesBuilder_new = []"

definition register :: "RulesBuilder \<Rightarrow> string \<Rightarrow> FunctionParser \<Rightarrow> RulesBuilder" where
  "register b name parser = map_insert name parser b"

text \<open>
  The loop over the key groups of one function; \<open>values = &key_to_values[key]\<close> panics on a missing
  key.
\<close>

fun apply_keys ::
    "FunctionParser \<Rightarrow> Function \<Rightarrow> (string \<times> string list) list \<Rightarrow> bool \<Rightarrow> Outbound \<Rightarrow> string list
      \<Rightarrow> (RouteError + MatchSet list) run" where
  "apply_keys parser func kv is_last_function ob [] = Ret (Inr [])"
| "apply_keys parser func kv is_last_function ob (key # keys) =
     (case map_of kv key of
        None \<Rightarrow> Panic
      | Some values \<Rightarrow>
          try_bind (parser func key values (compute_override_outbound (keys = []) is_last_function ob)) (\<lambda>ms.
            try_bind (apply_keys parser func kv is_last_function ob keys) (\<lambda>rest. Ret (Inr (ms @ rest)))))"

fun apply_functions :: "RulesBuilder \<Rightarrow> Outbound \<Rightarrow> Function list \<Rightarrow> (RouteError + MatchSet list) run" where
  "apply_functions b ob [] = Ret (Inr [])"
| "apply_functions b ob (func # fs) =
     (case map_of b (fn_name func) of
        None \<Rightarrow> Ret (Inl (UnknownFunction (fn_name func)))
      | Some parser \<Rightarrow>
          (let (kv, order) = group_params_by_key (fn_params func)
           in try_bind (apply_keys parser func kv (fs = []) ob order) (\<lambda>ms.
                try_bind (apply_functions b ob fs) (\<lambda>rest. Ret (Inr (ms @ rest))))))"

fun apply_rules ::
    "RulesBuilder \<Rightarrow> (string \<times> u8) list \<Rightarrow> NormalizedRule list \<Rightarrow> (RouteError + MatchSet list) run" where
  "apply_rules b id_map [] = Ret (Inr [])"
| "apply_rules b id_map (rule # rules) =
     try_bind (Ret (resolve_outbound_id (nr_outbound rule) id_map)) (\<lambda>outbound_id.
       try_bind (if nr_functions rule = []
                 then Ret (Inr [build_fallback_matchset outbound_id (nr_outbound rule)])
                 else apply_functions b (nr_outbound rule) (nr_functions rule)) (\<lambda>ms.
         try_bind (apply_rules b id_map rules) (\<lambda>rest. Ret (Inr (ms @ rest)))))"

definition RulesBuilder_apply ::
    "RulesBuilder \<Rightarrow> NormalizedProgram \<Rightarrow> (string \<times> u8) list \<Rightarrow> (RouteError + MatchSet list) run" where
  "RulesBuilder_apply b program id_map = apply_rules b id_map (np_rules program)"

end
