(* ===== verification/Routing_Compile.thy ===== *)
theory Routing_Compile
  imports Routing_Lower
begin

text \<open>
  The routing compiler of \<^verbatim>\<open>control/src/routing/matcher.rs\<close>: \<^verbatim>\<open>build_match_set_for_function\<close>,
  \<^verbatim>\<open>domain_strings_to_patterns\<close> and \<^verbatim>\<open>compile_rules\<close>, from the parsed program to the match
  entries, the address sets and the domain sets, with the invariants of its tables.
\<close>

section \<open>One function\<close>

text \<open>A MAC address as the last six bytes of an IPv6 host network.\<close>

definition mac_net :: "ipnet_lib \<Rightarrow> u8 list \<Rightarrow> IpNet option" where
  "mac_net lib mac = ipnet_new lib (IpV6 (of_nat (be_value 256 (map unat mac)))) 128"

fun mac_nets :: "ipnet_lib \<Rightarrow> string list \<Rightarrow> IpNet list" where
  "mac_nets lib [] = []"
| "mac_nets lib (val # vals) =
     (case parse_mac_address val of
        Inr mac \<Rightarrow> (case mac_net lib mac of Some n \<Rightarrow> n # mac_nets lib vals | None \<Rightarrow> mac_nets lib vals)
      | Inl _ \<Rightarrow> mac_nets lib vals)"

definition build_match_set_for_function ::
    "ipnet_lib \<Rightarrow> RuleSetCache option \<Rightarrow> Function \<Rightarrow> string list \<Rightarrow> u8 \<Rightarrow> Outbound \<Rightarrow> Lowering
      \<Rightarrow> (RouteError + MatchSet list \<times> Lowering) run" where
  "build_match_set_for_function lib cache func values outbound_id ov st =
     (let name = fn_name func;
          entry = (\<lambda>ty v. mk_entry ty v (fn_not func) outbound_id ov);
          trie_entry = (\<lambda>ty cidrs. run_bind (find_or_create_lpm_trie cidrs st) (\<lambda>(i, st').
             Ret (Inr ([entry ty (put_index (of_nat i) MatchSetValue_zeroed)], st'))));
          each = (\<lambda>r. Ret (res_bind r (\<lambda>ms. Inr (ms, st))))
      in if name \<in> set [''dip'', ''ip'', ''target_ip'']
         then try_bind (parse_cidr_values lib (fn_params func) cache) (trie_entry MT_IP_SET)
         else if name \<in> set [''sip'', ''source_ip'']
         then try_bind (parse_cidr_values lib (fn_params func) cache) (trie_entry MT_SOURCE_IP_SET)
         else if name = ''mac''
         then (let nets = mac_nets lib (fn_params func)
                 @ (if fn_not func then (case mac_net lib (replicate 6 0) of Some n \<Rightarrow> [n] | None \<Rightarrow> []) else [])
               in if nets = [] then Ret (Inr ([], st)) else trie_entry MT_MAC nets)
         else if name \<in> set [''dport'', ''port'']
         then each (res_map (\<lambda>val. port_entry MT_PORT val (fn_not func) outbound_id ov) values)
         else if name \<in> set [''sport'', ''source_port'']
         then each (res_map (\<lambda>val. port_entry MT_SOURCE_PORT val (fn_not func) outbound_id ov) values)
         else if name = ''l4proto''
         then Ret (Inr ([entry MT_L4_PROTO (put_byte (or_bits (List.map_filter proto_bit values)) MatchSetValue_zeroed)], st))
         else if name = ''ipversion''
         then Ret (Inr ([entry MT_IP_VERSION (put_byte (or_bits (List.map_filter version_bit values)) MatchSetValue_zeroed)], st))
         else if name \<in> set [''domain'', ''target_domain'']
         then Ret (Inr ([entry MT_DOMAIN_SET (put_index (of_nat (lw_domain_idx st)) MatchSetValue_zeroed)],
                        st\<lparr>lw_domain_idx := lw_domain_idx st + 1\<rparr>))
         else if name \<in> set [''process_name'', ''pname'']
         then each (Inr (map (\<lambda>val. entry MT_PROCESS_NAME (comm_bytes val)) values))
         else if name = ''dscp''
         then each (res_map (\<lambda>val. dscp_entry val (fn_not func) outbound_id ov) values)
         else if name = ''qtype'' then each (Inr [entry MT_QTYPE MatchSetValue_zeroed])
         else if name = ''upstream''
         then each (Inr (map (\<lambda>val. entry MT_UPSTREAM (comm_bytes val)) values))
         else Ret (Inl (UnknownFunction name)))"

section \<open>Domain sets\<close>

definition domain_string_to_pattern :: "string \<Rightarrow> DomainPattern" where
  "domain_string_to_pattern s =
     (case split_once (CHR '':'') s of
        Some (key, val) \<Rightarrow>
          \<lparr>pattern_type = (if key = ''full'' then Full
                           else if key = ''keyword'' \<or> key = ''contains'' then Keyword
                           else if key = ''regex'' then Regex
                           else if key = ''domain'' then Domain_t
                           else Suffix),
           pattern_value = val\<rparr>
      | None \<Rightarrow> \<lparr>pattern_type = Suffix, pattern_value = s\<rparr>)"

definition domain_strings_to_patterns :: "string list \<Rightarrow> DomainPattern list" where
  "domain_strings_to_patterns patterns = map domain_string_to_pattern patterns"

definition is_domain_function :: "Function \<Rightarrow> bool" where
  "is_domain_function f \<longleftrightarrow> fn_name f = ''domain'' \<or> fn_name f = ''target_domain''"

fun collect_patterns :: "RuleSetCache option \<Rightarrow> string list \<Rightarrow> RouteError + DomainPattern list" where
  "collect_patterns cache [] = Inr []"
| "collect_patterns cache (raw # raws) =
     (case parse_ref raw of
        SetRef name \<Rightarrow>
          (case cache of
             None \<Rightarrow> Inl (RuleSetDataMissing raw)
           | Some c \<Rightarrow>
               (case get_set_domains c name of
                  None \<Rightarrow> Inl (RuleSetDataMissing raw)
                | Some pats \<Rightarrow> res_bind (collect_patterns cache raws) (\<lambda>rest. Inr (pats @ rest))))
      | PlainRef v \<Rightarrow>
          res_bind (collect_patterns cache raws) (\<lambda>rest. Inr (domain_strings_to_patterns [v] @ rest)))"

text \<open>The collection loop over all functions of all rules, in order.\<close>

fun collect_domain_sets ::
    "RuleSetCache option \<Rightarrow> Function list \<Rightarrow> (RouteError + CompiledDomainSet list) run" where
  "collect_domain_sets cache [] = Ret (Inr [])"
| "collect_domain_sets cache (f # fs) =
     (if is_domain_function f
      then try_bind (Ret (collect_patterns cache (fn_params f))) (\<lambda>pats.
             run_bind (CompiledDomainSet_compile pats) (\<lambda>c.
               try_bind (collect_domain_sets cache fs) (\<lambda>cs. Ret (Inr (c # cs)))))
      else collect_domain_sets cache fs)"

section \<open>All rules\<close>

type_synonym lowered = "(RouteError + MatchSet list \<times> Lowering) run"

text \<open>Running one part and then the rest, appending the entries.\<close>

definition lower_seq :: "lowered \<Rightarrow> (Lowering \<Rightarrow> lowered) \<Rightarrow> lowered" where
  "lower_seq m k = try_bind m (\<lambda>(ms, st). try_bind (k st) (\<lambda>(rest, st'). Ret (Inr (ms @ rest, st'))))"

lemma lower_seq_cong [fundef_cong]:
  "m = m' \<Longrightarrow> (\<And>ms st. m' = Ret (Inr (ms, st)) \<Longrightarrow> k st = k' st) \<Longrightarrow> lower_seq m k = lower_seq m' k'"
  unfolding lower_seq_def by (rule try_bind_cong) auto

fun lower_keys ::
    "ipnet_lib \<Rightarrow> RuleSetCache option \<Rightarrow> (string \<times> u8) list \<Rightarrow> Outbound \<Rightarrow> Function
      \<Rightarrow> (string \<times> string list) list \<Rightarrow> bool \<Rightarrow> string list \<Rightarrow> Lowering \<Rightarrow> lowered" where
  "lower_keys lib cache id_map ob func kv is_last_function [] st = Ret (Inr ([], st))"
| "lower_keys lib cache id_map ob func kv is_last_function (key # keys) st =
     lower_seq
       (let values = (case map_of kv key of Some v \<Rightarrow> v | None \<Rightarrow> []);
            ov = compute_override_outbound (keys = []) is_last_function ob
        in try_bind (Ret (resolve_outbound_id ov id_map)) (\<lambda>ov_id.
             build_match_set_for_function lib cache func values ov_id ov st))
       (lower_keys lib cache id_map ob func kv is_last_function keys)"

fun lower_functions ::
    "ipnet_lib \<Rightarrow> RuleSetCache option \<Rightarrow> (string \<times> u8) list \<Rightarrow> Outbound \<Rightarrow> Function list \<Rightarrow> Lowering \<Rightarrow> lowered" where
  "lower_functions lib cache id_map ob [] st = Ret (Inr ([], st))"
| "lower_functions lib cache id_map ob (func # fs) st =
     lower_seq
       (let (kv, order) = group_params_by_key (fn_params func)
        in lower_keys lib cache id_map ob func kv (fs = []) order st)
       (lower_functions lib cache id_map ob fs)"

fun lower_rules ::
    "ipnet_lib \<Rightarrow> RuleSetCache option \<Rightarrow> (string \<times> u8) list \<Rightarrow> NormalizedRule list \<Rightarrow> Lowering \<Rightarrow> lowered" where
  "lower_rules lib cache id_map [] st = Ret (Inr ([], st))"
| "lower_rules lib cache id_map (rule # rules) st =
     lower_seq
       (try_bind (Ret (resolve_outbound_id (nr_outbound rule) id_map)) (\<lambda>outbound_id.
          if nr_functions rule = []
          then Ret (Inr ([build_fallback_matchset outbound_id (nr_outbound rule)], st))
          else lower_functions lib cache id_map (nr_outbound rule) (nr_functions rule) st))
       (lower_rules lib cache id_map rules)"

section \<open>compile\_rules\<close>

abbreviation "MAX_MATCH_SET_LEN \<equiv> (1024 :: nat)"
abbreviation "MAX_LPM_NUM \<equiv> (1032 :: nat)"

record CompiledRouting =
  cr_match_sets :: "MatchSet list"
  cr_lpm_tries :: "IpNet list list"
  cr_domain_sets :: "CompiledDomainSet list"
  cr_fallback_outbound :: u8
  cr_fallback_mark :: u32
  cr_fallback_must :: u8

text \<open>Step 2.5: host networks of the proxy servers.\<close>

definition proxy_cidrs :: "ipnet_lib \<Rightarrow> IpAddr list \<Rightarrow> IpNet list" where
  "proxy_cidrs lib ips =
     List.map_filter (\<lambda>ip. ipnet_new lib ip (case ip of IpV4 _ \<Rightarrow> 32 | IpV6 _ \<Rightarrow> 128)) ips"

text \<open>Step 4: \<^verbatim>\<open>dip(proxy) && !dport(53) -> direct\<close>.\<close>

definition auto_direct :: "nat \<Rightarrow> MatchSet list" where
  "auto_direct proxy_idx =
     [\<lparr>ms_value = put_index (of_nat proxy_idx) MatchSetValue_zeroed, ms_not = 0, ms_type = MT_IP_SET,
       ms_outbound = OB_LOGICAL_AND, ms_must = 0, ms_mark = 0\<rparr>,
      \<lparr>ms_value = put_port_range 53 53 MatchSetValue_zeroed, ms_not = 1, ms_type = MT_PORT,
       ms_outbound = OB_DIRECT, ms_must = 0, ms_mark = 0\<rparr>]"

definition Lowering_new :: Lowering where
  "Lowering_new = \<lparr>lw_tries = [], lw_dedup = [], lw_domain_idx = 0\<rparr>"

text \<open>Step 3.5: the set of proxy addresses comes first in the table.\<close>

definition proxy_trie :: "ipnet_lib \<Rightarrow> IpAddr list \<Rightarrow> (nat option \<times> Lowering) run" where
  "proxy_trie lib ips =
     (if proxy_cidrs lib ips \<noteq> []
      then run_bind (find_or_create_lpm_trie (proxy_cidrs lib ips) Lowering_new) (\<lambda>(i, st). Ret (Some i, st))
      else Ret (None, Lowering_new))"

text \<open>Steps 5 and 6: the final entry and the capacity checks.\<close>

definition finish_routing ::
    "(string \<times> u8) list \<Rightarrow> Outbound \<Rightarrow> MatchSet list \<Rightarrow> IpNet list list \<Rightarrow> CompiledDomainSet list
      \<Rightarrow> RouteError + CompiledRouting" where
  "finish_routing id_map fallback mss tries dsets =
     (let fallback_id = (case map_of id_map (ob_name fallback) of Some i \<Rightarrow> i | None \<Rightarrow> OB_CONTROL_PLANE_ROUTING);
          fallback_must = (if ob_must fallback then 1 else 0);
          all = mss @ [\<lparr>ms_value = MatchSetValue_zeroed, ms_not = 0, ms_type = MT_FALLBACK,
                        ms_outbound = fallback_id, ms_must = fallback_must, ms_mark = ob_mark fallback\<rparr>]
      in if length all > MAX_MATCH_SET_LEN then Inl CapacityExceeded
         else if length tries > MAX_LPM_NUM then Inl CapacityExceeded
         else if length dsets > MAX_MATCH_SET_LEN then Inl CapacityExceeded
         else Inr \<lparr>cr_match_sets = all, cr_lpm_tries = tries, cr_domain_sets = dsets,
                   cr_fallback_outbound = fallback_id, cr_fallback_mark = ob_mark fallback,
                   cr_fallback_must = fallback_must\<rparr>)"

definition compile_rules ::
    "ipnet_lib \<Rightarrow> RoutingConfig \<Rightarrow> OutboundsConfig \<Rightarrow> IpAddr list \<Rightarrow> RuleSetCache option
      \<Rightarrow> (RouteError + CompiledRouting) run" where
  "compile_rules lib routing outbounds proxy_server_ips cache =
     try_bind (Ret (from_config routing)) (\<lambda>program.
       let id_map = build_outbound_id_map outbounds
       in run_bind (proxy_trie lib proxy_server_ips) (\<lambda>(proxy_idx, st0).
            try_bind (collect_domain_sets cache (concat (map nr_functions (np_rules program)))) (\<lambda>dsets.
              try_bind (lower_rules lib cache id_map (np_rules program) st0) (\<lambda>(mss, st).
                Ret (finish_routing id_map (np_fallback program)
                       ((case proxy_idx of None \<Rightarrow> [] | Some i \<Rightarrow> auto_direct i) @ mss)
                       (lw_tries st) dsets)))))"

section \<open>Invariants of the compilation\<close>

text \<open>Every recorded index points into the table of address sets.\<close>

definition lower_inv :: "Lowering \<Rightarrow> bool" where
  "lower_inv st \<longleftrightarrow> (\<forall>h i. map_of (lw_dedup st) h = Some i \<longrightarrow> i < length (lw_tries st))"

abbreviation trie_types :: "u8 set" where
  "trie_types \<equiv> {MT_IP_SET, MT_SOURCE_IP_SET, MT_MAC}"

definition entry_ok :: "IpNet list list \<Rightarrow> MatchSet \<Rightarrow> bool" where
  "entry_ok tries ms \<longleftrightarrow> ms_wf ms \<and>
     (ms_type ms \<in> trie_types \<longrightarrow> (\<exists>i < length tries. get_index (ms_value ms) = of_nat i))"

text \<open>
  What one part of the lowering promises: it does not panic; it keeps the invariant; it only appends
  to the table, at most one set for each entry it emits; and its entries point into the table.
\<close>

definition lower_post :: "Lowering \<Rightarrow> lowered \<Rightarrow> bool" where
  "lower_post st m \<longleftrightarrow>
     (case m of
        Panic \<Rightarrow> False
      | Ret (Inl _) \<Rightarrow> True
      | Ret (Inr (ms, st')) \<Rightarrow>
          lower_inv st' \<and> prefix (lw_tries st) (lw_tries st') \<and> list_all (entry_ok (lw_tries st')) ms
          \<and> length (lw_tries st') \<le> length (lw_tries st) + length ms)"

lemma lower_post_simps [simp]:
  "\<not> lower_post st Panic" "lower_post st (Ret (Inl e))"
  "lower_post st (Ret (Inr (ms, st'))) \<longleftrightarrow>
     lower_inv st' \<and> prefix (lw_tries st) (lw_tries st') \<and> list_all (entry_ok (lw_tries st')) ms
     \<and> length (lw_tries st') \<le> length (lw_tries st) + length ms"
  by (simp_all add: lower_post_def)

lemma entry_ok_prefix: "entry_ok ts ms \<Longrightarrow> prefix ts ts' \<Longrightarrow> entry_ok ts' ms"
  by (auto simp: entry_ok_def dest!: prefix_length_le intro: less_le_trans)

lemma lower_post_seq:
  assumes "lower_post st m" "\<And>st'. lower_inv st' \<Longrightarrow> lower_post st' (k st')"
  shows "lower_post st (lower_seq m k)"
proof (cases m)
  case (Ret r)
  show ?thesis
  proof (cases r)
    case (Inr x)
    obtain ms st1 where x: "x = (ms, st1)" by (cases x)
    with assms(1) Ret Inr have 1: "lower_inv st1" "prefix (lw_tries st) (lw_tries st1)"
      "list_all (entry_ok (lw_tries st1)) ms" "length (lw_tries st1) \<le> length (lw_tries st) + length ms" by auto
    note k = assms(2) [OF 1(1)]
    have seq: "lower_seq m k = try_bind (k st1) (\<lambda>(rest, st'). Ret (Inr (ms @ rest, st')))"
      using Ret Inr x by (simp add: lower_seq_def)
    show ?thesis
    proof (cases "\<exists>ms2 st2. k st1 = Ret (Inr (ms2, st2))")
      case True
      then obtain ms2 st2 where k2: "k st1 = Ret (Inr (ms2, st2))" by blast
      with k have 2: "lower_inv st2" "prefix (lw_tries st1) (lw_tries st2)"
        "list_all (entry_ok (lw_tries st2)) ms2" "length (lw_tries st2) \<le> length (lw_tries st1) + length ms2" by auto
      have "prefix (lw_tries st) (lw_tries st2)" using 1(2) 2(2) by (rule prefix_order.order_trans)
      moreover have "list_all (entry_ok (lw_tries st2)) ms"
        using 1(3) entry_ok_prefix [OF _ 2(2)] by (simp add: list_all_iff)
      ultimately show ?thesis using 1 2 unfolding seq k2 by simp
    next
      case False
      with k show ?thesis unfolding seq by (cases "k st1"; cases "case k st1 of Ret r \<Rightarrow> r") auto
    qed
  qed (use Ret in \<open>simp add: lower_seq_def\<close>)
qed (use assms(1) in simp)

lemma push_trie_post:
  assumes "lower_inv st" "push_trie cidrs st = (i, st')"
  shows "lower_inv st'" "i < length (lw_tries st')" "lw_tries st' ! i = cidrs"
    "prefix (lw_tries st) (lw_tries st')" "length (lw_tries st') \<le> length (lw_tries st) + 1"
    "lw_domain_idx st' = lw_domain_idx st"
  using assms by (auto simp: push_trie_def Let_def lower_inv_def less_Suc_eq split: if_splits)

lemma find_or_create_post:
  assumes "lower_inv st"
  obtains i st' where "find_or_create_lpm_trie cidrs st = Ret (i, st')" "lower_inv st'"
    "i < length (lw_tries st')" "lw_tries st' ! i = cidrs" "prefix (lw_tries st) (lw_tries st')"
    "length (lw_tries st') \<le> length (lw_tries st) + 1" "lw_domain_idx st' = lw_domain_idx st"
proof -
  obtain i st' where p: "push_trie cidrs st = (i, st')" by fastforce
  note pp = push_trie_post [OF assms p]
  show thesis
  proof (cases "map_of (lw_dedup st) (hash_cidrs cidrs)")
    case None
    with p pp show ?thesis by (intro that [of i st']) (simp_all add: find_or_create_lpm_trie_def)
  next
    case (Some j)
    with assms have j: "j < length (lw_tries st)" by (auto simp: lower_inv_def)
    show ?thesis
    proof (cases "lw_tries st ! j = cidrs")
      case True
      with Some j assms show ?thesis by (intro that [of j st]) (simp_all add: find_or_create_lpm_trie_def)
    next
      case False
      with Some j p pp show ?thesis by (intro that [of i st']) (simp_all add: find_or_create_lpm_trie_def)
    qed
  qed
qed

lemma mk_entry_simps [simp]:
  "ms_value (mk_entry ty v neg oid ov) = v" "ms_type (mk_entry ty v neg oid ov) = ty"
  "ms_not (mk_entry ty v neg oid ov) = (if neg then 1 else 0)" "ms_outbound (mk_entry ty v neg oid ov) = oid"
  "ms_must (mk_entry ty v neg oid ov) = (if ob_must ov then 1 else 0)" "ms_mark (mk_entry ty v neg oid ov) = ob_mark ov"
  by (simp_all add: mk_entry_def)

lemma trie_entry_post:
  assumes "lower_inv st"
  shows "lower_post st (run_bind (find_or_create_lpm_trie cidrs st) (\<lambda>(i, st').
    Ret (Inr ([mk_entry ty (put_index (of_nat i) MatchSetValue_zeroed) neg oid ov], st'))))"
proof -
  obtain i st' where "find_or_create_lpm_trie cidrs st = Ret (i, st')" "lower_inv st'"
      "i < length (lw_tries st')" "prefix (lw_tries st) (lw_tries st')"
      "length (lw_tries st') \<le> length (lw_tries st) + 1"
    using find_or_create_post [OF assms] by metis
  then show ?thesis by (auto simp: entry_ok_def ms_wf_def)
qed

lemma port_entry_ok:
  "port_entry ty val neg oid ov = Inr ms \<Longrightarrow> ty \<notin> trie_types \<Longrightarrow> entry_ok ts ms"
  by (auto simp: port_entry_def res_bind_eq_Inr entry_ok_def ms_wf_def split: option.splits prod.splits)

lemma dscp_entry_ok: "dscp_entry val neg oid ov = Inr ms \<Longrightarrow> entry_ok ts ms"
  by (auto simp: dscp_entry_def res_bind_eq_Inr entry_ok_def ms_wf_def)

lemma res_map_post:
  assumes "lower_inv st" "\<And>v ms. f v = Inr ms \<Longrightarrow> entry_ok (lw_tries st) ms"
  shows "lower_post st (Ret (res_bind (res_map f values) (\<lambda>ms. Inr (ms, st))))"
proof (cases "res_map f values")
  case (Inr mss)
  then have "list_all (entry_ok (lw_tries st)) mss"
    using assms(2) by (auto simp: res_map_Inr_iff list_all_iff dest!: list_all2_nthD2 in_set_conv_nth [THEN iffD1])
  with Inr assms(1) show ?thesis by simp
qed simp

lemma parse_cidr_values_total:
  assumes "ipnet_new_ok lib"
  shows "parse_cidr_values lib values cache \<noteq> Panic"
  using assms by (induction lib "values" cache rule: parse_cidr_values.induct)
    (auto simp: ipnet_new_ok_def try_bind_eq_Panic split: RuleSetRef.splits option.splits)

lemma build_match_set_post:
  assumes "ipnet_new_ok lib" "lower_inv st"
  shows "lower_post st (build_match_set_for_function lib cache func values oid ov st)"
proof -
  have trie: "lower_post st (try_bind (parse_cidr_values lib (fn_params func) cache) (\<lambda>cidrs.
      run_bind (find_or_create_lpm_trie cidrs st) (\<lambda>(i, st').
        Ret (Inr ([mk_entry ty (put_index (of_nat i) MatchSetValue_zeroed) (fn_not func) oid ov], st')))))" for ty
    using parse_cidr_values_total [OF assms(1), of "fn_params func" cache] trie_entry_post [OF assms(2)]
    by (cases "parse_cidr_values lib (fn_params func) cache"; cases "case parse_cidr_values lib (fn_params func) cache of Ret r \<Rightarrow> r")
      auto
  have ports: "lower_post st (Ret (res_bind (res_map (\<lambda>val. port_entry ty val (fn_not func) oid ov) values) (\<lambda>ms. Inr (ms, st))))"
    if "ty \<notin> trie_types" for ty
    by (rule res_map_post [OF assms(2)]) (use port_entry_ok that in blast)
  have dscps: "lower_post st (Ret (res_bind (res_map (\<lambda>val. dscp_entry val (fn_not func) oid ov) values) (\<lambda>ms. Inr (ms, st))))"
    by (rule res_map_post [OF assms(2)]) (use dscp_entry_ok in blast)
  have many: "lower_post st (Ret (Inr (map (\<lambda>val. mk_entry ty (g val) (fn_not func) oid ov) values, st)))"
    if "ty \<notin> trie_types" "\<And>v. length (g v) = 16" for ty g
    using that assms(2) by (simp add: list_all_iff entry_ok_def ms_wf_def)
  have one: "lower_post st (Ret (Inr ([mk_entry ty v (fn_not func) oid ov], st\<lparr>lw_domain_idx := n\<rparr>)))"
    if "ty \<notin> trie_types" "length v = 16" for ty v n
    using that assms(2) by (simp add: entry_ok_def ms_wf_def lower_inv_def)
  have none: "lower_post st (Ret (Inr ([], st)))" using assms(2) by simp
  have if_post: "lower_post st (if c then a else b)" if "c \<Longrightarrow> lower_post st a" "\<not> c \<Longrightarrow> lower_post st b" for c a b
    using that by simp
  have one': "lower_post st (Ret (Inr ([mk_entry ty v (fn_not func) oid ov], st)))"
    if "ty \<notin> trie_types" "length v = 16" for ty v
    using one [OF that, of "lw_domain_idx st"] by simp
  show ?thesis
    unfolding build_match_set_for_function_def Let_def res_bind.simps
    by (intro if_post trie trie_entry_post [OF assms(2)] ports dscps many one one' none lower_post_simps(2); simp)
qed

lemma lower_keys_post:
  assumes "ipnet_new_ok lib" "lower_inv st"
  shows "lower_post st (lower_keys lib cache id_map ob func kv last_fn keys st)"
  using assms(2)
proof (induction keys arbitrary: st)
  case (Cons key keys)
  let ?ov = "compute_override_outbound (keys = []) last_fn ob"
  have "lower_post st (try_bind (Ret (resolve_outbound_id ?ov id_map)) (\<lambda>ov_id.
      build_match_set_for_function lib cache func vals ov_id ?ov st))" for vals
    using build_match_set_post [OF assms(1) Cons.prems]
    by (cases "resolve_outbound_id ?ov id_map") simp_all
  then show ?case unfolding lower_keys.simps Let_def by (intro lower_post_seq Cons.IH)
qed simp

lemma lower_functions_post:
  assumes "ipnet_new_ok lib" "lower_inv st"
  shows "lower_post st (lower_functions lib cache id_map ob fs st)"
  using assms(2)
proof (induction fs arbitrary: st)
  case (Cons f fs)
  then show ?case unfolding lower_functions.simps
    by (intro lower_post_seq) (auto simp: lower_keys_post [OF assms(1)] split: prod.splits)
qed simp

lemma lower_rules_post:
  assumes "ipnet_new_ok lib" "lower_inv st"
  shows "lower_post st (lower_rules lib cache id_map rules st)"
  using assms(2)
proof (induction rules arbitrary: st)
  case (Cons rule rules)
  have fb: "entry_ok ts (build_fallback_matchset i ob)" for ts i ob
    by (simp add: build_fallback_matchset_def entry_ok_def ms_wf_def)
  have "lower_post st (try_bind (Ret (resolve_outbound_id (nr_outbound rule) id_map)) (\<lambda>outbound_id.
      if nr_functions rule = [] then Ret (Inr ([build_fallback_matchset outbound_id (nr_outbound rule)], st))
      else lower_functions lib cache id_map (nr_outbound rule) (nr_functions rule) st))"
    using Cons.prems lower_functions_post [OF assms(1)] fb
    by (cases "resolve_outbound_id (nr_outbound rule) id_map") simp_all
  then show ?case unfolding lower_rules.simps by (intro lower_post_seq Cons.IH)
qed simp

lemma lower_inv_new [simp]: "lower_inv Lowering_new"
  by (simp add: lower_inv_def Lowering_new_def)

lemma proxy_trie_post:
  obtains idx st where "proxy_trie lib ips = Ret (idx, st)" "lower_inv st"
    "list_all (entry_ok (lw_tries st)) (case idx of None \<Rightarrow> [] | Some i \<Rightarrow> auto_direct i)"
    "length (lw_tries st) \<le> length (case idx of None \<Rightarrow> [] | Some i \<Rightarrow> auto_direct i)"
    "\<And>i. idx = Some i \<Longrightarrow> i < length (lw_tries st) \<and> lw_tries st ! i = proxy_cidrs lib ips"
proof (cases "proxy_cidrs lib ips = []")
  case True
  then show ?thesis by (intro that [of None Lowering_new]) (simp_all add: proxy_trie_def Lowering_new_def lower_inv_def)
next
  case False
  obtain i st where f: "find_or_create_lpm_trie (proxy_cidrs lib ips) Lowering_new = Ret (i, st)" "lower_inv st"
      "i < length (lw_tries st)" "lw_tries st ! i = proxy_cidrs lib ips"
      "length (lw_tries st) \<le> length (lw_tries Lowering_new) + 1"
    using find_or_create_post [OF lower_inv_new] by metis
  have "length (lw_tries st) \<le> 1" using f(5) by (simp add: Lowering_new_def)
  moreover have "list_all (entry_ok (lw_tries st)) (auto_direct i)"
    using f(3) by (auto simp: auto_direct_def entry_ok_def ms_wf_def)
  ultimately show ?thesis
    using False f by (intro that [of "Some i" st]) (simp_all add: proxy_trie_def auto_direct_def)
qed

text \<open>The result of a successful compilation, in its parts.\<close>

lemma compile_rules_Inr:
  assumes "ipnet_new_ok lib" "compile_rules lib routing outbounds ips cache = Ret (Inr cr)"
  obtains program idx st0 dsets mss st where "from_config routing = Inr program"
    "proxy_trie lib ips = Ret (idx, st0)" "lower_inv st0"
    "collect_domain_sets cache (concat (map nr_functions (np_rules program))) = Ret (Inr dsets)"
    "lower_rules lib cache (build_outbound_id_map outbounds) (np_rules program) st0 = Ret (Inr (mss, st))"
    "finish_routing (build_outbound_id_map outbounds) (np_fallback program)
       ((case idx of None \<Rightarrow> [] | Some i \<Rightarrow> auto_direct i) @ mss) (lw_tries st) dsets = Inr cr"
    "list_all (entry_ok (lw_tries st)) ((case idx of None \<Rightarrow> [] | Some i \<Rightarrow> auto_direct i) @ mss)"
    "length (lw_tries st) \<le> length ((case idx of None \<Rightarrow> [] | Some i \<Rightarrow> auto_direct i) @ mss)"
    "\<And>i. idx = Some i \<Longrightarrow> i < length (lw_tries st) \<and> lw_tries st ! i = proxy_cidrs lib ips"
proof -
  obtain idx st0 where p: "proxy_trie lib ips = Ret (idx, st0)" "lower_inv st0"
    "list_all (entry_ok (lw_tries st0)) (case idx of None \<Rightarrow> [] | Some i \<Rightarrow> auto_direct i)"
    "length (lw_tries st0) \<le> length (case idx of None \<Rightarrow> [] | Some i \<Rightarrow> auto_direct i)"
    "\<And>i. idx = Some i \<Longrightarrow> i < length (lw_tries st0) \<and> lw_tries st0 ! i = proxy_cidrs lib ips"
    using proxy_trie_post by metis
  from assms(2) p(1) obtain program dsets mss st where q: "from_config routing = Inr program"
      "collect_domain_sets cache (concat (map nr_functions (np_rules program))) = Ret (Inr dsets)"
      "lower_rules lib cache (build_outbound_id_map outbounds) (np_rules program) st0 = Ret (Inr (mss, st))"
      "finish_routing (build_outbound_id_map outbounds) (np_fallback program)
         ((case idx of None \<Rightarrow> [] | Some i \<Rightarrow> auto_direct i) @ mss) (lw_tries st) dsets = Inr cr"
    unfolding compile_rules_def Let_def by (auto simp: try_bind_eq_Inr)
  have l: "prefix (lw_tries st0) (lw_tries st)" "list_all (entry_ok (lw_tries st)) mss"
      "length (lw_tries st) \<le> length (lw_tries st0) + length mss"
    using lower_rules_post [OF assms(1) p(2), of cache "build_outbound_id_map outbounds" "np_rules program"]
    unfolding q(3) by auto
  have "list_all (entry_ok (lw_tries st)) (case idx of None \<Rightarrow> [] | Some i \<Rightarrow> auto_direct i)"
    using p(3) entry_ok_prefix [OF _ l(1)] by (simp add: list_all_iff)
  moreover have "i < length (lw_tries st) \<and> lw_tries st ! i = proxy_cidrs lib ips" if "idx = Some i" for i
    using p(5) [OF that] l(1) by (auto simp: prefix_def nth_append)
  ultimately show ?thesis
    using that [OF q(1) p(1,2) q(2-4)] l(2,3) p(4) by simp
qed

text \<open>
  C17: a successful compilation fits the kernel maps: at most 1024 entries, the last of which is the
  unconditional fallback; every entry has a sixteen-byte value; and every address-set entry points at
  an existing set, with an index below 1024, so the kernel's own bound on the index is never hit.
\<close>

theorem compile_rules_fits:
  assumes "ipnet_new_ok lib" "compile_rules lib routing outbounds ips cache = Ret (Inr cr)"
  shows "length (cr_match_sets cr) \<le> MAX_MATCH_SET_LEN \<and> length (cr_domain_sets cr) \<le> MAX_MATCH_SET_LEN
    \<and> cr_match_sets cr \<noteq> [] \<and> ms_type (last (cr_match_sets cr)) = MT_FALLBACK
    \<and> ms_not (last (cr_match_sets cr)) = 0 \<and> ms_outbound (last (cr_match_sets cr)) = cr_fallback_outbound cr
    \<and> list_all ms_wf (cr_match_sets cr)
    \<and> list_all (\<lambda>ms. ms_type ms \<in> trie_types \<longrightarrow>
        unat (get_index (ms_value ms)) < length (cr_lpm_tries cr) \<and> unat (get_index (ms_value ms)) < MAX_MATCH_SET_LEN)
        (cr_match_sets cr)"
proof -
  obtain program :: NormalizedProgram and st :: Lowering and dsets mss
    where f: "finish_routing (build_outbound_id_map outbounds) (np_fallback program) mss (lw_tries st) dsets = Inr cr"
      and e: "list_all (entry_ok (lw_tries st)) mss" and n: "length (lw_tries st) \<le> length mss"
    by (rule compile_rules_Inr [OF assms]) (rule that, assumption+)
  from f have c: "length mss < MAX_MATCH_SET_LEN" "length dsets \<le> MAX_MATCH_SET_LEN"
      "cr_lpm_tries cr = lw_tries st" "cr_domain_sets cr = dsets"
    and m: "\<exists>fb. cr_match_sets cr = mss @ [fb] \<and> ms_type fb = MT_FALLBACK \<and> ms_not fb = 0
          \<and> ms_outbound fb = cr_fallback_outbound cr \<and> ms_wf fb"
    by (auto simp: finish_routing_def Let_def ms_wf_def split: if_splits)
  have "unat (get_index (ms_value ms)) < length (lw_tries st)" if "ms \<in> set mss" "ms_type ms \<in> trie_types" for ms
  proof -
    from e that obtain i where i: "i < length (lw_tries st)" "get_index (ms_value ms) = of_nat i"
      by (auto simp: list_all_iff entry_ok_def)
    moreover have "i < 2 ^ 32" using i(1) n c(1) by simp
    ultimately show ?thesis by (simp add: unsigned_of_nat take_bit_nat_eq_self)
  qed
  with c n m e show ?thesis by (fastforce simp: list_all_iff entry_ok_def)
qed

text \<open>A small configuration for the examples.\<close>

definition demo_routing :: RoutingConfig where
  "demo_routing = \<lparr>rc_rules = [\<lparr>rr_match = ''ip(1.0.0.0/8)'', rr_action = ''direct''\<rparr>], rc_fallback = ''block''\<rparr>"

definition demo_outbounds :: OutboundsConfig where
  "demo_outbounds = \<lparr>oc_nodes = [], oc_groups = []\<rparr>"

lemma demo_compiles:
  obtains cr where "compile_rules cidr_lib demo_routing demo_outbounds [] None = Ret (Inr cr)"
    "list_all (list_all compilable_net) (cr_lpm_tries cr)"
proof -
  have "case compile_rules cidr_lib demo_routing demo_outbounds [] None of
          Ret (Inr cr) \<Rightarrow> list_all (list_all compilable_net) (cr_lpm_tries cr) | _ \<Rightarrow> False"
    by code_simp
  then show ?thesis using that by (auto split: run.splits sum.splits)
qed

theorem compile_rules_fits_witness:
  "\<exists>cr. compile_rules cidr_lib demo_routing demo_outbounds [] None = Ret (Inr cr)
     \<and> length (cr_match_sets cr) \<le> MAX_MATCH_SET_LEN \<and> ms_type (last (cr_match_sets cr)) = MT_FALLBACK"
proof -
  obtain cr where "compile_rules cidr_lib demo_routing demo_outbounds [] None = Ret (Inr cr)"
    by (rule demo_compiles)
  moreover have "ipnet_new_ok cidr_lib" using cidr_lib_ok by (simp add: ipnet_lib_ok_def)
  ultimately show ?thesis using compile_rules_fits by blast
qed

end
