(* ===== verification/Routing_Match.thy ===== *)
theory Routing_Match
  imports Routing_Compile
begin

text \<open>
  The user-space matcher of \<^verbatim>\<open>control/src/routing/matcher.rs\<close>: \<^verbatim>\<open>RoutingMatcher\<close> with
  \<^verbatim>\<open>from_compiled\<close>, \<^verbatim>\<open>eval_match\<close>, \<^verbatim>\<open>match_routing\<close> and \<^verbatim>\<open>choose_dial_target\<close>.  The two nested
  loops over the index run here over the entries that remain.
\<close>

section \<open>State\<close>

record RoutingParams =
  rp_src_ip :: "IpAddr option"
  rp_dst_ip :: "IpAddr option"
  rp_src_port :: "u16 option"
  rp_dst_port :: "u16 option"
  rp_l4proto :: "u8 option"
  rp_domain :: "string option"
  rp_process_name :: "string option"
  rp_dscp :: "u8 option"

record RoutingResult =
  res_outbound :: u8
  res_mark :: u32
  res_must :: bool

record RoutingMatcher =
  rm_match_sets :: "MatchSet list"
  rm_compiled_lpm :: "CompiledIpSet list"
  rm_compiled_domains :: "CompiledDomainSet list"
  rm_fallback_outbound :: u8
  rm_fallback_mark :: u32
  rm_fallback_must :: bool

fun compile_tries :: "bool \<Rightarrow> ipnet_lib \<Rightarrow> IpNet list list \<Rightarrow> CompiledIpSet list run" where
  "compile_tries checks lib [] = Ret []"
| "compile_tries checks lib (nets # rest) =
     run_bind (CompiledIpSet_compile checks lib nets) (\<lambda>c.
       run_bind (compile_tries checks lib rest) (\<lambda>cs. Ret (c # cs)))"

definition from_compiled :: "bool \<Rightarrow> ipnet_lib \<Rightarrow> CompiledRouting \<Rightarrow> RoutingMatcher run" where
  "from_compiled checks lib compiled =
     run_bind (compile_tries checks lib (cr_lpm_tries compiled)) (\<lambda>lpm.
       Ret \<lparr>rm_match_sets = cr_match_sets compiled, rm_compiled_lpm = lpm,
            rm_compiled_domains = cr_domain_sets compiled,
            rm_fallback_outbound = cr_fallback_outbound compiled,
            rm_fallback_mark = cr_fallback_mark compiled,
            rm_fallback_must = (cr_fallback_must compiled \<noteq> 0)\<rparr>)"

section \<open>Evaluation of one entry\<close>

definition eval_ip_set :: "RoutingMatcher \<Rightarrow> MatchSet \<Rightarrow> IpAddr option \<Rightarrow> bool run" where
  "eval_ip_set m ms addr =
     (case addr of
        None \<Rightarrow> Ret False
      | Some ip \<Rightarrow>
          (let idx = unat (get_index (ms_value ms))
           in if idx < length (rm_compiled_lpm m)
              then run_bind (index_get (rm_compiled_lpm m) idx) (\<lambda>c. CompiledIpSet_contains c ip)
              else Ret False))"

definition in_port_range :: "MatchSet \<Rightarrow> u16 option \<Rightarrow> bool" where
  "in_port_range ms port =
     (case port of None \<Rightarrow> False
                 | Some p \<Rightarrow> p \<ge> get_port_start (ms_value ms) \<and> p \<le> get_port_end (ms_value ms))"

text \<open>
  \<^verbatim>\<open>from_utf8(&pname).unwrap_or("").trim_end_matches('\0')\<close>.
\<close>

definition pname_str :: "MatchSetValue \<Rightarrow> string" where
  "pname_str v =
     (let s = get_pname v in trim_end_char (CHR 0x00) (if utf8_valid s then s else []))"

definition eval_match :: "regex_engine \<Rightarrow> RoutingMatcher \<Rightarrow> MatchSet \<Rightarrow> RoutingParams \<Rightarrow> bool run" where
  "eval_match rx m ms params =
     (if ms_type ms = MT_DOMAIN_SET then
        (case rp_domain params of
           Some domain \<Rightarrow>
             (let idx = unat (get_index (ms_value ms))
              in if idx < length (rm_compiled_domains m)
                 then run_bind (index_get (rm_compiled_domains m) idx) (\<lambda>c. CompiledDomainSet_matches rx c domain)
                 else Ret False)
         | None \<Rightarrow> Ret False)
      else if ms_type ms = MT_IP_SET then eval_ip_set m ms (rp_dst_ip params)
      else if ms_type ms = MT_SOURCE_IP_SET then eval_ip_set m ms (rp_src_ip params)
      else if ms_type ms = MT_MAC then Ret False
      else if ms_type ms = MT_PORT then Ret (in_port_range ms (rp_dst_port params))
      else if ms_type ms = MT_SOURCE_PORT then Ret (in_port_range ms (rp_src_port params))
      else if ms_type ms = MT_L4_PROTO then
        Ret (case rp_l4proto params of None \<Rightarrow> False | Some p \<Rightarrow> p AND get_byte (ms_value ms) \<noteq> 0)
      else if ms_type ms = MT_IP_VERSION then
        Ret (case (case rp_dst_ip params of Some ip \<Rightarrow> Some ip | None \<Rightarrow> rp_src_ip params) of
               None \<Rightarrow> False
             | Some (IpV4 _) \<Rightarrow> get_byte (ms_value ms) AND 1 \<noteq> 0
             | Some (IpV6 _) \<Rightarrow> get_byte (ms_value ms) AND 2 \<noteq> 0)
      else if ms_type ms = MT_PROCESS_NAME then Ret (rp_process_name params = Some (pname_str (ms_value ms)))
      else if ms_type ms = MT_DSCP then Ret (rp_dscp params = Some (get_byte (ms_value ms)))
      else Ret (ms_type ms = MT_FALLBACK))"

section \<open>The walk\<close>

text \<open>The inner loop returns a result, or the entries from the one it stopped at.\<close>

datatype rule_exit = Decided RoutingResult | Leave "MatchSet list"

definition is_continuation_entry :: "u8 \<Rightarrow> bool" where
  "is_continuation_entry ob \<longleftrightarrow> (ob AND OB_LOGICAL_MASK) = OB_LOGICAL_OR \<or> ob = OB_LOGICAL_AND"

fun rule_loop ::
    "regex_engine \<Rightarrow> RoutingMatcher \<Rightarrow> RoutingParams \<Rightarrow> bool \<Rightarrow> bool \<Rightarrow> bool \<Rightarrow> MatchSet list \<Rightarrow> rule_exit run" where
  "rule_loop rx m params good_subrule bad_rule must_flag [] = Ret (Leave [])"
| "rule_loop rx m params good_subrule bad_rule must_flag (ms # rest) =
     (let ob = ms_outbound ms
      in if good_subrule \<or> bad_rule then
           (if is_continuation_entry ob then rule_loop rx m params good_subrule bad_rule must_flag rest
            else Ret (Leave (ms # rest)))
         else run_bind (eval_match rx m ms params) (\<lambda>matched.
           let bad = (if ms_not ms \<noteq> 0 \<and> matched then True else bad_rule);
               good = (if ms_not ms \<noteq> 0 then (if matched then good_subrule else True)
                       else if matched then True else good_subrule)
           in if (ob AND OB_LOGICAL_MASK) \<noteq> OB_LOGICAL_MASK then
                (if \<not> bad \<and> good then
                   (if ob = OB_MUST_RULES then rule_loop rx m params False False True rest
                    else Ret (Decided \<lparr>res_outbound = ob, res_mark = ms_mark ms,
                                       res_must = (must_flag \<or> ms_must ms \<noteq> 0)\<rparr>))
                 else Ret (Leave (ms # rest)))
              else rule_loop rx m params good bad must_flag rest))"

lemma rule_loop_length:
  "rule_loop rx m params g b mf mss = Ret (Leave rest) \<Longrightarrow> length rest \<le> length mss"
  by (induction rx m params g b mf mss rule: rule_loop.induct)
    (auto simp: Let_def run_bind_eq_Ret split: if_splits intro: le_SucI)

function match_loop :: "regex_engine \<Rightarrow> RoutingMatcher \<Rightarrow> RoutingParams \<Rightarrow> MatchSet list \<Rightarrow> RoutingResult run" where
  "match_loop rx m params mss =
     (if mss = [] then
        Ret \<lparr>res_outbound = rm_fallback_outbound m, res_mark = rm_fallback_mark m, res_must = rm_fallback_must m\<rparr>
      else run_bind (rule_loop rx m params False False False mss) (\<lambda>e.
        case e of Decided r \<Rightarrow> Ret r | Leave rest \<Rightarrow> match_loop rx m params (drop 1 rest)))"
  by pat_completeness auto
termination
proof (relation "measure (\<lambda>(rx, m, params, mss). length mss)", goal_cases)
  case (2 rx m params mss e rest)
  then have "length rest \<le> length mss" using rule_loop_length by metis
  with 2 show ?case by (cases mss) auto
qed simp

declare match_loop.simps [simp del]

definition match_routing :: "regex_engine \<Rightarrow> RoutingMatcher \<Rightarrow> RoutingParams \<Rightarrow> RoutingResult run" where
  "match_routing rx m params = match_loop rx m params (rm_match_sets m)"

definition choose_dial_target :: "regex_engine \<Rightarrow> RoutingMatcher \<Rightarrow> RoutingParams \<Rightarrow> RoutingResult run" where
  "choose_dial_target rx routing ctx = match_routing rx routing ctx"

section \<open>What the walk computes\<close>

text \<open>A rule is a run of chained entries followed by the entry that carries the outbound.\<close>

definition is_logical :: "MatchSet \<Rightarrow> bool" where
  "is_logical ms \<longleftrightarrow> ms_outbound ms = OB_LOGICAL_OR \<or> ms_outbound ms = OB_LOGICAL_AND"

fun rules_of :: "MatchSet list \<Rightarrow> (MatchSet list \<times> MatchSet) list" where
  "rules_of [] = []"
| "rules_of (ms # mss) =
     (if is_logical ms
      then (case rules_of mss of [] \<Rightarrow> [] | (pre, t) # rs \<Rightarrow> (ms # pre, t) # rs)
      else ([], ms) # rules_of mss)"

text \<open>An entry is satisfied when its match differs from its negation flag.\<close>

definition satisfied :: "(MatchSet \<Rightarrow> bool) \<Rightarrow> MatchSet \<Rightarrow> bool" where
  "satisfied ev ms \<longleftrightarrow> ev ms \<noteq> (ms_not ms \<noteq> 0)"

text \<open>
  The condition under which the user-space walk takes a rule: every chained entry is plain and does
  \<^emph>\<open>not\<close> match, and the last entry is satisfied.
\<close>

definition user_takes :: "(MatchSet \<Rightarrow> bool) \<Rightarrow> MatchSet list \<times> MatchSet \<Rightarrow> bool" where
  "user_takes ev r \<longleftrightarrow> list_all (\<lambda>ms. ms_not ms = 0 \<and> \<not> ev ms) (fst r) \<and> satisfied ev (snd r)"

fun first_rule ::
    "(MatchSet list \<times> MatchSet \<Rightarrow> bool) \<Rightarrow> bool \<Rightarrow> bool \<Rightarrow> (MatchSet list \<times> MatchSet) list \<Rightarrow> RoutingResult option" where
  "first_rule takes keep must [] = None"
| "first_rule takes keep must (r # rs) =
     (if takes r
      then (if ms_outbound (snd r) = OB_MUST_RULES then first_rule takes keep True rs
            else Some \<lparr>res_outbound = ms_outbound (snd r), res_mark = ms_mark (snd r),
                       res_must = (must \<or> ms_must (snd r) \<noteq> 0)\<rparr>)
      else first_rule takes keep (keep \<and> must) rs)"

lemma logical_mask: "(ob AND OB_LOGICAL_MASK) = OB_LOGICAL_MASK \<longleftrightarrow> ob = OB_LOGICAL_OR \<or> ob = OB_LOGICAL_AND"
proof -
  have n: "(254 :: u8) = NOT 1" "(255 :: u8) = NOT 0" by simp_all
  have b: "bit (NOT 1 :: u8) k \<longleftrightarrow> k < 8 \<and> k \<noteq> 0" for k by (auto simp: bit_simps)
  show ?thesis unfolding n
  proof
    assume "ob AND NOT 1 = NOT 1"
    then have *: "bit ob k" if "k < 8" "k \<noteq> 0" for k using that b by (metis bit_and_iff)
    show "ob = NOT 1 \<or> ob = NOT 0"
    proof (cases "bit ob 0")
      case True
      have "bit ob k = bit (NOT 0 :: u8) k" if "k < LENGTH(8)" for k
        using * [of k] True that by (cases "k = 0") (auto simp: bit_simps)
      then have "ob = NOT 0" by (rule bit_word_eqI)
      then show ?thesis by simp
    next
      case False
      have "bit ob k = bit (NOT 1 :: u8) k" if "k < LENGTH(8)" for k
        using * [of k] False that b by (cases "k = 0") auto
      then have "ob = NOT 1" by (rule bit_word_eqI)
      then show ?thesis by simp
    qed
  qed (auto simp: n)
qed

lemma continuation_iff: "is_continuation_entry (ms_outbound ms) \<longleftrightarrow> is_logical ms"
  using logical_mask by (auto simp: is_continuation_entry_def is_logical_def)

text \<open>After a result, the inner loop skips to the entry that ends the rule.\<close>

lemma rule_loop_skip:
  assumes "g \<or> b"
  shows "rule_loop rx m params g b mf mss = Ret (Leave (dropWhile is_logical mss))"
  using assms by (induction mss) (simp_all add: Let_def continuation_iff)

lemma rules_of_dropWhile:
  "rules_of (drop 1 (dropWhile is_logical mss)) = drop 1 (rules_of mss)"
  by (induction mss) (auto split: list.splits)

lemma rules_of_dropWhile_Cons:
  "rules_of mss = (pre, t) # rs \<Longrightarrow> \<exists>rest. mss = pre @ t # rest \<and> list_all is_logical pre
     \<and> \<not> is_logical t \<and> rules_of rest = rs"
proof (induction mss arbitrary: pre)
  case (Cons ms mss)
  show ?case
  proof (cases "is_logical ms")
    case True
    with Cons.prems obtain pre' where "pre = ms # pre'" "rules_of mss = (pre', t) # rs"
      by (auto split: list.splits)
    with Cons.IH [of pre'] True show ?thesis by auto
  next
    case False
    with Cons.prems show ?thesis by auto
  qed
qed simp

text \<open>One pass of the inner loop over a rule, from a clean state.\<close>

lemma rule_loop_rule:
  assumes "\<And>ms. ms \<in> set (pre @ [t]) \<Longrightarrow> eval_match rx m ms params = Ret (ev ms)"
    and "list_all is_logical pre" "\<not> is_logical t"
  shows "rule_loop rx m params False False mf (pre @ t # rest) =
    (if user_takes ev (pre, t)
     then (if ms_outbound t = OB_MUST_RULES then rule_loop rx m params False False True rest
           else Ret (Decided \<lparr>res_outbound = ms_outbound t, res_mark = ms_mark t,
                              res_must = (mf \<or> ms_must t \<noteq> 0)\<rparr>))
     else Ret (Leave (t # rest)))"
  using assms
proof (induction pre)
  case Nil
  then show ?case
    by (auto simp: Let_def user_takes_def satisfied_def logical_mask is_logical_def)
next
  case (Cons ms pre)
  have dw: "dropWhile is_logical (pre @ t # rest) = t # rest"
    using Cons.prems(2,3) by (simp add: list_all_iff dropWhile_append2)
  have ev: "eval_match rx m ms params = Ret (ev ms)" using Cons.prems(1) by simp
  have lg: "(ms_outbound ms AND OB_LOGICAL_MASK) = OB_LOGICAL_MASK"
    using Cons.prems(2) logical_mask by (simp add: is_logical_def)
  show ?case
  proof (cases "ms_not ms = 0 \<and> \<not> ev ms")
    case True
    with Cons ev lg show ?thesis by (simp add: Let_def user_takes_def)
  next
    case False
    then have "\<not> user_takes ev (ms # pre, t)" by (auto simp: user_takes_def)
    with False ev lg show ?thesis
      by (cases "ev ms"; cases "ms_not ms = 0") (simp_all add: Let_def rule_loop_skip dw)
  qed
qed

definition fallback_result :: "RoutingMatcher \<Rightarrow> RoutingResult" where
  "fallback_result m =
     \<lparr>res_outbound = rm_fallback_outbound m, res_mark = rm_fallback_mark m, res_must = rm_fallback_must m\<rparr>"

lemma rule_loop_first_rule:
  assumes "\<And>ms. ms \<in> set mss \<Longrightarrow> eval_match rx m ms params = Ret (ev ms)"
  shows "run_bind (rule_loop rx m params False False mf mss) (\<lambda>e.
      case e of Decided r \<Rightarrow> Ret r | Leave rest \<Rightarrow> match_loop rx m params (drop 1 rest))
    = Ret (case first_rule (user_takes ev) False mf (rules_of mss) of Some r \<Rightarrow> r | None \<Rightarrow> fallback_result m)"
  using assms
proof (induction "length mss" arbitrary: mss mf rule: less_induct)
  case less
  have restart: "match_loop rx m params rest =
      Ret (case first_rule (user_takes ev) False False (rules_of rest) of Some r \<Rightarrow> r | None \<Rightarrow> fallback_result m)"
    if "length rest < length mss" "set rest \<subseteq> set mss" for rest
    using less.hyps [OF that(1), of False] less.prems that
    by (cases "rest = []") (auto simp: match_loop.simps [of rx m params rest] fallback_result_def)
  show ?case
  proof (cases "rules_of mss")
    case Nil
    then have "list_all is_logical mss" by (induction mss) (auto split: list.splits if_splits)
    then have "rule_loop rx m params False False mf mss = Ret (Leave [])"
      using less.prems
    proof (induction mss)
      case (Cons ms mss)
      then have "(ms_outbound ms AND OB_LOGICAL_MASK) = OB_LOGICAL_MASK" "dropWhile is_logical mss = []"
        using logical_mask by (simp_all add: is_logical_def list_all_iff)
      with Cons show ?case
        by (cases "ev ms"; cases "ms_not ms = 0") (simp_all add: Let_def rule_loop_skip)
    qed simp
    with Nil show ?thesis by (simp add: match_loop.simps fallback_result_def)
  next
    case (Cons r rs)
    obtain pre t where r: "r = (pre, t)" by (cases r)
    with Cons rules_of_dropWhile_Cons obtain rest where rest: "mss = pre @ t # rest" "list_all is_logical pre"
        "\<not> is_logical t" "rules_of rest = rs" by blast
    have sub: "length rest < length mss" "set rest \<subseteq> set mss" using rest(1) by auto
    have step: "rule_loop rx m params False False mf mss = (if user_takes ev (pre, t)
       then (if ms_outbound t = OB_MUST_RULES then rule_loop rx m params False False True rest
             else Ret (Decided \<lparr>res_outbound = ms_outbound t, res_mark = ms_mark t,
                                res_must = (mf \<or> ms_must t \<noteq> 0)\<rparr>))
       else Ret (Leave (t # rest)))"
      unfolding rest(1)
      by (rule rule_loop_rule) (use less.prems rest in auto)
    show ?thesis
      unfolding step using Cons r rest(4) restart [OF sub] less.hyps [OF sub(1), of True] less.prems sub(2) by auto
  qed
qed

theorem match_routing_first_rule:
  assumes "\<And>ms. ms \<in> set (rm_match_sets m) \<Longrightarrow> eval_match rx m ms params = Ret (ev ms)"
  shows "match_routing rx m params =
    Ret (case first_rule (user_takes ev) False False (rules_of (rm_match_sets m)) of
           Some r \<Rightarrow> r | None \<Rightarrow> fallback_result m)"
  using rule_loop_first_rule [OF assms, of "rm_match_sets m" False]
  by (cases "rm_match_sets m") (simp_all add: match_routing_def match_loop.simps [of rx m params] fallback_result_def)

end
