(* ===== verification/Routing_Correct.thy ===== *)
theory Routing_Correct
  imports Routing_Match
begin

text \<open>
  Correctness of the routing pipeline of \<^verbatim>\<open>control/src/routing/matcher.rs\<close>: the meaning of a
  condition read off its text, the meaning of the entry it is lowered to, and the agreement of the
  compiled table with the first rule that holds, for rules of one condition.
\<close>

section \<open>Grouping of plain parameters\<close>

definition plain_params :: "string list \<Rightarrow> bool" where
  "plain_params ps \<longleftrightarrow> ps \<noteq> [] \<and> list_all (\<lambda>p. CHR '':'' \<notin> set p \<and> trim p \<noteq> []) ps"

lemma group_loop_plain:
  assumes "list_all (\<lambda>p. CHR '':'' \<notin> set p) ps"
  shows "group_loop ps [([], vs)] order = ([([], vs @ map trim ps)], order)"
  using assms by (induction ps arbitrary: vs) (simp_all add: split_once_None [THEN iffD2] Let_def)

lemma group_params_plain:
  assumes "plain_params ps"
  shows "group_params_by_key ps = ([([], map trim ps)], [[]])"
proof -
  obtain p ps' where p: "ps = p # ps'" "CHR '':'' \<notin> set p" "trim p \<noteq> []" "list_all (\<lambda>p. CHR '':'' \<notin> set p) ps'"
    using assms by (cases ps) (auto simp: plain_params_def list_all_iff)
  have "group_loop ps [] [] = ([([], map trim ps)], [])"
    using p group_loop_plain [OF p(4), of "[trim p]" "[]"] by (simp add: split_once_None [THEN iffD2] Let_def)
  with p show ?thesis by (simp add: group_params_by_key_def)
qed

section \<open>The meaning of a condition\<close>

definition port_matches :: "string \<Rightarrow> u16 \<Rightarrow> bool" where
  "port_matches v port =
     (case split_once (CHR ''-'') v of
        Some (a, b) \<Rightarrow> (case (parse_u16 (trim a), parse_u16 (trim b)) of
                          (Some lo, Some hi) \<Rightarrow> lo \<le> port \<and> port \<le> hi | _ \<Rightarrow> False)
      | None \<Rightarrow> parse_u16 v = Some port)"

text \<open>
  When a condition without its negation holds for a connection, read off the text of the rule.
\<close>

definition addr_in :: "ipnet_lib \<Rightarrow> RuleSetCache option \<Rightarrow> string list \<Rightarrow> IpAddr option \<Rightarrow> bool" where
  "addr_in lib cache ps addr =
     (case (addr, parse_cidr_values lib ps cache) of
        (Some ip, Ret (Inr nets)) \<Rightarrow> (\<exists>n \<in> set nets. net_contains n ip)
      | _ \<Rightarrow> False)"

definition version_of :: "RoutingParams \<Rightarrow> u8" where
  "version_of params =
     (case (case rp_dst_ip params of Some ip \<Rightarrow> Some ip | None \<Rightarrow> rp_src_ip params) of
        None \<Rightarrow> 0 | Some (IpV4 _) \<Rightarrow> 1 | Some (IpV6 _) \<Rightarrow> 2)"

abbreviation "ip_names \<equiv> set [''dip'', ''ip'', ''target_ip'']"
abbreviation "sip_names \<equiv> set [''sip'', ''source_ip'']"
abbreviation "port_names \<equiv> set [''dport'', ''port'']"
abbreviation "sport_names \<equiv> set [''sport'', ''source_port'']"
abbreviation "domain_names \<equiv> set [''domain'', ''target_domain'']"

definition cond_holds ::
    "regex_engine \<Rightarrow> ipnet_lib \<Rightarrow> RuleSetCache option \<Rightarrow> RoutingParams \<Rightarrow> Function \<Rightarrow> bool" where
  "cond_holds rx lib cache params f =
     (let name = fn_name f; ps = fn_params f
      in if name \<in> ip_names then addr_in lib cache ps (rp_dst_ip params)
         else if name \<in> sip_names then addr_in lib cache ps (rp_src_ip params)
         else if name \<in> port_names then
           (case rp_dst_port params of None \<Rightarrow> False | Some p \<Rightarrow> list_ex (\<lambda>v. port_matches (trim v) p) ps)
         else if name \<in> sport_names then
           (case rp_src_port params of None \<Rightarrow> False | Some p \<Rightarrow> list_ex (\<lambda>v. port_matches (trim v) p) ps)
         else if name = ''l4proto'' then
           (case rp_l4proto params of None \<Rightarrow> False
            | Some p \<Rightarrow> p AND or_bits (List.map_filter (\<lambda>v. proto_bit (trim v)) ps) \<noteq> 0)
         else if name = ''ipversion'' then
           or_bits (List.map_filter (\<lambda>v. version_bit (trim v)) ps) AND version_of params \<noteq> 0
         else if name \<in> domain_names then
           (case (rp_domain params, collect_patterns cache ps) of
              (Some d, Inr pats) \<Rightarrow> match_domain_patterns rx d pats
            | _ \<Rightarrow> False)
         else if name = ''dscp'' then
           (case rp_dscp params of None \<Rightarrow> False | Some d \<Rightarrow> list_ex (\<lambda>v. parse_u8 (trim v) = Some d) ps)
         else False)"

text \<open>The conditions that lower to exactly one entry.\<close>

definition single_entry :: "Function \<Rightarrow> bool" where
  "single_entry f \<longleftrightarrow>
     (fn_name f \<in> ip_names \<union> sip_names \<union> domain_names \<and> length (snd (group_params_by_key (fn_params f))) = 1)
     \<or> (fn_name f \<in> {''l4proto'', ''ipversion''} \<and> plain_params (fn_params f))
     \<or> (fn_name f \<in> port_names \<union> sport_names \<union> {''dscp''} \<and> plain_params (fn_params f) \<and> length (fn_params f) = 1)"

text \<open>An outbound that is neither a chaining marker nor the \<^verbatim>\<open>must\<close> marker.\<close>

definition ordinary :: "Outbound \<Rightarrow> bool" where
  "ordinary ob \<longleftrightarrow> ob_name ob \<notin> set [''LOGICAL_OR'', ''LOGICAL_AND'', ''must'', ''must_direct'']"

definition single_rule :: "NormalizedRule \<Rightarrow> bool" where
  "single_rule r \<longleftrightarrow> ordinary (nr_outbound r)
     \<and> (nr_functions r = [] \<or> (\<exists>f. nr_functions r = [f] \<and> single_entry f))"

text \<open>The first rule whose condition holds decides; otherwise the fallback.\<close>

definition rule_cond ::
    "regex_engine \<Rightarrow> ipnet_lib \<Rightarrow> RuleSetCache option \<Rightarrow> RoutingParams \<Rightarrow> NormalizedRule \<Rightarrow> bool" where
  "rule_cond rx lib cache params r \<longleftrightarrow>
     list_all (\<lambda>f. cond_holds rx lib cache params f \<noteq> fn_not f) (nr_functions r)"

definition outbound_result :: "(string \<times> u8) list \<Rightarrow> Outbound \<Rightarrow> RoutingResult" where
  "outbound_result id_map ob =
     \<lparr>res_outbound = (case resolve_outbound_id ob id_map of Inr i \<Rightarrow> i | Inl _ \<Rightarrow> OB_CONTROL_PLANE_ROUTING),
      res_mark = ob_mark ob, res_must = ob_must ob\<rparr>"

definition route_spec ::
    "regex_engine \<Rightarrow> ipnet_lib \<Rightarrow> RuleSetCache option \<Rightarrow> (string \<times> u8) list \<Rightarrow> NormalizedProgram \<Rightarrow> RoutingParams
      \<Rightarrow> RoutingResult" where
  "route_spec rx lib cache id_map program params =
     outbound_result id_map
       (case find (rule_cond rx lib cache params) (np_rules program) of
          Some r \<Rightarrow> nr_outbound r | None \<Rightarrow> np_fallback program)"

section \<open>Evaluation of a lowered entry\<close>

lemma compile_tries_nth:
  assumes "compile_tries checks lib ts = Ret cs" "i < length ts"
  shows "length cs = length ts \<and> CompiledIpSet_compile checks lib (ts ! i) = Ret (cs ! i)"
  using assms
proof (induction ts arbitrary: cs i)
  case (Cons t ts)
  then obtain c cs' where c: "CompiledIpSet_compile checks lib t = Ret c" "compile_tries checks lib ts = Ret cs'" "cs = c # cs'"
    by (auto simp: run_bind_eq_Ret)
  have "length cs' = length ts" using c(2)
  proof (induction ts arbitrary: cs')
    case (Cons a ts)
    then show ?case by (auto simp: run_bind_eq_Ret)
  qed simp
  with c Cons.IH [OF c(2)] Cons.prems show ?case by (cases i) auto
qed simp

lemma eval_ip_set_eq:
  assumes "ipnet_lib_ok lib" "compile_tries checks lib ts = Ret (rm_compiled_lpm m)" "i < length ts" "length ts < 2 ^ 32"
    and "list_all compilable_net (ts ! i)" "get_index (ms_value ms) = of_nat i"
  shows "eval_ip_set m ms addr = Ret (case addr of None \<Rightarrow> False | Some ip \<Rightarrow> \<exists>n \<in> set (ts ! i). net_contains n ip)"
proof -
  note c = compile_tries_nth [OF assms(2,3)]
  have "unat (get_index (ms_value ms)) = i"
    using assms(3,4,6) by (simp add: unsigned_of_nat take_bit_nat_eq_self)
  moreover have "CompiledIpSet_contains (rm_compiled_lpm m ! i) ip = Ret (\<exists>n \<in> set (ts ! i). net_contains n ip)" for ip
    using ip_set.answer_eq [of lib "ts ! i" checks] c assms(1,5) by blast
  ultimately show ?thesis using c assms(3) by (simp add: eval_ip_set_def Let_def split: option.splits)
qed

text \<open>The lowering of each kind of condition.\<close>

lemma build_trie:
  "fn_name f \<in> ip_names \<Longrightarrow> build_match_set_for_function lib cache f vals oid ov st =
     try_bind (parse_cidr_values lib (fn_params f) cache) (\<lambda>cidrs. run_bind (find_or_create_lpm_trie cidrs st) (\<lambda>(i, st').
       Ret (Inr ([mk_entry MT_IP_SET (put_index (of_nat i) MatchSetValue_zeroed) (fn_not f) oid ov], st'))))"
  "fn_name f \<in> sip_names \<Longrightarrow> build_match_set_for_function lib cache f vals oid ov st =
     try_bind (parse_cidr_values lib (fn_params f) cache) (\<lambda>cidrs. run_bind (find_or_create_lpm_trie cidrs st) (\<lambda>(i, st').
       Ret (Inr ([mk_entry MT_SOURCE_IP_SET (put_index (of_nat i) MatchSetValue_zeroed) (fn_not f) oid ov], st'))))"
  by (auto simp: build_match_set_for_function_def Let_def)

lemma build_domain:
  "fn_name f \<in> domain_names \<Longrightarrow> build_match_set_for_function lib cache f vals oid ov st =
     Ret (Inr ([mk_entry MT_DOMAIN_SET (put_index (of_nat (lw_domain_idx st)) MatchSetValue_zeroed) (fn_not f) oid ov],
               st\<lparr>lw_domain_idx := lw_domain_idx st + 1\<rparr>))"
  by (auto simp: build_match_set_for_function_def Let_def)

lemma res_bind_assoc: "res_bind (res_bind r f) g = res_bind r (\<lambda>x. res_bind (f x) g)"
  by (cases r) auto

lemma build_values:
  "fn_name f \<in> port_names \<Longrightarrow> build_match_set_for_function lib cache f [v] oid ov st =
     Ret (res_bind (port_entry MT_PORT v (fn_not f) oid ov) (\<lambda>ms. Inr ([ms], st)))"
  "fn_name f \<in> sport_names \<Longrightarrow> build_match_set_for_function lib cache f [v] oid ov st =
     Ret (res_bind (port_entry MT_SOURCE_PORT v (fn_not f) oid ov) (\<lambda>ms. Inr ([ms], st)))"
  "fn_name f = ''dscp'' \<Longrightarrow> build_match_set_for_function lib cache f [v] oid ov st =
     Ret (res_bind (dscp_entry v (fn_not f) oid ov) (\<lambda>ms. Inr ([ms], st)))"
  by (auto simp: build_match_set_for_function_def Let_def res_bind_assoc)

lemma build_bits:
  "fn_name f = ''l4proto'' \<Longrightarrow> build_match_set_for_function lib cache f vals oid ov st =
     Ret (Inr ([mk_entry MT_L4_PROTO (put_byte (or_bits (List.map_filter proto_bit vals)) MatchSetValue_zeroed) (fn_not f) oid ov], st))"
  "fn_name f = ''ipversion'' \<Longrightarrow> build_match_set_for_function lib cache f vals oid ov st =
     Ret (Inr ([mk_entry MT_IP_VERSION (put_byte (or_bits (List.map_filter version_bit vals)) MatchSetValue_zeroed) (fn_not f) oid ov], st))"
  by (simp_all add: build_match_set_for_function_def Let_def)

text \<open>A matcher loaded with tables, and what a lowered entry means in it.\<close>

definition loaded :: "bool \<Rightarrow> ipnet_lib \<Rightarrow> IpNet list list \<Rightarrow> RoutingMatcher \<Rightarrow> bool" where
  "loaded checks lib ts m \<longleftrightarrow> ipnet_lib_ok lib \<and> compile_tries checks lib ts = Ret (rm_compiled_lpm m)
     \<and> list_all (list_all compilable_net) ts \<and> length ts < 2 ^ 32"

definition entry_means ::
    "regex_engine \<Rightarrow> ipnet_lib \<Rightarrow> RuleSetCache option \<Rightarrow> RoutingMatcher \<Rightarrow> RoutingParams \<Rightarrow> Function \<Rightarrow> u8 \<Rightarrow> Outbound
      \<Rightarrow> MatchSet \<Rightarrow> bool" where
  "entry_means rx lib cache m params f oid ob ms \<longleftrightarrow>
     eval_match rx m ms params = Ret (cond_holds rx lib cache params f)
     \<and> (ms_not ms \<noteq> 0) = fn_not f \<and> ms_outbound ms = oid \<and> ms_mark ms = ob_mark ob \<and> (ms_must ms \<noteq> 0) = ob_must ob"

definition domain_ready ::
    "RuleSetCache option \<Rightarrow> CompiledDomainSet list \<Rightarrow> nat \<Rightarrow> Function \<Rightarrow> bool" where
  "domain_ready cache ds i f \<longleftrightarrow> (is_domain_function f \<longrightarrow> i < length ds \<and> i < 2 ^ 32 \<and>
     (\<exists>pats. collect_patterns cache (fn_params f) = Inr pats \<and> compilable_patterns pats
        \<and> CompiledDomainSet_compile pats = Ret (ds ! i)))"

definition query_ok :: "RoutingParams \<Rightarrow> bool" where
  "query_ok params \<longleftrightarrow> (case rp_domain params of None \<Rightarrow> True | Some d \<Rightarrow> normalize_qname d \<noteq> [])"

lemma trie_entry_means:
  assumes l: "loaded checks lib ts m" and inv: "lower_inv st" and pre: "prefix (lw_tries st') ts"
    and b: "try_bind (parse_cidr_values lib (fn_params f) cache) (\<lambda>cidrs. run_bind (find_or_create_lpm_trie cidrs st) (\<lambda>(i, st').
       Ret (Inr ([mk_entry ty (put_index (of_nat i) MatchSetValue_zeroed) (fn_not f) oid ov], st')))) = Ret (Inr (mss, st'))"
  obtains ms v where "mss = [ms]" "lw_domain_idx st' = lw_domain_idx st"
    "ms = mk_entry ty v (fn_not f) oid ov"
    "\<And>addr. eval_ip_set m ms addr = Ret (addr_in lib cache (fn_params f) addr)"
proof -
  obtain cidrs where c: "parse_cidr_values lib (fn_params f) cache = Ret (Inr cidrs)"
    using b by (auto simp: try_bind_eq_Inr)
  obtain i st1 where f: "find_or_create_lpm_trie cidrs st = Ret (i, st1)" "i < length (lw_tries st1)"
      "lw_tries st1 ! i = cidrs" "lw_domain_idx st1 = lw_domain_idx st"
    using find_or_create_post [OF inv] by metis
  from b c f(1) have e: "mss = [mk_entry ty (put_index (of_nat i) MatchSetValue_zeroed) (fn_not f) oid ov]" "st' = st1"
    by auto
  have i: "i < length ts" "ts ! i = cidrs" using pre f(2,3) e(2) by (auto simp: prefix_def nth_append)
  have n: "ipnet_lib_ok lib" "compile_tries checks lib ts = Ret (rm_compiled_lpm m)" "length ts < 2 ^ 32"
      "list_all compilable_net (ts ! i)"
    using l i(1) by (auto simp: loaded_def list_all_length)
  have "eval_ip_set m (hd mss) addr = Ret (addr_in lib cache (fn_params f) addr)" for addr
    using eval_ip_set_eq [OF n(1,2) i(1) n(3,4), of "hd mss" addr] c i(2)
    unfolding e(1) by (simp add: addr_in_def split: option.splits)
  with e f(4) show ?thesis by (intro that [of "hd mss" "put_index (of_nat i) MatchSetValue_zeroed"]) simp_all
qed

lemma domain_entry_eval:
  assumes "domain_ready cache (rm_compiled_domains m) i f" "is_domain_function f" "query_ok params"
  shows "eval_match rx m (mk_entry MT_DOMAIN_SET (put_index (of_nat i) MatchSetValue_zeroed) neg oid ov) params
    = Ret (case (rp_domain params, collect_patterns cache (fn_params f)) of
             (Some d, Inr pats) \<Rightarrow> match_domain_patterns rx d pats | _ \<Rightarrow> False)"
proof -
  obtain pats where p: "i < length (rm_compiled_domains m)" "i < 2 ^ 32" "collect_patterns cache (fn_params f) = Inr pats"
      "compilable_patterns pats" "CompiledDomainSet_compile pats = Ret (rm_compiled_domains m ! i)"
    using assms(1,2) by (auto simp: domain_ready_def)
  have u: "unat (of_nat i :: u32) = i" using p(2) by (simp add: unsigned_of_nat take_bit_nat_eq_self)
  show ?thesis
  proof (cases "rp_domain params")
    case (Some d)
    with assms(3) have "normalize_qname d \<noteq> []" by (simp add: query_ok_def)
    from domain_set.answer_eq [OF p(4,5) this, of rx]
    have "CompiledDomainSet_matches rx (rm_compiled_domains m ! i) d = Ret (match_domain_patterns rx d pats)"
      by (simp add: match_domain_patterns_def list_ex_iff)
    with Some p u show ?thesis by (simp add: eval_match_def Let_def)
  qed (simp add: eval_match_def)
qed

lemma port_entry_means:
  assumes "port_entry ty v neg oid ov = Inr ms"
  shows "ms = mk_entry ty (ms_value ms) neg oid ov"
    "in_port_range ms port \<longleftrightarrow> (case port of None \<Rightarrow> False | Some p \<Rightarrow> port_matches v p)"
  using assms
  by (auto simp: port_entry_def res_bind_eq_Inr in_port_range_def port_matches_def split: option.splits prod.splits)

lemma version_eval:
  "(case (case rp_dst_ip params of Some ip \<Rightarrow> Some ip | None \<Rightarrow> rp_src_ip params) of
      None \<Rightarrow> False | Some (IpV4 _) \<Rightarrow> b AND 1 \<noteq> 0 | Some (IpV6 _) \<Rightarrow> b AND 2 \<noteq> 0)
   = (b AND version_of params \<noteq> 0)"
  by (auto simp: version_of_def split: option.splits IpAddr.splits)

lemma map_filter_map: "List.map_filter f (map g xs) = List.map_filter (\<lambda>x. f (g x)) xs"
  by (induction xs) (simp_all add: List.map_filter_simps split: option.splits)

lemma lower_seq_Nil: "lower_seq m (\<lambda>st. Ret (Inr ([], st))) = m"
  by (cases m; cases "case m of Ret r \<Rightarrow> r") (auto simp: lower_seq_def)

lemma lower_functions_single:
  assumes "group_params_by_key (fn_params f) = (kv, [k])"
  shows "lower_functions lib cache id_map ob [f] st =
    try_bind (Ret (resolve_outbound_id ob id_map)) (\<lambda>oid.
      build_match_set_for_function lib cache f (case map_of kv k of Some v \<Rightarrow> v | None \<Rightarrow> []) oid ob st)"
proof -
  have "lower_keys lib cache id_map ob f kv b [] = (\<lambda>st. Ret (Inr ([], st)))"
    "lower_functions lib cache id_map ob [] = (\<lambda>st. Ret (Inr ([], st)))" for b by (auto simp: fun_eq_iff)
  then show ?thesis using assms
    by (simp add: lower_seq_Nil compute_override_outbound_def Let_def del: try_bind.simps)
qed

lemma eval_mk_entry:
  "eval_match rx m (mk_entry MT_IP_SET v neg oid ob) params = eval_ip_set m (mk_entry MT_IP_SET v neg oid ob) (rp_dst_ip params)"
  "eval_match rx m (mk_entry MT_SOURCE_IP_SET v neg oid ob) params = eval_ip_set m (mk_entry MT_SOURCE_IP_SET v neg oid ob) (rp_src_ip params)"
  "eval_match rx m (mk_entry MT_PORT v neg oid ob) params = Ret (in_port_range (mk_entry MT_PORT v neg oid ob) (rp_dst_port params))"
  "eval_match rx m (mk_entry MT_SOURCE_PORT v neg oid ob) params = Ret (in_port_range (mk_entry MT_SOURCE_PORT v neg oid ob) (rp_src_port params))"
  "eval_match rx m (mk_entry MT_L4_PROTO v neg oid ob) params =
     Ret (case rp_l4proto params of None \<Rightarrow> False | Some p \<Rightarrow> p AND get_byte v \<noteq> 0)"
  "eval_match rx m (mk_entry MT_IP_VERSION v neg oid ob) params = Ret (get_byte v AND version_of params \<noteq> 0)"
  "eval_match rx m (mk_entry MT_DSCP v neg oid ob) params = Ret (rp_dscp params = Some (get_byte v))"
  "eval_match rx m (mk_entry MT_FALLBACK v neg oid ob) params = Ret True"
  by (simp_all add: eval_match_def version_eval cong: option.case_cong)

lemma entry_means_mk:
  "entry_means rx lib cache m params f oid ob (mk_entry ty v (fn_not f) oid ob) \<longleftrightarrow>
     eval_match rx m (mk_entry ty v (fn_not f) oid ob) params = Ret (cond_holds rx lib cache params f)"
  by (simp add: entry_means_def)

lemma bit_entry_means:
  assumes "fn_name f \<in> {''l4proto'', ''ipversion''}"
    "build_match_set_for_function lib cache f (map trim (fn_params f)) oid ob st = Ret (Inr (mss, st'))"
  shows "\<exists>ms. mss = [ms] \<and> entry_means rx lib cache m params f oid ob ms \<and> st' = st"
proof -
  from assms(1) consider "fn_name f = ''l4proto''" | "fn_name f = ''ipversion''" by auto
  then show ?thesis
  proof cases
    case 1
    then have c: "cond_holds rx lib cache params f = (case rp_l4proto params of None \<Rightarrow> False
        | Some p \<Rightarrow> p AND or_bits (List.map_filter (\<lambda>v. proto_bit (trim v)) (fn_params f)) \<noteq> 0)"
      by (simp add: cond_holds_def)
    from assms(2) show ?thesis unfolding build_bits(1) [OF 1]
      by (intro exI [of _ "hd mss"]) (auto simp: entry_means_mk eval_mk_entry map_filter_map c cong: option.case_cong)
  next
    case 2
    then have c: "cond_holds rx lib cache params f =
        (or_bits (List.map_filter (\<lambda>v. version_bit (trim v)) (fn_params f)) AND version_of params \<noteq> 0)"
      by (simp add: cond_holds_def)
    from assms(2) show ?thesis unfolding build_bits(2) [OF 2]
      by (intro exI [of _ "hd mss"]) (auto simp: entry_means_mk eval_mk_entry map_filter_map c cong: option.case_cong)
  qed
qed

lemma port_entry_entry_means:
  assumes "port_entry ty (trim p) (fn_not f) oid ob = Inr ms" "fn_params f = [p]"
    and "ty = MT_PORT \<and> fn_name f \<in> port_names \<or> ty = MT_SOURCE_PORT \<and> fn_name f \<in> sport_names"
  shows "entry_means rx lib cache m params f oid ob ms"
proof -
  obtain v where e: "ms = mk_entry ty v (fn_not f) oid ob" using port_entry_means(1) [OF assms(1)] by blast
  have "eval_match rx m ms params = Ret (cond_holds rx lib cache params f)"
    using assms(3)
  proof (elim disjE conjE)
    assume ty: "ty = MT_PORT" and n: "fn_name f \<in> port_names"
    have "cond_holds rx lib cache params f = in_port_range ms (rp_dst_port params)"
      unfolding port_entry_means(2) [OF assms(1)] using n assms(2) by (auto simp: cond_holds_def cong: option.case_cong)
    then show ?thesis unfolding e ty eval_mk_entry by simp
  next
    assume ty: "ty = MT_SOURCE_PORT" and n: "fn_name f \<in> sport_names"
    have "cond_holds rx lib cache params f = in_port_range ms (rp_src_port params)"
      unfolding port_entry_means(2) [OF assms(1)] using n assms(2) by (auto simp: cond_holds_def cong: option.case_cong)
    then show ?thesis unfolding e ty eval_mk_entry by simp
  qed
  then show ?thesis unfolding e entry_means_mk .
qed

lemma value_entry_means:
  assumes "fn_name f \<in> port_names \<union> sport_names \<union> {''dscp''}" "fn_params f = [p]"
    "build_match_set_for_function lib cache f [trim p] oid ob st = Ret (Inr (mss, st'))"
  shows "\<exists>ms. mss = [ms] \<and> entry_means rx lib cache m params f oid ob ms \<and> st' = st"
proof -
  from assms(1) consider "fn_name f \<in> port_names" | "fn_name f \<in> sport_names" | "fn_name f = ''dscp''" by blast
  then show ?thesis
  proof cases
    case 1
    with assms(3) show ?thesis unfolding build_values(1) [OF 1]
      using port_entry_entry_means [OF _ assms(2)] by (auto simp: res_bind_eq_Inr)
  next
    case 2
    with assms(3) show ?thesis unfolding build_values(2) [OF 2]
      using port_entry_entry_means [OF _ assms(2)] by (auto simp: res_bind_eq_Inr)
  next
    case 3
    then have c: "cond_holds rx lib cache params f =
        (case rp_dscp params of None \<Rightarrow> False | Some d \<Rightarrow> parse_u8 (trim p) = Some d)"
      by (simp add: cond_holds_def assms(2) cong: option.case_cong)
    obtain d where d: "parse_u8 (trim p) = Some d" and mss: "st' = st"
        "mss = [mk_entry MT_DSCP (put_byte d MatchSetValue_zeroed) (fn_not f) oid ob]"
      using assms(3) unfolding build_values(3) [OF 3] by (auto simp: res_bind_eq_Inr dscp_entry_def)
    then show ?thesis by (auto simp: entry_means_mk eval_mk_entry c split: option.splits)
  qed
qed

lemma single_entry_lowered:
  assumes l: "loaded checks lib ts m" and inv: "lower_inv st" and f: "single_entry f" and q: "query_ok params"
    and d: "domain_ready cache (rm_compiled_domains m) (lw_domain_idx st) f"
    and b: "lower_functions lib cache id_map ob [f] st = Ret (Inr (mss, st'))" and pre: "prefix (lw_tries st') ts"
    and r: "resolve_outbound_id ob id_map = Inr oid"
  shows "\<exists>ms. mss = [ms] \<and> entry_means rx lib cache m params f oid ob ms
    \<and> lw_domain_idx st' = lw_domain_idx st + (if is_domain_function f then 1 else 0)"
proof -
  obtain kv k where g: "group_params_by_key (fn_params f) = (kv, [k])"
  proof -
    have "length (snd (group_params_by_key (fn_params f))) = 1"
      using f group_params_plain by (auto simp: single_entry_def)
    then show thesis using that by (cases "group_params_by_key (fn_params f)") (auto simp: length_Suc_conv)
  qed
  define vals where "vals = (case map_of kv k of Some v \<Rightarrow> v | None \<Rightarrow> [])"
  have bb: "build_match_set_for_function lib cache f vals oid ob st = Ret (Inr (mss, st'))"
    using b lower_functions_single [OF g, of lib cache id_map ob st] r by (simp add: vals_def)
  have plain: "vals = map trim (fn_params f)" if "plain_params (fn_params f)"
    using g group_params_plain [OF that] by (auto simp: vals_def)
  from f consider "fn_name f \<in> ip_names" | "fn_name f \<in> sip_names" | "fn_name f \<in> domain_names"
    | "fn_name f \<in> {''l4proto'', ''ipversion''}" "plain_params (fn_params f)"
    | "fn_name f \<in> port_names \<union> sport_names \<union> {''dscp''}" "plain_params (fn_params f)" "length (fn_params f) = 1"
    unfolding single_entry_def by blast
  then show ?thesis
  proof cases
    case 1
    from bb [unfolded build_trie(1) [OF 1]] obtain ms v where ms: "mss = [ms]" "lw_domain_idx st' = lw_domain_idx st"
        "ms = mk_entry MT_IP_SET v (fn_not f) oid ob"
        "\<And>addr. eval_ip_set m ms addr = Ret (addr_in lib cache (fn_params f) addr)"
      by (rule trie_entry_means [OF l inv pre]) (rule that)
    have "cond_holds rx lib cache params f = addr_in lib cache (fn_params f) (rp_dst_ip params)"
      using 1 by (simp add: cond_holds_def)
    then have "entry_means rx lib cache m params f oid ob ms"
      using ms(4) unfolding ms(3) entry_means_mk eval_mk_entry by simp
    moreover have "\<not> is_domain_function f" using 1 by (auto simp: is_domain_function_def)
    ultimately show ?thesis using ms by simp
  next
    case 2
    from bb [unfolded build_trie(2) [OF 2]] obtain ms v where ms: "mss = [ms]" "lw_domain_idx st' = lw_domain_idx st"
        "ms = mk_entry MT_SOURCE_IP_SET v (fn_not f) oid ob"
        "\<And>addr. eval_ip_set m ms addr = Ret (addr_in lib cache (fn_params f) addr)"
      by (rule trie_entry_means [OF l inv pre]) (rule that)
    have "cond_holds rx lib cache params f = addr_in lib cache (fn_params f) (rp_src_ip params)"
      using 2 by (auto simp: cond_holds_def)
    then have "entry_means rx lib cache m params f oid ob ms"
      using ms(4) unfolding ms(3) entry_means_mk eval_mk_entry by simp
    moreover have "\<not> is_domain_function f" using 2 by (auto simp: is_domain_function_def)
    ultimately show ?thesis using ms by simp
  next
    case 3
    then have df: "is_domain_function f" by (auto simp: is_domain_function_def)
    have "cond_holds rx lib cache params f = (case (rp_domain params, collect_patterns cache (fn_params f)) of
             (Some d, Inr pats) \<Rightarrow> match_domain_patterns rx d pats | _ \<Rightarrow> False)"
      using 3 by (auto simp: cond_holds_def)
    with bb df domain_entry_eval [OF d df q] show ?thesis
      unfolding build_domain [OF 3] by (auto simp: entry_means_mk)
  next
    case 4
    then have "\<not> is_domain_function f" by (auto simp: is_domain_function_def)
    with bit_entry_means [OF 4(1) bb [unfolded plain [OF 4(2)]]] show ?thesis by fastforce
  next
    case 5
    then obtain p where p: "fn_params f = [p]" by (auto simp: length_Suc_conv)
    have "\<not> is_domain_function f" using 5 by (auto simp: is_domain_function_def)
    moreover have "build_match_set_for_function lib cache f [trim p] oid ob st = Ret (Inr (mss, st'))"
      using bb plain [OF 5(2)] p by simp
    ultimately show ?thesis using value_entry_means [OF 5(1) p] by fastforce
  qed
qed

section \<open>A whole table\<close>

definition rule_means ::
    "regex_engine \<Rightarrow> ipnet_lib \<Rightarrow> RuleSetCache option \<Rightarrow> RoutingMatcher \<Rightarrow> RoutingParams \<Rightarrow> (string \<times> u8) list
      \<Rightarrow> NormalizedRule \<Rightarrow> MatchSet \<Rightarrow> bool" where
  "rule_means rx lib cache m params id_map r ms \<longleftrightarrow>
     (\<exists>v. eval_match rx m ms params = Ret v \<and> (v \<noteq> (ms_not ms \<noteq> 0)) = rule_cond rx lib cache params r)
     \<and> \<lparr>res_outbound = ms_outbound ms, res_mark = ms_mark ms, res_must = (ms_must ms \<noteq> 0)\<rparr>
         = outbound_result id_map (nr_outbound r)
     \<and> \<not> is_logical ms \<and> ms_outbound ms \<noteq> OB_MUST_RULES"

definition patterns_ok :: "RuleSetCache option \<Rightarrow> NormalizedRule list \<Rightarrow> bool" where
  "patterns_ok cache rules \<longleftrightarrow>
     (\<forall>r \<in> set rules. \<forall>f \<in> set (nr_functions r). \<forall>pats. is_domain_function f \<longrightarrow>
        collect_patterns cache (fn_params f) = Inr pats \<longrightarrow> compilable_patterns pats)"

lemma foldl_map_insert:
  "map_of (foldl (\<lambda>m n. map_insert n c m) m0 ns) k = (if k \<in> set ns then Some c else map_of m0 k)"
  by (induction ns arbitrary: m0) auto

lemma id_map_values:
  "map_of (build_outbound_id_map outbounds) name = Some i \<Longrightarrow> i \<noteq> OB_LOGICAL_OR \<and> i \<noteq> OB_LOGICAL_AND
     \<and> (i = OB_MUST_RULES \<longrightarrow> name = ''must'' \<or> name = ''must_direct'')"
proof -
  define m0 where "m0 = foldl (\<lambda>m (k, v). map_insert k v m) []
    [(''direct'', OB_DIRECT), (''block'', OB_BLOCK), (''must'', OB_MUST_RULES),
     (''must_direct'', OB_MUST_RULES), (''control_plane_routing'', OB_CONTROL_PLANE_ROUTING)]"
  have base: "map_of m0 name = Some i \<Longrightarrow> i \<noteq> OB_LOGICAL_OR \<and> i \<noteq> OB_LOGICAL_AND
     \<and> (i = OB_MUST_RULES \<longrightarrow> name = ''must'' \<or> name = ''must_direct'')"
    by (auto simp: m0_def split: if_splits)
  assume "map_of (build_outbound_id_map outbounds) name = Some i"
  then have "i = OB_CONTROL_PLANE_ROUTING \<or> map_of m0 name = Some i"
    unfolding build_outbound_id_map_def Let_def m0_def [symmetric] foldl_map_insert by (auto split: if_splits)
  with base show ?thesis by auto
qed

lemma ordinary_id:
  assumes "ordinary ob" "resolve_outbound_id ob (build_outbound_id_map outbounds) = Inr i"
  shows "i \<noteq> OB_LOGICAL_OR \<and> i \<noteq> OB_LOGICAL_AND \<and> i \<noteq> OB_MUST_RULES"
  using assms id_map_values [of outbounds "ob_name ob" i]
  by (auto simp: resolve_outbound_id_def builtin_outbound_def ordinary_def split: if_splits option.splits)

lemma fallback_means:
  assumes "ordinary ob" "resolve_outbound_id ob (build_outbound_id_map outbounds) = Inr i" "nr_outbound r = ob" "nr_functions r = []"
  shows "rule_means rx lib cache m params (build_outbound_id_map outbounds) r (build_fallback_matchset i ob)"
  using ordinary_id [OF assms(1,2)] assms
  by (auto simp: rule_means_def build_fallback_matchset_def eval_mk_entry rule_cond_def outbound_result_def is_logical_def)

lemma collect_Cons_domain:
  assumes "collect_domain_sets cache (f # fs) = Ret (Inr (drop i ds))" "i \<le> length ds"
    and "\<And>pats. is_domain_function f \<Longrightarrow> collect_patterns cache (fn_params f) = Inr pats \<Longrightarrow> compilable_patterns pats"
    and "length ds < 2 ^ 32"
  shows "domain_ready cache ds i f
    \<and> collect_domain_sets cache fs = Ret (Inr (drop (i + (if is_domain_function f then 1 else 0)) ds))
    \<and> i + (if is_domain_function f then 1 else 0) \<le> length ds"
proof (cases "is_domain_function f")
  case True
  with assms(1) obtain pats c cs where c: "collect_patterns cache (fn_params f) = Inr pats"
      "CompiledDomainSet_compile pats = Ret c" "collect_domain_sets cache fs = Ret (Inr cs)" "drop i ds = c # cs"
    by (auto simp: try_bind_eq_Inr run_bind_eq_Ret)
  have i: "i < length ds" using c(4) by (cases "i < length ds") simp_all
  then have "ds ! i = c" "drop (Suc i) ds = cs" using c(4) Cons_nth_drop_Suc [OF i] by simp_all
  with c i assms True show ?thesis by (auto simp: domain_ready_def)
next
  case False
  with assms show ?thesis by (simp add: domain_ready_def)
qed

lemma lower_seq_Inr:
  "lower_seq m k = Ret (Inr (mss, st')) \<longleftrightarrow>
     (\<exists>ms st1 rest. m = Ret (Inr (ms, st1)) \<and> k st1 = Ret (Inr (rest, st')) \<and> mss = ms @ rest)"
  by (auto simp: lower_seq_def try_bind_eq_Inr)

lemma lower_rules_means:
  assumes l: "loaded checks lib ts m" and q: "query_ok params" and n: "length (rm_compiled_domains m) < 2 ^ 32"
    and idm: "id_map = build_outbound_id_map outbounds"
    and "lower_inv st" "list_all single_rule rules" "patterns_ok cache rules"
    and "lower_rules lib cache id_map rules st = Ret (Inr (mss, st'))" "prefix (lw_tries st') ts"
    and "collect_domain_sets cache (concat (map nr_functions rules)) = Ret (Inr (drop (lw_domain_idx st) (rm_compiled_domains m)))"
    and "lw_domain_idx st \<le> length (rm_compiled_domains m)"
  shows "list_all2 (rule_means rx lib cache m params id_map) rules mss"
  using assms(5-)
proof (induction rules arbitrary: st mss)
  case (Cons r rs)
  have lib: "ipnet_new_ok lib" using l by (simp add: loaded_def ipnet_lib_ok_def)
  define part where "part = (\<lambda>outbound_id. if nr_functions r = []
      then Ret (Inr ([build_fallback_matchset outbound_id (nr_outbound r)], st))
      else lower_functions lib cache id_map (nr_outbound r) (nr_functions r) st)"
  from Cons.prems(4) obtain oid ms1 st1 rest where r: "resolve_outbound_id (nr_outbound r) id_map = Inr oid"
      "part oid = Ret (Inr (ms1, st1))" "lower_rules lib cache id_map rs st1 = Ret (Inr (rest, st'))" "mss = ms1 @ rest"
    by (auto simp: lower_seq_Inr try_bind_eq_Inr part_def)
  have "lower_post st (part oid)"
    using Cons.prems(1) lower_functions_post [OF lib] by (simp add: part_def build_fallback_matchset_def entry_ok_def ms_wf_def)
  then have inv1: "lower_inv st1" unfolding r(2) by simp
  have "lower_post st1 (lower_rules lib cache id_map rs st1)" by (rule lower_rules_post [OF lib inv1])
  then have pre1: "prefix (lw_tries st1) ts" unfolding r(3) using Cons.prems(5) prefix_order.order_trans by auto
  have ord: "ordinary (nr_outbound r)" using Cons.prems(2) by (simp add: single_rule_def)
  have rest: "list_all single_rule rs" "patterns_ok cache rs" using Cons.prems(2,3) by (simp_all add: patterns_ok_def)
  have "\<exists>ms. ms1 = [ms] \<and> rule_means rx lib cache m params id_map r ms
      \<and> collect_domain_sets cache (concat (map nr_functions rs)) = Ret (Inr (drop (lw_domain_idx st1) (rm_compiled_domains m)))
      \<and> lw_domain_idx st1 \<le> length (rm_compiled_domains m)"
  proof (cases "nr_functions r = []")
    case True
    with r Cons.prems fallback_means [OF ord r(1) [unfolded idm] refl True] show ?thesis
      by (auto simp: part_def idm)
  next
    case False
    with Cons.prems(2) obtain f where f: "nr_functions r = [f]" "single_entry f" by (auto simp: single_rule_def)
    have d: "domain_ready cache (rm_compiled_domains m) (lw_domain_idx st) f
      \<and> collect_domain_sets cache (concat (map nr_functions rs))
          = Ret (Inr (drop (lw_domain_idx st + (if is_domain_function f then 1 else 0)) (rm_compiled_domains m)))
      \<and> lw_domain_idx st + (if is_domain_function f then 1 else 0) \<le> length (rm_compiled_domains m)"
    proof (rule collect_Cons_domain [OF _ Cons.prems(7) _ n])
      show "collect_domain_sets cache (f # concat (map nr_functions rs)) = Ret (Inr (drop (lw_domain_idx st) (rm_compiled_domains m)))"
        using Cons.prems(6) f(1) by simp
      show "compilable_patterns pats" if "is_domain_function f" "collect_patterns cache (fn_params f) = Inr pats" for pats
        using Cons.prems(3) f(1) that by (simp add: patterns_ok_def)
    qed
    have lf: "lower_functions lib cache id_map (nr_outbound r) [f] st = Ret (Inr (ms1, st1))"
      using r(2) f(1) by (simp add: part_def)
    from single_entry_lowered [OF l Cons.prems(1) f(2) q _ lf pre1 r(1), of rx] d obtain ms where ms: "ms1 = [ms]"
        "entry_means rx lib cache m params f oid (nr_outbound r) ms"
        "lw_domain_idx st1 = lw_domain_idx st + (if is_domain_function f then 1 else 0)" by blast
    have "rule_means rx lib cache m params id_map r ms"
      using ms(2) r(1) f(1) ordinary_id [OF ord r(1) [unfolded idm]]
      by (auto simp: rule_means_def entry_means_def rule_cond_def outbound_result_def is_logical_def)
    with d ms show ?thesis by auto
  qed
  then show ?case using Cons.IH [OF inv1 rest r(3) Cons.prems(5)] r(4) by auto
qed simp

lemma rules_of_terminal: "list_all (\<lambda>ms. \<not> is_logical ms) mss \<Longrightarrow> rules_of mss = map (\<lambda>ms. ([], ms)) mss"
  by (induction mss) auto

lemma first_rule_find:
  assumes "list_all2 (rule_means rx lib cache m params id_map) rules mss"
    and "\<And>ms. ms \<in> set mss \<Longrightarrow> eval_match rx m ms params = Ret (ev ms)"
  shows "first_rule (user_takes ev) False False (map (\<lambda>ms. ([], ms)) mss @ tail) =
    (case find (rule_cond rx lib cache params) rules of
       Some r \<Rightarrow> Some (outbound_result id_map (nr_outbound r))
     | None \<Rightarrow> first_rule (user_takes ev) False False tail)"
  using assms
proof (induction rule: list_all2_induct)
  case (Cons r rules ms mss)
  from Cons.hyps(1) Cons.prems have "user_takes ev ([], ms) = rule_cond rx lib cache params r"
      "\<lparr>res_outbound = ms_outbound ms, res_mark = ms_mark ms, res_must = (ms_must ms \<noteq> 0)\<rparr> = outbound_result id_map (nr_outbound r)"
      "ms_outbound ms \<noteq> OB_MUST_RULES"
    by (auto simp: rule_means_def user_takes_def satisfied_def)
  with Cons.IH Cons.prems show ?case by auto
qed simp

text \<open>No node or group takes the name of a built-in outbound.\<close>

definition names_free :: "OutboundsConfig \<Rightarrow> bool" where
  "names_free outbounds \<longleftrightarrow>
     list_all (\<lambda>n. builtin_outbound n = None) (oc_nodes outbounds @ oc_groups outbounds)"

lemma id_map_lookup:
  "map_of (build_outbound_id_map outbounds) name =
     (if name \<in> set (oc_nodes outbounds @ oc_groups outbounds) then Some OB_CONTROL_PLANE_ROUTING
      else if name = ''direct'' then Some OB_DIRECT else if name = ''block'' then Some OB_BLOCK
      else if name = ''must'' \<or> name = ''must_direct'' then Some OB_MUST_RULES
      else if name = ''control_plane_routing'' then Some OB_CONTROL_PLANE_ROUTING else None)"
  by (simp add: build_outbound_id_map_def Let_def foldl_map_insert)

lemma fallback_id:
  assumes "ordinary fb" "names_free outbounds"
  shows "(case map_of (build_outbound_id_map outbounds) (ob_name fb) of Some i \<Rightarrow> i | None \<Rightarrow> OB_CONTROL_PLANE_ROUTING)
      = res_outbound (outbound_result (build_outbound_id_map outbounds) fb)"
proof (cases "builtin_outbound (ob_name fb)")
  case None
  then show ?thesis by (simp add: outbound_result_def resolve_outbound_id_def split: option.splits)
next
  case (Some i)
  then have "ob_name fb \<notin> set (oc_nodes outbounds @ oc_groups outbounds)"
    using assms(2) by (auto simp: names_free_def list_all_iff)
  with Some assms(1) show ?thesis
    by (auto simp: outbound_result_def resolve_outbound_id_def id_map_lookup builtin_outbound_def ordinary_def
        split: if_splits)
qed

lemma compile_tries_total:
  assumes "ipnet_lib_ok lib" "list_all (list_all compilable_net) ts"
  shows "\<exists>cs. compile_tries checks lib ts = Ret cs"
  using assms(2)
proof (induction ts)
  case (Cons t ts)
  then obtain c where "CompiledIpSet_compile checks lib t = Ret c"
    using ip_set.compile_answers [of lib t checks] assms(1) by auto
  with Cons show ?case by auto
qed simp

text \<open>A matcher whose entries mean the rules, followed by an unconditional last entry, decides by the rules.\<close>

lemma table_decides:
  assumes means: "list_all2 (rule_means rx lib cache m params id_map) rules mss"
    and m: "rm_match_sets m = mss @ [fbe]" and fbe: "ms_type fbe = MT_FALLBACK" "ms_not fbe = 0"
    and fid: "\<not> is_logical fbe" "ms_outbound fbe \<noteq> OB_MUST_RULES"
    and fb: "\<lparr>res_outbound = ms_outbound fbe, res_mark = ms_mark fbe, res_must = (ms_must fbe \<noteq> 0)\<rparr> = outbound_result id_map ob"
  shows "match_routing rx m params = Ret (outbound_result id_map
    (case find (rule_cond rx lib cache params) rules of Some r \<Rightarrow> nr_outbound r | None \<Rightarrow> ob))"
proof -
  define ev where "ev = (\<lambda>ms. eval_match rx m ms params = Ret True)"
  have ev: "eval_match rx m ms params = Ret (ev ms)" if "ms \<in> set mss" for ms
  proof -
    from that obtain i where "i < length mss" "mss ! i = ms" by (auto simp: in_set_conv_nth)
    then have "rule_means rx lib cache m params id_map (rules ! i) ms" using list_all2_nthD2 [OF means] by blast
    then obtain v where "eval_match rx m ms params = Ret v" unfolding rule_means_def by blast
    then show ?thesis by (cases v) (simp_all add: ev_def)
  qed
  have evf: "eval_match rx m fbe params = Ret (ev fbe)" "ev fbe" using fbe by (simp_all add: ev_def eval_match_def)
  have "list_all (\<lambda>ms. \<not> is_logical ms) mss"
    using means by (auto simp: list_all2_conv_all_nth list_all_length rule_means_def)
  then have rules: "rules_of (rm_match_sets m) = map (\<lambda>ms. ([], ms)) mss @ [([], fbe)]"
    using rules_of_terminal [of "mss @ [fbe]"] fid by (simp add: m)
  have tail: "first_rule (user_takes ev) False False [([], fbe)] = Some (outbound_result id_map ob)"
    using evf(2) fid(2) fbe fb by (simp add: user_takes_def satisfied_def)
  have "eval_match rx m ms params = Ret (ev ms)" if "ms \<in> set (rm_match_sets m)" for ms
    using that ev evf(1) by (auto simp: m)
  from match_routing_first_rule [OF this] show ?thesis
    using first_rule_find [OF means ev, of "[([], fbe)]"] tail unfolding rules by (simp split: option.splits)
qed

text \<open>A compilation without proxy addresses.\<close>

lemma compile_rules_plain:
  assumes "from_config routing = Inr program" "compile_rules lib routing outbounds [] cache = Ret (Inr cr)"
    and "ordinary (np_fallback program)" "names_free outbounds"
  obtains mss st fbe where
    "collect_domain_sets cache (concat (map nr_functions (np_rules program))) = Ret (Inr (cr_domain_sets cr))"
    "lower_rules lib cache (build_outbound_id_map outbounds) (np_rules program) Lowering_new = Ret (Inr (mss, st))"
    "cr_match_sets cr = mss @ [fbe]" "cr_lpm_tries cr = lw_tries st"
    "length (lw_tries st) \<le> MAX_LPM_NUM" "length (cr_domain_sets cr) \<le> MAX_MATCH_SET_LEN"
    "ms_type fbe = MT_FALLBACK" "ms_not fbe = 0" "\<not> is_logical fbe" "ms_outbound fbe \<noteq> OB_MUST_RULES"
    "\<lparr>res_outbound = ms_outbound fbe, res_mark = ms_mark fbe, res_must = (ms_must fbe \<noteq> 0)\<rparr>
       = outbound_result (build_outbound_id_map outbounds) (np_fallback program)"
proof -
  let ?ids = "build_outbound_id_map outbounds" and ?fb = "np_fallback program"
  have pt: "proxy_trie lib [] = Ret (None, Lowering_new)"
    by (simp add: proxy_trie_def proxy_cidrs_def List.map_filter_simps)
  obtain dsets mss st where c: "collect_domain_sets cache (concat (map nr_functions (np_rules program))) = Ret (Inr dsets)"
      "lower_rules lib cache ?ids (np_rules program) Lowering_new = Ret (Inr (mss, st))"
      "finish_routing ?ids ?fb mss (lw_tries st) dsets = Inr cr"
    using assms(1,2) pt by (auto simp: compile_rules_def Let_def try_bind_eq_Inr)
  define fbe where "fbe = \<lparr>ms_value = MatchSetValue_zeroed, ms_not = 0, ms_type = MT_FALLBACK,
     ms_outbound = res_outbound (outbound_result ?ids ?fb), ms_must = (if ob_must ?fb then 1 else 0 :: u8), ms_mark = ob_mark ?fb\<rparr>"
  have cr: "cr_match_sets cr = mss @ [fbe]" "cr_lpm_tries cr = lw_tries st" "cr_domain_sets cr = dsets"
      "length (lw_tries st) \<le> MAX_LPM_NUM" "length dsets \<le> MAX_MATCH_SET_LEN"
    using c(3) unfolding finish_routing_def fallback_id [OF assms(3,4)] fbe_def
    by (auto simp: Let_def split: if_splits)
  have fid: "\<not> is_logical fbe" "ms_outbound fbe \<noteq> OB_MUST_RULES"
    using ordinary_id [OF assms(3)] by (auto simp: fbe_def outbound_result_def is_logical_def split: sum.splits)
  show ?thesis
    by (rule that [of mss st fbe]) (use c cr fid in \<open>simp_all add: fbe_def outbound_result_def\<close>)
qed

text \<open>What compilation leaves: a matcher that decides by the rules, over entries that all end a rule.\<close>

definition decides_by_rules ::
    "regex_engine \<Rightarrow> ipnet_lib \<Rightarrow> RuleSetCache option \<Rightarrow> (string \<times> u8) list \<Rightarrow> NormalizedProgram \<Rightarrow> RoutingParams \<Rightarrow> RoutingMatcher \<Rightarrow> bool" where
  "decides_by_rules rx lib cache id_map program params m \<longleftrightarrow>
     match_routing rx m params = Ret (route_spec rx lib cache id_map program params)
   \<and> list_all (\<lambda>ms. \<not> is_logical ms \<and> ms_outbound ms \<noteq> OB_MUST_RULES \<and> (\<exists>b. eval_match rx m ms params = Ret b)) (rm_match_sets m)
   \<and> rm_match_sets m \<noteq> [] \<and> ms_type (last (rm_match_sets m)) = MT_FALLBACK \<and> ms_not (last (rm_match_sets m)) = 0"

lemma compiled_rules_matcher:
  assumes "ipnet_lib_ok lib" "from_config routing = Inr program"
    and "compile_rules lib routing outbounds [] cache = Ret (Inr cr)"
    and "list_all single_rule (np_rules program)" "ordinary (np_fallback program)" "names_free outbounds"
    and "list_all (list_all compilable_net) (cr_lpm_tries cr)" "patterns_ok cache (np_rules program)" "query_ok params"
  obtains m where "from_compiled checks lib cr = Ret m" "rm_match_sets m = cr_match_sets cr"
    "decides_by_rules rx lib cache (build_outbound_id_map outbounds) program params m"
proof -
  let ?ids = "build_outbound_id_map outbounds"
  obtain mss st fbe where c: "collect_domain_sets cache (concat (map nr_functions (np_rules program))) = Ret (Inr (cr_domain_sets cr))"
      "lower_rules lib cache ?ids (np_rules program) Lowering_new = Ret (Inr (mss, st))"
      "cr_match_sets cr = mss @ [fbe]" "cr_lpm_tries cr = lw_tries st"
      "length (lw_tries st) \<le> MAX_LPM_NUM" "length (cr_domain_sets cr) \<le> MAX_MATCH_SET_LEN"
    and fbe: "ms_type fbe = MT_FALLBACK" "ms_not fbe = 0" "\<not> is_logical fbe" "ms_outbound fbe \<noteq> OB_MUST_RULES"
      "\<lparr>res_outbound = ms_outbound fbe, res_mark = ms_mark fbe, res_must = (ms_must fbe \<noteq> 0)\<rparr> = outbound_result ?ids (np_fallback program)"
    by (rule compile_rules_plain [OF assms(2,3,5,6)])
  obtain lpm where lpm: "compile_tries checks lib (lw_tries st) = Ret lpm"
    using compile_tries_total [OF assms(1)] assms(7) c(4) by metis
  then obtain m where fc: "from_compiled checks lib cr = Ret m"
    and m: "rm_match_sets m = mss @ [fbe]" "rm_compiled_lpm m = lpm" "rm_compiled_domains m = cr_domain_sets cr"
    using c by (simp add: from_compiled_def)
  have "loaded checks lib (lw_tries st) m"
    using assms(1,7) c(4,5) lpm m by (simp add: loaded_def)
  then have means: "list_all2 (rule_means rx lib cache m params ?ids) (np_rules program) mss"
    by (rule lower_rules_means [OF _ assms(9) _ refl _ assms(4,8) c(2)])
      (use c m in \<open>simp_all add: Lowering_new_def lower_inv_def\<close>)
  have "list_all (\<lambda>ms. \<not> is_logical ms \<and> ms_outbound ms \<noteq> OB_MUST_RULES \<and> (\<exists>b. eval_match rx m ms params = Ret b)) mss"
    using means by (fastforce simp: list_all2_conv_all_nth list_all_length rule_means_def)
  moreover have "eval_match rx m fbe params = Ret True" using fbe(1) by (simp add: eval_match_def)
  ultimately have "decides_by_rules rx lib cache ?ids program params m"
    using table_decides [OF means m(1) fbe] fbe(1-4) by (auto simp: decides_by_rules_def route_spec_def m(1))
  with fc m(1) c(3) that [of m] show thesis by simp
qed


definition demo_program :: NormalizedProgram where
  "demo_program = \<lparr>np_rules = [\<lparr>nr_functions = [\<lparr>fn_name = ''ip'', fn_not = False, fn_params = [''1.0.0.0/8'']\<rparr>],
       nr_outbound = Outbound_new ''direct''\<rparr>], np_fallback = Outbound_new ''block''\<rparr>"

definition demo_params :: RoutingParams where
  "demo_params = \<lparr>rp_src_ip = None, rp_dst_ip = Some (IpV4 16777217), rp_src_port = None, rp_dst_port = Some 443,
     rp_l4proto = Some 1, rp_domain = None, rp_process_name = None, rp_dscp = None\<rparr>"


end
