(* ===== verification/Kern_Route.thy ===== *)
theory Kern_Route
  imports Routing_Match
begin

text \<open>
  The rule walk of the kernel program, \<^verbatim>\<open>bpf/kern/tproxy.c\<close>: \<^verbatim>\<open>route\<close>, its loop callback and
  the packed result.  The maps and the loop helper belong to the kernel; they are the fields of
  \<open>kern\<close>, and \<open>loop_ok\<close> states the documented behaviour of \<^verbatim>\<open>bpf_loop\<close>.
\<close>

section \<open>State\<close>

type_synonym s64 = "64 word"

text \<open>The arguments of one call: flags, ports of the transport header, and addresses in LPM form.\<close>

record route_args =
  ra_l4proto :: u8
  ra_ipversion :: u8
  ra_pname :: "u8 list"
  ra_dscp :: u8
  ra_is_wan :: bool
  ra_dport :: u16
  ra_sport :: u16
  ra_saddr :: "u8 list"
  ra_daddr :: "u8 list"
  ra_mac :: "u8 list"

text \<open>\<^verbatim>\<open>struct route_ctx\<close>: the bits of \<^verbatim>\<open>route_state\<close>, the result, and the cached bitmap word.\<close>

record route_ctx =
  rc_bad_rule :: bool
  rc_good_subrule :: bool
  rc_must :: bool
  rc_result :: s64
  rc_word_cached :: bool
  rc_word_idx :: u32
  rc_word_bits :: u32
  rc_slot :: u32

record kern =
  kn_routing :: "u32 \<Rightarrow> MatchSet option"
  kn_lpm :: "u32 \<Rightarrow> (LpmKey \<Rightarrow> bool) option"
  kn_domain :: "u32 \<Rightarrow> u8 list \<Rightarrow> u32 list option"
  kn_active_epoch :: "u32 option"
  kn_meta :: "u32 \<Rightarrow> u32 option"
  kn_scratch :: bool
  kn_loop :: "nat \<Rightarrow> (nat \<Rightarrow> route_ctx \<Rightarrow> route_ctx \<times> bool) \<Rightarrow> route_ctx \<Rightarrow> s64 \<times> route_ctx"

abbreviation "ROUTING_EPOCH_SLOT_NUM \<equiv> (2 :: u32)"
abbreviation "EPERM \<equiv> (1 :: s64)"
abbreviation "ENOEXEC \<equiv> (8 :: s64)"
abbreviation "EFAULT \<equiv> (14 :: s64)"
abbreviation "EINVAL \<equiv> (22 :: s64)"

section \<open>Evaluation of one entry\<close>

text \<open>Each function returns the context and whether the loop stops.\<close>

definition route_match_lpm :: "kern \<Rightarrow> MatchSet \<Rightarrow> LpmKey \<Rightarrow> route_ctx \<Rightarrow> route_ctx \<times> bool" where
  "route_match_lpm kn ms key ctx =
     (if rc_slot ctx \<ge> ROUTING_EPOCH_SLOT_NUM \<or> get_index (ms_value ms) \<ge> 1024
      then (ctx\<lparr>rc_result := - EFAULT\<rparr>, True)
      else (case kn_lpm kn (rc_slot ctx * 1024 + get_index (ms_value ms)) of
              None \<Rightarrow> (ctx\<lparr>rc_result := - EFAULT\<rparr>, True)
            | Some lpm \<Rightarrow> (if lpm key then ctx\<lparr>rc_good_subrule := True\<rparr> else ctx, False)))"

definition lpm_key_of :: "u8 list \<Rightarrow> LpmKey" where
  "lpm_key_of addr = \<lparr>lpm_prefixlen = 128, lpm_data = addr\<rparr>"

definition route_select_lpm_key :: "route_args \<Rightarrow> u8 \<Rightarrow> LpmKey" where
  "route_select_lpm_key args match_type =
     (if match_type = MT_MAC then lpm_key_of (ra_mac args)
      else if match_type = MT_IP_SET then lpm_key_of (ra_daddr args)
      else lpm_key_of (ra_saddr args))"

text \<open>The bitmap word of the destination address; absent addresses have no bits.\<close>

definition domain_word :: "kern \<Rightarrow> route_args \<Rightarrow> u32 \<Rightarrow> u32 \<Rightarrow> u32" where
  "domain_word kn args slot w =
     (case kn_domain kn slot (ra_daddr args) of Some bitmap \<Rightarrow> bitmap ! unat w | None \<Rightarrow> 0)"

definition route_match_domain_set :: "kern \<Rightarrow> route_args \<Rightarrow> u32 \<Rightarrow> route_ctx \<Rightarrow> route_ctx \<times> bool" where
  "route_match_domain_set kn args index ctx =
     (if index \<ge> 1024 then (ctx\<lparr>rc_result := - EFAULT\<rparr>, True)
      else (let w = drop_bit 5 index;
                ctx1 = (if \<not> rc_word_cached ctx \<or> rc_word_idx ctx \<noteq> w
                        then ctx\<lparr>rc_word_idx := w, rc_word_bits := domain_word kn args (rc_slot ctx) w,
                                 rc_word_cached := True\<rparr>
                        else ctx)
            in (if bit (rc_word_bits ctx1) (unat (index mod 32)) then ctx1\<lparr>rc_good_subrule := True\<rparr> else ctx1, False)))"

definition route_eval_match :: "kern \<Rightarrow> route_args \<Rightarrow> MatchSet \<Rightarrow> u32 \<Rightarrow> route_ctx \<Rightarrow> route_ctx \<times> bool" where
  "route_eval_match kn args ms index ctx =
     (let t = ms_type ms;
          good = (\<lambda>b. (if b then ctx\<lparr>rc_good_subrule := True\<rparr> else ctx, False))
      in if t = MT_MAC \<or> t = MT_IP_SET \<or> t = MT_SOURCE_IP_SET
         then route_match_lpm kn ms (route_select_lpm_key args t) ctx
         else if t = MT_PORT \<or> t = MT_SOURCE_PORT
         then (let check_port = (if t = MT_PORT then ra_dport args else ra_sport args)
               in good (check_port \<ge> get_port_start (ms_value ms) \<and> check_port \<le> get_port_end (ms_value ms)))
         else if t = MT_L4_PROTO \<or> t = MT_IP_VERSION
         then good ((if t = MT_L4_PROTO then ra_l4proto args else ra_ipversion args) AND get_byte (ms_value ms) \<noteq> 0)
         else if t = MT_DOMAIN_SET then route_match_domain_set kn args index ctx
         else if t = MT_PROCESS_NAME then good (ra_is_wan args \<and> ms_value ms = ra_pname args)
         else if t = MT_DSCP then good (ra_dscp args = get_byte (ms_value ms))
         else if t = MT_FALLBACK then good True
         else (ctx\<lparr>rc_result := - EINVAL\<rparr>, True))"

section \<open>The end of a subrule and of a rule\<close>

definition pack_result :: "u8 \<Rightarrow> u32 \<Rightarrow> bool \<Rightarrow> s64" where
  "pack_result ob mark must =
     (ucast ob OR push_bit 8 (ucast mark)) OR push_bit 40 (if must then 1 else 0)"

definition route_finalize_match :: "MatchSet \<Rightarrow> route_ctx \<Rightarrow> route_ctx \<times> bool" where
  "route_finalize_match ms ctx =
     (let ob = ms_outbound ms;
          match_not = (ms_not ms \<noteq> 0);
          ctx1 = (if ob \<noteq> OB_LOGICAL_OR
                  then ctx\<lparr>rc_bad_rule := (rc_bad_rule ctx \<or> rc_good_subrule ctx = match_not),
                           rc_good_subrule := False\<rparr>
                  else ctx)
      in if (ob AND OB_LOGICAL_MASK) \<noteq> OB_LOGICAL_MASK
         then (if \<not> rc_bad_rule ctx1
               then (if ob = OB_MUST_RULES then (ctx1\<lparr>rc_must := True, rc_bad_rule := False\<rparr>, False)
                     else (ctx1\<lparr>rc_result := pack_result ob (ms_mark ms) (rc_must ctx1 \<or> ms_must ms \<noteq> 0)\<rparr>, True))
               else (ctx1\<lparr>rc_bad_rule := False\<rparr>, False))
         else (ctx1, False))"

definition route_loop_cb :: "kern \<Rightarrow> route_args \<Rightarrow> nat \<Rightarrow> route_ctx \<Rightarrow> route_ctx \<times> bool" where
  "route_loop_cb kn args i ctx =
     (let index = (of_nat i :: u32)
      in if index \<ge> 1024 then (ctx\<lparr>rc_result := - EFAULT\<rparr>, True)
         else if rc_slot ctx \<ge> ROUTING_EPOCH_SLOT_NUM then (ctx\<lparr>rc_result := - EFAULT\<rparr>, True)
         else (case kn_routing kn (rc_slot ctx * 1024 + index) of
                 None \<Rightarrow> (ctx\<lparr>rc_result := - EFAULT\<rparr>, True)
               | Some ms \<Rightarrow>
                   (let (ctx1, stop) = (if \<not> (rc_bad_rule ctx \<or> rc_good_subrule ctx)
                                        then route_eval_match kn args ms index ctx else (ctx, False))
                    in if stop then (ctx1, True) else route_finalize_match ms ctx1)))"

section \<open>The walk\<close>

text \<open>
  \<^verbatim>\<open>bpf_loop\<close> calls back with 0, 1, and so on, until the count is reached or a call returns 1.
  It returns the number of calls made, or a negative error when the flags or the count are invalid.
\<close>

fun loop_from :: "(nat \<Rightarrow> 'c \<Rightarrow> 'c \<times> bool) \<Rightarrow> nat \<Rightarrow> nat \<Rightarrow> 'c \<Rightarrow> 'c" where
  "loop_from cb i 0 c = c"
| "loop_from cb i (Suc n) c = (let (c', stop) = cb i c in if stop then c' else loop_from cb (i + 1) n c')"

abbreviation "BPF_MAX_LOOPS \<equiv> (8388608 :: nat)"

definition loop_ok :: "kern \<Rightarrow> bool" where
  "loop_ok kn \<longleftrightarrow> (\<forall>n cb c. n \<le> BPF_MAX_LOOPS \<longrightarrow>
       snd (kn_loop kn n cb c) = loop_from cb 0 n c \<and> 0 \<le> sint (fst (kn_loop kn n cb c)))"

definition routing_epoch_slot_encode :: "u32 \<Rightarrow> u8" where
  "routing_epoch_slot_encode slot = (if slot \<ge> ROUTING_EPOCH_SLOT_NUM then 0 else ucast (slot + 1))"

definition route_ctx_init :: "u32 \<Rightarrow> route_ctx" where
  "route_ctx_init slot =
     \<lparr>rc_bad_rule = False, rc_good_subrule = False, rc_must = False, rc_result = - ENOEXEC,
      rc_word_cached = False, rc_word_idx = 0, rc_word_bits = 0, rc_slot = slot\<rparr>"

definition route :: "kern \<Rightarrow> route_args \<Rightarrow> s64" where
  "route kn args =
     (if \<not> kn_scratch kn then - EFAULT
      else (let slot = (case kn_active_epoch kn of Some s \<Rightarrow> s | None \<Rightarrow> 0)
            in if slot \<ge> ROUTING_EPOCH_SLOT_NUM then - EFAULT
               else (let len = (case kn_meta kn slot of Some n \<Rightarrow> if n \<le> 1024 then n else 1024 | None \<Rightarrow> 1024);
                         (ret, ctx) = kn_loop kn (unat len) (route_loop_cb kn args) (route_ctx_init slot)
                     in if sint ret < 0 then ret
                        else if sint (rc_result ctx) \<ge> 0
                        then rc_result ctx OR push_bit 41 (ucast (routing_epoch_slot_encode (rc_slot ctx)))
                        else - EPERM)))"

section \<open>Reading the packed result\<close>

definition result_outbound :: "s64 \<Rightarrow> u8" where
  "result_outbound r = ucast (r AND 255)"

definition result_mark :: "s64 \<Rightarrow> u32" where
  "result_mark r = ucast (drop_bit 8 r)"

definition result_must :: "s64 \<Rightarrow> bool" where
  "result_must r \<longleftrightarrow> drop_bit 40 r AND 1 \<noteq> 0"

definition routing_epoch_slot_sanitize :: "u8 \<Rightarrow> u8" where
  "routing_epoch_slot_sanitize e = (if e \<le> 2 then e else 0)"

definition routing_epoch_slot_from_route_result :: "s64 \<Rightarrow> u8" where
  "routing_epoch_slot_from_route_result r = routing_epoch_slot_sanitize (ucast (drop_bit 41 r AND 3))"

section \<open>The packed result\<close>

lemma pack_bits:
  "bit (pack_result ob mark must) n \<longleftrightarrow>
     (n < 8 \<and> bit ob n) \<or> (8 \<le> n \<and> n < 40 \<and> bit mark (n - 8)) \<or> (n = 40 \<and> must)"
proof -
  have "bit mark (n - 8) \<Longrightarrow> n - 8 < 32" "bit ob n \<Longrightarrow> n < 8"
    using bit_imp_le_length [of mark "n - 8"] bit_imp_le_length [of ob n] by auto
  then show ?thesis
    by (auto simp: pack_result_def bit_simps)
qed

lemma slot_cases:
  assumes "(slot :: u32) < 2" obtains "slot = 0" | "slot = 1"
proof -
  from assms have "unat slot = 0 \<or> unat slot = 1" by (auto simp: word_less_nat_alt)
  then show thesis using that by (auto simp: word_unat_eq_iff)
qed

lemma slot_bits:
  assumes "slot < 2"
  shows "bit (push_bit 41 (ucast (routing_epoch_slot_encode slot)) :: s64) n \<longleftrightarrow>
     (n = 41 \<and> slot = 0) \<or> (n = 42 \<and> slot = 1)"
  using assms
proof (cases rule: slot_cases)
  case 1
  with bit_exp_iff [where ?'a = s64, of 41 n] show ?thesis by (auto simp: routing_epoch_slot_encode_def)
next
  case 2
  with bit_exp_iff [where ?'a = s64, of 42 n] show ?thesis by (auto simp: routing_epoch_slot_encode_def word_le_nat_alt)
qed

definition full_result :: "u8 \<Rightarrow> u32 \<Rightarrow> bool \<Rightarrow> u32 \<Rightarrow> s64" where
  "full_result ob mark must slot =
     pack_result ob mark must OR push_bit 41 (ucast (routing_epoch_slot_encode slot))"

lemma full_result_bits:
  assumes "slot < 2"
  shows "bit (full_result ob mark must slot) n \<longleftrightarrow>
     (n < 8 \<and> bit ob n) \<or> (8 \<le> n \<and> n < 40 \<and> bit mark (n - 8)) \<or> (n = 40 \<and> must)
     \<or> (n = 41 \<and> slot = 0) \<or> (n = 42 \<and> slot = 1)"
  by (simp add: full_result_def bit_or_iff pack_bits slot_bits [OF assms])

lemma pack_nonneg: "0 \<le> sint (pack_result ob mark must)"
  using bit_last_iff [of "pack_result ob mark must"] pack_bits [of ob mark must 63] by simp

lemma full_result_reads:
  assumes "slot < ROUTING_EPOCH_SLOT_NUM"
  shows "result_outbound (full_result ob mark must slot) = ob \<and> result_mark (full_result ob mark must slot) = mark
    \<and> result_must (full_result ob mark must slot) = must
    \<and> routing_epoch_slot_from_route_result (full_result ob mark must slot) = ucast slot + 1 \<and> 0 \<le> sint (full_result ob mark must slot)"
proof -
  let ?r = "full_result ob mark must slot"
  note b = full_result_bits [OF assms, of ob mark must]
  have m: "(255 :: s64) = mask 8" "(3 :: s64) = mask 2" by (simp_all add: mask_eq_exp_minus_1)
  have "result_outbound ?r = ob"
  proof (rule bit_word_eqI)
    fix n :: nat assume "n < LENGTH(8)"
    then show "bit (result_outbound ?r) n = bit ob n"
      unfolding result_outbound_def m by (simp only: bit_ucast_iff bit_and_iff bit_mask_iff b) auto
  qed
  moreover have "result_mark ?r = mark"
    by (rule bit_word_eqI) (auto simp: result_mark_def bit_simps b)
  moreover have "drop_bit 40 ?r AND 1 = (if must then 1 else 0)"
    by (rule bit_word_eqI) (auto simp: bit_simps b)
  then have "result_must ?r = must" by (simp add: result_must_def)
  moreover have "drop_bit 41 ?r AND 3 = (if slot = 0 then 2 ^ 0 else 2 ^ 1)"
  proof (rule bit_word_eqI)
    fix n :: nat assume n: "n < LENGTH(64)"
    have "bit (drop_bit 41 ?r AND 3) n \<longleftrightarrow> bit ?r (41 + n) \<and> n < 2"
      unfolding m using n by (simp only: bit_and_iff bit_mask_iff bit_drop_bit_eq comp_def possible_bit_word) auto
    also have "\<dots> \<longleftrightarrow> (n = 0 \<and> slot = 0) \<or> (n = 1 \<and> slot = 1)" unfolding b by auto
    also have "\<dots> \<longleftrightarrow> bit (if slot = 0 then 2 ^ 0 else 2 ^ 1 :: s64) n"
      using bit_exp_iff [where ?'a = s64, of 0 n] bit_exp_iff [where ?'a = s64, of 1 n] n assms
      by (cases rule: slot_cases [OF assms]) auto
    finally show "bit (drop_bit 41 ?r AND 3) n = bit (if slot = 0 then 2 ^ 0 else 2 ^ 1 :: s64) n" .
  qed
  then have "routing_epoch_slot_from_route_result ?r = ucast slot + 1"
    by (cases rule: slot_cases [OF assms])
      (simp_all add: routing_epoch_slot_from_route_result_def routing_epoch_slot_sanitize_def word_le_nat_alt)
  moreover have "0 \<le> sint ?r" using bit_last_iff [of ?r] b [of 63] by simp
  ultimately show ?thesis by simp
qed

text \<open>
  C19: the 64-bit route result loses nothing: reading the outbound, the mark, the \<open>must\<close> flag and the
  slot from the packed value, with the masks and shifts of the callers, gives back what was packed,
  and the value is never negative, so it is never taken for an error.
\<close>

theorem route_result_roundtrip:
  assumes "slot < ROUTING_EPOCH_SLOT_NUM"
  shows "let r = full_result ob mark must slot
    in result_outbound r = ob \<and> result_mark r = mark \<and> result_must r = must
       \<and> routing_epoch_slot_from_route_result r = ucast slot + 1 \<and> 0 \<le> sint r"
  using full_result_reads [OF assms] by (simp add: Let_def)

theorem route_result_roundtrip_witness:
  "let r = full_result 253 4294967295 True 1
    in result_outbound r = 253 \<and> result_mark r = 4294967295 \<and> result_must r = True
       \<and> routing_epoch_slot_from_route_result r = ucast (1 :: u32) + 1 \<and> 0 \<le> sint r"
  by (rule route_result_roundtrip) simp

section \<open>What the walk decides\<close>

text \<open>Chunks that end with an element of a kind; a trailing part without one is dropped.\<close>

fun split_after :: "('a \<Rightarrow> bool) \<Rightarrow> 'a list \<Rightarrow> 'a list list" where
  "split_after P [] = []"
| "split_after P (x # xs) =
     (if P x then [x] # split_after P xs
      else (case split_after P xs of [] \<Rightarrow> [] | c # cs \<Rightarrow> (x # c) # cs))"

text \<open>An entry with its position in the table, which is what selects the bit of a domain set.\<close>

type_synonym placed = "nat \<times> MatchSet"

definition kern_rules :: "placed list \<Rightarrow> placed list list" where
  "kern_rules xs = split_after (\<lambda>x. \<not> is_logical (snd x)) xs"

definition subrules :: "placed list \<Rightarrow> placed list list" where
  "subrules r = split_after (\<lambda>x. ms_outbound (snd x) \<noteq> OB_LOGICAL_OR) r"

text \<open>
  The intended meaning of a rule: every subrule holds, where a subrule holds when one of its entries
  matches, inverted if its last entry is negated.
\<close>

definition kern_takes :: "(placed \<Rightarrow> bool) \<Rightarrow> placed list \<Rightarrow> bool" where
  "kern_takes ev r \<longleftrightarrow> list_all (\<lambda>sub. list_ex ev sub \<noteq> (ms_not (snd (last sub)) \<noteq> 0)) (subrules r)"

fun kern_decide :: "(placed list \<Rightarrow> bool) \<Rightarrow> bool \<Rightarrow> placed list list \<Rightarrow> RoutingResult option" where
  "kern_decide takes must [] = None"
| "kern_decide takes must (r # rs) =
     (let t = snd (last r)
      in if takes r
         then (if ms_outbound t = OB_MUST_RULES then kern_decide takes True rs
               else Some \<lparr>res_outbound = ms_outbound t, res_mark = ms_mark t, res_must = (must \<or> ms_must t \<noteq> 0)\<rparr>)
         else kern_decide takes must rs)"

text \<open>The flags of the walk as a function of the entries alone.\<close>

fun kern_run :: "(placed \<Rightarrow> bool) \<Rightarrow> bool \<Rightarrow> bool \<Rightarrow> bool \<Rightarrow> placed list \<Rightarrow> RoutingResult option" where
  "kern_run ev g b must [] = None"
| "kern_run ev g b must (x # xs) =
     (let ms = snd x;
          g1 = (if g \<or> b then g else ev x);
          b2 = (if ms_outbound ms \<noteq> OB_LOGICAL_OR then b \<or> g1 = (ms_not ms \<noteq> 0) else b);
          g2 = (if ms_outbound ms \<noteq> OB_LOGICAL_OR then False else g1)
      in if is_logical ms then kern_run ev g2 b2 must xs
         else if b2 then kern_run ev g2 False must xs
         else if ms_outbound ms = OB_MUST_RULES then kern_run ev g2 False True xs
         else Some \<lparr>res_outbound = ms_outbound ms, res_mark = ms_mark ms, res_must = (must \<or> ms_must ms \<noteq> 0)\<rparr>)"

fun sub_ok :: "(placed \<Rightarrow> bool) \<Rightarrow> bool \<Rightarrow> placed list \<Rightarrow> bool" where
  "sub_ok ev g [] = True"
| "sub_ok ev g (x # xs) =
     (if ms_outbound (snd x) = OB_LOGICAL_OR then sub_ok ev (g \<or> ev x) xs
      else (g \<or> ev x) \<noteq> (ms_not (snd x) \<noteq> 0) \<and> sub_ok ev False xs)"

lemma kern_run_rule:
  assumes "list_all (\<lambda>x. is_logical (snd x)) pre" "\<not> is_logical (snd t)" "\<not> (g \<and> b)"
  shows "kern_run ev g b must (pre @ t # rest) =
    (if \<not> b \<and> sub_ok ev g (pre @ [t])
     then (if ms_outbound (snd t) = OB_MUST_RULES then kern_run ev False False True rest
           else Some \<lparr>res_outbound = ms_outbound (snd t), res_mark = ms_mark (snd t),
                      res_must = (must \<or> ms_must (snd t) \<noteq> 0)\<rparr>)
     else kern_run ev False False must rest)"
  using assms
proof (induction pre arbitrary: g b)
  case Nil
  then have "ms_outbound (snd t) \<noteq> OB_LOGICAL_OR" by (simp add: is_logical_def)
  with Nil show ?case by (auto simp: Let_def)
next
  case (Cons x pre)
  then have lg: "is_logical (snd x)" and pre: "list_all (\<lambda>x. is_logical (snd x)) pre" by simp_all
  note IH = Cons.IH [OF pre Cons.prems(2)]
  show ?case
  proof (cases "ms_outbound (snd x) = OB_LOGICAL_OR")
    case True
    with lg IH [of "if g \<or> b then g else ev x" b] Cons.prems(3) show ?thesis by (auto simp: Let_def)
  next
    case False
    with lg IH [of False "b \<or> (if g \<or> b then g else ev x) = (ms_not (snd x) \<noteq> 0)"] Cons.prems(3)
    show ?thesis by (auto simp: Let_def)
  qed
qed

lemma sub_ok_subrules:
  assumes "xs = [] \<or> ms_outbound (snd (last xs)) \<noteq> OB_LOGICAL_OR"
  shows "sub_ok ev g xs \<longleftrightarrow> (case subrules xs of [] \<Rightarrow> True
     | c # cs \<Rightarrow> ((g \<or> list_ex ev c) \<noteq> (ms_not (snd (last c)) \<noteq> 0))
         \<and> list_all (\<lambda>sub. list_ex ev sub \<noteq> (ms_not (snd (last sub)) \<noteq> 0)) cs)"
  using assms
proof (induction xs arbitrary: g)
  case (Cons x xs)
  show ?case
  proof (cases "ms_outbound (snd x) = OB_LOGICAL_OR")
    case True
    with Cons.prems have ne: "xs \<noteq> []" "ms_outbound (snd (last xs)) \<noteq> OB_LOGICAL_OR" by (auto split: if_splits)
    then have "split_after (\<lambda>x. ms_outbound (snd x) \<noteq> OB_LOGICAL_OR) xs \<noteq> []"
      by (induction xs) (auto split: if_splits list.splits)
    then obtain c cs where c: "split_after (\<lambda>x. ms_outbound (snd x) \<noteq> OB_LOGICAL_OR) xs = c # cs" by (cases "split_after (\<lambda>x. ms_outbound (snd x) \<noteq> OB_LOGICAL_OR) xs") auto
    then have "c \<noteq> []" by (cases xs) (auto split: if_splits list.splits)
    with True Cons.IH [of "g \<or> ev x"] ne c show ?thesis by (auto simp: subrules_def)
  next
    case False
    with Cons.prems have "xs = [] \<or> ms_outbound (snd (last xs)) \<noteq> OB_LOGICAL_OR" by (auto split: if_splits)
    with False Cons.IH [of False] show ?thesis by (auto simp: subrules_def split: list.splits)
  qed
qed (simp add: subrules_def)

lemma sub_ok_takes:
  assumes "\<not> is_logical (snd t)"
  shows "sub_ok ev False (pre @ [t]) = kern_takes ev (pre @ [t])"
  using assms sub_ok_subrules [of "pre @ [t]" ev False]
  by (auto simp: kern_takes_def is_logical_def split: list.splits)

lemma split_after_Cons:
  "split_after P xs = c # cs \<Longrightarrow> \<exists>pre t rest. c = pre @ [t] \<and> xs = pre @ t # rest \<and> list_all (\<lambda>x. \<not> P x) pre \<and> P t
     \<and> split_after P rest = cs"
proof (induction xs arbitrary: c)
  case (Cons x xs)
  show ?case
  proof (cases "P x")
    case True
    with Cons.prems show ?thesis by (intro exI [of _ "[]"]) auto
  next
    case False
    with Cons.prems obtain c' where "c = x # c'" "split_after P xs = c' # cs" by (auto split: list.splits)
    with Cons.IH [of c'] False obtain pre t rest where "c' = pre @ [t]" "xs = pre @ t # rest"
        "list_all (\<lambda>x. \<not> P x) pre" "P t" "split_after P rest = cs" by blast
    with False \<open>c = x # c'\<close> show ?thesis by (intro exI [of _ "x # pre"]) auto
  qed
qed simp

lemma kern_run_decide: "kern_run ev False False must xs = kern_decide (kern_takes ev) must (kern_rules xs)"
proof (induction "kern_rules xs" arbitrary: xs must)
  case Nil
  then have "list_all (\<lambda>x. is_logical (snd x)) xs"
    unfolding kern_rules_def by (induction xs) (auto split: if_splits list.splits)
  then have "kern_run ev g b must xs = None" for g b
    by (induction xs arbitrary: g b) (auto simp: Let_def)
  with Nil show ?case by simp
next
  case (Cons r rs)
  from split_after_Cons [OF Cons(2) [symmetric, unfolded kern_rules_def]] obtain pre t rest
    where r: "r = pre @ [t]" "xs = pre @ t # rest" "list_all (\<lambda>x. is_logical (snd x)) pre" "\<not> is_logical (snd t)"
      "kern_rules rest = rs" by (auto simp: kern_rules_def)
  show ?case
    unfolding Cons(2) [symmetric]
    using Cons(1) [OF r(5) [symmetric]] kern_run_rule [OF r(3,4), of False False ev must rest] sub_ok_takes [OF r(4)] r(1,2,5)
    by (simp add: Let_def)
qed

section \<open>The loop computes the walk\<close>

text \<open>Whether an entry at a position matches; \<open>None\<close> where the program gives up.\<close>

definition kern_holds :: "kern \<Rightarrow> route_args \<Rightarrow> u32 \<Rightarrow> placed \<Rightarrow> bool option" where
  "kern_holds kn args slot x =
     (let i = fst x; ms = snd x; t = ms_type ms
      in if t = MT_MAC \<or> t = MT_IP_SET \<or> t = MT_SOURCE_IP_SET
         then (if get_index (ms_value ms) \<ge> 1024 then None
               else map_option (\<lambda>lpm. lpm (route_select_lpm_key args t)) (kn_lpm kn (slot * 1024 + get_index (ms_value ms))))
         else if t = MT_PORT \<or> t = MT_SOURCE_PORT
         then (let p = (if t = MT_PORT then ra_dport args else ra_sport args)
               in Some (p \<ge> get_port_start (ms_value ms) \<and> p \<le> get_port_end (ms_value ms)))
         else if t = MT_L4_PROTO \<or> t = MT_IP_VERSION
         then Some ((if t = MT_L4_PROTO then ra_l4proto args else ra_ipversion args) AND get_byte (ms_value ms) \<noteq> 0)
         else if t = MT_DOMAIN_SET then Some (bit (domain_word kn args slot (drop_bit 5 (of_nat i))) (unat ((of_nat i :: u32) mod 32)))
         else if t = MT_PROCESS_NAME then Some (ra_is_wan args \<and> ms_value ms = ra_pname args)
         else if t = MT_DSCP then Some (ra_dscp args = get_byte (ms_value ms))
         else if t = MT_FALLBACK then Some True
         else None)"

definition word_ok :: "kern \<Rightarrow> route_args \<Rightarrow> route_ctx \<Rightarrow> bool" where
  "word_ok kn args ctx \<longleftrightarrow>
     (rc_word_cached ctx \<longrightarrow> rc_word_bits ctx = domain_word kn args (rc_slot ctx) (rc_word_idx ctx))"

definition flags :: "route_ctx \<Rightarrow> bool \<times> bool \<times> s64 \<times> u32" where
  "flags ctx = (rc_bad_rule ctx, rc_must ctx, rc_result ctx, rc_slot ctx)"

lemma eval_match_lpm:
  assumes "ms_type ms \<in> {MT_MAC, MT_IP_SET, MT_SOURCE_IP_SET}" "rc_slot ctx < 2"
    "kern_holds kn args (rc_slot ctx) (i, ms) = Some b"
  shows "route_eval_match kn args ms idx ctx = (if b then ctx\<lparr>rc_good_subrule := True\<rparr> else ctx, False)"
proof -
  have "\<not> 1024 \<le> get_index (ms_value ms)"
    "\<exists>lpm. kn_lpm kn (rc_slot ctx * 1024 + get_index (ms_value ms)) = Some lpm \<and> lpm (route_select_lpm_key args (ms_type ms)) = b"
    using assms(1,3) by (auto simp: kern_holds_def Let_def split: if_splits)
  moreover have "\<not> 2 \<le> rc_slot ctx" using assms(2) by simp
  moreover have "route_eval_match kn args ms idx ctx = route_match_lpm kn ms (route_select_lpm_key args (ms_type ms)) ctx"
    using assms(1) by (auto simp: route_eval_match_def Let_def)
  ultimately show ?thesis by (auto simp: route_match_lpm_def)
qed

lemma eval_match_plain:
  assumes "ms_type ms \<notin> {MT_MAC, MT_IP_SET, MT_SOURCE_IP_SET, MT_DOMAIN_SET}"
    "kern_holds kn args slot (i, ms) = Some b"
  shows "route_eval_match kn args ms idx ctx = (if b then ctx\<lparr>rc_good_subrule := True\<rparr> else ctx, False)"
proof -
  have n: "ms_type ms \<noteq> MT_MAC" "ms_type ms \<noteq> MT_IP_SET" "ms_type ms \<noteq> MT_SOURCE_IP_SET" "ms_type ms \<noteq> MT_DOMAIN_SET"
    using assms(1) by auto
  show ?thesis
    using assms(2) unfolding kern_holds_def route_eval_match_def Let_def fst_conv snd_conv
    by (simp only: n if_False if_True simp_thms split: if_split_asm) simp_all
qed

lemma eval_match_holds:
  assumes "word_ok kn args ctx" "rc_slot ctx < 2" "i < 1024" "\<not> rc_good_subrule ctx"
    and "kern_holds kn args (rc_slot ctx) (i, ms) = Some b"
  obtains ctx' where "route_eval_match kn args ms (of_nat i) ctx = (ctx', False)" "rc_good_subrule ctx' = b"
    "flags ctx' = flags ctx" "word_ok kn args ctx'"
proof (cases "ms_type ms = MT_DOMAIN_SET")
  case True
  have "\<not> (1024 \<le> (of_nat i :: u32))"
    using assms(3) by (simp add: word_le_nat_alt unsigned_of_nat take_bit_nat_eq_self)
  with True assms have "\<exists>ctx'. route_eval_match kn args ms (of_nat i) ctx = (ctx', False) \<and> rc_good_subrule ctx' = b
      \<and> flags ctx' = flags ctx \<and> word_ok kn args ctx'"
    by (auto simp: route_eval_match_def kern_holds_def route_match_domain_set_def Let_def flags_def word_ok_def)
  then show ?thesis using that by blast
next
  case False
  have "route_eval_match kn args ms (of_nat i) ctx = (if b then ctx\<lparr>rc_good_subrule := True\<rparr> else ctx, False)"
    using eval_match_lpm [OF _ assms(2,5)] eval_match_plain [OF _ assms(5)] False by blast
  then show ?thesis
    by (rule that) (use assms(1,4) in \<open>auto simp: flags_def word_ok_def\<close>)
qed

definition run_ctx :: "RoutingResult option \<Rightarrow> s64" where
  "run_ctx r = (case r of None \<Rightarrow> - ENOEXEC | Some r \<Rightarrow> pack_result (res_outbound r) (res_mark r) (res_must r))"

lemma finalize_step:
  "route_finalize_match ms ctx =
     (let b2 = (if ms_outbound ms \<noteq> OB_LOGICAL_OR then rc_bad_rule ctx \<or> rc_good_subrule ctx = (ms_not ms \<noteq> 0) else rc_bad_rule ctx);
          g2 = (if ms_outbound ms \<noteq> OB_LOGICAL_OR then False else rc_good_subrule ctx);
          ctx1 = ctx\<lparr>rc_bad_rule := b2, rc_good_subrule := g2\<rparr>
      in if is_logical ms then (ctx1, False)
         else if b2 then (ctx1\<lparr>rc_bad_rule := False\<rparr>, False)
         else if ms_outbound ms = OB_MUST_RULES then (ctx1\<lparr>rc_must := True, rc_bad_rule := False\<rparr>, False)
         else (ctx1\<lparr>rc_result := pack_result (ms_outbound ms) (ms_mark ms) (rc_must ctx \<or> ms_must ms \<noteq> 0)\<rparr>, True))"
  by (auto simp: route_finalize_match_def Let_def logical_mask is_logical_def)

lemma callback_step:
  assumes "rc_slot ctx < 2" "word_ok kn args ctx" "rc_result ctx = - ENOEXEC" "i < 1024"
    and "kn_routing kn (rc_slot ctx * 1024 + of_nat i) = Some ms" "kern_holds kn args (rc_slot ctx) (i, ms) = Some h"
  obtains ctx1 where "route_loop_cb kn args i ctx = route_finalize_match ms ctx1"
    "rc_good_subrule ctx1 = (if rc_good_subrule ctx \<or> rc_bad_rule ctx then rc_good_subrule ctx else h)"
    "rc_bad_rule ctx1 = rc_bad_rule ctx" "rc_must ctx1 = rc_must ctx" "rc_result ctx1 = - ENOEXEC" "rc_slot ctx1 = rc_slot ctx"
    "word_ok kn args ctx1"
proof -
  let ?g = "rc_good_subrule ctx" and ?b = "rc_bad_rule ctx"
  have iw: "\<not> (1024 \<le> (of_nat i :: u32))" using assms(4) by (simp add: word_le_nat_alt unsigned_of_nat take_bit_nat_eq_self)
  obtain ctx1 where c1: "(if \<not> (?b \<or> ?g) then route_eval_match kn args ms (of_nat i) ctx else (ctx, False)) = (ctx1, False)"
      "rc_good_subrule ctx1 = (if ?g \<or> ?b then ?g else h)" "flags ctx1 = flags ctx" "word_ok kn args ctx1"
  proof (cases "?g \<or> ?b")
    case True
    then show ?thesis using assms(2) by (intro that [of ctx]) auto
  next
    case False
    with assms(6) obtain ctx' where "route_eval_match kn args ms (of_nat i) ctx = (ctx', False)" "rc_good_subrule ctx' = h"
        "flags ctx' = flags ctx" "word_ok kn args ctx'"
      using eval_match_holds [OF assms(2,1,4)] by blast
    with False show ?thesis by (intro that [of ctx']) auto
  qed
  have "route_loop_cb kn args i ctx = route_finalize_match ms ctx1"
    using assms(1,5) iw c1(1) by (simp add: route_loop_cb_def Let_def linorder_not_le [symmetric])
  with c1 show ?thesis using assms(3) by (intro that [of ctx1]) (simp_all add: flags_def)
qed

lemma loop_run:
  assumes "rc_slot ctx < 2" "word_ok kn args ctx" "rc_result ctx = - ENOEXEC" "\<not> (rc_good_subrule ctx \<and> rc_bad_rule ctx)"
    and "\<And>j. j < length mss \<Longrightarrow> kn_routing kn (rc_slot ctx * 1024 + of_nat (i + j)) = Some (mss ! j)"
    and "i + length mss \<le> 1024"
    and "\<And>x. x \<in> set (enumerate i mss) \<Longrightarrow> kern_holds kn args (rc_slot ctx) x = Some (ev x)"
  shows "rc_result (loop_from (route_loop_cb kn args) i (length mss) ctx)
      = run_ctx (kern_run ev (rc_good_subrule ctx) (rc_bad_rule ctx) (rc_must ctx) (enumerate i mss))
    \<and> rc_slot (loop_from (route_loop_cb kn args) i (length mss) ctx) = rc_slot ctx"
  using assms
proof (induction mss arbitrary: i ctx)
  case Nil
  then show ?case by (simp add: run_ctx_def)
next
  case (Cons ms mss)
  let ?g = "rc_good_subrule ctx" and ?b = "rc_bad_rule ctx"
  have "i < 1024" "kn_routing kn (rc_slot ctx * 1024 + of_nat i) = Some ms"
      "kern_holds kn args (rc_slot ctx) (i, ms) = Some (ev (i, ms))"
    using Cons.prems(6,7) Cons.prems(5) [of 0] by simp_all
  from callback_step [OF Cons.prems(1-3) this] obtain ctx1 where cb: "route_loop_cb kn args i ctx = route_finalize_match ms ctx1"
      and c1: "rc_good_subrule ctx1 = (if ?g \<or> ?b then ?g else ev (i, ms))" "word_ok kn args ctx1"
      and fl: "rc_bad_rule ctx1 = ?b" "rc_must ctx1 = rc_must ctx" "rc_result ctx1 = - ENOEXEC" "rc_slot ctx1 = rc_slot ctx" by blast
  have IH: "rc_result (loop_from (route_loop_cb kn args) (i + 1) (length mss) c)
      = run_ctx (kern_run ev (rc_good_subrule c) (rc_bad_rule c) (rc_must c) (enumerate (i + 1) mss))
    \<and> rc_slot (loop_from (route_loop_cb kn args) (i + 1) (length mss) c) = rc_slot c"
    if "rc_slot c = rc_slot ctx" "word_ok kn args c" "rc_result c = - ENOEXEC" "\<not> (rc_good_subrule c \<and> rc_bad_rule c)" for c
    using Cons.IH [of c "i + 1"] that Cons.prems(1,6,7) Cons.prems(5) [of "Suc j" for j] by (simp add: add.assoc)
  define g1 where "g1 = rc_good_subrule ctx1"
  define b2 where "b2 = (if ms_outbound ms \<noteq> OB_LOGICAL_OR then ?b \<or> g1 = (ms_not ms \<noteq> 0) else ?b)"
  define g2 where "g2 = (if ms_outbound ms \<noteq> OB_LOGICAL_OR then False else g1)"
  define ctx2 where "ctx2 = ctx1\<lparr>rc_bad_rule := b2, rc_good_subrule := g2\<rparr>"
  have ctx2: "rc_good_subrule ctx2 = g2" "rc_bad_rule ctx2 = b2" "rc_must ctx2 = rc_must ctx" "rc_slot ctx2 = rc_slot ctx"
      "rc_result ctx2 = - ENOEXEC" "word_ok kn args ctx2"
    using fl c1(2) by (simp_all add: ctx2_def word_ok_def)
  have fin: "route_finalize_match ms ctx1 =
      (if is_logical ms then (ctx2, False)
       else if b2 then (ctx2\<lparr>rc_bad_rule := False\<rparr>, False)
       else if ms_outbound ms = OB_MUST_RULES then (ctx2\<lparr>rc_must := True, rc_bad_rule := False\<rparr>, False)
       else (ctx2\<lparr>rc_result := pack_result (ms_outbound ms) (ms_mark ms) (rc_must ctx \<or> ms_must ms \<noteq> 0)\<rparr>, True))"
    unfolding finalize_step Let_def fl(1,2) g1_def [symmetric] b2_def [symmetric] g2_def [symmetric] ctx2_def [symmetric] ..
  have run: "kern_run ev ?g ?b (rc_must ctx) (enumerate i (ms # mss)) =
      (if is_logical ms then kern_run ev g2 b2 (rc_must ctx) (enumerate (i + 1) mss)
       else if b2 then kern_run ev g2 False (rc_must ctx) (enumerate (i + 1) mss)
       else if ms_outbound ms = OB_MUST_RULES then kern_run ev g2 False True (enumerate (i + 1) mss)
       else Some \<lparr>res_outbound = ms_outbound ms, res_mark = ms_mark ms, res_must = (rc_must ctx \<or> ms_must ms \<noteq> 0)\<rparr>)"
    unfolding enumerate_simps kern_run.simps Let_def snd_conv c1(1) [symmetric] g1_def [symmetric]
      b2_def [symmetric] g2_def [symmetric] by simp
  have nb: "\<not> (g2 \<and> b2)" using Cons.prems(4) c1(1) by (auto simp: g2_def b2_def g1_def split: if_splits)
  have w: "word_ok kn args (ctx2\<lparr>rc_bad_rule := False\<rparr>)" "word_ok kn args (ctx2\<lparr>rc_must := True, rc_bad_rule := False\<rparr>)"
    using ctx2(6) by (simp_all add: word_ok_def)
  show ?case unfolding run
    using IH [of ctx2] IH [of "ctx2\<lparr>rc_bad_rule := False\<rparr>"] IH [of "ctx2\<lparr>rc_must := True, rc_bad_rule := False\<rparr>"] ctx2 nb w
    by (simp add: cb fin run_ctx_def)
qed

text \<open>The walk as a function of the table; the property below and the end-to-end properties rest on it.\<close>

lemma route_decides:
  assumes "loop_ok kn" "kn_scratch kn" "kn_active_epoch kn = Some slot" "slot < ROUTING_EPOCH_SLOT_NUM"
    and "kn_meta kn slot = Some (of_nat (length mss))" "length mss \<le> 1024"
    and "\<And>i. i < length mss \<Longrightarrow> kn_routing kn (slot * 1024 + of_nat i) = Some (mss ! i)"
    and "\<And>x. x \<in> set (enumerate 0 mss) \<Longrightarrow> kern_holds kn args slot x = Some (ev x)"
  shows "route kn args = (case kern_decide (kern_takes ev) False (kern_rules (enumerate 0 mss)) of
      Some r \<Rightarrow> full_result (res_outbound r) (res_mark r) (res_must r) slot
    | None \<Rightarrow> - EPERM)"
proof -
  let ?c = "snd (kn_loop kn (length mss) (route_loop_cb kn args) (route_ctx_init slot))"
  have n: "unat (of_nat (length mss) :: u32) = length mss" "(of_nat (length mss) :: u32) \<le> 1024"
    using assms(6) by (simp_all add: word_le_nat_alt unsigned_of_nat take_bit_nat_eq_self)
  have c: "rc_result ?c = run_ctx (kern_decide (kern_takes ev) False (kern_rules (enumerate 0 mss)))" "rc_slot ?c = slot"
    using loop_run [of "route_ctx_init slot" kn args mss 0 ev] assms
    by (simp_all add: loop_ok_def route_ctx_init_def word_ok_def kern_run_decide)
  have e: "\<not> (0 \<le> sint (- ENOEXEC))" by simp
  have "route kn args = (if sint (rc_result ?c) \<ge> 0
      then rc_result ?c OR push_bit 41 (ucast (routing_epoch_slot_encode (rc_slot ?c))) else - EPERM)"
    using assms(1-6) n by (simp add: route_def loop_ok_def Let_def case_prod_beta linorder_not_le [symmetric])
  then show ?thesis unfolding c
    using e pack_nonneg by (simp add: run_ctx_def full_result_def split: option.splits)
qed

text \<open>
  C6: the kernel walk means what a rule says.  For a table loaded into the active slot whose entries
  can all be evaluated, \<open>route\<close> packs the outbound, mark and \<open>must\<close> flag of the first rule all of whose
  subrules hold, a subrule being a disjunction of its entries inverted by its negation flag, with the
  \<open>must\<close> marker carried to every later rule; if no rule applies it returns an error.
\<close>

theorem kernel_route_correct:
  assumes "loop_ok kn" "kn_scratch kn" "kn_active_epoch kn = Some slot" "slot < ROUTING_EPOCH_SLOT_NUM"
    and "kn_meta kn slot = Some (of_nat (length mss))" "length mss \<le> 1024"
    and "\<And>i. i < length mss \<Longrightarrow> kn_routing kn (slot * 1024 + of_nat i) = Some (mss ! i)"
    and "\<And>x. x \<in> set (enumerate 0 mss) \<Longrightarrow> kern_holds kn args slot x = Some (ev x)"
  shows "route kn args = (case kern_decide (kern_takes ev) False (kern_rules (enumerate 0 mss)) of
      Some r \<Rightarrow> full_result (res_outbound r) (res_mark r) (res_must r) slot
    | None \<Rightarrow> - EPERM)"
  by (rule route_decides [OF assms])

definition demo_entry :: "u8 \<Rightarrow> MatchSetValue \<Rightarrow> u8 \<Rightarrow> u8 \<Rightarrow> MatchSet" where
  "demo_entry ty v neg ob = \<lparr>ms_value = v, ms_not = neg, ms_type = ty, ms_outbound = ob, ms_must = 0, ms_mark = 7\<rparr>"

text \<open>The table of \<^verbatim>\<open>dport(80-90, 443) && !l4proto(udp) -> 5\<close> with fallback 0.\<close>

definition demo_table :: "MatchSet list" where
  "demo_table =
     [demo_entry MT_PORT (put_port_range 80 90 MatchSetValue_zeroed) 0 OB_LOGICAL_OR,
      demo_entry MT_PORT (put_port_range 443 443 MatchSetValue_zeroed) 0 OB_LOGICAL_AND,
      demo_entry MT_L4_PROTO (put_byte 2 MatchSetValue_zeroed) 1 5,
      demo_entry MT_FALLBACK MatchSetValue_zeroed 0 0]"

definition kern_with :: "MatchSet list \<Rightarrow> u32 \<Rightarrow> kern" where
  "kern_with mss slot =
     \<lparr>kn_routing = (\<lambda>k. if k - slot * 1024 < of_nat (length mss) then Some (mss ! unat (k - slot * 1024)) else None),
      kn_lpm = (\<lambda>_. None), kn_domain = (\<lambda>_ _. None), kn_active_epoch = Some slot,
      kn_meta = (\<lambda>_. Some (of_nat (length mss))), kn_scratch = True,
      kn_loop = (\<lambda>n cb c. (of_nat n, loop_from cb 0 n c))\<rparr>"

definition demo_args :: "u8 \<Rightarrow> u16 \<Rightarrow> route_args" where
  "demo_args l4 dport =
     \<lparr>ra_l4proto = l4, ra_ipversion = 1, ra_pname = replicate 16 0, ra_dscp = 0, ra_is_wan = False, ra_dport = dport,
      ra_sport = 40000, ra_saddr = replicate 16 0, ra_daddr = replicate 16 0, ra_mac = replicate 16 0\<rparr>"

definition demo_ev :: "u8 \<Rightarrow> u16 \<Rightarrow> placed \<Rightarrow> bool" where
  "demo_ev l4 dport x = (kern_holds (kern_with demo_table 1) (demo_args l4 dport) 1 x = Some True)"

lemma count_nonneg: "n \<le> BPF_MAX_LOOPS \<Longrightarrow> 0 \<le> sint (of_nat n :: s64)"
  by (simp add: signed_of_nat signed_take_bit_int_eq_self)

lemma kern_with_loads:
  assumes "slot < 2" "length mss \<le> 1024" "i < length mss"
  shows "kn_routing (kern_with mss slot) (slot * 1024 + of_nat i) = Some (mss ! i)"
  using assms by (simp add: kern_with_def word_less_nat_alt unsigned_of_nat take_bit_nat_eq_self)

lemma demo_table_holds:
  "x \<in> set (enumerate 0 demo_table) \<Longrightarrow> kern_holds (kern_with demo_table 1) (demo_args l4 dport) 1 x = Some (demo_ev l4 dport x)"
  by (auto simp: demo_table_def kern_holds_def demo_ev_def Let_def demo_entry_def)

lemma demo_decides: "kern_decide (kern_takes (demo_ev 1 443)) False (kern_rules (enumerate 0 demo_table))
    = Some \<lparr>res_outbound = 5, res_mark = 7, res_must = False\<rparr>"
  by code_simp

theorem kernel_route_correct_witness:
  "route (kern_with demo_table 1) (demo_args 1 443) = full_result 5 7 False 1"
proof -
  let ?kn = "kern_with demo_table 1"
  have "loop_ok ?kn" "kn_scratch ?kn" "kn_active_epoch ?kn = Some 1" "kn_meta ?kn 1 = Some (of_nat (length demo_table))"
    by (simp_all add: kern_with_def loop_ok_def count_nonneg)
  moreover have "length demo_table \<le> 1024" by (simp add: demo_table_def)
  ultimately show ?thesis
    using kernel_route_correct [of ?kn 1 demo_table "demo_args 1 443" "demo_ev 1 443"]
      kern_with_loads [of 1 demo_table] demo_table_holds demo_decides by simp
qed

end
