(* ===== verification/Wire.thy ===== *)
theory Wire
  imports Match_Set
begin

text \<open>
  Reading and writing of packets: indexing and slicing that panic out of range, big-endian integers,
  and the \<^verbatim>\<open>?\<close> operator on \<^verbatim>\<open>Option\<close>.
\<close>

named_theorems wire_simps \<open>evaluation of packet readers inside their bounds\<close>

fun opt_bind :: "'a option run \<Rightarrow> ('a \<Rightarrow> 'b option run) \<Rightarrow> 'b option run" where
  "opt_bind Panic f = Panic"
| "opt_bind (Ret None) f = Ret None"
| "opt_bind (Ret (Some x)) f = f x"

lemma opt_bind_cong [fundef_cong]:
  "r = r' \<Longrightarrow> (\<And>x. r' = Ret (Some x) \<Longrightarrow> f x = g x) \<Longrightarrow> opt_bind r f = opt_bind r' g"
  by (cases "(r', f)" rule: opt_bind.cases) auto

lemma opt_bind_eq_Panic: "opt_bind r f = Panic \<longleftrightarrow> r = Panic \<or> (\<exists>x. r = Ret (Some x) \<and> f x = Panic)"
  by (cases "(r, f)" rule: opt_bind.cases) auto

lemma opt_bind_eq_Some: "opt_bind r f = Ret (Some y) \<longleftrightarrow> (\<exists>x. r = Ret (Some x) \<and> f x = Ret (Some y))"
  by (cases "(r, f)" rule: opt_bind.cases) auto

definition slice_get :: "'a list \<Rightarrow> nat \<Rightarrow> nat \<Rightarrow> 'a list run" where
  "slice_get xs a b = (if a \<le> b \<and> b \<le> length xs then Ret (take (b - a) (drop a xs)) else Panic)"

lemma slice_get_Ret [simp, wire_simps]: "a \<le> b \<Longrightarrow> b \<le> length xs \<Longrightarrow> slice_get xs a b = Ret (take (b - a) (drop a xs))"
  by (simp add: slice_get_def)

text \<open>Big-endian integers of two and four bytes.\<close>

definition be_bytes :: "nat \<Rightarrow> nat \<Rightarrow> u8 list" where
  "be_bytes n v = rev (le_bytes n v)"

definition be_nat :: "u8 list \<Rightarrow> nat" where
  "be_nat bs = le_value (rev bs)"

definition get_u16 :: "u8 list \<Rightarrow> nat \<Rightarrow> u16 run" where
  "get_u16 buf i =
     run_bind (index_get buf i) (\<lambda>a. run_bind (index_get buf (i + 1)) (\<lambda>b. Ret (of_nat (be_nat [a, b]))))"

definition get_u32 :: "u8 list \<Rightarrow> nat \<Rightarrow> u32 run" where
  "get_u32 buf i =
     run_bind (index_get buf i) (\<lambda>a. run_bind (index_get buf (i + 1)) (\<lambda>b.
     run_bind (index_get buf (i + 2)) (\<lambda>c. run_bind (index_get buf (i + 3)) (\<lambda>d.
       Ret (of_nat (be_nat [a, b, c, d]))))))"

lemma get_u16_Ret [simp, wire_simps]: "i + 2 \<le> length buf \<Longrightarrow> get_u16 buf i = Ret (of_nat (be_nat [buf ! i, buf ! (i + 1)]))"
  by (simp add: get_u16_def)

lemma get_u32_Ret [simp, wire_simps]:
  "i + 4 \<le> length buf \<Longrightarrow> get_u32 buf i = Ret (of_nat (be_nat [buf ! i, buf ! (i + 1), buf ! (i + 2), buf ! (i + 3)]))"
  by (simp add: get_u32_def)

text \<open>Reading at the end of a known prefix.\<close>

lemma index_at [simp]: "i = length pre \<Longrightarrow> index_get (pre @ x # post) i = Ret x"
  by simp

lemma be_nat_be_bytes: "v < 256 ^ n \<Longrightarrow> be_nat (be_bytes n v) = v"
  by (simp add: be_nat_def be_bytes_def le_value_le_bytes)

lemma length_be_bytes [simp]: "length (be_bytes n v) = n"
  by (simp add: be_bytes_def)

lemma le_bytes_rec: "0 < n \<Longrightarrow> le_bytes n v = of_nat (v mod 256) # le_bytes (n - 1) (v div 256)"
  by (cases n) simp_all

lemma be_bytes_4:
  "be_bytes 4 v = [of_nat (v div 256 div 256 div 256 mod 256), of_nat (v div 256 div 256 mod 256),
     of_nat (v div 256 mod 256), of_nat (v mod 256)]"
  by (simp add: be_bytes_def le_bytes_rec [of 4] le_bytes_rec [of 3] le_bytes_rec [of 2] le_bytes_rec [of 1])

lemma list_length_2: "length xs = 2 \<Longrightarrow> xs = [xs ! 0, xs ! 1]"
  by (cases xs; cases "tl xs") auto

lemma list_length_4: "length xs = 4 \<Longrightarrow> xs = [xs ! 0, xs ! 1, xs ! 2, xs ! 3]"
  by (rule nth_equalityI) (auto simp: less_Suc_eq numeral_eq_Suc)

lemma get_u16_part: "i = length pre \<Longrightarrow> length d = 2 \<Longrightarrow> get_u16 (pre @ d @ post) i = Ret (of_nat (be_nat d))"
  using list_length_2 [of d] by (simp add: nth_append)

lemma get_u32_part: "i = length pre \<Longrightarrow> length d = 4 \<Longrightarrow> get_u32 (pre @ d @ post) i = Ret (of_nat (be_nat d))"
  using list_length_4 [of d] by (simp add: nth_append)

lemma be_nat_word: "8 * n = LENGTH('a) \<Longrightarrow> of_nat (be_nat (be_bytes n (unat (x :: 'a :: len word)))) = x"
proof -
  assume "8 * n = LENGTH('a)"
  then have "(256 :: nat) ^ n = 2 ^ LENGTH('a)" using power_mult [of "2 :: nat" 8 n] by simp
  then have "unat x < 256 ^ n" using unsigned_less [of x, where ?'a = nat] by simp
  then show ?thesis by (simp add: be_nat_be_bytes)
qed

lemma get_u16_at: "i = length pre \<Longrightarrow> get_u16 (pre @ be_bytes 2 (unat x) @ post) i = Ret x"
  by (simp only: get_u16_part length_be_bytes) (simp add: be_nat_word)

lemma get_u32_at: "i = length pre \<Longrightarrow> get_u32 (pre @ be_bytes 4 (unat x) @ post) i = Ret x"
  by (simp only: get_u32_part length_be_bytes) (simp add: be_nat_word)

end
