(* ===== verification/Kern_Packet.thy ===== *)
theory Kern_Packet
  imports Kern_Route Wire
begin

text \<open>
  Packet parsing of the kernel program (\<^verbatim>\<open>bpf/kern/tproxy.c\<close>): the fast path with direct packet access,
  the slow path with \<^verbatim>\<open>bpf_skb_load_bytes\<close>, the tuples made of them, and the key of the redirect table.
  Addresses, ports and ethertypes are kept as the bytes they have in memory.  The helpers belong to the
  kernel; they are the fields of \<open>bpf_helpers\<close>, and \<open>packet_ok\<close> states their documented behaviour.
\<close>

section \<open>Packets and helpers\<close>

type_synonym ip6 = "u8 list"

text \<open>\<^verbatim>\<open>struct __sk_buff\<close>, the fields the program uses.\<close>

record sk_buff =
  sk_data :: "u8 list"
  sk_protocol :: "u8 list"
  sk_mark :: u32
  sk_cb0 :: u32
  sk_cb1 :: u32
  sk_ifindex :: u32
  sk_ingress_ifindex :: u32
  sk_pkt_type :: nat

text \<open>
  \<open>bh_pull_data\<close> gives the bytes between \<^verbatim>\<open>data\<close> and \<^verbatim>\<open>data_end\<close> after a successful call, and
  \<open>bh_load_bytes\<close> the bytes that were copied.
\<close>

record bpf_helpers =
  bh_pull_data :: "sk_buff \<Rightarrow> nat \<Rightarrow> u8 list option"
  bh_load_bytes :: "sk_buff \<Rightarrow> nat \<Rightarrow> nat \<Rightarrow> u8 list option"

definition part :: "nat \<Rightarrow> nat \<Rightarrow> u8 list \<Rightarrow> u8 list" where
  "part off n d = take n (drop off d)"

definition packet_ok :: "bpf_helpers \<Rightarrow> bool" where
  "packet_ok h \<longleftrightarrow>
     (\<forall>skb n d. bh_pull_data h skb n = Some d \<longrightarrow> prefix d (sk_data skb) \<and> n \<le> length d)
   \<and> (\<forall>skb off n. bh_load_bytes h skb off n =
        (if off + n \<le> length (sk_data skb) then Some (part off n (sk_data skb)) else None))"

abbreviation "ETH_HLEN \<equiv> (14 :: nat)"
abbreviation "ETH_P_IP \<equiv> ([0x08, 0x00] :: u8 list)"
abbreviation "ETH_P_IPV6 \<equiv> ([0x86, 0xdd] :: u8 list)"
abbreviation "IPPROTO_HOPOPTS \<equiv> (0 :: u8)"
abbreviation "IPPROTO_TCP \<equiv> (6 :: u8)"
abbreviation "IPPROTO_UDP \<equiv> (17 :: u8)"
abbreviation "IPPROTO_ROUTING \<equiv> (43 :: u8)"
abbreviation "IPPROTO_FRAGMENT \<equiv> (44 :: u8)"
abbreviation "IPPROTO_ICMPV6 \<equiv> (58 :: u8)"
abbreviation "IPPROTO_NONE \<equiv> (59 :: u8)"
abbreviation "IPPROTO_DSTOPTS \<equiv> (60 :: u8)"
abbreviation "IPV6_MAX_EXTENSIONS \<equiv> (8 :: nat)"
abbreviation "HEADER_PULL_SIZE \<equiv> (128 :: nat)"
abbreviation "PARSE_FRAGMENT \<equiv> (2 :: int)"
abbreviation "E_FAULT \<equiv> (- 14 :: int)"

section \<open>Headers\<close>

record ethhdr =
  h_dest :: "u8 list"
  h_source :: "u8 list"
  h_proto :: "u8 list"

record iphdr =
  ip_version :: u8
  ip_ihl :: u8
  ip_tos :: u8
  ip_frag_off :: "u8 list"
  ip_protocol :: u8
  ip_saddr :: "u8 list"
  ip_daddr :: "u8 list"

record ipv6hdr =
  i6_first :: "u8 list"
  i6_payload_len :: "u8 list"
  i6_nexthdr :: u8
  i6_saddr :: ip6
  i6_daddr :: ip6

record icmp6hdr =
  ic_type :: u8
  ic_code :: u8

record tcphdr =
  th_source :: "u8 list"
  th_dest :: "u8 list"
  th_seq :: "u8 list"
  th_ack_seq :: "u8 list"
  th_doff :: u8
  th_fin :: bool
  th_syn :: bool
  th_rst :: bool
  th_ack :: bool
  th_window :: "u8 list"

record udphdr =
  uh_source :: "u8 list"
  uh_dest :: "u8 list"
  uh_len :: "u8 list"
  uh_check :: "u8 list"

text \<open>The fields of a header in its bytes; \<^verbatim>\<open>memset\<close> makes them zero.\<close>

definition ethhdr_of :: "u8 list \<Rightarrow> ethhdr" where
  "ethhdr_of b = \<lparr>h_dest = part 0 6 b, h_source = part 6 6 b, h_proto = part 12 2 b\<rparr>"

definition iphdr_of :: "u8 list \<Rightarrow> iphdr" where
  "iphdr_of b =
     \<lparr>ip_version = drop_bit 4 (b ! 0), ip_ihl = b ! 0 AND 15, ip_tos = b ! 1, ip_frag_off = part 6 2 b,
      ip_protocol = b ! 9, ip_saddr = part 12 4 b, ip_daddr = part 16 4 b\<rparr>"

definition ipv6hdr_of :: "u8 list \<Rightarrow> ipv6hdr" where
  "ipv6hdr_of b =
     \<lparr>i6_first = part 0 4 b, i6_payload_len = part 4 2 b, i6_nexthdr = b ! 6,
      i6_saddr = part 8 16 b, i6_daddr = part 24 16 b\<rparr>"

definition icmp6hdr_of :: "u8 list \<Rightarrow> icmp6hdr" where
  "icmp6hdr_of b = \<lparr>ic_type = b ! 0, ic_code = b ! 1\<rparr>"

definition tcphdr_of :: "u8 list \<Rightarrow> tcphdr" where
  "tcphdr_of b =
     \<lparr>th_source = part 0 2 b, th_dest = part 2 2 b, th_seq = part 4 4 b, th_ack_seq = part 8 4 b,
      th_doff = drop_bit 4 (b ! 12), th_fin = bit (b ! 13) 0, th_syn = bit (b ! 13) 1,
      th_rst = bit (b ! 13) 2, th_ack = bit (b ! 13) 4, th_window = part 14 2 b\<rparr>"

definition udphdr_of :: "u8 list \<Rightarrow> udphdr" where
  "udphdr_of b = \<lparr>uh_source = part 0 2 b, uh_dest = part 2 2 b, uh_len = part 4 2 b, uh_check = part 6 2 b\<rparr>"

abbreviation "zeros n \<equiv> replicate n (0 :: u8)"

record parse_transport_ctx =
  pc_ethh :: ethhdr
  pc_iph :: iphdr
  pc_ipv6h :: ipv6hdr
  pc_icmp6h :: icmp6hdr
  pc_tcph :: tcphdr
  pc_udph :: udphdr
  pc_ihl :: u8
  pc_l4proto :: u8
  pc_listener_l4proto :: u8

definition parse_ctx_zero :: "ethhdr \<Rightarrow> parse_transport_ctx" where
  "parse_ctx_zero eth =
     \<lparr>pc_ethh = eth, pc_iph = iphdr_of (zeros 20), pc_ipv6h = ipv6hdr_of (zeros 40),
      pc_icmp6h = icmp6hdr_of (zeros 8), pc_tcph = tcphdr_of (zeros 20), pc_udph = udphdr_of (zeros 8),
      pc_ihl = 0, pc_l4proto = 0, pc_listener_l4proto = 0\<rparr>"

definition is_extension_header :: "u8 \<Rightarrow> bool" where
  "is_extension_header nexthdr \<longleftrightarrow>
     nexthdr = IPPROTO_HOPOPTS \<or> nexthdr = IPPROTO_ROUTING \<or> nexthdr = IPPROTO_FRAGMENT \<or> nexthdr = IPPROTO_DSTOPTS"

definition tcp_listener_l4proto :: "tcphdr \<Rightarrow> u8" where
  "tcp_listener_l4proto t = (if th_syn t \<and> \<not> th_ack t then IPPROTO_TCP else 0)"

definition ipv6_optlen :: "u8 \<Rightarrow> nat" where
  "ipv6_optlen p = (unat p + 1) * 8"

definition masked :: "u8 list \<Rightarrow> u16 \<Rightarrow> bool" where
  "masked be16 m \<longleftrightarrow> (of_nat (be_nat be16) :: u16) AND m \<noteq> 0"

section \<open>The fast path\<close>

text \<open>
  \<open>d\<close> are the bytes up to \<^verbatim>\<open>data_end\<close>; reading past them returns -1.  The copy of the TCP header leaves
  out the \<open>ack\<close> flag, as the code does.
\<close>

definition fast_tcp :: "u8 list \<Rightarrow> nat \<Rightarrow> parse_transport_ctx \<Rightarrow> int \<times> parse_transport_ctx" where
  "fast_tcp d off c =
     (if off + 20 > length d then (- 1, c)
      else let p = tcphdr_of (part off 20 d)
           in (0, c\<lparr>pc_tcph := (pc_tcph c)\<lparr>th_source := th_source p, th_dest := th_dest p, th_seq := th_seq p,
                      th_ack_seq := th_ack_seq p, th_doff := th_doff p, th_rst := th_rst p, th_syn := th_syn p,
                      th_fin := th_fin p, th_window := th_window p\<rparr>,
                    pc_listener_l4proto := tcp_listener_l4proto p\<rparr>))"

definition fast_udp :: "u8 list \<Rightarrow> nat \<Rightarrow> parse_transport_ctx \<Rightarrow> int \<times> parse_transport_ctx" where
  "fast_udp d off c =
     (if off + 8 > length d then (- 1, c)
      else (0, c\<lparr>pc_udph := udphdr_of (part off 8 d), pc_listener_l4proto := IPPROTO_UDP\<rparr>))"

definition fast_icmp6 :: "u8 list \<Rightarrow> nat \<Rightarrow> parse_transport_ctx \<Rightarrow> int \<times> parse_transport_ctx" where
  "fast_icmp6 d off c =
     (if off + 8 > length d then (- 1, c) else (0, c\<lparr>pc_icmp6h := icmp6hdr_of (part off 8 d)\<rparr>))"

definition fast_ipv4 :: "u8 list \<Rightarrow> nat \<Rightarrow> parse_transport_ctx \<Rightarrow> int \<times> parse_transport_ctx" where
  "fast_ipv4 d off c =
     (if off + 20 > length d then (- 1, c)
      else let p = iphdr_of (part off 20 d)
           in if ip_ihl p < 5 then (E_FAULT, c)
              else let c1 = c\<lparr>pc_iph := (pc_iph c)\<lparr>ip_version := ip_version p, ip_ihl := ip_ihl p, ip_tos := ip_tos p,
                                   ip_protocol := ip_protocol p, ip_saddr := ip_saddr p, ip_daddr := ip_daddr p\<rparr>,
                              pc_ihl := ip_ihl p, pc_l4proto := ip_protocol p\<rparr>;
                       l4_offset = off + unat (ip_ihl p) * 4
                   in if masked (ip_frag_off p) 0x1FFF then (PARSE_FRAGMENT, c1)
                      else if ip_protocol p = IPPROTO_TCP then fast_tcp d l4_offset c1
                      else if ip_protocol p = IPPROTO_UDP then fast_udp d l4_offset c1
                      else (1, c1))"

text \<open>
  The loop over the extension headers: a return value, or the offset and the protocol behind them;
  with it the value of \<^verbatim>\<open>l4proto\<close>.
\<close>

fun fast_ext :: "u8 list \<Rightarrow> nat \<Rightarrow> nat \<Rightarrow> u8 \<Rightarrow> u8 \<Rightarrow> (int + nat \<times> u8) \<times> u8" where
  "fast_ext d 0 off nexthdr l4 = (Inr (off, nexthdr), l4)"
| "fast_ext d (Suc i) off nexthdr l4 =
     (if nexthdr = IPPROTO_NONE then (Inl E_FAULT, l4)
      else if nexthdr = IPPROTO_FRAGMENT then
        (if off + 8 > length d then (Inl (- 1), l4)
         else if masked (part (off + 2) 2 d) 0xFFF8 then (Inl PARSE_FRAGMENT, d ! off)
         else fast_ext d i (off + 8) (d ! off) (d ! off))
      else if \<not> is_extension_header nexthdr then (Inr (off, nexthdr), l4)
      else if off + 2 > length d then (Inl (- 1), l4)
      else fast_ext d i (off + ipv6_optlen (d ! (off + 1))) (d ! off) (d ! off))"

definition fast_ipv6 :: "u8 list \<Rightarrow> nat \<Rightarrow> parse_transport_ctx \<Rightarrow> int \<times> parse_transport_ctx" where
  "fast_ipv6 d off c =
     (if off + 40 > length d then (- 1, c)
      else let p = ipv6hdr_of (part off 40 d);
               c1 = c\<lparr>pc_ipv6h := p, pc_ihl := 10\<rparr>
           in case fast_ext d IPV6_MAX_EXTENSIONS (off + 40) (i6_nexthdr p) (i6_nexthdr p) of
                (Inl r, l4) \<Rightarrow> (r, c1\<lparr>pc_l4proto := l4\<rparr>)
              | (Inr (off', nexthdr), l4) \<Rightarrow>
                  let c2 = c1\<lparr>pc_l4proto := l4\<rparr>
                  in if is_extension_header nexthdr then (E_FAULT, c2)
                     else if nexthdr = IPPROTO_TCP then fast_tcp d off' c2
                     else if nexthdr = IPPROTO_UDP then fast_udp d off' c2
                     else if nexthdr = IPPROTO_ICMPV6 then fast_icmp6 d off' c2
                     else (1, c2))"

definition parse_transport_fast :: "bpf_helpers \<Rightarrow> sk_buff \<Rightarrow> nat \<Rightarrow> int \<times> parse_transport_ctx" where
  "parse_transport_fast h skb link_h_len =
     (let c0 = parse_ctx_zero (ethhdr_of (zeros 14))
      in case bh_pull_data h skb HEADER_PULL_SIZE of
           None \<Rightarrow> (- 1, c0)
         | Some d \<Rightarrow>
             if link_h_len = ETH_HLEN \<and> length d < 14 then (- 1, c0)
             else let (eth, off) = (if link_h_len = ETH_HLEN then (ethhdr_of (part 0 14 d), 14)
                                    else ((pc_ethh c0)\<lparr>h_proto := sk_protocol skb\<rparr>, 0));
                      c = c0\<lparr>pc_ethh := eth\<rparr>
                  in if h_proto eth = ETH_P_IP then fast_ipv4 d off c
                     else if h_proto eth = ETH_P_IPV6 then fast_ipv6 d off c
                     else (1, c))"

section \<open>The slow path\<close>

text \<open>Every header is copied whole; a failed copy is a malformed packet.\<close>

definition slow_tcp :: "bpf_helpers \<Rightarrow> sk_buff \<Rightarrow> nat \<Rightarrow> parse_transport_ctx \<Rightarrow> int \<times> parse_transport_ctx" where
  "slow_tcp h skb off c =
     (case bh_load_bytes h skb off 20 of
        None \<Rightarrow> (E_FAULT, c)
      | Some b \<Rightarrow> (0, c\<lparr>pc_tcph := tcphdr_of b, pc_listener_l4proto := tcp_listener_l4proto (tcphdr_of b)\<rparr>))"

definition slow_udp :: "bpf_helpers \<Rightarrow> sk_buff \<Rightarrow> nat \<Rightarrow> parse_transport_ctx \<Rightarrow> int \<times> parse_transport_ctx" where
  "slow_udp h skb off c =
     (case bh_load_bytes h skb off 8 of
        None \<Rightarrow> (E_FAULT, c)
      | Some b \<Rightarrow> (0, c\<lparr>pc_udph := udphdr_of b, pc_listener_l4proto := IPPROTO_UDP\<rparr>))"

definition slow_icmp6 :: "bpf_helpers \<Rightarrow> sk_buff \<Rightarrow> nat \<Rightarrow> parse_transport_ctx \<Rightarrow> int \<times> parse_transport_ctx" where
  "slow_icmp6 h skb off c =
     (case bh_load_bytes h skb off 8 of
        None \<Rightarrow> (E_FAULT, c) | Some b \<Rightarrow> (0, c\<lparr>pc_icmp6h := icmp6hdr_of b\<rparr>))"

definition slow_ipv4 :: "bpf_helpers \<Rightarrow> sk_buff \<Rightarrow> nat \<Rightarrow> parse_transport_ctx \<Rightarrow> int \<times> parse_transport_ctx" where
  "slow_ipv4 h skb off c =
     (case bh_load_bytes h skb off 20 of
        None \<Rightarrow> (E_FAULT, c)
      | Some b \<Rightarrow>
          let p = iphdr_of b; c0 = c\<lparr>pc_iph := p\<rparr>
          in if ip_ihl p < 5 then (E_FAULT, c0)
             else let c1 = c0\<lparr>pc_ihl := ip_ihl p, pc_l4proto := ip_protocol p\<rparr>; off' = off + unat (ip_ihl p) * 4
                  in if masked (ip_frag_off p) 0x1FFF then (PARSE_FRAGMENT, c1)
                     else if ip_protocol p = IPPROTO_TCP then slow_tcp h skb off' c1
                     else if ip_protocol p = IPPROTO_UDP then slow_udp h skb off' c1
                     else (1, c1))"

fun slow_ext :: "bpf_helpers \<Rightarrow> sk_buff \<Rightarrow> nat \<Rightarrow> nat \<Rightarrow> u8 \<Rightarrow> u8 \<Rightarrow> (int + nat \<times> u8) \<times> u8" where
  "slow_ext h skb 0 off nexthdr l4 = (Inr (off, nexthdr), l4)"
| "slow_ext h skb (Suc i) off nexthdr l4 =
     (if nexthdr = IPPROTO_NONE then (Inl E_FAULT, l4)
      else if nexthdr = IPPROTO_FRAGMENT then
        (case bh_load_bytes h skb off 8 of
           None \<Rightarrow> (Inl E_FAULT, l4)
         | Some fragh \<Rightarrow>
             if masked (part 2 2 fragh) 0xFFF8 then (Inl PARSE_FRAGMENT, fragh ! 0)
             else slow_ext h skb i (off + 8) (fragh ! 0) (fragh ! 0))
      else if \<not> is_extension_header nexthdr then (Inr (off, nexthdr), l4)
      else (case bh_load_bytes h skb off 1 of
              None \<Rightarrow> (Inl E_FAULT, l4)
            | Some nh \<Rightarrow>
                (case bh_load_bytes h skb (off + 1) 1 of
                   None \<Rightarrow> (Inl E_FAULT, l4)
                 | Some hdr_ext_len \<Rightarrow> slow_ext h skb i (off + ipv6_optlen (hdr_ext_len ! 0)) (nh ! 0) l4)))"

definition slow_ipv6 :: "bpf_helpers \<Rightarrow> sk_buff \<Rightarrow> nat \<Rightarrow> parse_transport_ctx \<Rightarrow> int \<times> parse_transport_ctx" where
  "slow_ipv6 h skb off c =
     (case bh_load_bytes h skb off 40 of
        None \<Rightarrow> (E_FAULT, c)
      | Some b \<Rightarrow>
          let p = ipv6hdr_of b; c1 = c\<lparr>pc_ipv6h := p, pc_ihl := 10\<rparr>
          in case slow_ext h skb IPV6_MAX_EXTENSIONS (off + 40) (i6_nexthdr p) (pc_l4proto c) of
               (Inl r, l4) \<Rightarrow> (r, c1\<lparr>pc_l4proto := l4\<rparr>)
             | (Inr (off', nexthdr), l4) \<Rightarrow>
                 if is_extension_header nexthdr then (E_FAULT, c1\<lparr>pc_l4proto := l4\<rparr>)
                 else let c2 = c1\<lparr>pc_l4proto := nexthdr\<rparr>
                      in if nexthdr = IPPROTO_TCP then slow_tcp h skb off' c2
                         else if nexthdr = IPPROTO_UDP then slow_udp h skb off' c2
                         else if nexthdr = IPPROTO_ICMPV6 then slow_icmp6 h skb off' c2
                         else (1, c2))"

text \<open>\<open>c\<close> is the scratch context as the fast path left it.\<close>

definition parse_transport_slow ::
    "bpf_helpers \<Rightarrow> sk_buff \<Rightarrow> nat \<Rightarrow> parse_transport_ctx \<Rightarrow> int \<times> parse_transport_ctx" where
  "parse_transport_slow h skb link_h_len c =
     (case (if link_h_len = ETH_HLEN
            then map_option (\<lambda>b. (ethhdr_of b, 14)) (bh_load_bytes h skb 0 14)
            else Some ((ethhdr_of (zeros 14))\<lparr>h_proto := sk_protocol skb\<rparr>, 0)) of
        None \<Rightarrow> (1, c)
      | Some (eth, off) \<Rightarrow>
          if h_proto eth = ETH_P_IP then slow_ipv4 h skb off (parse_ctx_zero eth)
          else if h_proto eth = ETH_P_IPV6 then slow_ipv6 h skb off (parse_ctx_zero eth)
          else (1, parse_ctx_zero eth))"

definition parse_transport :: "bpf_helpers \<Rightarrow> sk_buff \<Rightarrow> nat \<Rightarrow> int \<times> parse_transport_ctx" where
  "parse_transport h skb link_h_len =
     (let (ret, c) = parse_transport_fast h skb link_h_len
      in if ret = - 1 then parse_transport_slow h skb link_h_len c else (ret, c))"

section \<open>Tuples\<close>

record tuples_key =
  tk_sip :: ip6
  tk_dip :: ip6
  tk_sport :: "u8 list"
  tk_dport :: "u8 list"
  tk_l4proto :: u8

record tuples =
  tp_five :: tuples_key
  tp_dscp :: u8

definition ipv4_get_dscp :: "iphdr \<Rightarrow> u8" where
  "ipv4_get_dscp iph = drop_bit 2 (ip_tos iph AND 0xfc)"

definition ipv6_get_dscp :: "ipv6hdr \<Rightarrow> u8" where
  "ipv6_get_dscp ipv6h = push_bit 2 (i6_first ipv6h ! 0 AND 0x0f) OR drop_bit 6 (i6_first ipv6h ! 1)"

definition mapped :: "u8 list \<Rightarrow> ip6" where
  "mapped a = zeros 10 @ [0xff, 0xff] @ a"

definition get_tuples :: "parse_transport_ctx \<Rightarrow> u8 \<Rightarrow> tuples" where
  "get_tuples c l4proto =
     (let (sip, dip, dscp) =
        (if ip_version (pc_iph c) = 4
         then (mapped (ip_saddr (pc_iph c)), mapped (ip_daddr (pc_iph c)), ipv4_get_dscp (pc_iph c))
         else (i6_saddr (pc_ipv6h c), i6_daddr (pc_ipv6h c), ipv6_get_dscp (pc_ipv6h c)));
          (sport, dport) =
        (if l4proto = IPPROTO_TCP then (th_source (pc_tcph c), th_dest (pc_tcph c))
         else (uh_source (pc_udph c), uh_dest (pc_udph c)))
      in \<lparr>tp_five = \<lparr>tk_sip = sip, tk_dip = dip, tk_sport = sport, tk_dport = dport, tk_l4proto = l4proto\<rparr>,
          tp_dscp = dscp\<rparr>)"

record parsed_packet =
  pp_ethh :: ethhdr
  pp_tuples :: tuples
  pp_tcph :: tcphdr
  pp_udph :: udphdr
  pp_l4proto :: u8
  pp_listener_l4proto :: u8
  pp_datapath_generation :: u16

text \<open>\<open>None\<close> stands for the packet the caller zeroed, which stays as it was.\<close>

definition parse_packet :: "bpf_helpers \<Rightarrow> u16 \<Rightarrow> sk_buff \<Rightarrow> nat \<Rightarrow> int \<times> parsed_packet option" where
  "parse_packet h generation skb link_h_len =
     (let (ret, c) = parse_transport h skb link_h_len
      in if ret < 0 then (ret, None)
         else if pc_l4proto c = IPPROTO_ICMPV6 then (1, None)
         else (ret, Some \<lparr>pp_ethh = pc_ethh c, pp_tuples = get_tuples c (pc_l4proto c), pp_tcph = pc_tcph c,
                          pp_udph = pc_udph c, pp_l4proto = pc_l4proto c,
                          pp_listener_l4proto = pc_listener_l4proto c, pp_datapath_generation = generation\<rparr>))"

section \<open>The link layer\<close>

definition is_ip_ethertype :: "u8 list \<Rightarrow> bool" where
  "is_ip_ethertype p \<longleftrightarrow> p = ETH_P_IP \<or> p = ETH_P_IPV6"

definition detect_link_h_len :: "bpf_helpers \<Rightarrow> sk_buff \<Rightarrow> nat" where
  "detect_link_h_len h skb =
     (case bh_pull_data h skb (ETH_HLEN + 2) of
        None \<Rightarrow> 0
      | Some d \<Rightarrow>
          if ETH_HLEN + 2 \<le> length d \<and> is_ip_ethertype (part 12 2 d) \<and> part 12 2 d = sk_protocol skb
          then ETH_HLEN else 0)"

definition detect_tcp_listener_key :: "bpf_helpers \<Rightarrow> sk_buff \<Rightarrow> u32" where
  "detect_tcp_listener_key h skb =
     (let fallback = (if sk_protocol skb = ETH_P_IPV6 then 2 else 0)
      in case bh_pull_data h skb (ETH_HLEN + 1) of
           None \<Rightarrow> fallback
         | Some d \<Rightarrow>
             if 1 \<le> length d \<and> drop_bit 4 (d ! 0) = 4 then 0
             else if 1 \<le> length d \<and> drop_bit 4 (d ! 0) = 6 then 2
             else if ETH_HLEN + 1 \<le> length d \<and> is_ip_ethertype (part 12 2 d) \<and> part 12 2 d = sk_protocol skb
             then (if drop_bit 4 (d ! ETH_HLEN) = 4 then 0
                   else if drop_bit 4 (d ! ETH_HLEN) = 6 then 2 else fallback)
             else fallback)"

section \<open>Keys of the redirect table\<close>

record redirect_tuple =
  rt_sip :: ip6
  rt_dip :: ip6

text \<open>\<^verbatim>\<open>u6_addr32[i]\<close> as a number of the little-endian host.\<close>

definition addr32 :: "ip6 \<Rightarrow> nat \<Rightarrow> nat" where
  "addr32 ip i = le_value (part (4 * i) 4 ip)"

definition normalize_redirect_ip :: "ip6 \<Rightarrow> ip6" where
  "normalize_redirect_ip ip =
     (if part 0 8 ip = zeros 8 \<and> (part 8 4 ip = zeros 4 \<or> part 8 4 ip = [0, 0, 0xff, 0xff]) \<and> part 12 4 ip \<noteq> zeros 4
      then part 0 8 ip @ [0, 0, 0xff, 0xff] @ part 12 4 ip else ip)"

definition normalize_redirect_tuple :: "redirect_tuple \<Rightarrow> redirect_tuple" where
  "normalize_redirect_tuple t =
     \<lparr>rt_sip = normalize_redirect_ip (rt_sip t), rt_dip = normalize_redirect_ip (rt_dip t)\<rparr>"

definition redirect_ip_gt :: "ip6 \<Rightarrow> ip6 \<Rightarrow> bool" where
  "redirect_ip_gt a b \<longleftrightarrow>
     addr32 a 0 > addr32 b 0 \<or> (addr32 a 0 = addr32 b 0 \<and>
     (addr32 a 1 > addr32 b 1 \<or> (addr32 a 1 = addr32 b 1 \<and>
     (addr32 a 2 > addr32 b 2 \<or> (addr32 a 2 = addr32 b 2 \<and> addr32 a 3 > addr32 b 3)))))"

definition sorted_tuple :: "redirect_tuple \<Rightarrow> redirect_tuple" where
  "sorted_tuple t =
     (if redirect_ip_gt (rt_sip t) (rt_dip t) then \<lparr>rt_sip = rt_dip t, rt_dip = rt_sip t\<rparr> else t)"

definition fill_redirect_tuple_from_forward_packet :: "sk_buff \<Rightarrow> tuples \<Rightarrow> redirect_tuple" where
  "fill_redirect_tuple_from_forward_packet skb tuples =
     (let five = tp_five tuples
      in if sk_protocol skb = ETH_P_IP
         then \<lparr>rt_sip = mapped (part 12 4 (tk_sip five)), rt_dip = mapped (part 12 4 (tk_dip five))\<rparr>
         else \<lparr>rt_sip = tk_sip five, rt_dip = tk_dip five\<rparr>)"

text \<open>The source and destination of the reply are exchanged when they are read.\<close>

definition redirect_from_ipv4 :: "u8 list \<Rightarrow> nat \<Rightarrow> redirect_tuple" where
  "redirect_from_ipv4 d off = \<lparr>rt_sip = mapped (part (off + 16) 4 d), rt_dip = mapped (part (off + 12) 4 d)\<rparr>"

definition redirect_from_ipv6 :: "u8 list \<Rightarrow> nat \<Rightarrow> redirect_tuple" where
  "redirect_from_ipv6 d off = \<lparr>rt_sip = part (off + 24) 16 d, rt_dip = part (off + 8) 16 d\<rparr>"

definition redirect_zero :: redirect_tuple where
  "redirect_zero = \<lparr>rt_sip = zeros 16, rt_dip = zeros 16\<rparr>"

abbreviation "LOAD_REDIRECT_TUPLE_FALLBACK \<equiv> (2 :: int)"

definition load_redirect_tuple_fast :: "bpf_helpers \<Rightarrow> sk_buff \<Rightarrow> int \<times> redirect_tuple" where
  "load_redirect_tuple_fast h skb =
     (case bh_pull_data h skb 128 of
        None \<Rightarrow> (LOAD_REDIRECT_TUPLE_FALLBACK, redirect_zero)
      | Some d \<Rightarrow>
          if ETH_HLEN \<le> length d \<and> is_ip_ethertype (part 12 2 d) \<and> part 12 2 d = sk_protocol skb
          then (if part 12 2 d = ETH_P_IP
                then (if ETH_HLEN + 20 > length d then (LOAD_REDIRECT_TUPLE_FALLBACK, redirect_zero)
                      else (0, redirect_from_ipv4 d ETH_HLEN))
                else (if ETH_HLEN + 40 > length d then (LOAD_REDIRECT_TUPLE_FALLBACK, redirect_zero)
                      else (0, redirect_from_ipv6 d ETH_HLEN)))
          else if sk_protocol skb = ETH_P_IP
          then (if 20 > length d then (LOAD_REDIRECT_TUPLE_FALLBACK, redirect_zero)
                else (0, redirect_from_ipv4 d 0))
          else if sk_protocol skb = ETH_P_IPV6
          then (if 40 > length d then (LOAD_REDIRECT_TUPLE_FALLBACK, redirect_zero)
                else (0, redirect_from_ipv6 d 0))
          else (1, redirect_zero))"

definition load_redirect_tuple_slow :: "bpf_helpers \<Rightarrow> sk_buff \<Rightarrow> int \<times> redirect_tuple" where
  "load_redirect_tuple_slow h skb =
     (let has_l2 = (case bh_load_bytes h skb 12 2 of
                      None \<Rightarrow> False | Some l2_proto \<Rightarrow> is_ip_ethertype l2_proto \<and> l2_proto = sk_protocol skb);
          l3_off = (if has_l2 then ETH_HLEN else 0)
      in if sk_protocol skb = ETH_P_IP
         then (case (bh_load_bytes h skb (l3_off + 16) 4, bh_load_bytes h skb (l3_off + 12) 4) of
                 (Some daddr, Some saddr) \<Rightarrow> (0, \<lparr>rt_sip = mapped daddr, rt_dip = mapped saddr\<rparr>)
               | _ \<Rightarrow> (E_FAULT, redirect_zero))
         else if sk_protocol skb = ETH_P_IPV6
         then (case (bh_load_bytes h skb (l3_off + 24) 16, bh_load_bytes h skb (l3_off + 8) 16) of
                 (Some daddr, Some saddr) \<Rightarrow> (0, \<lparr>rt_sip = daddr, rt_dip = saddr\<rparr>)
               | _ \<Rightarrow> (E_FAULT, redirect_zero))
         else (1, redirect_zero))"

definition load_redirect_tuple :: "bpf_helpers \<Rightarrow> sk_buff \<Rightarrow> redirect_tuple option" where
  "load_redirect_tuple h skb =
     (let (ret, t) = load_redirect_tuple_fast h skb;
          (ret, t) = (if ret = LOAD_REDIRECT_TUPLE_FALLBACK then load_redirect_tuple_slow h skb else (ret, t))
      in if ret \<noteq> 0 then None else Some (sorted_tuple (normalize_redirect_tuple t)))"

section \<open>Both paths agree\<close>

lemma part_prefix: "prefix d s \<Longrightarrow> off + n \<le> length d \<Longrightarrow> part off n s = part off n d"
  by (auto simp: part_def prefix_def)

lemma part_length [simp]: "off + n \<le> length d \<Longrightarrow> length (part off n d) = n"
  by (simp add: part_def)

lemma part_nth: "i < n \<Longrightarrow> off + n \<le> length d \<Longrightarrow> part off n d ! i = d ! (off + i)"
  by (simp add: part_def)

lemma part_part: "i + m \<le> n \<Longrightarrow> off + n \<le> length d \<Longrightarrow> part i m (part off n d) = part (off + i) m d"
  by (simp add: part_def drop_take min_def add.commute)

lemma load_direct:
  assumes "packet_ok h" "prefix d (sk_data skb)" "off + n \<le> length d"
  shows "bh_load_bytes h skb off n = Some (part off n d)"
proof -
  have "off + n \<le> length (sk_data skb)" using assms(2,3) prefix_length_le by fastforce
  then show ?thesis using assms by (simp add: packet_ok_def part_prefix)
qed

text \<open>
  What the callers use of a parsed packet.  The copy of the fast path never has the \<open>ack\<close> flag.
\<close>

definition same_parse :: "parse_transport_ctx \<Rightarrow> parse_transport_ctx \<Rightarrow> bool" where
  "same_parse c c' \<longleftrightarrow>
     pc_ethh c = pc_ethh c' \<and> pc_l4proto c = pc_l4proto c' \<and> pc_listener_l4proto c = pc_listener_l4proto c'
   \<and> get_tuples c (pc_l4proto c) = get_tuples c' (pc_l4proto c') \<and> pc_udph c = pc_udph c' \<and> pc_icmp6h c = pc_icmp6h c'
   \<and> pc_tcph c = (pc_tcph c')\<lparr>th_ack := False\<rparr>"

lemma get_tuples_eq:
  assumes "ip_version (pc_iph c) = ip_version (pc_iph c')" "ip_saddr (pc_iph c) = ip_saddr (pc_iph c')"
    "ip_daddr (pc_iph c) = ip_daddr (pc_iph c')" "ip_tos (pc_iph c) = ip_tos (pc_iph c')" "pc_ipv6h c = pc_ipv6h c'"
    "th_source (pc_tcph c) = th_source (pc_tcph c')" "th_dest (pc_tcph c) = th_dest (pc_tcph c')" "pc_udph c = pc_udph c'"
  shows "get_tuples c l = get_tuples c' l"
  by (simp add: get_tuples_def ipv4_get_dscp_def assms)

text \<open>The contexts the two paths have when they reach the transport header.\<close>

definition same_network :: "parse_transport_ctx \<Rightarrow> parse_transport_ctx \<Rightarrow> bool" where
  "same_network c c' \<longleftrightarrow>
     pc_ethh c = pc_ethh c' \<and> pc_l4proto c = pc_l4proto c' \<and> pc_listener_l4proto c = pc_listener_l4proto c'
   \<and> ip_version (pc_iph c) = ip_version (pc_iph c') \<and> ip_saddr (pc_iph c) = ip_saddr (pc_iph c')
   \<and> ip_daddr (pc_iph c) = ip_daddr (pc_iph c') \<and> ip_tos (pc_iph c) = ip_tos (pc_iph c') \<and> pc_ipv6h c = pc_ipv6h c'
   \<and> pc_tcph c = tcphdr_of (zeros 20) \<and> pc_tcph c' = tcphdr_of (zeros 20)
   \<and> pc_udph c = pc_udph c' \<and> pc_icmp6h c = pc_icmp6h c'"

lemma same_parseI:
  assumes "same_network c0 c0'"
    and "pc_ethh c = pc_ethh c0" "pc_ethh c' = pc_ethh c0'" "pc_l4proto c = pc_l4proto c0" "pc_l4proto c' = pc_l4proto c0'"
    and "pc_iph c = pc_iph c0" "pc_iph c' = pc_iph c0'" "pc_ipv6h c = pc_ipv6h c0" "pc_ipv6h c' = pc_ipv6h c0'"
    and "pc_listener_l4proto c = pc_listener_l4proto c'" "pc_udph c = pc_udph c'" "pc_icmp6h c = pc_icmp6h c'"
    and t: "pc_tcph c = (pc_tcph c')\<lparr>th_ack := False\<rparr>"
  shows "same_parse c c'"
proof -
  have "get_tuples c (pc_l4proto c) = get_tuples c' (pc_l4proto c)"
    by (rule get_tuples_eq) (use assms in \<open>simp_all add: same_network_def\<close>)
  then show ?thesis using assms by (simp add: same_parse_def same_network_def)
qed

lemma zero_tcp [simp]: "(tcphdr_of (zeros 20))\<lparr>th_ack := False\<rparr> = tcphdr_of (zeros 20)"
  by (simp add: tcphdr_of_def)

lemma same_network_parse: "same_network c c' \<Longrightarrow> same_parse c c'"
  by (rule same_parseI [of c c' c c']) (simp_all add: same_network_def)

lemma tcp_agree:
  assumes "packet_ok h" "prefix d (sk_data skb)" "same_network c c'" "fast_tcp d off c = (r, cf)" "r \<noteq> - 1"
  shows "\<exists>cs. slow_tcp h skb off c' = (r, cs) \<and> same_parse cf cs"
proof -
  let ?p = "tcphdr_of (part off 20 d)"
  let ?cf = "c\<lparr>pc_tcph := ?p\<lparr>th_ack := False\<rparr>, pc_listener_l4proto := tcp_listener_l4proto ?p\<rparr>"
  let ?cs = "c'\<lparr>pc_tcph := ?p, pc_listener_l4proto := tcp_listener_l4proto ?p\<rparr>"
  have len: "off + 20 \<le> length d" using assms(4,5) by (auto simp: fast_tcp_def Let_def split: if_splits)
  have "pc_tcph c = tcphdr_of (zeros 20)" using assms(3) by (simp add: same_network_def)
  then have "(pc_tcph c)\<lparr>th_source := th_source ?p, th_dest := th_dest ?p, th_seq := th_seq ?p,
      th_ack_seq := th_ack_seq ?p, th_doff := th_doff ?p, th_rst := th_rst ?p, th_syn := th_syn ?p,
      th_fin := th_fin ?p, th_window := th_window ?p\<rparr> = ?p\<lparr>th_ack := False\<rparr>"
    by (simp add: tcphdr_of_def)
  then have "r = 0" "cf = ?cf" using assms(4) len by (simp_all add: fast_tcp_def Let_def)
  moreover have "slow_tcp h skb off c' = (0, ?cs)"
    by (simp add: slow_tcp_def load_direct [OF assms(1,2) len])
  moreover have "same_parse ?cf ?cs"
    using assms(3) by (intro same_parseI [OF assms(3)]) (simp_all add: same_network_def)
  ultimately show ?thesis by blast
qed

lemma udp_agree:
  assumes "packet_ok h" "prefix d (sk_data skb)" "same_network c c'" "fast_udp d off c = (r, cf)" "r \<noteq> - 1"
  shows "\<exists>cs. slow_udp h skb off c' = (r, cs) \<and> same_parse cf cs"
proof -
  let ?cs = "c'\<lparr>pc_udph := udphdr_of (part off 8 d), pc_listener_l4proto := IPPROTO_UDP\<rparr>"
  have len: "off + 8 \<le> length d" using assms(4,5) by (auto simp: fast_udp_def split: if_splits)
  then have "r = 0" "cf = c\<lparr>pc_udph := udphdr_of (part off 8 d), pc_listener_l4proto := IPPROTO_UDP\<rparr>"
    using assms(4) by (simp_all add: fast_udp_def)
  moreover have "slow_udp h skb off c' = (0, ?cs)"
    by (simp add: slow_udp_def load_direct [OF assms(1,2) len])
  moreover have "same_parse (c\<lparr>pc_udph := udphdr_of (part off 8 d), pc_listener_l4proto := IPPROTO_UDP\<rparr>) ?cs"
    using assms(3) by (intro same_parseI [OF assms(3)]) (simp_all add: same_network_def)
  ultimately show ?thesis by blast
qed

lemma icmp6_agree:
  assumes "packet_ok h" "prefix d (sk_data skb)" "same_network c c'" "fast_icmp6 d off c = (r, cf)" "r \<noteq> - 1"
  shows "\<exists>cs. slow_icmp6 h skb off c' = (r, cs) \<and> same_parse cf cs"
proof -
  let ?cs = "c'\<lparr>pc_icmp6h := icmp6hdr_of (part off 8 d)\<rparr>"
  have len: "off + 8 \<le> length d" using assms(4,5) by (auto simp: fast_icmp6_def split: if_splits)
  then have "r = 0" "cf = c\<lparr>pc_icmp6h := icmp6hdr_of (part off 8 d)\<rparr>"
    using assms(4) by (simp_all add: fast_icmp6_def)
  moreover have "slow_icmp6 h skb off c' = (0, ?cs)"
    by (simp add: slow_icmp6_def load_direct [OF assms(1,2) len])
  moreover have "same_parse (c\<lparr>pc_icmp6h := icmp6hdr_of (part off 8 d)\<rparr>) ?cs"
    using assms(3) by (intro same_parseI [OF assms(3)]) (simp_all add: same_network_def)
  ultimately show ?thesis by blast
qed

lemma ext_agree:
  assumes "packet_ok h" "prefix d (sk_data skb)"
  shows "fast_ext d i off nexthdr l4 = (res, lf) \<Longrightarrow> res \<noteq> Inl (- 1) \<Longrightarrow>
    \<exists>ls. slow_ext h skb i off nexthdr l4' = (res, ls) \<and> (res = Inl PARSE_FRAGMENT \<longrightarrow> ls = lf)"
proof (induction i arbitrary: off nexthdr l4 l4')
  case (Suc i)
  consider "nexthdr = IPPROTO_NONE" | "nexthdr = IPPROTO_FRAGMENT"
    | "nexthdr \<noteq> IPPROTO_NONE" "\<not> is_extension_header nexthdr"
    | "nexthdr \<noteq> IPPROTO_NONE" "nexthdr \<noteq> IPPROTO_FRAGMENT" "is_extension_header nexthdr" by blast
  then show ?case
  proof cases
    case 2
    then have len: "off + 8 \<le> length d" using Suc.prems by (auto split: if_splits)
    have b: "bh_load_bytes h skb off 8 = Some (part off 8 d)" by (rule load_direct [OF assms len])
    have p: "part 2 2 (part off 8 d) = part (off + 2) 2 d" "part off 8 d ! 0 = d ! off"
      using len part_part [of 2 2 8 off d] part_nth [of 0 8 off d] by simp_all
    show ?thesis
    proof (cases "masked (part (off + 2) 2 d) 0xFFF8")
      case True
      then show ?thesis using Suc.prems 2 len by (simp add: b p)
    next
      case False
      then have "fast_ext d i (off + 8) (d ! off) (d ! off) = (res, lf)" using Suc.prems(1) 2 len by simp
      from Suc.IH [OF this Suc.prems(2), of "d ! off"] False show ?thesis using 2 by (simp add: b p)
    qed
  next
    case 4
    then have len: "off + 2 \<le> length d" using Suc.prems by (auto split: if_splits)
    have b: "bh_load_bytes h skb off 1 = Some (part off 1 d)" "bh_load_bytes h skb (off + 1) 1 = Some (part (off + 1) 1 d)"
      by (rule load_direct [OF assms], use len in simp)+
    have p: "part off 1 d ! 0 = d ! off" "part (off + 1) 1 d ! 0 = d ! (off + 1)"
      using len part_nth [of 0 1 off d] part_nth [of 0 1 "off + 1" d] by simp_all
    have "fast_ext d i (off + ipv6_optlen (d ! (off + 1))) (d ! off) (d ! off) = (res, lf)" using Suc.prems(1) 4 len by simp
    from Suc.IH [OF this Suc.prems(2), of l4'] show ?thesis using 4 by (simp add: b [simplified] p [simplified])
  qed (use Suc.prems in \<open>auto simp: is_extension_header_def\<close>)
qed auto

lemma ext_l4: "fast_ext d i off nexthdr nexthdr = (Inr (off', n), l) \<Longrightarrow> l = n"
  by (induction i arbitrary: off nexthdr) (auto split: if_splits)

lemma fast_ext_codes: "fast_ext d i off nexthdr l4 = (Inl r, lf) \<Longrightarrow> r = - 1 \<or> r = E_FAULT \<or> r = PARSE_FRAGMENT"
  by (induction i arbitrary: off nexthdr l4) (auto split: if_splits)

lemma ipv4_agree:
  assumes "packet_ok h" "prefix d (sk_data skb)" "fast_ipv4 d off (parse_ctx_zero eth) = (r, cf)" "r \<noteq> - 1"
  shows "\<exists>cs. slow_ipv4 h skb off (parse_ctx_zero eth) = (r, cs) \<and> (0 \<le> r \<longrightarrow> same_parse cf cs)"
proof -
  let ?c = "parse_ctx_zero eth" and ?p = "iphdr_of (part off 20 d)"
  define c1 c1' l4 where "c1 = ?c\<lparr>pc_iph := (pc_iph ?c)\<lparr>ip_version := ip_version ?p, ip_ihl := ip_ihl ?p, ip_tos := ip_tos ?p,
      ip_protocol := ip_protocol ?p, ip_saddr := ip_saddr ?p, ip_daddr := ip_daddr ?p\<rparr>,
      pc_ihl := ip_ihl ?p, pc_l4proto := ip_protocol ?p\<rparr>"
    and "c1' = ?c\<lparr>pc_iph := ?p, pc_ihl := ip_ihl ?p, pc_l4proto := ip_protocol ?p\<rparr>"
    and "l4 = off + unat (ip_ihl ?p) * 4"
  note c = c1_def c1'_def l4_def
  have len: "off + 20 \<le> length d" using assms(3,4) by (auto simp: fast_ipv4_def Let_def split: if_splits)
  have b: "bh_load_bytes h skb off 20 = Some (part off 20 d)" by (rule load_direct [OF assms(1,2) len])
  have n: "same_network c1 c1'" by (simp add: same_network_def parse_ctx_zero_def c)
  consider "ip_ihl ?p < 5" | "\<not> ip_ihl ?p < 5" "masked (ip_frag_off ?p) 0x1FFF"
    | "\<not> ip_ihl ?p < 5" "\<not> masked (ip_frag_off ?p) 0x1FFF" by blast
  then show ?thesis
  proof cases
    case 3
    have f: "fast_ipv4 d off ?c = (if ip_protocol ?p = IPPROTO_TCP then fast_tcp d l4 c1
        else if ip_protocol ?p = IPPROTO_UDP then fast_udp d l4 c1 else (1, c1))"
      using 3 len by (simp add: fast_ipv4_def Let_def c)
    have s: "slow_ipv4 h skb off ?c = (if ip_protocol ?p = IPPROTO_TCP then slow_tcp h skb l4 c1'
        else if ip_protocol ?p = IPPROTO_UDP then slow_udp h skb l4 c1' else (1, c1'))"
      using 3 by (simp add: slow_ipv4_def b Let_def c)
    show ?thesis unfolding s
      using assms(3) [unfolded f] same_network_parse [OF n]
      by (auto split: if_splits dest: tcp_agree [OF assms(1,2) n _ assms(4)] udp_agree [OF assms(1,2) n _ assms(4)])
  next
    case 2
    then have "r = PARSE_FRAGMENT" "cf = c1" using assms(3) len by (simp_all add: fast_ipv4_def Let_def c)
    moreover have "slow_ipv4 h skb off ?c = (PARSE_FRAGMENT, c1')" using 2 by (simp add: slow_ipv4_def b Let_def c)
    ultimately show ?thesis using same_network_parse [OF n] by blast
  qed (use assms(3) len in \<open>simp add: fast_ipv4_def slow_ipv4_def b Let_def\<close>)
qed

lemma ipv6_agree:
  assumes "packet_ok h" "prefix d (sk_data skb)" "fast_ipv6 d off (parse_ctx_zero eth) = (r, cf)" "r \<noteq> - 1"
  shows "\<exists>cs. slow_ipv6 h skb off (parse_ctx_zero eth) = (r, cs) \<and> (0 \<le> r \<longrightarrow> same_parse cf cs)"
proof -
  let ?c = "parse_ctx_zero eth" and ?p = "ipv6hdr_of (part off 40 d)"
  let ?c1 = "?c\<lparr>pc_ipv6h := ?p, pc_ihl := 10\<rparr>"
  have len: "off + 40 \<le> length d" using assms(3,4) by (auto simp: fast_ipv6_def Let_def split: if_splits)
  have b: "bh_load_bytes h skb off 40 = Some (part off 40 d)" by (rule load_direct [OF assms(1,2) len])
  have n: "same_network (?c1\<lparr>pc_l4proto := l\<rparr>) (?c1\<lparr>pc_l4proto := l\<rparr>)" for l by (simp add: same_network_def parse_ctx_zero_def)
  obtain res lf where e: "fast_ext d IPV6_MAX_EXTENSIONS (off + 40) (i6_nexthdr ?p) (i6_nexthdr ?p) = (res, lf)" by fastforce
  have "res \<noteq> Inl (- 1)" using assms(3,4) len e by (auto simp: fast_ipv6_def Let_def)
  then obtain ls where e': "slow_ext h skb IPV6_MAX_EXTENSIONS (off + 40) (i6_nexthdr ?p) (pc_l4proto ?c) = (res, ls)"
      and l: "res = Inl PARSE_FRAGMENT \<longrightarrow> ls = lf"
    using ext_agree [OF assms(1,2) e] by blast
  show ?thesis
  proof (cases res)
    case (Inl x)
    have "r = x" "cf = ?c1\<lparr>pc_l4proto := lf\<rparr>" using assms(3) len e Inl by (simp_all add: fast_ipv6_def Let_def)
    moreover have "slow_ipv6 h skb off ?c = (x, ?c1\<lparr>pc_l4proto := ls\<rparr>)" using e' Inl by (simp add: slow_ipv6_def b Let_def)
    moreover have "0 \<le> x \<Longrightarrow> x = PARSE_FRAGMENT" using fast_ext_codes e Inl by fastforce
    ultimately show ?thesis using l Inl same_network_parse [OF n] by blast
  next
    case (Inr on)
    obtain o' nh where on: "on = (o', nh)" by fastforce
    have lf: "lf = nh" using ext_l4 e Inr on by blast
    define c2 where "c2 = ?c1\<lparr>pc_l4proto := nh\<rparr>"
    have f: "fast_ipv6 d off ?c = (if is_extension_header nh then (E_FAULT, c2)
        else if nh = IPPROTO_TCP then fast_tcp d o' c2 else if nh = IPPROTO_UDP then fast_udp d o' c2
        else if nh = IPPROTO_ICMPV6 then fast_icmp6 d o' c2 else (1, c2))"
      using e Inr len on lf by (simp add: fast_ipv6_def Let_def c2_def)
    have s: "slow_ipv6 h skb off ?c = (if is_extension_header nh then (E_FAULT, ?c1\<lparr>pc_l4proto := ls\<rparr>)
        else if nh = IPPROTO_TCP then slow_tcp h skb o' c2 else if nh = IPPROTO_UDP then slow_udp h skb o' c2
        else if nh = IPPROTO_ICMPV6 then slow_icmp6 h skb o' c2 else (1, c2))"
      using e' Inr on by (simp add: slow_ipv6_def b Let_def c2_def)
    note n = n [of nh, folded c2_def]
    show ?thesis unfolding s
      using assms(3) [unfolded f] same_network_parse [OF n]
      by (auto split: if_splits dest: tcp_agree [OF assms(1,2) n _ assms(4)] udp_agree [OF assms(1,2) n _ assms(4)]
          icmp6_agree [OF assms(1,2) n _ assms(4)])
  qed
qed

text \<open>
  C8: the two packet parsers agree.  Where the fast path with direct packet access gives a verdict, the
  copying slow path gives the same one from any scratch state: the same return value, and for a packet
  that is not rejected the same link header, transport protocol, listener, tuples, UDP and ICMPv6 header,
  and the same TCP header except that the fast path never reports the \<open>ack\<close> flag.
\<close>

theorem parse_paths_agree:
  assumes "packet_ok h" "parse_transport_fast h skb link_h_len = (r, c)" "r \<noteq> - 1"
  shows "\<exists>c'. parse_transport_slow h skb link_h_len c0 = (r, c') \<and> (0 \<le> r \<longrightarrow> same_parse c c')"
proof -
  obtain d where d: "bh_pull_data h skb HEADER_PULL_SIZE = Some d"
    using assms(2,3) by (auto simp: parse_transport_fast_def Let_def split: option.splits)
  then have p: "prefix d (sk_data skb)" "128 \<le> length d" using assms(1) by (auto simp: packet_ok_def)
  define eth off where "eth = (if link_h_len = ETH_HLEN then ethhdr_of (part 0 14 d)
      else (ethhdr_of (zeros 14))\<lparr>h_proto := sk_protocol skb\<rparr>)"
    and "off = (if link_h_len = ETH_HLEN then 14 else 0 :: nat)"
  have z: "(parse_ctx_zero e)\<lparr>pc_ethh := e'\<rparr> = parse_ctx_zero e'" "pc_ethh (parse_ctx_zero e) = e" for e e'
    by (simp_all add: parse_ctx_zero_def)
  have f: "parse_transport_fast h skb link_h_len = (if h_proto eth = ETH_P_IP then fast_ipv4 d off (parse_ctx_zero eth)
      else if h_proto eth = ETH_P_IPV6 then fast_ipv6 d off (parse_ctx_zero eth) else (1, parse_ctx_zero eth))"
    using d p(2) by (simp add: parse_transport_fast_def Let_def eth_def off_def z)
  have b: "bh_load_bytes h skb 0 14 = Some (part 0 14 d)" by (rule load_direct [OF assms(1) p(1)]) (use p(2) in simp)
  have s: "parse_transport_slow h skb link_h_len c0 = (if h_proto eth = ETH_P_IP then slow_ipv4 h skb off (parse_ctx_zero eth)
      else if h_proto eth = ETH_P_IPV6 then slow_ipv6 h skb off (parse_ctx_zero eth) else (1, parse_ctx_zero eth))"
    by (simp add: parse_transport_slow_def b eth_def off_def)
  have "same_parse (parse_ctx_zero eth) (parse_ctx_zero eth)"
    by (rule same_network_parse) (simp add: same_network_def parse_ctx_zero_def)
  then show ?thesis unfolding s
    using assms(2) [unfolded f]
    by (auto split: if_splits dest: ipv4_agree [OF assms(1) p(1) _ assms(3)] ipv6_agree [OF assms(1) p(1) _ assms(3)])
qed

text \<open>Helpers on a packet whose data is linear.\<close>

definition linear_helpers :: bpf_helpers where
  "linear_helpers =
     \<lparr>bh_pull_data = (\<lambda>skb n. if n \<le> length (sk_data skb) then Some (sk_data skb) else None),
      bh_load_bytes = (\<lambda>skb off n. if off + n \<le> length (sk_data skb) then Some (part off n (sk_data skb)) else None)\<rparr>"

lemma linear_helpers_ok: "packet_ok linear_helpers"
  by (simp add: packet_ok_def linear_helpers_def)

text \<open>A TCP packet over IPv4 with an Ethernet header; \<open>n\<close> bytes of payload.\<close>

definition demo_tcp :: "u8 \<Rightarrow> nat \<Rightarrow> sk_buff" where
  "demo_tcp fl n =
     \<lparr>sk_data = [2, 0, 0, 0, 0, 1, 2, 0, 0, 0, 0, 2, 0x08, 0x00,
                 0x45, 0, 0, 40, 0, 0, 0, 0, 64, 6, 0, 0, 10, 0, 0, 1, 10, 0, 0, 2,
                 0x1f, 0x90, 0, 80, 0, 0, 0, 1, 0, 0, 0, 2, 0x50, fl, 1, 0, 0, 0, 0, 0] @ zeros n,
      sk_protocol = ETH_P_IP, sk_mark = 0, sk_cb0 = 0, sk_cb1 = 0, sk_ifindex = 3, sk_ingress_ifindex = 0, sk_pkt_type = 0\<rparr>"

theorem parse_paths_agree_witness:
  "parse_transport_fast linear_helpers (demo_tcp 0x12 80) 14
     = (0, snd (parse_transport_fast linear_helpers (demo_tcp 0x12 80) 14))
   \<and> (\<exists>c'. parse_transport_slow linear_helpers (demo_tcp 0x12 80) 14 (parse_ctx_zero (ethhdr_of [])) = (0, c')
        \<and> same_parse (snd (parse_transport_fast linear_helpers (demo_tcp 0x12 80) 14)) c')"
proof -
  have "fst (parse_transport_fast linear_helpers (demo_tcp 0x12 80) 14) = 0" by code_simp
  then have f: "parse_transport_fast linear_helpers (demo_tcp 0x12 80) 14
      = (0, snd (parse_transport_fast linear_helpers (demo_tcp 0x12 80) 14))" by (simp add: prod_eq_iff)
  from parse_paths_agree [OF linear_helpers_ok this, of "parse_ctx_zero (ethhdr_of [])"] f show ?thesis by simp
qed

text \<open>
  The flag that the fast path loses: a SYN-ACK of at least 128 bytes looks like a new connection, and
  a shorter one, which takes the slow path, does not.
\<close>

lemma fast_path_loses_ack:
  "(let c = snd (parse_transport linear_helpers (demo_tcp 0x12 80) 14) in th_syn (pc_tcph c) \<and> \<not> th_ack (pc_tcph c))
   \<and> (let c = snd (parse_transport linear_helpers (demo_tcp 0x12 0) 14) in th_syn (pc_tcph c) \<and> th_ack (pc_tcph c))"
  by code_simp

section \<open>The link layer\<close>

text \<open>
  A packet without link header that comes from 8.0.0.0/16 is taken for one with an Ethernet header: the
  first bytes of its source address are the ethertype of IPv4.
\<close>

definition demo_l3 :: sk_buff where
  "demo_l3 =
     \<lparr>sk_data = [0x45, 0, 0, 40, 0, 0, 0, 0, 64, 6, 0, 0, 8, 0, 0, 1, 10, 0, 0, 2,
                 0x1f, 0x90, 0, 80, 0, 0, 0, 1, 0, 0, 0, 2, 0x50, 2, 1, 0, 0, 0, 0, 0],
      sk_protocol = ETH_P_IP, sk_mark = 0, sk_cb0 = 0, sk_cb1 = 0, sk_ifindex = 3, sk_ingress_ifindex = 0, sk_pkt_type = 0\<rparr>"

lemma l3_packet_misdetected:
  "detect_link_h_len linear_helpers demo_l3 = ETH_HLEN \<and> fst (parse_transport linear_helpers demo_l3 0) = 0
   \<and> fst (parse_transport linear_helpers demo_l3 ETH_HLEN) = E_FAULT"
  by code_simp

text \<open>An IPv6 packet whose destination MAC begins with the digit 4 is given to the IPv4 listener.\<close>

lemma ipv6_listener_misdetected:
  "detect_tcp_listener_key linear_helpers
     \<lparr>sk_data = [0x4a, 0, 0, 0, 0, 1, 2, 0, 0, 0, 0, 2, 0x86, 0xdd, 0x60], sk_protocol = ETH_P_IPV6, sk_mark = 0,
      sk_cb0 = 0, sk_cb1 = 0, sk_ifindex = 3, sk_ingress_ifindex = 0, sk_pkt_type = 0\<rparr> = 0"
  by code_simp

section \<open>Keys of the redirect table\<close>

lemma le_value_inject: "length xs = length ys \<Longrightarrow> le_value xs = le_value ys \<Longrightarrow> xs = ys"
proof (induction xs ys rule: list_induct2)
  case (Cons x xs y ys)
  have lt: "unat x < 256" "unat y < 256" using unat_lt [of x] unat_lt [of y] by simp_all
  have e: "unat x + 256 * le_value xs = unat y + 256 * le_value ys" using Cons.prems by simp
  have "le_value xs = (unat x + 256 * le_value xs) div 256" using lt by simp
  also have "\<dots> = le_value ys" unfolding e using lt by simp
  finally have "le_value xs = le_value ys" .
  with e have "unat x = unat y" "le_value xs = le_value ys" by simp_all
  then show ?case using Cons.IH by (simp add: word_unat_eq_iff)
qed simp

lemma ip6_parts: "length a = 16 \<Longrightarrow> a = part 0 4 a @ part 4 4 a @ part 8 4 a @ part 12 4 a"
proof -
  assume l: "length a = 16"
  have "part 0 4 a @ part 4 4 a @ part 8 4 a @ part 12 4 a = take 16 a"
    by (simp add: part_def take_add [of 4 12, simplified] take_add [of 4 8, simplified] take_add [of 4 4, simplified])
  with l show ?thesis by simp
qed

lemma redirect_ip_linear:
  assumes "length a = 16" "length b = 16" "\<not> redirect_ip_gt a b" "\<not> redirect_ip_gt b a"
  shows "a = b"
proof -
  have "addr32 a i = addr32 b i" if "i < 4" for i
    using assms(3,4) that by (auto simp: redirect_ip_gt_def less_Suc_eq numeral_eq_Suc)
  then have e: "part (4 * i) 4 a = part (4 * i) 4 b" if "i < 4" for i
    using that assms(1,2) unfolding addr32_def by (intro le_value_inject) auto
  have "a = part 0 4 a @ part 4 4 a @ part 8 4 a @ part 12 4 a" by (rule ip6_parts [OF assms(1)])
  also have "\<dots> = part 0 4 b @ part 4 4 b @ part 8 4 b @ part 12 4 b" using e [of 0] e [of 1] e [of 2] e [of 3] by simp
  also have "\<dots> = b" by (rule ip6_parts [OF assms(2), symmetric])
  finally show ?thesis .
qed

lemma sorted_tuple_swap:
  assumes "length a = 16" "length b = 16"
  shows "sorted_tuple \<lparr>rt_sip = a, rt_dip = b\<rparr> = sorted_tuple \<lparr>rt_sip = b, rt_dip = a\<rparr>"
proof -
  have "\<not> (redirect_ip_gt a b \<and> redirect_ip_gt b a)" by (auto simp: redirect_ip_gt_def)
  with redirect_ip_linear [OF assms] show ?thesis by (auto simp: sorted_tuple_def)
qed

lemma normalize_length: "length a = 16 \<Longrightarrow> length (normalize_redirect_ip a) = 16"
  by (simp add: normalize_redirect_ip_def)

definition redirect_key :: "redirect_tuple \<Rightarrow> redirect_tuple" where
  "redirect_key t = sorted_tuple (normalize_redirect_tuple t)"

lemma redirect_key_swap:
  assumes "length a = 16" "length b = 16"
  shows "redirect_key \<lparr>rt_sip = a, rt_dip = b\<rparr> = redirect_key \<lparr>rt_sip = b, rt_dip = a\<rparr>"
  using sorted_tuple_swap [OF normalize_length [OF assms(1)] normalize_length [OF assms(2)]]
  by (simp add: redirect_key_def normalize_redirect_tuple_def)

text \<open>What both ways of loading a reply compute from the bytes of the packet.\<close>

definition l3_offset :: "sk_buff \<Rightarrow> nat" where
  "l3_offset skb =
     (if ETH_HLEN \<le> length (sk_data skb) \<and> is_ip_ethertype (part 12 2 (sk_data skb)) \<and> part 12 2 (sk_data skb) = sk_protocol skb
      then ETH_HLEN else 0)"

lemma load_redirect_tuple_spec:
  assumes "packet_ok h"
  shows "load_redirect_tuple h skb =
    (if sk_protocol skb = ETH_P_IP \<and> l3_offset skb + 20 \<le> length (sk_data skb)
     then Some (redirect_key (redirect_from_ipv4 (sk_data skb) (l3_offset skb)))
     else if sk_protocol skb = ETH_P_IPV6 \<and> l3_offset skb + 40 \<le> length (sk_data skb)
     then Some (redirect_key (redirect_from_ipv6 (sk_data skb) (l3_offset skb)))
     else None)"
proof (cases "bh_pull_data h skb 128")
  case None
  have l: "bh_load_bytes h skb off n = (if off + n \<le> length (sk_data skb) then Some (part off n (sk_data skb)) else None)" for off n
    using assms by (simp add: packet_ok_def)
  have o: "(case bh_load_bytes h skb 12 2 of None \<Rightarrow> False | Some p \<Rightarrow> is_ip_ethertype p \<and> p = sk_protocol skb)
      \<longleftrightarrow> l3_offset skb = ETH_HLEN" "l3_offset skb = ETH_HLEN \<or> l3_offset skb = 0"
    by (auto simp: l l3_offset_def)
  have s: "load_redirect_tuple_slow h skb =
     (if sk_protocol skb = ETH_P_IP
      then (if l3_offset skb + 20 \<le> length (sk_data skb) then (0, redirect_from_ipv4 (sk_data skb) (l3_offset skb))
            else (E_FAULT, redirect_zero))
      else if sk_protocol skb = ETH_P_IPV6
      then (if l3_offset skb + 40 \<le> length (sk_data skb) then (0, redirect_from_ipv6 (sk_data skb) (l3_offset skb))
            else (E_FAULT, redirect_zero))
      else (1, redirect_zero))"
    unfolding load_redirect_tuple_slow_def o(1) using o(2)
    by (elim disjE) (simp_all add: l redirect_from_ipv4_def redirect_from_ipv6_def)
  show ?thesis
    by (simp add: load_redirect_tuple_def load_redirect_tuple_fast_def None s redirect_key_def)
next
  case (Some d)
  then have p: "prefix d (sk_data skb)" "128 \<le> length d" using assms by (auto simp: packet_ok_def)
  then have len: "128 \<le> length (sk_data skb)" using prefix_length_le by fastforce
  have q: "off + n \<le> 128 \<Longrightarrow> part off n (sk_data skb) = part off n d" for off n
    using part_prefix [OF p(1), of off n] p(2) by simp
  define l2 where "l2 \<longleftrightarrow> is_ip_ethertype (part 12 2 d) \<and> part 12 2 d = sk_protocol skb"
  have o: "l3_offset skb = (if l2 then ETH_HLEN else 0)"
    unfolding l3_offset_def q [of 12 2, simplified] l2_def [symmetric] using len by simp
  have e: "part 12 2 d = sk_protocol skb \<and> is_ip_ethertype (sk_protocol skb)" if l2 using that by (auto simp: l2_def)
  have r: "off \<le> 14 \<Longrightarrow> redirect_from_ipv4 d off = redirect_from_ipv4 (sk_data skb) off"
    "off \<le> 14 \<Longrightarrow> redirect_from_ipv6 d off = redirect_from_ipv6 (sk_data skb) off" for off
    by (simp_all add: redirect_from_ipv4_def redirect_from_ipv6_def q)
  have f: "load_redirect_tuple_fast h skb =
     (if sk_protocol skb = ETH_P_IP then (0, redirect_from_ipv4 (sk_data skb) (l3_offset skb))
      else if sk_protocol skb = ETH_P_IPV6 then (0, redirect_from_ipv6 (sk_data skb) (l3_offset skb))
      else (1, redirect_zero))"
  proof (cases l2)
    case True
    with e have "sk_protocol skb = ETH_P_IP \<or> sk_protocol skb = ETH_P_IPV6" by (simp add: is_ip_ethertype_def)
    with e [OF True] p(2) True show ?thesis
      by (elim disjE) (simp_all add: load_redirect_tuple_fast_def Some o r)
  qed (use p(2) o r in \<open>simp add: load_redirect_tuple_fast_def Some l2_def [symmetric]\<close>)
  show ?thesis using len by (simp add: load_redirect_tuple_def f redirect_key_def o)
qed

text \<open>The reply to a packet: the same protocol, and the addresses exchanged.\<close>

definition replies_to :: "sk_buff \<Rightarrow> sk_buff \<Rightarrow> tuples \<Rightarrow> bool" where
  "replies_to reply skb tuples \<longleftrightarrow>
     (let d = sk_data reply; off = l3_offset reply; five = tp_five tuples
      in sk_protocol reply = sk_protocol skb \<and> length (tk_sip five) = 16 \<and> length (tk_dip five) = 16
       \<and> (sk_protocol skb = ETH_P_IP \<and> off + 20 \<le> length d
            \<and> part (off + 12) 4 d = part 12 4 (tk_dip five) \<and> part (off + 16) 4 d = part 12 4 (tk_sip five)
        \<or> sk_protocol skb = ETH_P_IPV6 \<and> off + 40 \<le> length d
            \<and> part (off + 8) 16 d = tk_dip five \<and> part (off + 24) 16 d = tk_sip five))"

lemma reply_key:
  assumes "packet_ok h" "replies_to reply skb tuples"
  shows "load_redirect_tuple h reply = Some (redirect_key (fill_redirect_tuple_from_forward_packet skb tuples))"
proof (cases "sk_protocol skb = ETH_P_IP")
  case True
  then show ?thesis using assms(2)
    by (simp add: load_redirect_tuple_spec [OF assms(1)] replies_to_def Let_def redirect_from_ipv4_def
        fill_redirect_tuple_from_forward_packet_def)
next
  case False
  then show ?thesis using assms(2)
    by (simp add: load_redirect_tuple_spec [OF assms(1)] replies_to_def Let_def redirect_from_ipv6_def
        fill_redirect_tuple_from_forward_packet_def)
qed

end
