(* ===== verification/Kern_Conn.thy ===== *)
theory Kern_Conn
  imports Kern_Packet
begin

text \<open>
  Connection state of the kernel program (\<^verbatim>\<open>bpf/kern/tproxy.c\<close>): the shared TCP and UDP table, its
  time-outs, and \<^verbatim>\<open>mark_udp_seen\<close> and \<^verbatim>\<open>mark_tcp_seen\<close>.  The tables are partial functions; an update of an
  LRU table may fail or evict other entries, so it is a parameter with \<open>update_ok\<close> as its contract.
\<close>

section \<open>Data\<close>

record routing_meta =
  mt_mark :: u32
  mt_outbound :: u8
  mt_must :: u8
  mt_dscp :: u8
  mt_has_routing :: bool

definition build_routing_meta :: "u8 \<Rightarrow> u32 \<Rightarrow> u8 \<Rightarrow> u8 \<Rightarrow> routing_meta" where
  "build_routing_meta outbound mark must dscp =
     \<lparr>mt_mark = mark, mt_outbound = outbound, mt_must = must, mt_dscp = dscp, mt_has_routing = True\<rparr>"

record conn_state =
  cs_wan_ingress :: bool
  cs_state :: u8
  cs_last_seen_ns :: u64
  cs_meta :: routing_meta
  cs_mac :: "u8 list"
  cs_pname :: "u8 list"
  cs_pid :: u32
  cs_slot :: u8
  cs_generation :: u16

abbreviation "TCP_STATE_ACTIVE \<equiv> (0 :: u8)"
abbreviation "TCP_STATE_CLOSING \<equiv> (1 :: u8)"

record routing_result =
  rr_mark :: u32
  rr_must :: u8
  rr_mac :: "u8 list"
  rr_outbound :: u8
  rr_pname :: "u8 list"
  rr_pid :: u32
  rr_dscp :: u8
  rr_slot :: u8
  rr_generation :: u16

record routing_handoff_entry =
  ho_last_seen_ns :: u64
  ho_result :: routing_result

record redirect_entry =
  re_ifindex :: u32
  re_smac :: "u8 list"
  re_dmac :: "u8 list"
  re_from_wan :: bool
  re_last_seen_ns :: u64

record pid_pname =
  pn_last_seen_ns :: u64
  pn_pid :: u32
  pn_pname :: "u8 list"

datatype dae_event_type = EventBlocked | EventUdpConnOverflow | EventTcpConnOverflow

record dae_event =
  ev_timestamp :: u64
  ev_type :: dae_event_type
  ev_pid :: u32
  ev_pname :: "u8 list"
  ev_outbound :: u8
  ev_key :: tuples_key

text \<open>The tables of the program, the events handed to the ring buffer, and the number of clock readings.\<close>

record kstate =
  ks_conn :: "tuples_key \<Rightarrow> conn_state option"
  ks_handoff :: "tuples_key \<Rightarrow> routing_handoff_entry option"
  ks_redirect :: "redirect_tuple \<Rightarrow> redirect_entry option"
  ks_cookie :: "u64 \<Rightarrow> pid_pname option"
  ks_udp_overflow :: u64
  ks_tcp_overflow :: u64
  ks_events :: "dae_event list"
  ks_time :: nat

type_synonym ('k, 'v) update = "('k \<Rightarrow> 'v option) \<Rightarrow> 'k \<Rightarrow> 'v \<Rightarrow> ('k \<Rightarrow> 'v option) option"

definition update_ok :: "('k, 'v) update \<Rightarrow> bool" where
  "update_ok upd \<longleftrightarrow> (\<forall>m k v m'. upd m k v = Some m' \<longrightarrow>
     m' k = Some v \<and> (\<forall>k'. k' \<noteq> k \<longrightarrow> m' k' = m k' \<or> m' k' = None))"

record ct_env =
  ce_ktime :: "nat \<Rightarrow> u64"
  ce_update :: "(tuples_key, conn_state) update"
  ce_args :: bool
  ce_generation :: u16

definition ktime :: "ct_env \<Rightarrow> kstate \<Rightarrow> u64 \<times> kstate" where
  "ktime ce s = (ce_ktime ce (ks_time s), s\<lparr>ks_time := Suc (ks_time s)\<rparr>)"

definition send_dae_event :: "ct_env \<Rightarrow> dae_event_type \<Rightarrow> u32 \<Rightarrow> u8 list option \<Rightarrow> u8 \<Rightarrow> tuples_key \<Rightarrow> kstate \<Rightarrow> kstate" where
  "send_dae_event ce ty pid pname outbound key s =
     (let (now, s) = ktime ce s
      in s\<lparr>ks_events := ks_events s @ [\<lparr>ev_timestamp = now, ev_type = ty, ev_pid = pid,
             ev_pname = (case pname of Some p \<Rightarrow> p | None \<Rightarrow> zeros 16), ev_outbound = outbound, ev_key = key\<rparr>]\<rparr>)"

section \<open>Arguments\<close>

record conntrack_args =
  ca_has_routing :: bool
  ca_has_mac :: bool
  ca_has_pname :: bool
  ca_outbound :: u8
  ca_must :: u8
  ca_dscp :: u8
  ca_mark :: u32
  ca_pid :: u32
  ca_mac :: "u8 list"
  ca_slot :: u8
  ca_pname :: "u8 list"

text \<open>The pointers \<^verbatim>\<open>outbound\<close>, \<^verbatim>\<open>mark\<close> and \<^verbatim>\<open>must\<close> are null together.\<close>

definition conntrack_args_set ::
    "(u8 \<times> u32 \<times> u8) option \<Rightarrow> u8 list option \<Rightarrow> u8 \<Rightarrow> u8 list option \<Rightarrow> u32 \<Rightarrow> u8 \<Rightarrow> conntrack_args" where
  "conntrack_args_set routing mac dscp pname pid slot =
     (let (outbound, mark, must, slot) =
        (case routing of Some (ob, mk, mu) \<Rightarrow> (ob, mk, mu, routing_epoch_slot_sanitize slot) | None \<Rightarrow> (0, 0, 0, 0))
      in \<lparr>ca_has_routing = (routing \<noteq> None), ca_has_mac = (mac \<noteq> None), ca_has_pname = (pname \<noteq> None),
          ca_outbound = outbound, ca_must = must, ca_dscp = dscp, ca_mark = mark, ca_pid = pid,
          ca_mac = (case mac of Some m \<Rightarrow> m | None \<Rightarrow> zeros 6), ca_slot = slot,
          ca_pname = (case pname of Some p \<Rightarrow> p | None \<Rightarrow> zeros 16)\<rparr>)"

definition conntrack_args_pname_or_null :: "conntrack_args \<Rightarrow> u8 list option" where
  "conntrack_args_pname_or_null a = (if ca_has_pname a then Some (ca_pname a) else None)"

definition copy_reversed_tuples :: "tuples_key \<Rightarrow> tuples_key" where
  "copy_reversed_tuples key =
     \<lparr>tk_sip = tk_dip key, tk_dip = tk_sip key, tk_sport = tk_dport key, tk_dport = tk_sport key, tk_l4proto = tk_l4proto key\<rparr>"

section \<open>Entries\<close>

abbreviation "UDP_CONN_STATE_TIMEOUT_NS \<equiv> (120000000000 :: u64)"
abbreviation "TCP_CONN_STATE_CLOSING_TIMEOUT_NS \<equiv> (10000000000 :: u64)"
abbreviation "CONN_STATE_UPDATE_INTERVAL_NS \<equiv> (1000000000 :: u64)"

text \<open>The differences are those of unsigned 64-bit numbers and wrap around.\<close>

definition udp_conn_state_expired :: "conn_state \<Rightarrow> u64 \<Rightarrow> bool" where
  "udp_conn_state_expired st now \<longleftrightarrow> now - cs_last_seen_ns st > UDP_CONN_STATE_TIMEOUT_NS"

definition tcp_conn_state_expired :: "conn_state \<Rightarrow> u64 \<Rightarrow> bool" where
  "tcp_conn_state_expired st now \<longleftrightarrow>
     cs_state st = TCP_STATE_CLOSING \<and> now - cs_last_seen_ns st > TCP_CONN_STATE_CLOSING_TIMEOUT_NS"

definition refresh_last_seen :: "u64 \<Rightarrow> conn_state \<Rightarrow> conn_state" where
  "refresh_last_seen now st =
     (if now - cs_last_seen_ns st > CONN_STATE_UPDATE_INTERVAL_NS then st\<lparr>cs_last_seen_ns := now\<rparr> else st)"

definition store_routing :: "ct_env \<Rightarrow> conntrack_args \<Rightarrow> conn_state \<Rightarrow> conn_state" where
  "store_routing ce args st =
     (if ca_has_routing args
      then st\<lparr>cs_mac := (if ca_has_mac args then ca_mac args else cs_mac st),
              cs_pname := (if ca_has_pname args then ca_pname args else cs_pname st),
              cs_pid := ca_pid args, cs_slot := ca_slot args, cs_generation := ce_generation ce,
              cs_meta := build_routing_meta (ca_outbound args) (ca_mark args) (ca_must args) (ca_dscp args)\<rparr>
      else st)"

definition new_conn_state :: "ct_env \<Rightarrow> bool \<Rightarrow> u64 \<Rightarrow> conntrack_args \<Rightarrow> conn_state" where
  "new_conn_state ce wan now args =
     store_routing ce args
       \<lparr>cs_wan_ingress = wan, cs_state = TCP_STATE_ACTIVE, cs_last_seen_ns = now,
        cs_meta = \<lparr>mt_mark = 0, mt_outbound = 0, mt_must = 0, mt_dscp = ca_dscp args, mt_has_routing = False\<rparr>,
        cs_mac = zeros 6, cs_pname = zeros 16, cs_pid = ca_pid args, cs_slot = 0, cs_generation = 0\<rparr>"

definition conn_write :: "tuples_key \<Rightarrow> conn_state \<Rightarrow> kstate \<Rightarrow> kstate" where
  "conn_write key st s = s\<lparr>ks_conn := (ks_conn s)(key := Some st)\<rparr>"

definition conn_delete :: "tuples_key \<Rightarrow> kstate \<Rightarrow> kstate" where
  "conn_delete key s = s\<lparr>ks_conn := (ks_conn s)(key := None)\<rparr>"

text \<open>A failed insertion is counted and reported.\<close>

definition conn_create ::
    "ct_env \<Rightarrow> dae_event_type \<Rightarrow> tuples_key \<Rightarrow> conn_state \<Rightarrow> conntrack_args \<Rightarrow> kstate \<Rightarrow> conn_state option \<times> kstate" where
  "conn_create ce ty key st args s =
     (case ce_update ce (ks_conn s) key st of
        Some m \<Rightarrow> (m key, s\<lparr>ks_conn := m\<rparr>)
      | None \<Rightarrow>
          (None, send_dae_event ce ty (ca_pid args) (conntrack_args_pname_or_null args) 0 key
             (if ty = EventUdpConnOverflow then s\<lparr>ks_udp_overflow := ks_udp_overflow s + 1\<rparr>
              else s\<lparr>ks_tcp_overflow := ks_tcp_overflow s + 1\<rparr>)))"

section \<open>Marking a packet as seen\<close>

text \<open>The result is the entry behind the returned pointer.\<close>

definition mark_udp_seen_core ::
    "ct_env \<Rightarrow> tuples_key \<Rightarrow> bool \<Rightarrow> conntrack_args \<Rightarrow> kstate \<Rightarrow> conn_state option \<times> kstate" where
  "mark_udp_seen_core ce key wan args s =
     (let (now, s) = ktime ce s;
          expired = (case ks_conn s key of Some st \<Rightarrow> udp_conn_state_expired st now | None \<Rightarrow> False);
          s = (if expired then conn_delete key s else s)
      in case ks_conn s key of
           Some st \<Rightarrow> let st = store_routing ce args (refresh_last_seen now st) in (Some st, conn_write key st s)
         | None \<Rightarrow> conn_create ce EventUdpConnOverflow key (new_conn_state ce wan now args) args s)"

definition mark_udp_seen ::
    "ct_env \<Rightarrow> tuples_key \<Rightarrow> bool \<Rightarrow> (u8 \<times> u32 \<times> u8) option \<Rightarrow> u8 list option \<Rightarrow> u8 \<Rightarrow> u8 list option \<Rightarrow> u32 \<Rightarrow> u8
      \<Rightarrow> kstate \<Rightarrow> conn_state option \<times> kstate" where
  "mark_udp_seen ce key wan routing mac dscp pname pid slot s =
     (if \<not> ce_args ce then (None, s)
      else mark_udp_seen_core ce key wan (conntrack_args_set routing mac dscp pname pid slot) s)"

definition mark_tcp_seen_core ::
    "ct_env \<Rightarrow> tuples_key \<Rightarrow> bool \<Rightarrow> bool \<Rightarrow> bool \<Rightarrow> conntrack_args \<Rightarrow> kstate \<Rightarrow> conn_state option \<times> kstate" where
  "mark_tcp_seen_core ce key wan new_conn_syn is_fin_rst args s =
     (let (now, s) = ktime ce s;
          stale = (case ks_conn s key of Some st \<Rightarrow> new_conn_syn \<or> tcp_conn_state_expired st now | None \<Rightarrow> False);
          s = (if stale then conn_delete key s else s)
      in case ks_conn s key of
           Some st \<Rightarrow>
             let st = refresh_last_seen now st;
                 st = (if is_fin_rst then st\<lparr>cs_state := TCP_STATE_CLOSING\<rparr> else st);
                 st = store_routing ce args st
             in (Some st, conn_write key st s)
         | None \<Rightarrow>
             if new_conn_syn then conn_create ce EventTcpConnOverflow key (new_conn_state ce wan now args) args s
             else (None, s))"

definition is_new_tcp_connection :: "tcphdr \<Rightarrow> bool" where
  "is_new_tcp_connection tcph \<longleftrightarrow> th_syn tcph \<and> \<not> th_ack tcph"

definition mark_tcp_seen ::
    "ct_env \<Rightarrow> tuples_key \<Rightarrow> tcphdr \<Rightarrow> bool \<Rightarrow> (u8 \<times> u32 \<times> u8) option \<Rightarrow> u8 list option \<Rightarrow> u8 \<Rightarrow> u8 list option \<Rightarrow> u32 \<Rightarrow> u8
      \<Rightarrow> kstate \<Rightarrow> conn_state option \<times> kstate" where
  "mark_tcp_seen ce key tcph wan routing mac dscp pname pid slot s =
     (if \<not> ce_args ce then (None, s)
      else mark_tcp_seen_core ce key wan (th_syn tcph \<and> \<not> th_ack tcph) (th_fin tcph \<or> th_rst tcph)
             (conntrack_args_set routing mac dscp pname pid slot) s)"

section \<open>What marking changes\<close>

text \<open>The decision recorded for a flow, without the time stamp and the TCP state.\<close>

definition same_decision :: "conn_state \<Rightarrow> conn_state \<Rightarrow> bool" where
  "same_decision st st' \<longleftrightarrow>
     cs_meta st' = cs_meta st \<and> cs_slot st' = cs_slot st \<and> cs_generation st' = cs_generation st
   \<and> cs_wan_ingress st' = cs_wan_ingress st \<and> cs_mac st' = cs_mac st \<and> cs_pname st' = cs_pname st \<and> cs_pid st' = cs_pid st"

text \<open>An entry found later for \<open>k\<close> carries the decision it had before.\<close>

definition keeps :: "tuples_key \<Rightarrow> kstate \<Rightarrow> kstate \<Rightarrow> bool" where
  "keeps k s s' \<longleftrightarrow> (\<forall>st'. ks_conn s' k = Some st' \<longrightarrow> (\<exists>st. ks_conn s k = Some st \<and> same_decision st st'))"

named_theorems conn_frame

lemma same_decision_refl [simp]: "same_decision st st"
  by (simp add: same_decision_def)

lemma same_decision_trans: "same_decision a b \<Longrightarrow> same_decision b c \<Longrightarrow> same_decision a c"
  by (simp add: same_decision_def)

lemma keeps_trans: "keeps k s s1 \<Longrightarrow> keeps k s1 s2 \<Longrightarrow> keeps k s s2"
  unfolding keeps_def using same_decision_trans by blast

lemma keeps_eq: "ks_conn s' k = ks_conn s k \<Longrightarrow> keeps k s s'"
  by (simp add: keeps_def)

lemma keeps_none: "ks_conn s' k = None \<Longrightarrow> keeps k s s'"
  by (simp add: keeps_def)

lemma ktime_conn [simp, conn_frame]: "ks_conn (snd (ktime ce s)) = ks_conn s"
  by (simp add: ktime_def)

lemma event_conn [simp, conn_frame]: "ks_conn (send_dae_event ce ty pid pname ob key s) = ks_conn s"
  by (simp add: send_dae_event_def ktime_def)

lemma write_other: "k \<noteq> key \<Longrightarrow> ks_conn (conn_write key st s) k = ks_conn s k" "k \<noteq> key \<Longrightarrow> ks_conn (conn_delete key s) k = ks_conn s k"
  by (simp_all add: conn_write_def conn_delete_def)

lemma create_keeps:
  assumes "update_ok (ce_update ce)" "k \<noteq> key"
  shows "keeps k s (snd (conn_create ce ty key st args s))"
proof (cases "ce_update ce (ks_conn s) key st")
  case (Some m)
  then have "m k = ks_conn s k \<or> m k = None" using assms by (auto simp: update_ok_def)
  then show ?thesis using Some by (auto simp: conn_create_def keeps_def)
qed (auto simp: conn_create_def intro: keeps_eq)

lemma tcp_core_keeps:
  assumes "update_ok (ce_update ce)" "k \<noteq> key"
  shows "keeps k s (snd (mark_tcp_seen_core ce key wan syn fin args s))"
proof -
  obtain now s1 where t: "ktime ce s = (now, s1)" by fastforce
  then have s1: "ks_conn s1 = ks_conn s" using ktime_conn [of ce s] by simp
  define s2 where "s2 = (if (case ks_conn s1 key of Some st \<Rightarrow> syn \<or> tcp_conn_state_expired st now | None \<Rightarrow> False)
      then conn_delete key s1 else s1)"
  have k: "keeps k s s2" using assms(2) s1 by (intro keeps_eq) (simp add: s2_def write_other)
  have e: "mark_tcp_seen_core ce key wan syn fin args s = (case ks_conn s2 key of
      Some st \<Rightarrow> let st = refresh_last_seen now st; st = (if fin then st\<lparr>cs_state := TCP_STATE_CLOSING\<rparr> else st);
        st = store_routing ce args st in (Some st, conn_write key st s2)
    | None \<Rightarrow> if syn then conn_create ce EventTcpConnOverflow key (new_conn_state ce wan now args) args s2 else (None, s2))"
    by (simp only: mark_tcp_seen_core_def t Let_def s2_def prod.case)
  have "keeps k s2 (snd (mark_tcp_seen_core ce key wan syn fin args s))"
    using assms by (simp add: e Let_def write_other keeps_eq create_keeps split: option.split)
  with k show ?thesis by (rule keeps_trans)
qed

lemma udp_core_keeps:
  assumes "update_ok (ce_update ce)" "k \<noteq> key"
  shows "keeps k s (snd (mark_udp_seen_core ce key wan args s))"
proof -
  obtain now s1 where t: "ktime ce s = (now, s1)" by fastforce
  then have s1: "ks_conn s1 = ks_conn s" using ktime_conn [of ce s] by simp
  define s2 where "s2 = (if (case ks_conn s1 key of Some st \<Rightarrow> udp_conn_state_expired st now | None \<Rightarrow> False)
      then conn_delete key s1 else s1)"
  have k: "keeps k s s2" using assms(2) s1 by (intro keeps_eq) (simp add: s2_def write_other)
  have e: "mark_udp_seen_core ce key wan args s = (case ks_conn s2 key of
      Some st \<Rightarrow> let st = store_routing ce args (refresh_last_seen now st) in (Some st, conn_write key st s2)
    | None \<Rightarrow> conn_create ce EventUdpConnOverflow key (new_conn_state ce wan now args) args s2)"
    by (simp only: mark_udp_seen_core_def t Let_def s2_def prod.case)
  have "keeps k s2 (snd (mark_udp_seen_core ce key wan args s))"
    using assms by (simp add: e Let_def write_other keeps_eq create_keeps split: option.split)
  with k show ?thesis by (rule keeps_trans)
qed

lemma mark_other_keeps:
  assumes "update_ok (ce_update ce)" "k \<noteq> key"
  shows "keeps k s (snd (mark_tcp_seen ce key tcph wan routing mac dscp pname pid slot s))"
    and "keeps k s (snd (mark_udp_seen ce key wan routing mac dscp pname pid slot s))"
  using tcp_core_keeps [OF assms] udp_core_keeps [OF assms]
  by (simp_all add: mark_tcp_seen_def mark_udp_seen_def keeps_eq)

text \<open>A packet that does not open a connection, at its own entry.\<close>

lemma store_none: "\<not> ca_has_routing args \<Longrightarrow> store_routing ce args st = st"
  by (simp add: store_routing_def)

lemma args_none [simp]: "\<not> ca_has_routing (conntrack_args_set None mac dscp pname pid slot)"
  by (simp add: conntrack_args_set_def)

lemma tcp_seen_established:
  assumes "\<not> (th_syn tcph \<and> \<not> th_ack tcph)"
    and "mark_tcp_seen ce key tcph wan None mac dscp pname pid slot s = (r, s')"
  shows "keeps key s s'" and "r = Some st' \<Longrightarrow> ks_conn s' key = Some st'"
    and "r = Some st' \<Longrightarrow> \<exists>st. ks_conn s key = Some st \<and> same_decision st st'"
    and "ks_conn s key = Some st \<Longrightarrow> ce_args ce \<Longrightarrow> \<not> tcp_conn_state_expired st (ce_ktime ce (ks_time s)) \<Longrightarrow> r \<noteq> None"
proof -
  obtain now s1 where t: "ktime ce s = (now, s1)" by fastforce
  have s1: "ks_conn s1 = ks_conn s" "now = ce_ktime ce (ks_time s)" using t by (auto simp: ktime_def)
  have core: "(case ks_conn s key of
      None \<Rightarrow> r = None \<and> ks_conn s' = ks_conn s
    | Some st \<Rightarrow> if tcp_conn_state_expired st now then r = None \<and> ks_conn s' key = None
        else \<exists>st'. r = Some st' \<and> same_decision st st' \<and> ks_conn s' key = Some st')" if "ce_args ce"
  proof (cases "ks_conn s key")
    case None
    then show ?thesis using assms that s1 t by (auto simp: mark_tcp_seen_def mark_tcp_seen_core_def)
  next
    case (Some st)
    define st' where "st' = (if th_fin tcph \<or> th_rst tcph then (refresh_last_seen now st)\<lparr>cs_state := TCP_STATE_CLOSING\<rparr>
        else refresh_last_seen now st)"
    have "same_decision st st'"
      by (simp add: st'_def same_decision_def refresh_last_seen_def)
    moreover have "\<not> tcp_conn_state_expired st now \<Longrightarrow> r = Some st' \<and> s' = conn_write key st' s1"
      using assms that s1 t Some by (auto simp: mark_tcp_seen_def mark_tcp_seen_core_def Let_def store_none st'_def)
    moreover have "tcp_conn_state_expired st now \<Longrightarrow> r = None \<and> s' = conn_delete key s1"
      using assms that s1 t Some by (auto simp: mark_tcp_seen_def mark_tcp_seen_core_def conn_delete_def)
    ultimately show ?thesis using Some by (auto simp: conn_write_def conn_delete_def)
  qed
  have none: "r = None \<and> s' = s" if "\<not> ce_args ce" using assms(2) that by (simp add: mark_tcp_seen_def)
  show "keeps key s s'"
    using core none by (cases "ce_args ce") (auto simp: keeps_def split: option.splits if_splits)
  show "r = Some st' \<Longrightarrow> ks_conn s' key = Some st'" "r = Some st' \<Longrightarrow> \<exists>st. ks_conn s key = Some st \<and> same_decision st st'"
    using core none by (cases "ce_args ce"; auto split: option.splits if_splits)+
  show "r \<noteq> None" if "ks_conn s key = Some st" "ce_args ce" "\<not> tcp_conn_state_expired st (ce_ktime ce (ks_time s))"
    using core that s1(2) by auto
qed

text \<open>A packet that opens a connection: it replaces what was there, and without room there is no entry.\<close>

lemma tcp_seen_new:
  assumes "update_ok (ce_update ce)" "th_syn tcph \<and> \<not> th_ack tcph"
    and "mark_tcp_seen ce key tcph wan routing mac dscp pname pid slot s = (Some st, s')"
  shows "ks_conn s' key = Some st"
    and "st = new_conn_state ce wan (ce_ktime ce (ks_time s)) (conntrack_args_set routing mac dscp pname pid slot)"
proof -
  let ?a = "conntrack_args_set routing mac dscp pname pid slot"
  obtain now s1 where t: "ktime ce s = (now, s1)" by fastforce
  then have s1: "ks_conn s1 = ks_conn s" "now = ce_ktime ce (ks_time s)" by (auto simp: ktime_def)
  define s2 where "s2 = (if ks_conn s1 key \<noteq> None then conn_delete key s1 else s1)"
  have n: "ks_conn s2 key = None" by (simp add: s2_def conn_delete_def)
  have "mark_tcp_seen ce key tcph wan routing mac dscp pname pid slot s
      = conn_create ce EventTcpConnOverflow key (new_conn_state ce wan now ?a) ?a s2"
  proof (cases "ks_conn s1 key")
    case None
    then show ?thesis using assms(2,3) t n by (simp add: mark_tcp_seen_def mark_tcp_seen_core_def s2_def split: if_splits)
  next
    case (Some x)
    then show ?thesis using assms(2,3) t n by (simp add: mark_tcp_seen_def mark_tcp_seen_core_def s2_def split: if_splits)
  qed
  then have "conn_create ce EventTcpConnOverflow key (new_conn_state ce wan now ?a) ?a s2 = (Some st, s')" using assms(3) by simp
  then obtain m where m: "ce_update ce (ks_conn s2) key (new_conn_state ce wan now ?a) = Some m" "m key = Some st"
      "s' = s2\<lparr>ks_conn := m\<rparr>"
    by (auto simp: conn_create_def split: option.splits)
  moreover have "m key = Some (new_conn_state ce wan now ?a)" using assms(1) m(1) unfolding update_ok_def by blast
  ultimately show "ks_conn s' key = Some st" "st = new_conn_state ce wan (ce_ktime ce (ks_time s)) ?a"
    using s1(2) by simp_all
qed

text \<open>
  Time stamps of two processors can be out of order by a moment: an entry whose time stamp lies ahead of
  the clock reading, by any amount that is not a multiple of the range, counts as expired and is deleted.
\<close>

lemma later_stamp_expires:
  assumes "cs_last_seen_ns st = now + d" "0 < d" "d < - UDP_CONN_STATE_TIMEOUT_NS"
  shows "udp_conn_state_expired st now"
proof -
  have "now - cs_last_seen_ns st = - d" using assms(1) by simp
  moreover have "UDP_CONN_STATE_TIMEOUT_NS < - d"
    using assms(2,3) unat_sub_if' [of 0 d] unat_lt [of d] by (simp add: word_less_nat_alt split: if_splits)
  ultimately show ?thesis by (simp add: udp_conn_state_expired_def)
qed

end
