(* ===== verification/Kern_Path.thy ===== *)
theory Kern_Path
  imports Kern_Conn
begin

text \<open>
  The programs of \<^verbatim>\<open>bpf/kern/tproxy.c\<close> attached to the interfaces: LAN and WAN in both directions, the
  two ends of the pair to the control plane, and the socket hooks.  Everything the kernel provides (socket
  lookup, packet rewriting, redirection, table updates) is a field of \<open>kenv\<close>.
\<close>

section \<open>Environment\<close>

record dae_param =
  dp_control_plane_pid :: u32
  dp_dae0_ifindex :: u32
  dp_dae0peer_mac :: "u8 list"
  dp_use_redirect_peer :: bool
  dp_dae_socket_mark :: u32

text \<open>A socket found by a lookup: its mark if it is a full socket, and its state.\<close>

record bpf_sock =
  bs_full_mark :: "u32 option"
  bs_state :: nat

abbreviation "BPF_TCP_LISTEN \<equiv> (10 :: nat)"

record kenv =
  kv_packet :: bpf_helpers
  kv_ct :: ct_env
  kv_param :: dae_param
  kv_route :: kern
  kv_scratch :: bool
  kv_alive :: "u32 \<Rightarrow> u32 option"
  kv_dae_ifindex :: "u32 option"
  kv_socket_cookie :: "sk_buff \<Rightarrow> u64"
  kv_lookup_tcp :: "sk_buff \<Rightarrow> bool \<Rightarrow> tuples_key \<Rightarrow> bpf_sock option"
  kv_lookup_udp :: "sk_buff \<Rightarrow> bool \<Rightarrow> tuples_key \<Rightarrow> bpf_sock option"
  kv_update_handoff :: "(tuples_key, routing_handoff_entry) update"
  kv_update_redirect :: "(redirect_tuple, redirect_entry) update"
  kv_update_cookie :: "(u64, pid_pname) update"
  kv_change_head :: "sk_buff \<Rightarrow> nat \<Rightarrow> sk_buff option"
  kv_store_bytes :: "sk_buff \<Rightarrow> nat \<Rightarrow> u8 list \<Rightarrow> sk_buff option"
  kv_change_type :: "sk_buff \<Rightarrow> nat \<Rightarrow> sk_buff option"
  kv_redirect_error :: "u32 \<Rightarrow> bool"
  kv_listen_socket :: "u32 \<Rightarrow> bool"
  kv_current_tgid :: u32
  kv_current_comm :: "u8 list option"

text \<open>The action of a program; a redirection with its target and whether it enters there.\<close>

datatype tc_action = TC_OK | TC_SHOT | TC_PIPE | Redirect u32 bool | RedirectPeer u32

abbreviation "TPROXY_MARK \<equiv> (0x8000000 :: u32)"
abbreviation "NDP_REDIRECT \<equiv> (137 :: u8)"
abbreviation "NOWHERE_IFINDEX \<equiv> (0 :: u32)"
abbreviation "PACKET_HOST \<equiv> (0 :: nat)"
abbreviation "PACKET_OTHERHOST \<equiv> (3 :: nat)"
abbreviation "L4PROTO_TCP \<equiv> (1 :: u8)"
abbreviation "L4PROTO_UDP \<equiv> (2 :: u8)"

section \<open>Handing a packet to the control plane\<close>

definition get_dae0_ifindex :: "kenv \<Rightarrow> u32" where
  "get_dae0_ifindex env =
     (case kv_dae_ifindex env of
        Some v \<Rightarrow> if v \<noteq> 0 then v else dp_dae0_ifindex (kv_param env) | None \<Rightarrow> dp_dae0_ifindex (kv_param env))"

definition redirect_to_control_plane_ingress :: "kenv \<Rightarrow> tc_action" where
  "redirect_to_control_plane_ingress env =
     (if dp_use_redirect_peer (kv_param env) then RedirectPeer (get_dae0_ifindex env)
      else Redirect (get_dae0_ifindex env) False)"

definition rewrite_packet_for_control_plane :: "kenv \<Rightarrow> sk_buff \<Rightarrow> nat \<Rightarrow> bool \<Rightarrow> sk_buff option" where
  "rewrite_packet_for_control_plane env skb link_h_len from_wan =
     (if dp_use_redirect_peer (kv_param env) \<and> \<not> from_wan then Some skb
      else Option.bind
        (if link_h_len = 0
         then Option.bind (kv_change_head env skb 14) (\<lambda>skb1.
              Option.bind (kv_store_bytes env skb1 12 (sk_protocol skb)) (\<lambda>skb2.
              kv_store_bytes env skb2 6 (zeros 6)))
         else Some skb)
        (\<lambda>skb3. kv_store_bytes env skb3 0 (dp_dae0peer_mac (kv_param env))))"

definition fill_redirect_entry_from_forward_packet :: "u64 \<Rightarrow> u32 \<Rightarrow> nat \<Rightarrow> ethhdr \<Rightarrow> bool \<Rightarrow> redirect_entry" where
  "fill_redirect_entry_from_forward_packet now ifindex link_h_len ethh from_wan =
     \<lparr>re_ifindex = ifindex, re_smac = (if link_h_len = ETH_HLEN then h_source ethh else zeros 6),
      re_dmac = (if link_h_len = ETH_HLEN then h_dest ethh else zeros 6), re_from_wan = from_wan, re_last_seen_ns = now\<rparr>"

definition publish_redirect_track_for_packet ::
    "kenv \<Rightarrow> sk_buff \<Rightarrow> nat \<Rightarrow> tuples \<Rightarrow> ethhdr \<Rightarrow> bool \<Rightarrow> kstate \<Rightarrow> kstate option" where
  "publish_redirect_track_for_packet env skb link_h_len tuples ethh from_wan s =
     (let t = normalize_redirect_tuple (fill_redirect_tuple_from_forward_packet skb tuples);
          (now, s) = ktime (kv_ct env) s;
          e = fill_redirect_entry_from_forward_packet now (sk_ifindex skb) link_h_len ethh from_wan
      in map_option (\<lambda>m. s\<lparr>ks_redirect := m\<rparr>) (kv_update_redirect env (ks_redirect s) (sorted_tuple t) e))"

definition prep_redirect_to_control_plane ::
    "kenv \<Rightarrow> sk_buff \<Rightarrow> nat \<Rightarrow> tuples \<Rightarrow> ethhdr \<Rightarrow> bool \<Rightarrow> kstate \<Rightarrow> (sk_buff \<times> kstate) option" where
  "prep_redirect_to_control_plane env skb link_h_len tuples ethh from_wan s =
     Option.bind (rewrite_packet_for_control_plane env skb link_h_len from_wan) (\<lambda>skb'.
       map_option (\<lambda>s'. (skb', s')) (publish_redirect_track_for_packet env skb' link_h_len tuples ethh from_wan s))"

definition fill_routing_result ::
    "u32 \<Rightarrow> u8 \<Rightarrow> u8 \<Rightarrow> u8 list \<Rightarrow> u8 \<Rightarrow> u8 list option \<Rightarrow> u32 \<Rightarrow> u8 \<Rightarrow> u16 \<Rightarrow> routing_result" where
  "fill_routing_result mark must outbound mac dscp pname pid slot generation =
     \<lparr>rr_mark = mark, rr_must = must, rr_mac = mac, rr_outbound = outbound,
      rr_pname = (case pname of Some p \<Rightarrow> p | None \<Rightarrow> zeros 16), rr_pid = pid, rr_dscp = dscp,
      rr_slot = routing_epoch_slot_sanitize slot, rr_generation = generation\<rparr>"

text \<open>The flag says whether the update failed.\<close>

definition publish_routing_handoff :: "kenv \<Rightarrow> tuples_key \<Rightarrow> routing_result \<Rightarrow> kstate \<Rightarrow> bool \<times> kstate" where
  "publish_routing_handoff env key result s =
     (let (now, s) = ktime (kv_ct env) s
      in case kv_update_handoff env (ks_handoff s) key \<lparr>ho_last_seen_ns = now, ho_result = result\<rparr> of
           Some m \<Rightarrow> (False, s\<lparr>ks_handoff := m\<rparr>)
         | None \<Rightarrow> (True, s))"

definition mark_for_control_plane :: "u8 \<Rightarrow> sk_buff \<Rightarrow> sk_buff" where
  "mark_for_control_plane listener skb =
     skb\<lparr>sk_cb0 := TPROXY_MARK, sk_cb1 := ucast listener, sk_mark := sk_mark skb OR TPROXY_MARK\<rparr>"

definition redirect_lan_packet_to_control_plane ::
    "kenv \<Rightarrow> sk_buff \<Rightarrow> nat \<Rightarrow> parsed_packet \<Rightarrow> routing_meta \<Rightarrow> u8 \<Rightarrow> kstate \<Rightarrow> tc_action \<times> sk_buff \<times> kstate" where
  "redirect_lan_packet_to_control_plane env skb link_h_len pkt meta slot s =
     (case prep_redirect_to_control_plane env skb link_h_len (pp_tuples pkt) (pp_ethh pkt) False s of
        None \<Rightarrow> (TC_SHOT, skb, s)
      | Some (skb, s) \<Rightarrow>
          let (_, s) = publish_routing_handoff env (tp_five (pp_tuples pkt))
                (fill_routing_result (mt_mark meta) (mt_must meta) (mt_outbound meta) (h_source (pp_ethh pkt)) (mt_dscp meta)
                   None 0 slot (pp_datapath_generation pkt)) s
          in (redirect_to_control_plane_ingress env, mark_for_control_plane (pp_listener_l4proto pkt) skb, s))"

definition wan_outbound_is_alive :: "kenv \<Rightarrow> sk_buff \<Rightarrow> u8 \<Rightarrow> u8 \<Rightarrow> bool" where
  "wan_outbound_is_alive env skb outbound l4proto =
     (let ip_idx = (if sk_protocol skb = ETH_P_IP then 0 else 1);
          domain_idx = (if l4proto = IPPROTO_UDP then 2 else 0);
          key = ucast outbound * 6 + domain_idx * 2 + ip_idx
      in kv_alive env key \<noteq> Some 0)"

definition wan_egress_needs_control_plane :: "u8 \<Rightarrow> u32 \<Rightarrow> bool" where
  "wan_egress_needs_control_plane outbound mark \<longleftrightarrow> \<not> (outbound = OB_DIRECT \<and> mark = 0)"

section \<open>Routing a packet\<close>

definition port_of :: "u8 list \<Rightarrow> u16" where
  "port_of be16 = of_nat (be_nat be16)"

definition packet_route_args :: "sk_buff \<Rightarrow> tuples \<Rightarrow> u8 \<Rightarrow> u8 list \<Rightarrow> u8 list \<Rightarrow> u8 list option \<Rightarrow> u8 list option \<Rightarrow> bool \<Rightarrow> route_args" where
  "packet_route_args skb tuples l4 source dest pname mac is_wan =
     \<lparr>ra_l4proto = l4, ra_ipversion = (if sk_protocol skb = ETH_P_IP then 1 else 2),
      ra_pname = (case pname of Some p \<Rightarrow> p | None \<Rightarrow> zeros 16), ra_dscp = tp_dscp tuples, ra_is_wan = is_wan,
      ra_dport = port_of dest, ra_sport = port_of source, ra_saddr = tk_sip (tp_five tuples),
      ra_daddr = tk_dip (tp_five tuples), ra_mac = (case mac of Some m \<Rightarrow> zeros 10 @ m | None \<Rightarrow> zeros 16)\<rparr>"

text \<open>The decision that callers read from the result of \<^verbatim>\<open>route\<close>: outbound, mark, must and slot.\<close>

definition must_of :: "s64 \<Rightarrow> u8" where
  "must_of r = (if result_must r then 1 else 0)"

section \<open>LAN\<close>

definition bpf_sock_is_dae_socket :: "kenv \<Rightarrow> bpf_sock \<Rightarrow> bool" where
  "bpf_sock_is_dae_socket env sk \<longleftrightarrow>
     dp_dae_socket_mark (kv_param env) \<noteq> 0 \<and> bs_full_mark sk = Some (dp_dae_socket_mark (kv_param env))"

definition local_service :: "kenv \<Rightarrow> sk_buff \<Rightarrow> parsed_packet \<Rightarrow> bool" where
  "local_service env skb pkt =
     (let five = tp_five (pp_tuples pkt); v4 = (h_proto (pp_ethh pkt) = ETH_P_IP)
      in if pp_l4proto pkt = IPPROTO_TCP
         then \<not> (th_syn (pp_tcph pkt) \<and> \<not> th_ack (pp_tcph pkt))
              \<and> (case kv_lookup_tcp env skb v4 five of
                   None \<Rightarrow> False | Some sk \<Rightarrow> \<not> bpf_sock_is_dae_socket env sk \<and> bs_state sk = BPF_TCP_LISTEN)
         else if pp_l4proto pkt = IPPROTO_UDP
         then (case kv_lookup_udp env skb v4 five of None \<Rightarrow> False | Some sk \<Rightarrow> \<not> bpf_sock_is_dae_socket env sk)
         else False)"

definition lan_established :: "kenv \<Rightarrow> sk_buff \<Rightarrow> nat \<Rightarrow> parsed_packet \<Rightarrow> kstate \<Rightarrow> tc_action \<times> sk_buff \<times> kstate" where
  "lan_established env skb link_h_len pkt s =
     (let (tcp_state, s) = mark_tcp_seen (kv_ct env) (tp_five (pp_tuples pkt)) (pp_tcph pkt) False None None 0 None 0 0 s
      in case tcp_state of
           None \<Rightarrow> (TC_OK, skb, s)
         | Some st \<Rightarrow>
             if \<not> mt_has_routing (cs_meta st) then (TC_OK, skb, s)
             else if mt_outbound (cs_meta st) = OB_DIRECT then (TC_OK, skb\<lparr>sk_mark := mt_mark (cs_meta st)\<rparr>, s)
             else if mt_outbound (cs_meta st) = OB_BLOCK then (TC_SHOT, skb, s)
             else redirect_lan_packet_to_control_plane env skb link_h_len
                    (pkt\<lparr>pp_datapath_generation := cs_generation st\<rparr>) (cs_meta st) (cs_slot st) s)"

text \<open>
  The packet of a new flow, with the entry of the table if there is one: \<open>r\<close> is the result of \<^verbatim>\<open>route\<close>.
\<close>

definition lan_decide ::
    "kenv \<Rightarrow> sk_buff \<Rightarrow> nat \<Rightarrow> parsed_packet \<Rightarrow> conn_state option \<Rightarrow> s64 \<Rightarrow> kstate \<Rightarrow> tc_action \<times> sk_buff \<times> kstate" where
  "lan_decide env skb link_h_len pkt state r s =
     (let five = tp_five (pp_tuples pkt); tcp = (pp_l4proto pkt = IPPROTO_TCP);
          outbound = result_outbound r; mark = result_mark r;
          slot = routing_epoch_slot_from_route_result r;
          meta = build_routing_meta outbound mark (must_of r) (tp_dscp (pp_tuples pkt));
          s = (case if tcp \<or> pp_l4proto pkt = IPPROTO_UDP then state else None of
                 Some st \<Rightarrow> conn_write five (st\<lparr>cs_mac := h_source (pp_ethh pkt), cs_slot := slot,
                              cs_generation := ce_generation (kv_ct env), cs_meta := meta\<rparr>) s
               | None \<Rightarrow> s)
      in if tcp \<and> state = None
         then (if outbound = OB_DIRECT \<and> mark = 0 then (TC_OK, skb\<lparr>sk_mark := mark\<rparr>, s) else (TC_SHOT, skb, s))
         else if outbound = OB_DIRECT then (TC_OK, skb\<lparr>sk_mark := mark\<rparr>, s)
         else if outbound = OB_BLOCK
         then (TC_SHOT, skb, send_dae_event (kv_ct env) EventBlocked 0 None outbound five s)
         else if \<not> wan_outbound_is_alive env skb outbound (pp_l4proto pkt) then (TC_SHOT, skb, s)
         else redirect_lan_packet_to_control_plane env skb link_h_len
                (pkt\<lparr>pp_datapath_generation := ce_generation (kv_ct env)\<rparr>) meta slot s)"

definition lan_route_result :: "kenv \<Rightarrow> sk_buff \<Rightarrow> parsed_packet \<Rightarrow> s64" where
  "lan_route_result env skb pkt =
     route (kv_route env)
       (if pp_l4proto pkt = IPPROTO_TCP
        then packet_route_args skb (pp_tuples pkt) L4PROTO_TCP (th_source (pp_tcph pkt)) (th_dest (pp_tcph pkt)) None (Some (h_source (pp_ethh pkt))) False
        else packet_route_args skb (pp_tuples pkt) L4PROTO_UDP (uh_source (pp_udph pkt)) (uh_dest (pp_udph pkt)) None (Some (h_source (pp_ethh pkt))) False)"

definition lan_route ::
    "kenv \<Rightarrow> sk_buff \<Rightarrow> nat \<Rightarrow> parsed_packet \<Rightarrow> conn_state option \<Rightarrow> kstate \<Rightarrow> tc_action \<times> sk_buff \<times> kstate" where
  "lan_route env skb link_h_len pkt state s =
     (if local_service env skb pkt then (TC_OK, skb, s)
      else let r = lan_route_result env skb pkt
           in if sint r < 0 then (TC_SHOT, skb, s) else lan_decide env skb link_h_len pkt state r s)"

definition lan_udp :: "kenv \<Rightarrow> sk_buff \<Rightarrow> nat \<Rightarrow> parsed_packet \<Rightarrow> kstate \<Rightarrow> tc_action \<times> sk_buff \<times> kstate" where
  "lan_udp env skb link_h_len pkt s =
     (let five = tp_five (pp_tuples pkt);
          (udp_state, s) = mark_udp_seen (kv_ct env) five False None None (tp_dscp (pp_tuples pkt)) None 0 0 s
      in case udp_state of
           None \<Rightarrow> lan_route env skb link_h_len pkt None s
         | Some st \<Rightarrow>
             if cs_wan_ingress st then (TC_OK, skb, s)
             else if mt_has_routing (cs_meta st)
             then (if mt_outbound (cs_meta st) = OB_DIRECT then (TC_OK, skb\<lparr>sk_mark := mt_mark (cs_meta st)\<rparr>, s)
                   else if mt_outbound (cs_meta st) = OB_BLOCK then (TC_SHOT, skb, s)
                   else let (now, s) = ktime (kv_ct env) s; s = conn_write five (st\<lparr>cs_last_seen_ns := now\<rparr>) s
                        in redirect_lan_packet_to_control_plane env skb link_h_len
                             (pkt\<lparr>pp_datapath_generation := cs_generation st\<rparr>) (cs_meta st) (cs_slot st) s)
             else lan_route env skb link_h_len pkt (Some st) s)"

definition do_tproxy_lan_ingress :: "kenv \<Rightarrow> sk_buff \<Rightarrow> nat \<Rightarrow> kstate \<Rightarrow> tc_action \<times> sk_buff \<times> kstate" where
  "do_tproxy_lan_ingress env skb link_h_len s =
     (if \<not> kv_scratch env then (TC_SHOT, skb, s)
      else case parse_packet (kv_packet env) (ce_generation (kv_ct env)) skb link_h_len of
             (ret, Some pkt) \<Rightarrow>
               if ret \<noteq> 0 then (if ret < 0 then TC_SHOT else TC_OK, skb, s)
               else if pp_l4proto pkt = IPPROTO_TCP \<and> \<not> is_new_tcp_connection (pp_tcph pkt)
               then lan_established env skb link_h_len pkt s
               else if pp_l4proto pkt = IPPROTO_TCP
               then (let (tcp_state, s) = mark_tcp_seen (kv_ct env) (tp_five (pp_tuples pkt)) (pp_tcph pkt) False None None
                           (tp_dscp (pp_tuples pkt)) None 0 0 s
                     in lan_route env skb link_h_len pkt tcp_state s)
               else lan_udp env skb link_h_len pkt s
           | (ret, None) \<Rightarrow> (if ret < 0 then TC_SHOT else TC_OK, skb, s))"

definition tproxy_lan_ingress :: "kenv \<Rightarrow> sk_buff \<Rightarrow> kstate \<Rightarrow> tc_action \<times> sk_buff \<times> kstate" where
  "tproxy_lan_ingress env skb s = do_tproxy_lan_ingress env skb (detect_link_h_len (kv_packet env) skb) s"

section \<open>Packets of the reverse direction\<close>

definition reverse_refresh :: "kenv \<Rightarrow> parse_transport_ctx \<Rightarrow> kstate \<Rightarrow> kstate" where
  "reverse_refresh env c s =
     (let key = copy_reversed_tuples (tp_five (get_tuples c (pc_l4proto c)))
      in if pc_l4proto c = IPPROTO_TCP then snd (mark_tcp_seen (kv_ct env) key (pc_tcph c) True None None 0 None 0 0 s)
         else if pc_l4proto c = IPPROTO_UDP then snd (mark_udp_seen (kv_ct env) key True None None 0 None 0 0 s)
         else s)"

definition do_tproxy_lan_egress :: "kenv \<Rightarrow> sk_buff \<Rightarrow> nat \<Rightarrow> kstate \<Rightarrow> tc_action \<times> kstate" where
  "do_tproxy_lan_egress env skb link_h_len s =
     (if \<not> kv_scratch env then (TC_SHOT, s)
      else let (ret, c) = parse_transport (kv_packet env) skb link_h_len
           in if ret \<noteq> 0 then (if ret < 0 then TC_SHOT else TC_OK, s)
              else if sk_ingress_ifindex skb = NOWHERE_IFINDEX \<and> pc_l4proto c = IPPROTO_ICMPV6
                      \<and> ic_type (pc_icmp6h c) = NDP_REDIRECT then (TC_SHOT, s)
              else (TC_PIPE, reverse_refresh env c s))"

definition do_tproxy_wan_ingress :: "kenv \<Rightarrow> sk_buff \<Rightarrow> nat \<Rightarrow> kstate \<Rightarrow> tc_action \<times> kstate" where
  "do_tproxy_wan_ingress env skb link_h_len s =
     (if \<not> kv_scratch env then (TC_SHOT, s)
      else let (ret, c) = parse_transport (kv_packet env) skb link_h_len
           in if ret \<noteq> 0 then (if ret < 0 then TC_SHOT else TC_OK, s)
              else (TC_PIPE, reverse_refresh env c s))"

section \<open>WAN egress\<close>

text \<open>Whether the packet comes from the control plane, and the process found for its socket.\<close>

definition pid_is_control_plane :: "kenv \<Rightarrow> sk_buff \<Rightarrow> kstate \<Rightarrow> bool \<times> pid_pname option \<times> kstate" where
  "pid_is_control_plane env skb s =
     (let cookie = kv_socket_cookie env skb
      in case ks_cookie s cookie of
           Some p \<Rightarrow>
             let (now, s) = ktime (kv_ct env) s;
                 p = p\<lparr>pn_last_seen_ns := now\<rparr>;
                 s = s\<lparr>ks_cookie := (ks_cookie s)(cookie := Some p)\<rparr>;
                 pid_tproxy = dp_control_plane_pid (kv_param env)
             in (pid_tproxy \<noteq> 0 \<and> pn_pid p = pid_tproxy, Some p, s)
         | None \<Rightarrow>
             (dp_dae_socket_mark (kv_param env) \<noteq> 0 \<and> sk_mark skb = dp_dae_socket_mark (kv_param env)
              \<or> sk_mark skb AND 0x100 = 0x100, None, s))"

text \<open>
  The decision for a packet: outbound, mark, must, MAC, process name and id, slot and generation.
\<close>

record wan_decision =
  wd_outbound :: u8
  wd_mark :: u32
  wd_must :: u8
  wd_mac :: "u8 list"
  wd_pname :: "u8 list option"
  wd_pid :: u32
  wd_slot :: u8
  wd_generation :: u16

definition cached_decision :: "conn_state \<Rightarrow> wan_decision" where
  "cached_decision st =
     \<lparr>wd_outbound = mt_outbound (cs_meta st), wd_mark = mt_mark (cs_meta st), wd_must = (if mt_must (cs_meta st) \<noteq> 0 then 1 else 0),
      wd_mac = cs_mac st, wd_pname = Some (cs_pname st), wd_pid = cs_pid st,
      wd_slot = routing_epoch_slot_sanitize (cs_slot st), wd_generation = cs_generation st\<rparr>"

definition routed_decision :: "kenv \<Rightarrow> s64 \<Rightarrow> u8 list \<Rightarrow> pid_pname option \<Rightarrow> wan_decision" where
  "routed_decision env r mac p =
     \<lparr>wd_outbound = result_outbound r, wd_mark = result_mark r, wd_must = must_of r, wd_mac = mac,
      wd_pname = map_option pn_pname p, wd_pid = (case p of Some q \<Rightarrow> pn_pid q | None \<Rightarrow> 0),
      wd_slot = routing_epoch_slot_from_route_result r, wd_generation = ce_generation (kv_ct env)\<rparr>"

definition decision_result :: "wan_decision \<Rightarrow> u8 \<Rightarrow> routing_result" where
  "decision_result wd dscp =
     fill_routing_result (wd_mark wd) (wd_must wd) (wd_outbound wd) (wd_mac wd) dscp (wd_pname wd) (wd_pid wd)
       (wd_slot wd) (wd_generation wd)"

definition wan_tcp_decide ::
    "kenv \<Rightarrow> sk_buff \<Rightarrow> nat \<Rightarrow> tuples \<Rightarrow> ethhdr \<Rightarrow> tcphdr \<Rightarrow> wan_decision \<Rightarrow> kstate \<Rightarrow> tc_action \<times> sk_buff \<times> kstate" where
  "wan_tcp_decide env skb link_h_len tuples ethh tcph wd s =
     (if \<not> wan_egress_needs_control_plane (wd_outbound wd) (wd_mark wd) then (TC_OK, skb\<lparr>sk_mark := wd_mark wd\<rparr>, s)
      else if wd_outbound wd = OB_BLOCK then (TC_SHOT, skb, s)
      else if \<not> wan_outbound_is_alive env skb (wd_outbound wd) IPPROTO_TCP then (TC_SHOT, skb, s)
      else let (_, s) = publish_routing_handoff env (tp_five tuples) (decision_result wd (tp_dscp tuples)) s
           in case prep_redirect_to_control_plane env skb link_h_len tuples ethh True s of
                None \<Rightarrow> (TC_SHOT, skb, s)
              | Some (skb, s) \<Rightarrow>
                  (if kv_redirect_error env (get_dae0_ifindex env) then TC_SHOT else Redirect (get_dae0_ifindex env) False,
                   mark_for_control_plane (tcp_listener_l4proto tcph) skb, s))"

definition do_tproxy_wan_egress_tcp ::
    "kenv \<Rightarrow> sk_buff \<Rightarrow> nat \<Rightarrow> tuples \<Rightarrow> ethhdr \<Rightarrow> tcphdr \<Rightarrow> kstate \<Rightarrow> tc_action \<times> sk_buff \<times> kstate" where
  "do_tproxy_wan_egress_tcp env skb link_h_len tuples ethh tcph s =
     (if \<not> kv_scratch env then (TC_SHOT, skb, s)
      else if is_new_tcp_connection tcph
      then (let (own, p, s) = pid_is_control_plane env skb s
            in if own then (TC_OK, skb, s)
               else
                 let mac = (if link_h_len = ETH_HLEN then Some (h_source ethh) else None);
                     r = route (kv_route env) (packet_route_args skb tuples L4PROTO_TCP (th_source tcph) (th_dest tcph)
                           (map_option pn_pname p) mac True)
                 in if sint r < 0 then (TC_SHOT, skb, s)
                    else
                      let wd = routed_decision env r (case mac of Some m \<Rightarrow> m | None \<Rightarrow> zeros 6) p;
                          routing = (if wd_outbound wd = OB_DIRECT \<and> wd_mark wd = 0 \<and> wd_must wd = 0 then None
                                     else Some (wd_outbound wd, wd_mark wd, wd_must wd));
                          (tcp_conn, s) = mark_tcp_seen (kv_ct env) (tp_five tuples) tcph False routing (Some (wd_mac wd))
                            (tp_dscp tuples) (wd_pname wd) (wd_pid wd) (wd_slot wd) s
                      in if tcp_conn = None
                         then (if wd_outbound wd = OB_DIRECT \<and> wd_mark wd = 0 then TC_OK else TC_SHOT, skb, s)
                         else wan_tcp_decide env skb link_h_len tuples ethh tcph wd s)
      else (let (tcp_conn, s) = mark_tcp_seen (kv_ct env) (tp_five tuples) tcph False None None 0 None 0 0 s
            in case tcp_conn of
                 None \<Rightarrow> (TC_OK, skb, s)
               | Some st \<Rightarrow>
                   if \<not> mt_has_routing (cs_meta st) then (TC_OK, skb, s)
                   else wan_tcp_decide env skb link_h_len tuples ethh tcph (cached_decision st) s))"

text \<open>
  From the label \<^verbatim>\<open>fast_path_skip_routing\<close> on: \<open>p\<close> is the process of the socket, \<open>st\<close> the entry.
\<close>

definition wan_udp_decide ::
    "kenv \<Rightarrow> sk_buff \<Rightarrow> nat \<Rightarrow> tuples \<Rightarrow> ethhdr \<Rightarrow> pid_pname option \<Rightarrow> conn_state option \<Rightarrow> bool \<Rightarrow> wan_decision \<Rightarrow> kstate
      \<Rightarrow> tc_action \<times> sk_buff \<times> kstate" where
  "wan_udp_decide env skb link_h_len tuples ethh p state cached wd s =
     (let s = (case state of
                 None \<Rightarrow> s
               | Some st \<Rightarrow>
                   let st = (if wd_outbound wd \<noteq> OB_DIRECT \<or> wd_mark wd \<noteq> 0 \<or> wd_must wd \<noteq> 0
                             then st\<lparr>cs_mac := wd_mac wd,
                                     cs_pname := (case p of Some q \<Rightarrow> pn_pname q | None \<Rightarrow> cs_pname st),
                                     cs_pid := (case p of Some q \<Rightarrow> pn_pid q | None \<Rightarrow> cs_pid st),
                                     cs_slot := wd_slot wd, cs_generation := wd_generation wd,
                                     cs_meta := build_routing_meta (wd_outbound wd) (wd_mark wd) (wd_must wd) (tp_dscp tuples)\<rparr>
                             else st);
                       (now, s) = ktime (kv_ct env) s
                   in conn_write (tp_five tuples) (st\<lparr>cs_last_seen_ns := now\<rparr>) s)
      in if \<not> wan_egress_needs_control_plane (wd_outbound wd) (wd_mark wd) then (TC_OK, skb, s)
         else if wd_outbound wd = OB_BLOCK then (TC_SHOT, skb, s)
         else if \<not> cached \<and> \<not> wan_outbound_is_alive env skb (wd_outbound wd) IPPROTO_UDP then (TC_SHOT, skb, s)
         else let (failed, s) = publish_routing_handoff env (tp_five tuples) (decision_result wd (tp_dscp tuples)) s
              in if failed \<and> state = None then (TC_SHOT, skb, s)
                 else case prep_redirect_to_control_plane env skb link_h_len tuples ethh True s of
                        None \<Rightarrow> (TC_SHOT, skb, s)
                      | Some (skb, s) \<Rightarrow>
                          (Redirect (get_dae0_ifindex env) False, mark_for_control_plane IPPROTO_UDP skb, s))"

definition do_tproxy_wan_egress_udp ::
    "kenv \<Rightarrow> sk_buff \<Rightarrow> nat \<Rightarrow> tuples \<Rightarrow> ethhdr \<Rightarrow> udphdr \<Rightarrow> kstate \<Rightarrow> tc_action \<times> sk_buff \<times> kstate" where
  "do_tproxy_wan_egress_udp env skb link_h_len tuples ethh udph s =
     (if \<not> kv_scratch env then (TC_SHOT, skb, s)
      else let (own, p, s) = pid_is_control_plane env skb s
           in if own then (TC_OK, skb, s)
              else
                let (state, s) = mark_udp_seen (kv_ct env) (tp_five tuples) False None None 0 None 0 0 s
                in if (case state of Some st \<Rightarrow> cs_wan_ingress st | None \<Rightarrow> False) then (TC_OK, skb, s)
                   else if (case state of Some st \<Rightarrow> mt_has_routing (cs_meta st) | None \<Rightarrow> False)
                   then wan_udp_decide env skb link_h_len tuples ethh p state True (cached_decision (the state)) s
                   else
                     let r = route (kv_route env) (packet_route_args skb tuples L4PROTO_UDP (uh_source udph) (uh_dest udph)
                               (map_option pn_pname p) (Some (h_source ethh)) True)
                     in if sint r < 0 then (TC_SHOT, skb, s)
                        else wan_udp_decide env skb link_h_len tuples ethh p state False
                               (routed_decision env r (h_source ethh) p) s)"

definition do_tproxy_wan_egress :: "kenv \<Rightarrow> sk_buff \<Rightarrow> nat \<Rightarrow> kstate \<Rightarrow> tc_action \<times> sk_buff \<times> kstate" where
  "do_tproxy_wan_egress env skb link_h_len s =
     (if sk_ingress_ifindex skb \<noteq> NOWHERE_IFINDEX \<and> sk_ingress_ifindex skb \<noteq> sk_ifindex skb then (TC_OK, skb, s)
      else if \<not> kv_scratch env then (TC_SHOT, skb, s)
      else case parse_packet (kv_packet env) (ce_generation (kv_ct env)) skb link_h_len of
             (ret, Some pkt) \<Rightarrow>
               if ret \<noteq> 0 then (if ret < 0 then TC_SHOT else TC_OK, skb, s)
               else if pp_l4proto pkt = IPPROTO_TCP
               then do_tproxy_wan_egress_tcp env skb link_h_len (pp_tuples pkt) (pp_ethh pkt) (pp_tcph pkt) s
               else if pp_l4proto pkt = IPPROTO_UDP
               then do_tproxy_wan_egress_udp env skb link_h_len (pp_tuples pkt) (pp_ethh pkt) (pp_udph pkt) s
               else (TC_OK, skb, s)
           | (ret, None) \<Rightarrow> (if ret < 0 then TC_SHOT else TC_OK, skb, s))"

section \<open>The pair to the control plane\<close>

text \<open>The key of the listening socket that the packet is given to, if there is one.\<close>

definition assign_listener :: "kenv \<Rightarrow> sk_buff \<Rightarrow> u8 \<Rightarrow> u32 option" where
  "assign_listener env skb l4proto =
     (let key = (if l4proto = IPPROTO_TCP
                 then (if detect_tcp_listener_key (kv_packet env) skb = 2 then 2 else 0) else 1)
      in if kv_listen_socket env key then Some key else None)"

definition tproxy_dae0peer_ingress :: "kenv \<Rightarrow> sk_buff \<Rightarrow> tc_action \<times> sk_buff \<times> u32 option" where
  "tproxy_dae0peer_ingress env skb =
     (let is_redirect = (sk_cb0 skb = TPROXY_MARK); skb = skb\<lparr>sk_mark := TPROXY_MARK\<rparr>
      in case kv_change_type env skb PACKET_HOST of
           None \<Rightarrow> (TC_SHOT, skb, None)
         | Some skb \<Rightarrow>
             (TC_OK, skb, if is_redirect \<and> (ucast (sk_cb1 skb) :: u8) \<noteq> 0 then assign_listener env skb (ucast (sk_cb1 skb)) else None))"

definition or_same :: "sk_buff \<Rightarrow> sk_buff option \<Rightarrow> sk_buff" where
  "or_same skb r = (case r of Some skb' \<Rightarrow> skb' | None \<Rightarrow> skb)"

definition tproxy_dae0_ingress :: "kenv \<Rightarrow> sk_buff \<Rightarrow> kstate \<Rightarrow> tc_action \<times> sk_buff \<times> kstate" where
  "tproxy_dae0_ingress env skb s =
     (case load_redirect_tuple (kv_packet env) skb of
        None \<Rightarrow> (TC_OK, skb, s)
      | Some t \<Rightarrow>
          (case ks_redirect s t of
             None \<Rightarrow> (TC_OK, skb, s)
           | Some e \<Rightarrow>
               if re_ifindex e = 0 then (TC_OK, skb, s)
               else
                 let (now, s) = ktime (kv_ct env) s;
                     s = s\<lparr>ks_redirect := (ks_redirect s)(t := Some (e\<lparr>re_last_seen_ns := now\<rparr>))\<rparr>;
                     skb = or_same skb (kv_store_bytes env skb 6 (re_dmac e));
                     skb = or_same skb (kv_store_bytes env skb 0 (re_smac e));
                     skb = or_same skb (kv_change_type env skb (if re_from_wan e then PACKET_HOST else PACKET_OTHERHOST))
                 in (Redirect (re_ifindex e) (re_from_wan e), skb, s)))"

section \<open>Sockets and processes\<close>

definition get_pid_pname :: "kenv \<Rightarrow> kstate \<Rightarrow> pid_pname \<times> kstate" where
  "get_pid_pname env s =
     (let (now, s) = ktime (kv_ct env) s
      in (\<lparr>pn_last_seen_ns = now, pn_pid = kv_current_tgid env,
           pn_pname = (case kv_current_comm env of Some c \<Rightarrow> c | None \<Rightarrow> zeros 16)\<rparr>, s))"

definition update_map_elem_by_cookie :: "kenv \<Rightarrow> u64 \<Rightarrow> kstate \<Rightarrow> kstate" where
  "update_map_elem_by_cookie env cookie s =
     (let fallback = (\<lambda>s. let (now, s) = ktime (kv_ct env) s
                          in case kv_update_cookie env (ks_cookie s) cookie
                                    \<lparr>pn_last_seen_ns = now, pn_pid = kv_current_tgid env, pn_pname = zeros 16\<rparr> of
                               Some m \<Rightarrow> s\<lparr>ks_cookie := m\<rparr> | None \<Rightarrow> s)
      in if cookie = 0 then fallback s
         else case ks_cookie s cookie of
                Some p \<Rightarrow> let (now, s) = ktime (kv_ct env) s
                          in s\<lparr>ks_cookie := (ks_cookie s)(cookie := Some (p\<lparr>pn_last_seen_ns := now\<rparr>))\<rparr>
              | None \<Rightarrow>
                  let (val, s) = get_pid_pname env s
                  in case kv_update_cookie env (ks_cookie s) cookie val of
                       Some m \<Rightarrow> s\<lparr>ks_cookie := m\<rparr> | None \<Rightarrow> fallback s)"

definition tproxy_wan_cg_sock_release :: "u64 \<Rightarrow> kstate \<Rightarrow> kstate" where
  "tproxy_wan_cg_sock_release cookie s =
     (if cookie = 0 then s else s\<lparr>ks_cookie := (ks_cookie s)(cookie := None)\<rparr>)"

end
