(* ===== verification/Kern_Flow.thy ===== *)
theory Kern_Flow
  imports Kern_Path
begin

text \<open>
  What the programs of \<^verbatim>\<open>bpf/kern/tproxy.c\<close> do to a flow: which runs keep its entry in the connection table, that
  a packet which opens a connection fails closed, that a proxied flow stays proxied, that replies return to
  where the packet came from, and concrete runs.
\<close>

section \<open>What the programs change in the connection table\<close>

lemma publish_redirect_conn:
  "publish_redirect_track_for_packet env skb link tuples ethh from_wan s = Some s' \<Longrightarrow> ks_conn s' = ks_conn s"
  by (auto simp: publish_redirect_track_for_packet_def ktime_def Let_def)

lemma prep_conn:
  "prep_redirect_to_control_plane env skb link tuples ethh from_wan s = Some (skb', s') \<Longrightarrow> ks_conn s' = ks_conn s"
  by (auto simp: prep_redirect_to_control_plane_def bind_eq_Some_conv dest: publish_redirect_conn)

lemma handoff_conn [simp]: "ks_conn (snd (publish_routing_handoff env key r s)) = ks_conn s"
  by (simp add: publish_routing_handoff_def ktime_def split: option.split)

lemma handoff_conn': "publish_routing_handoff env key r s = (f, s') \<Longrightarrow> ks_conn s' = ks_conn s"
  using handoff_conn [of env key r s] by simp

lemma redirect_lan_conn [simp]: "ks_conn (snd (snd (redirect_lan_packet_to_control_plane env skb link pkt meta slot s))) = ks_conn s"
proof (cases "prep_redirect_to_control_plane env skb link (pp_tuples pkt) (pp_ethh pkt) False s")
  case (Some p)
  obtain skb' s' where p: "p = (skb', s')" by fastforce
  then have "ks_conn s' = ks_conn s" using prep_conn Some by blast
  with Some p show ?thesis
    by (simp add: redirect_lan_packet_to_control_plane_def Let_def split_def)
qed (simp add: redirect_lan_packet_to_control_plane_def)

lemma pid_conn [simp]: "ks_conn (snd (snd (pid_is_control_plane env skb s))) = ks_conn s"
  by (simp add: pid_is_control_plane_def ktime_def Let_def split: option.split)

lemma wan_tcp_conn [simp]: "ks_conn (snd (snd (wan_tcp_decide env skb link tuples ethh tcph wd s))) = ks_conn s"
proof -
  obtain f s1 where h: "publish_routing_handoff env (tp_five tuples) (decision_result wd (tp_dscp tuples)) s = (f, s1)" by fastforce
  then have s1: "ks_conn s1 = ks_conn s" by (rule handoff_conn')
  show ?thesis
    by (simp add: wan_tcp_decide_def h s1 split: option.split prod.split) (auto dest!: prep_conn simp: s1)
qed

lemma wan_udp_keeps:
  assumes "k \<noteq> tp_five tuples"
  shows "keeps k s (snd (snd (wan_udp_decide env skb link tuples ethh p state cached wd s)))"
proof -
  define s0 where "s0 = (case state of None \<Rightarrow> s
      | Some st \<Rightarrow>
          let st = (if wd_outbound wd \<noteq> OB_DIRECT \<or> wd_mark wd \<noteq> 0 \<or> wd_must wd \<noteq> 0
                    then st\<lparr>cs_mac := wd_mac wd, cs_pname := (case p of Some q \<Rightarrow> pn_pname q | None \<Rightarrow> cs_pname st),
                            cs_pid := (case p of Some q \<Rightarrow> pn_pid q | None \<Rightarrow> cs_pid st),
                            cs_slot := wd_slot wd, cs_generation := wd_generation wd,
                            cs_meta := build_routing_meta (wd_outbound wd) (wd_mark wd) (wd_must wd) (tp_dscp tuples)\<rparr>
                    else st);
              (now, s) = ktime (kv_ct env) s
          in conn_write (tp_five tuples) (st\<lparr>cs_last_seen_ns := now\<rparr>) s)"
  have s0: "ks_conn s0 k = ks_conn s k"
    using assms by (simp add: s0_def Let_def ktime_def write_other split: option.split)
  obtain f s1 where h: "publish_routing_handoff env (tp_five tuples) (decision_result wd (tp_dscp tuples)) s0 = (f, s1)" by fastforce
  then have s1: "ks_conn s1 = ks_conn s0" by (rule handoff_conn')
  have "ks_conn (snd (snd (wan_udp_decide env skb link tuples ethh p state cached wd s))) = ks_conn s0"
    unfolding wan_udp_decide_def s0_def [symmetric]
    by (simp add: Let_def h s1 split: option.split prod.split) (auto dest!: prep_conn simp: s1)
  with s0 show ?thesis by (intro keeps_eq) simp
qed

lemma parsed_l4: "parse_packet h g skb link = (r, Some pkt) \<Longrightarrow> tk_l4proto (tp_five (pp_tuples pkt)) = pp_l4proto pkt"
  by (auto simp: parse_packet_def get_tuples_def Let_def split: prod.splits if_splits)

lemma lan_route_keeps:
  assumes "k \<noteq> tp_five (pp_tuples pkt)"
  shows "keeps k s (snd (snd (lan_route env skb link pkt state s)))"
  by (rule keeps_eq)
    (simp add: lan_route_def lan_decide_def Let_def write_other [OF assms] split: option.split)

lemma lan_established_keeps:
  assumes "update_ok (ce_update (kv_ct env))" "\<not> is_new_tcp_connection (pp_tcph pkt)"
  shows "keeps k s (snd (snd (lan_established env skb link pkt s)))"
proof -
  obtain r s1 where m: "mark_tcp_seen (kv_ct env) (tp_five (pp_tuples pkt)) (pp_tcph pkt) False None None 0 None 0 0 s = (r, s1)"
    by fastforce
  have "keeps k s s1"
    using tcp_seen_established(1) [OF assms(2) [unfolded is_new_tcp_connection_def] m]
      mark_other_keeps(1) [OF assms(1), of k "tp_five (pp_tuples pkt)" s "pp_tcph pkt" False None None 0 None 0 0] m
    by (cases "k = tp_five (pp_tuples pkt)") simp_all
  moreover have "ks_conn (snd (snd (lan_established env skb link pkt s))) = ks_conn s1"
    by (simp add: lan_established_def m Let_def split: option.split)
  ultimately show ?thesis by (simp add: keeps_def)
qed

lemma lan_udp_keeps:
  assumes "update_ok (ce_update (kv_ct env))" "k \<noteq> tp_five (pp_tuples pkt)"
  shows "keeps k s (snd (snd (lan_udp env skb link pkt s)))"
proof -
  let ?five = "tp_five (pp_tuples pkt)"
  obtain r s1 where m: "mark_udp_seen (kv_ct env) ?five False None None (tp_dscp (pp_tuples pkt)) None 0 0 s = (r, s1)"
    by fastforce
  have k1: "keeps k s s1"
    using mark_other_keeps(2) [OF assms, of s False None None "tp_dscp (pp_tuples pkt)" None 0 0] m by simp
  have "keeps k s1 (snd (snd (lan_udp env skb link pkt s)))"
  proof (cases r)
    case None
    then show ?thesis using lan_route_keeps [OF assms(2)] by (simp add: lan_udp_def m)
  next
    case (Some st)
    then show ?thesis using lan_route_keeps [OF assms(2)]
      by (simp add: lan_udp_def m Let_def split_def write_other [OF assms(2)] keeps_eq)
  qed
  with k1 show ?thesis by (rule keeps_trans)
qed

text \<open>The interfaces and hooks a program is attached to.\<close>

datatype hook = LanIngress | LanEgress | WanIngress | WanEgress | Dae0Ingress | SockUpdate u64 | SockRelease u64

fun run_hook :: "kenv \<Rightarrow> hook \<Rightarrow> sk_buff \<Rightarrow> kstate \<Rightarrow> kstate" where
  "run_hook env LanIngress skb s = snd (snd (do_tproxy_lan_ingress env skb (detect_link_h_len (kv_packet env) skb) s))"
| "run_hook env LanEgress skb s = snd (do_tproxy_lan_egress env skb (detect_link_h_len (kv_packet env) skb) s)"
| "run_hook env WanIngress skb s = snd (do_tproxy_wan_ingress env skb (detect_link_h_len (kv_packet env) skb) s)"
| "run_hook env WanEgress skb s = snd (snd (do_tproxy_wan_egress env skb (detect_link_h_len (kv_packet env) skb) s))"
| "run_hook env Dae0Ingress skb s = snd (snd (tproxy_dae0_ingress env skb s))"
| "run_hook env (SockUpdate cookie) skb s = update_map_elem_by_cookie env cookie s"
| "run_hook env (SockRelease cookie) skb s = tproxy_wan_cg_sock_release cookie s"

text \<open>The packet opens a TCP connection with the key \<open>k\<close>, as the program reads its header.\<close>

fun opens :: "kenv \<Rightarrow> hook \<Rightarrow> sk_buff \<Rightarrow> tuples_key \<Rightarrow> bool" where
  "opens env (SockUpdate cookie) skb k \<longleftrightarrow> False"
| "opens env (SockRelease cookie) skb k \<longleftrightarrow> False"
| "opens env Dae0Ingress skb k \<longleftrightarrow> False"
| "opens env LanEgress skb k \<longleftrightarrow> (let c = snd (parse_transport (kv_packet env) skb (detect_link_h_len (kv_packet env) skb))
     in copy_reversed_tuples (tp_five (get_tuples c (pc_l4proto c))) = k \<and> is_new_tcp_connection (pc_tcph c))"
| "opens env WanIngress skb k \<longleftrightarrow> (let c = snd (parse_transport (kv_packet env) skb (detect_link_h_len (kv_packet env) skb))
     in copy_reversed_tuples (tp_five (get_tuples c (pc_l4proto c))) = k \<and> is_new_tcp_connection (pc_tcph c))"
| "opens env LanIngress skb k \<longleftrightarrow>
     (case snd (parse_packet (kv_packet env) (ce_generation (kv_ct env)) skb (detect_link_h_len (kv_packet env) skb)) of
        None \<Rightarrow> False | Some pkt \<Rightarrow> tp_five (pp_tuples pkt) = k \<and> is_new_tcp_connection (pp_tcph pkt))"
| "opens env WanEgress skb k \<longleftrightarrow>
     (case snd (parse_packet (kv_packet env) (ce_generation (kv_ct env)) skb (detect_link_h_len (kv_packet env) skb)) of
        None \<Rightarrow> False | Some pkt \<Rightarrow> tp_five (pp_tuples pkt) = k \<and> is_new_tcp_connection (pp_tcph pkt))"

lemma reverse_keeps:
  assumes "update_ok (ce_update (kv_ct env))" "tk_l4proto k = IPPROTO_TCP"
    and "\<not> (copy_reversed_tuples (tp_five (get_tuples c (pc_l4proto c))) = k \<and> is_new_tcp_connection (pc_tcph c))"
  shows "keeps k s (reverse_refresh env c s)"
proof -
  let ?key = "copy_reversed_tuples (tp_five (get_tuples c (pc_l4proto c)))"
  have l4: "tk_l4proto ?key = pc_l4proto c" by (simp add: copy_reversed_tuples_def get_tuples_def Let_def split_def)
  consider "pc_l4proto c = IPPROTO_TCP" | "pc_l4proto c = IPPROTO_UDP" | "pc_l4proto c \<noteq> IPPROTO_TCP" "pc_l4proto c \<noteq> IPPROTO_UDP"
    by blast
  then show ?thesis
  proof cases
    case 1
    obtain r s1 where m: "mark_tcp_seen (kv_ct env) ?key (pc_tcph c) True None None 0 None 0 0 s = (r, s1)" by fastforce
    have "keeps k s s1"
    proof (cases "k = ?key")
      case True
      with assms(3) have n: "\<not> (th_syn (pc_tcph c) \<and> \<not> th_ack (pc_tcph c))" by (simp add: is_new_tcp_connection_def)
      show ?thesis using tcp_seen_established(1) [OF n m] True by simp
    next
      case False
      from mark_other_keeps(1) [OF assms(1) this, of s "pc_tcph c" True None None 0 None 0 0] show ?thesis using m by simp
    qed
    then show ?thesis using 1 m by (simp add: reverse_refresh_def Let_def)
  next
    case 2
    then have "k \<noteq> ?key" using l4 assms(2) by auto
    from mark_other_keeps(2) [OF assms(1) this, of s True None None 0 None 0 0] show ?thesis
      using 2 by (simp add: reverse_refresh_def Let_def)
  qed (simp add: reverse_refresh_def Let_def keeps_eq)
qed

lemma lan_ingress_keeps:
  assumes "update_ok (ce_update (kv_ct env))" "tk_l4proto k = IPPROTO_TCP"
    and "\<And>pkt. snd (parse_packet (kv_packet env) (ce_generation (kv_ct env)) skb link) = Some pkt \<Longrightarrow>
      \<not> (tp_five (pp_tuples pkt) = k \<and> is_new_tcp_connection (pp_tcph pkt))"
  shows "keeps k s (snd (snd (do_tproxy_lan_ingress env skb link s)))"
proof (cases "parse_packet (kv_packet env) (ce_generation (kv_ct env)) skb link")
  case (Pair ret p)
  show ?thesis
  proof (cases "kv_scratch env \<and> ret = 0 \<and> p \<noteq> None")
    case False
    then have "snd (snd (do_tproxy_lan_ingress env skb link s)) = s"
      using Pair by (auto simp: do_tproxy_lan_ingress_def split: option.splits)
    then show ?thesis by (simp add: keeps_eq)
  next
    case True
    then obtain pkt where p: "p = Some pkt" by blast
    let ?five = "tp_five (pp_tuples pkt)"
    have l4: "tk_l4proto ?five = pp_l4proto pkt" using parsed_l4 Pair p by blast
    consider "pp_l4proto pkt = IPPROTO_TCP" "\<not> is_new_tcp_connection (pp_tcph pkt)"
      | "pp_l4proto pkt = IPPROTO_TCP" "is_new_tcp_connection (pp_tcph pkt)" | "pp_l4proto pkt \<noteq> IPPROTO_TCP" by blast
    then show ?thesis
    proof cases
      case 1
      then show ?thesis using lan_established_keeps [OF assms(1) 1(2), of k s skb link] True Pair p
        by (simp add: do_tproxy_lan_ingress_def)
    next
      case 2
      then have k: "k \<noteq> ?five" using assms(3) [of pkt] Pair p by auto
      let ?m = "mark_tcp_seen (kv_ct env) ?five (pp_tcph pkt) False None None (tp_dscp (pp_tuples pkt)) None 0 0 s"
      have "keeps k s (snd ?m)" by (rule mark_other_keeps(1) [OF assms(1) k])
      moreover have "keeps k (snd ?m) (snd (snd (lan_route env skb link pkt (fst ?m) (snd ?m))))" by (rule lan_route_keeps [OF k])
      ultimately have "keeps k s (snd (snd (lan_route env skb link pkt (fst ?m) (snd ?m))))" by (rule keeps_trans)
      then show ?thesis using 2 True Pair p by (simp add: do_tproxy_lan_ingress_def split_def Let_def)
    next
      case 3
      then have "k \<noteq> ?five" using l4 assms(2) by auto
      from lan_udp_keeps [OF assms(1) this, of s skb link] show ?thesis using 3 True Pair p by (simp add: do_tproxy_lan_ingress_def)
    qed
  qed
qed

lemma wan_egress_tcp_keeps:
  assumes "update_ok (ce_update (kv_ct env))" "\<not> (tp_five tuples = k \<and> is_new_tcp_connection tcph)"
  shows "keeps k s (snd (snd (do_tproxy_wan_egress_tcp env skb link tuples ethh tcph s)))"
proof (cases "is_new_tcp_connection tcph")
  case True
  then have k: "k \<noteq> tp_five tuples" using assms(2) by auto
  obtain own p s1 where o: "pid_is_control_plane env skb s = (own, p, s1)" by (metis prod_cases3)
  have k1: "keeps k s s1" using pid_conn [of env skb s] o by (intro keeps_eq) simp
  have m: "keeps k s1 (snd (mark_tcp_seen (kv_ct env) (tp_five tuples) tcph False routing mac dscp pname pid slot s1))"
    for routing mac dscp pname pid slot by (rule mark_other_keeps(1) [OF assms(1) k])
  have "keeps k s1 (snd (snd (do_tproxy_wan_egress_tcp env skb link tuples ethh tcph s)))"
    if "kv_scratch env" using True o that m by (simp add: do_tproxy_wan_egress_tcp_def Let_def split_def keeps_eq keeps_def)
  moreover have "keeps k s (snd (snd (do_tproxy_wan_egress_tcp env skb link tuples ethh tcph s)))" if "\<not> kv_scratch env"
    using that by (simp add: do_tproxy_wan_egress_tcp_def keeps_eq)
  ultimately show ?thesis using k1 keeps_trans by blast
next
  case False
  obtain r s1 where m: "mark_tcp_seen (kv_ct env) (tp_five tuples) tcph False None None 0 None 0 0 s = (r, s1)" by fastforce
  have "keeps k s s1"
    using tcp_seen_established(1) [OF False [unfolded is_new_tcp_connection_def] m]
      mark_other_keeps(1) [OF assms(1), of k "tp_five tuples" s tcph False None None 0 None 0 0] m
    by (cases "k = tp_five tuples") simp_all
  then show ?thesis using False m
    by (auto simp: do_tproxy_wan_egress_tcp_def keeps_def split: option.split)
qed

lemma wan_egress_udp_keeps:
  assumes "update_ok (ce_update (kv_ct env))" "k \<noteq> tp_five tuples"
  shows "keeps k s (snd (snd (do_tproxy_wan_egress_udp env skb link tuples ethh udph s)))"
proof -
  obtain own p s1 where o: "pid_is_control_plane env skb s = (own, p, s1)" by (metis prod_cases3)
  have k1: "keeps k s s1" using pid_conn [of env skb s] o by (intro keeps_eq) simp
  obtain r s2 where m: "mark_udp_seen (kv_ct env) (tp_five tuples) False None None 0 None 0 0 s1 = (r, s2)" by fastforce
  have k2: "keeps k s s2"
    using mark_other_keeps(2) [OF assms, of s1 False None None 0 None 0 0] m keeps_trans [OF k1] by simp
  have d: "keeps k s (snd (snd (wan_udp_decide env skb link tuples ethh p r c wd s2)))" for c wd
    by (rule keeps_trans [OF k2 wan_udp_keeps [OF assms(2)]])
  show ?thesis using k1 k2 d by (simp add: do_tproxy_wan_egress_udp_def o m Let_def keeps_eq)
qed

lemma wan_egress_keeps:
  assumes "update_ok (ce_update (kv_ct env))" "tk_l4proto k = IPPROTO_TCP"
    and "\<And>pkt. snd (parse_packet (kv_packet env) (ce_generation (kv_ct env)) skb link) = Some pkt \<Longrightarrow>
      \<not> (tp_five (pp_tuples pkt) = k \<and> is_new_tcp_connection (pp_tcph pkt))"
  shows "keeps k s (snd (snd (do_tproxy_wan_egress env skb link s)))"
proof (cases "parse_packet (kv_packet env) (ce_generation (kv_ct env)) skb link")
  case (Pair ret p)
  show ?thesis
  proof (cases p)
    case None
    then show ?thesis using Pair by (simp add: do_tproxy_wan_egress_def keeps_eq)
  next
    case (Some pkt)
    have l4: "tk_l4proto (tp_five (pp_tuples pkt)) = pp_l4proto pkt" using parsed_l4 Pair Some by blast
    have "pp_l4proto pkt \<noteq> IPPROTO_TCP \<Longrightarrow> k \<noteq> tp_five (pp_tuples pkt)" using l4 assms(2) by auto
    then show ?thesis
      using wan_egress_tcp_keeps [OF assms(1), of "pp_tuples pkt" k "pp_tcph pkt"] assms(3) [of pkt] Pair Some
        wan_egress_udp_keeps [OF assms(1), of k "pp_tuples pkt"]
      by (simp add: do_tproxy_wan_egress_def keeps_eq)
  qed
qed

lemma hook_keeps:
  assumes "update_ok (ce_update (kv_ct env))" "tk_l4proto k = IPPROTO_TCP" "\<not> opens env hk skb k"
  shows "keeps k s (run_hook env hk skb s)"
proof (cases hk)
  case LanIngress
  then show ?thesis using assms(3) by (auto intro!: lan_ingress_keeps [OF assms(1,2)] split: option.splits)
next
  case WanEgress
  then show ?thesis using assms(3) by (auto intro!: wan_egress_keeps [OF assms(1,2)] split: option.splits)
next
  case LanEgress
  then show ?thesis
    using reverse_keeps [OF assms(1,2) assms(3) [unfolded LanEgress opens.simps Let_def], of s]
    by (simp add: do_tproxy_lan_egress_def Let_def split_def keeps_eq)
next
  case WanIngress
  then show ?thesis
    using reverse_keeps [OF assms(1,2) assms(3) [unfolded WanIngress opens.simps Let_def], of s]
    by (simp add: do_tproxy_wan_ingress_def Let_def split_def keeps_eq)
next
  case Dae0Ingress
  then show ?thesis by (simp add: tproxy_dae0_ingress_def ktime_def Let_def keeps_eq split: option.split)
next
  case (SockUpdate c)
  then show ?thesis
    by (simp add: update_map_elem_by_cookie_def get_pid_pname_def ktime_def Let_def keeps_eq split: option.split)
next
  case (SockRelease c)
  then show ?thesis by (simp add: tproxy_wan_cg_sock_release_def keeps_eq)
qed

text \<open>
  A run of the programs in which no packet opens the connection \<open>k\<close> anew and the table never loses its entry.
\<close>

inductive flow_run :: "kenv \<Rightarrow> tuples_key \<Rightarrow> kstate \<Rightarrow> kstate \<Rightarrow> bool" for env k where
  flow_refl: "flow_run env k s s"
| flow_step: "flow_run env k s s' \<Longrightarrow> \<not> opens env hk skb k \<Longrightarrow> ks_conn (run_hook env hk skb s') k \<noteq> None
    \<Longrightarrow> flow_run env k s (run_hook env hk skb s')"

lemma flow_run_keeps:
  assumes "flow_run env k s s'" "update_ok (ce_update (kv_ct env))" "tk_l4proto k = IPPROTO_TCP"
  shows "keeps k s s'"
  using assms(1)
proof induction
  case (flow_step s s' hk skb)
  from keeps_trans [OF flow_step.IH hook_keeps [OF assms(2,3) flow_step.hyps(2)]] show ?case .
qed (simp add: keeps_eq)

section \<open>A flow follows the decision for its first packet\<close>

definition decided_meta :: "s64 \<Rightarrow> u8 \<Rightarrow> routing_meta" where
  "decided_meta r dscp = build_routing_meta (result_outbound r) (result_mark r) (must_of r) dscp"

lemma redirect_lan_action:
  assumes "redirect_lan_packet_to_control_plane env skb link pkt meta slot s = (act, skb', s')"
  shows "act = TC_SHOT \<or> act = redirect_to_control_plane_ingress env \<and> sk_cb0 skb' = TPROXY_MARK"
  using assms
  by (auto simp: redirect_lan_packet_to_control_plane_def mark_for_control_plane_def Let_def split: option.splits prod.splits)

lemma redirect_not_plain [simp]: "redirect_to_control_plane_ingress env \<noteq> TC_OK" "redirect_to_control_plane_ingress env \<noteq> TC_SHOT"
    "TC_OK \<noteq> redirect_to_control_plane_ingress env" "TC_SHOT \<noteq> redirect_to_control_plane_ingress env"
  by (simp_all add: redirect_to_control_plane_ingress_def)

lemma lan_new_tcp:
  assumes "parse_packet (kv_packet env) (ce_generation (kv_ct env)) skb link = (0, Some pkt)"
    and "pp_l4proto pkt = IPPROTO_TCP" "is_new_tcp_connection (pp_tcph pkt)" "kv_scratch env"
    and "mark_tcp_seen (kv_ct env) (tp_five (pp_tuples pkt)) (pp_tcph pkt) False None None (tp_dscp (pp_tuples pkt)) None 0 0 s0 = (st, s)"
  shows "do_tproxy_lan_ingress env skb link s0 = lan_route env skb link pkt st s" "\<not> local_service env skb pkt"
  using assms by (simp_all add: do_tproxy_lan_ingress_def local_service_def is_new_tcp_connection_def Let_def)

lemma lan_route_tcp:
  assumes "lan_route env skb link pkt state s = (act, skb', s')" "pp_l4proto pkt = IPPROTO_TCP" "\<not> local_service env skb pkt"
  defines "r \<equiv> lan_route_result env skb pkt"
  shows "act = TC_OK \<Longrightarrow> 0 \<le> sint r \<and> result_outbound r = OB_DIRECT"
    and "act \<noteq> TC_OK \<Longrightarrow> act \<noteq> TC_SHOT \<Longrightarrow> 0 \<le> sint r \<and> result_outbound r \<noteq> OB_DIRECT \<and> result_outbound r \<noteq> OB_BLOCK
      \<and> (\<exists>st. ks_conn s' (tp_five (pp_tuples pkt)) = Some st \<and> cs_meta st = decided_meta r (tp_dscp (pp_tuples pkt)))"
proof -
  let ?dm = "decided_meta r (tp_dscp (pp_tuples pkt))" and ?slot = "routing_epoch_slot_from_route_result r"
  have d: "if sint r < 0 then act = TC_SHOT else lan_decide env skb link pkt state r s = (act, skb', s')"
    using assms(1,3) by (simp add: lan_route_def r_def [symmetric] Let_def split: if_splits)
  show "act = TC_OK \<Longrightarrow> 0 \<le> sint r \<and> result_outbound r = OB_DIRECT"
    using d assms(2) by (auto simp: lan_decide_def Let_def dest!: redirect_lan_action split: if_splits)
  show "0 \<le> sint r \<and> result_outbound r \<noteq> OB_DIRECT \<and> result_outbound r \<noteq> OB_BLOCK
      \<and> (\<exists>st. ks_conn s' (tp_five (pp_tuples pkt)) = Some st \<and> cs_meta st = ?dm)" if a: "act \<noteq> TC_OK" "act \<noteq> TC_SHOT"
  proof (cases state)
    case None
    then show ?thesis using d a assms(2) by (auto simp: lan_decide_def Let_def split: if_splits)
  next
    case (Some st)
    define s1 where "s1 = conn_write (tp_five (pp_tuples pkt)) (st\<lparr>cs_mac := h_source (pp_ethh pkt), cs_slot := ?slot,
        cs_generation := ce_generation (kv_ct env), cs_meta := ?dm\<rparr>) s"
    from d a Some assms(2) have c: "0 \<le> sint r" "result_outbound r \<noteq> OB_DIRECT" "result_outbound r \<noteq> OB_BLOCK"
      and e: "redirect_lan_packet_to_control_plane env skb link
            (pkt\<lparr>pp_datapath_generation := ce_generation (kv_ct env)\<rparr>) ?dm ?slot s1 = (act, skb', s')"
      by (auto simp: lan_decide_def Let_def decided_meta_def s1_def split: if_splits)
    have "ks_conn s' = ks_conn s1"
      using redirect_lan_conn [of env skb link "pkt\<lparr>pp_datapath_generation := ce_generation (kv_ct env)\<rparr>" ?dm ?slot s1] e by simp
    with c show ?thesis by (simp add: s1_def conn_write_def)
  qed
qed

text \<open>
  Nothing leaks around the proxy.  A TCP packet from the LAN that opens a connection is passed on
  only if routing succeeded with the direct outbound; no failure on the way (a full table, a dead
  outbound, a failed rewrite) lets it through.
\<close>

lemma lan_fails_closed:
  assumes "parse_packet (kv_packet env) (ce_generation (kv_ct env)) skb link = (0, Some pkt)"
    and "pp_l4proto pkt = IPPROTO_TCP" "is_new_tcp_connection (pp_tcph pkt)"
    and "do_tproxy_lan_ingress env skb link s = (TC_OK, skb', s')"
  shows "0 \<le> sint (lan_route_result env skb pkt) \<and> result_outbound (lan_route_result env skb pkt) = OB_DIRECT"
proof (cases "kv_scratch env")
  case True
  obtain st s1 where m: "mark_tcp_seen (kv_ct env) (tp_five (pp_tuples pkt)) (pp_tcph pkt) False None None (tp_dscp (pp_tuples pkt)) None 0 0 s = (st, s1)"
    by fastforce
  note l = lan_new_tcp [OF assms(1-3) True m]
  from assms(4) have "lan_route env skb link pkt st s1 = (TC_OK, skb', s')" by (simp add: l(1))
  from lan_route_tcp(1) [OF this assms(2) l(2)] show ?thesis by simp
qed (use assms(4) in \<open>simp add: do_tproxy_lan_ingress_def\<close>)

lemma flow_run_present: "flow_run env k s s' \<Longrightarrow> ks_conn s k \<noteq> None \<Longrightarrow> ks_conn s' k \<noteq> None"
  by (induction rule: flow_run.induct) auto

text \<open>
  C3: a proxied flow stays proxied.  After the packet that opened a connection from the LAN was handed to
  the control plane, the programs may run on any packets of any interface: as long as nothing opens the
  connection anew and the table keeps its entry, the entry holds the decision made for the first packet,
  and a later packet of the flow is handed to the control plane as well or dropped, but never passed on.
\<close>

theorem lan_flow_follows_decision:
  assumes "update_ok (ce_update (kv_ct env))" "ce_args (kv_ct env)"
    and syn: "parse_packet (kv_packet env) (ce_generation (kv_ct env)) skb link = (0, Some pkt)"
      "pp_l4proto pkt = IPPROTO_TCP" "is_new_tcp_connection (pp_tcph pkt)"
      "do_tproxy_lan_ingress env skb link s0 = (act, skb1, s1)" "act \<noteq> TC_OK" "act \<noteq> TC_SHOT"
    and run: "flow_run env (tp_five (pp_tuples pkt)) s1 s2"
    and data: "parse_packet (kv_packet env) (ce_generation (kv_ct env)) skb' link' = (0, Some pkt')"
      "tp_five (pp_tuples pkt') = tp_five (pp_tuples pkt)" "\<not> is_new_tcp_connection (pp_tcph pkt')"
      "\<And>st. ks_conn s2 (tp_five (pp_tuples pkt)) = Some st \<Longrightarrow> \<not> tcp_conn_state_expired st (ce_ktime (kv_ct env) (ks_time s2))"
      "do_tproxy_lan_ingress env skb' link' s2 = (act', skb2, s3)"
  shows "(\<exists>st. ks_conn s2 (tp_five (pp_tuples pkt)) = Some st
        \<and> cs_meta st = decided_meta (lan_route_result env skb pkt) (tp_dscp (pp_tuples pkt)))
    \<and> (act' = TC_SHOT \<or> act' = redirect_to_control_plane_ingress env \<and> sk_cb0 skb2 = TPROXY_MARK)"
proof -
  let ?five = "tp_five (pp_tuples pkt)" and ?r = "lan_route_result env skb pkt"
  have sc: "kv_scratch env" using syn(4,6) by (auto simp: do_tproxy_lan_ingress_def split: if_splits)
  obtain ts t1 where m: "mark_tcp_seen (kv_ct env) ?five (pp_tcph pkt) False None None (tp_dscp (pp_tuples pkt)) None 0 0 s0 = (ts, t1)"
    by fastforce
  note l = lan_new_tcp [OF syn(1-3) sc m]
  have "lan_route env skb link pkt ts t1 = (act, skb1, s1)" using syn(4) by (simp add: l(1))
  from lan_route_tcp(2) [OF this syn(2) l(2) syn(5,6)]
  obtain st1 where r: "result_outbound ?r \<noteq> OB_DIRECT" "result_outbound ?r \<noteq> OB_BLOCK"
      and st1: "ks_conn s1 ?five = Some st1" "cs_meta st1 = decided_meta ?r (tp_dscp (pp_tuples pkt))" by blast
  have "ks_conn s2 ?five \<noteq> None" using flow_run_present [OF run] st1 by simp
  then obtain st2 where st2: "ks_conn s2 ?five = Some st2" by blast
  have l4: "tk_l4proto ?five = IPPROTO_TCP" using parsed_l4 [OF syn(1)] syn(2) by simp
  have meta2: "cs_meta st2 = decided_meta ?r (tp_dscp (pp_tuples pkt))"
    using flow_run_keeps [OF run assms(1) l4] st1 st2 by (auto simp: keeps_def same_decision_def)
  have tcp': "pp_l4proto pkt' = IPPROTO_TCP" using parsed_l4 [OF data(1)] data(2) l4 by simp
  have e: "lan_established env skb' link' pkt' s2 = (act', skb2, s3)"
    using data(1,3,5) tcp' sc by (simp add: do_tproxy_lan_ingress_def)
  obtain rs t2 where m2: "mark_tcp_seen (kv_ct env) ?five (pp_tcph pkt') False None None 0 None 0 0 s2 = (rs, t2)" by fastforce
  note est = tcp_seen_established [OF data(3) [unfolded is_new_tcp_connection_def] m2]
  obtain st3 where st3: "rs = Some st3" using est(4) [OF st2 assms(2) data(4) [OF st2]] by blast
  have "cs_meta st3 = cs_meta st2" using est(3) [OF st3] st2 by (auto simp: same_decision_def)
  then have m3: "mt_has_routing (cs_meta st3)" "mt_outbound (cs_meta st3) = result_outbound ?r"
    using meta2 by (simp_all add: decided_meta_def build_routing_meta_def)
  have "redirect_lan_packet_to_control_plane env skb' link' (pkt'\<lparr>pp_datapath_generation := cs_generation st3\<rparr>) (cs_meta st3) (cs_slot st3) t2
      = (act', skb2, s3)"
    using e r m3 by (simp add: lan_established_def data(2) m2 st3)
  from redirect_lan_action [OF this] st2 meta2 show ?thesis by blast
qed

section \<open>Replies return to where the packet came from\<close>

text \<open>What the helpers that rewrite a packet do when they succeed.\<close>

definition rewrite_ok :: "kenv \<Rightarrow> bool" where
  "rewrite_ok env \<longleftrightarrow>
     (\<forall>skb n skb'. kv_change_head env skb n = Some skb' \<longrightarrow> (\<exists>d. length d = n \<and> skb' = skb\<lparr>sk_data := d @ sk_data skb\<rparr>))
   \<and> (\<forall>skb off bs skb'. kv_store_bytes env skb off bs = Some skb' \<longrightarrow>
        skb' = skb\<lparr>sk_data := take off (sk_data skb) @ bs @ drop (off + length bs) (sk_data skb)\<rparr>)
   \<and> (\<forall>skb ty skb'. kv_change_type env skb ty = Some skb' \<longrightarrow> skb' = skb\<lparr>sk_pkt_type := ty\<rparr>)"

lemma rewrite_okD:
  assumes "rewrite_ok env"
  shows "kv_change_head env skb n = Some skb' \<Longrightarrow> \<exists>d. length d = n \<and> skb' = skb\<lparr>sk_data := d @ sk_data skb\<rparr>"
    and "kv_store_bytes env skb off bs = Some skb' \<Longrightarrow>
      skb' = skb\<lparr>sk_data := take off (sk_data skb) @ bs @ drop (off + length bs) (sk_data skb)\<rparr>"
    and "kv_change_type env skb ty = Some skb' \<Longrightarrow> skb' = skb\<lparr>sk_pkt_type := ty\<rparr>"
  using assms unfolding rewrite_ok_def by blast+

lemma type_data: "rewrite_ok env \<Longrightarrow> sk_data (or_same x (kv_change_type env x ty)) = sk_data x"
  using rewrite_okD(3) [of env x ty] by (auto simp: or_same_def split: option.split)

lemma rewrite_keeps_interface:
  assumes "rewrite_ok env" "rewrite_packet_for_control_plane env skb link fw = Some skb'"
  shows "sk_ifindex skb' = sk_ifindex skb" "sk_protocol skb' = sk_protocol skb"
proof -
  have h: "sk_ifindex x = sk_ifindex y \<and> sk_protocol x = sk_protocol y" if "kv_change_head env y n = Some x" for x y n
    using rewrite_okD(1) [OF assms(1) that] by auto
  have st: "sk_ifindex x = sk_ifindex y \<and> sk_protocol x = sk_protocol y" if "kv_store_bytes env y off bs = Some x" for x y off bs
    using rewrite_okD(2) [OF assms(1) that] by auto
  have "sk_ifindex skb' = sk_ifindex skb \<and> sk_protocol skb' = sk_protocol skb"
    using assms(2) by (auto simp: rewrite_packet_for_control_plane_def bind_eq_Some_conv split: if_splits dest!: h st)
  then show "sk_ifindex skb' = sk_ifindex skb" "sk_protocol skb' = sk_protocol skb" by simp_all
qed

text \<open>The entry that leads a reply back.\<close>

definition tracked :: "sk_buff \<Rightarrow> nat \<Rightarrow> tuples \<Rightarrow> ethhdr \<Rightarrow> bool \<Rightarrow> kstate \<Rightarrow> bool" where
  "tracked skb link tuples ethh fw s \<longleftrightarrow>
     (case ks_redirect s (redirect_key (fill_redirect_tuple_from_forward_packet skb tuples)) of
        None \<Rightarrow> False
      | Some e \<Rightarrow> re_ifindex e = sk_ifindex skb \<and> re_from_wan e = fw
          \<and> (link = ETH_HLEN \<longrightarrow> re_smac e = h_source ethh \<and> re_dmac e = h_dest ethh))"

lemma prep_tracks:
  assumes "rewrite_ok env" "update_ok (kv_update_redirect env)"
    and "prep_redirect_to_control_plane env skb link tuples ethh fw s = Some (skb', s')"
  shows "tracked skb link tuples ethh fw s'"
proof -
  obtain now s1 where t: "ktime (kv_ct env) s = (now, s1)" by fastforce
  let ?k = "redirect_key (fill_redirect_tuple_from_forward_packet skb tuples)"
  let ?e = "fill_redirect_entry_from_forward_packet now (sk_ifindex skb) link ethh fw"
  from assms(3) have r: "rewrite_packet_for_control_plane env skb link fw = Some skb'"
    by (auto simp: prep_redirect_to_control_plane_def bind_eq_Some_conv)
  note i = rewrite_keeps_interface [OF assms(1) r]
  have f: "fill_redirect_tuple_from_forward_packet skb' tuples = fill_redirect_tuple_from_forward_packet skb tuples"
    by (simp add: fill_redirect_tuple_from_forward_packet_def i)
  from assms(3) obtain m where m: "kv_update_redirect env (ks_redirect s1) ?k ?e = Some m" "s' = s1\<lparr>ks_redirect := m\<rparr>"
    by (auto simp: prep_redirect_to_control_plane_def r publish_redirect_track_for_packet_def t f i redirect_key_def)
  have "m ?k = Some ?e" using assms(2) m(1) unfolding update_ok_def by blast
  then show ?thesis by (simp add: tracked_def m(2) fill_redirect_entry_from_forward_packet_def)
qed

lemma handoff_redirect [simp]: "ks_redirect (snd (publish_routing_handoff env key result s)) = ks_redirect s"
  by (simp add: publish_routing_handoff_def ktime_def Let_def split: option.split)

lemma redirect_lan_tracks:
  assumes "rewrite_ok env" "update_ok (kv_update_redirect env)"
    and "redirect_lan_packet_to_control_plane env skb link pkt meta slot s = (act, skb', s')" "act \<noteq> TC_SHOT"
  shows "tracked skb link (pp_tuples pkt) (pp_ethh pkt) False s'"
proof -
  from assms(3,4) obtain skb1 s1 where p: "prep_redirect_to_control_plane env skb link (pp_tuples pkt) (pp_ethh pkt) False s = Some (skb1, s1)"
    by (auto simp: redirect_lan_packet_to_control_plane_def split: option.splits)
  have "ks_redirect s' = ks_redirect s1"
    using assms(3) handoff_redirect [of env _ _ s1]
    by (auto simp: redirect_lan_packet_to_control_plane_def p Let_def split_def)
  with prep_tracks [OF assms(1,2) p] show ?thesis by (simp add: tracked_def)
qed

lemma wan_tcp_tracks:
  assumes "rewrite_ok env" "update_ok (kv_update_redirect env)"
    and "wan_tcp_decide env skb link tuples ethh tcph wd s = (act, skb', s')" "act \<noteq> TC_SHOT" "act \<noteq> TC_OK"
  shows "tracked skb link tuples ethh True s'"
  using assms(3-5) prep_tracks [OF assms(1,2)]
  by (auto simp: wan_tcp_decide_def Let_def split_def split: if_splits option.splits)

lemma wan_udp_tracks:
  assumes "rewrite_ok env" "update_ok (kv_update_redirect env)"
    and "wan_udp_decide env skb link tuples ethh p state cached wd s = (act, skb', s')" "act \<noteq> TC_SHOT" "act \<noteq> TC_OK"
  shows "tracked skb link tuples ethh True s'"
proof -
  from assms(3-5) obtain s1 skb1 where "prep_redirect_to_control_plane env skb link tuples ethh True s1 = Some (skb1, s')"
    unfolding wan_udp_decide_def Let_def [of "case state of None \<Rightarrow> s | Some st \<Rightarrow> _ st"] split_def
    by (auto split: if_splits option.splits simp: Let_def split_def)
  then show ?thesis by (rule prep_tracks [OF assms(1,2)])
qed


text \<open>The two programs that see a packet first, on a LAN or on a WAN interface.\<close>

definition forward :: "kenv \<Rightarrow> bool \<Rightarrow> sk_buff \<Rightarrow> nat \<Rightarrow> kstate \<Rightarrow> tc_action \<times> sk_buff \<times> kstate" where
  "forward env from_wan = (if from_wan then do_tproxy_wan_egress env else do_tproxy_lan_ingress env)"

lemma lan_route_tracks:
  assumes "rewrite_ok env" "update_ok (kv_update_redirect env)"
    and "lan_route env skb link pkt state s = (act, skb', s')" "act \<noteq> TC_SHOT" "act \<noteq> TC_OK"
  shows "tracked skb link (pp_tuples pkt) (pp_ethh pkt) False s'"
proof -
  obtain r s1 where "lan_decide env skb link pkt state r s1 = (act, skb', s')"
    using assms(3-5) by (auto simp: lan_route_def Let_def split: if_splits)
  then obtain pkt' meta slot s2 where
      "redirect_lan_packet_to_control_plane env skb link pkt' meta slot s2 = (act, skb', s')"
      "pp_tuples pkt' = pp_tuples pkt" "pp_ethh pkt' = pp_ethh pkt"
    using assms(4,5) that [of "pkt\<lparr>pp_datapath_generation := ce_generation (kv_ct env)\<rparr>"]
    by (auto simp: lan_decide_def Let_def split: if_splits)
  with redirect_lan_tracks [OF assms(1,2)] assms(4) show ?thesis by metis
qed

lemma lan_ingress_tracks:
  assumes "rewrite_ok env" "update_ok (kv_update_redirect env)"
    and "parse_packet (kv_packet env) (ce_generation (kv_ct env)) skb link = (0, Some pkt)"
    and "do_tproxy_lan_ingress env skb link s = (act, skb', s')" "act \<noteq> TC_SHOT" "act \<noteq> TC_OK"
  shows "tracked skb link (pp_tuples pkt) (pp_ethh pkt) False s'"
proof -
  have est: "tracked skb link (pp_tuples pkt) (pp_ethh pkt) False s'" if "lan_established env skb link pkt s = (act, skb', s')"
    using that assms(5,6) redirect_lan_tracks [OF assms(1,2), of skb link "pkt\<lparr>pp_datapath_generation := _\<rparr>"]
    by (auto simp: lan_established_def Let_def split_def split: if_splits option.splits)
  have udp: "tracked skb link (pp_tuples pkt) (pp_ethh pkt) False s'" if "lan_udp env skb link pkt s = (act, skb', s')"
    using that assms(5,6) redirect_lan_tracks [OF assms(1,2), of skb link "pkt\<lparr>pp_datapath_generation := _\<rparr>"]
      lan_route_tracks [OF assms(1,2), of skb link pkt]
    by (auto simp: lan_udp_def Let_def split_def split: if_splits option.splits)
  show ?thesis
    using assms(3-6) est udp lan_route_tracks [OF assms(1,2), of skb link pkt]
    by (auto simp: do_tproxy_lan_ingress_def Let_def split_def split: if_splits)
qed

lemma wan_egress_tracks:
  assumes "rewrite_ok env" "update_ok (kv_update_redirect env)"
    and "parse_packet (kv_packet env) (ce_generation (kv_ct env)) skb link = (0, Some pkt)"
    and "do_tproxy_wan_egress env skb link s = (act, skb', s')" "act \<noteq> TC_SHOT" "act \<noteq> TC_OK"
  shows "tracked skb link (pp_tuples pkt) (pp_ethh pkt) True s'"
proof -
  have tcp: "tracked skb link (pp_tuples pkt) (pp_ethh pkt) True s'"
    if "do_tproxy_wan_egress_tcp env skb link (pp_tuples pkt) (pp_ethh pkt) (pp_tcph pkt) s = (act, skb', s')"
    using that assms(5,6) wan_tcp_tracks [OF assms(1,2), of skb link "pp_tuples pkt" "pp_ethh pkt" "pp_tcph pkt"]
    by (auto simp: do_tproxy_wan_egress_tcp_def Let_def split_def split: if_splits option.splits)
  have udp: "tracked skb link (pp_tuples pkt) (pp_ethh pkt) True s'"
    if "do_tproxy_wan_egress_udp env skb link (pp_tuples pkt) (pp_ethh pkt) (pp_udph pkt) s = (act, skb', s')"
    using that assms(5,6) wan_udp_tracks [OF assms(1,2), of skb link "pp_tuples pkt" "pp_ethh pkt"]
    by (auto simp: do_tproxy_wan_egress_udp_def Let_def split_def split: if_splits)
  show ?thesis using assms(3-6) tcp udp by (auto simp: do_tproxy_wan_egress_def split: if_splits)
qed

text \<open>The link header that parsing copies.\<close>

lemma parsers_keep_eth:
  "pc_ethh (snd (fast_tcp d off c)) = pc_ethh c" "pc_ethh (snd (fast_udp d off c)) = pc_ethh c"
  "pc_ethh (snd (fast_icmp6 d off c)) = pc_ethh c" "pc_ethh (snd (slow_tcp h skb off c)) = pc_ethh c"
  "pc_ethh (snd (slow_udp h skb off c)) = pc_ethh c" "pc_ethh (snd (slow_icmp6 h skb off c)) = pc_ethh c"
  by (simp_all add: fast_tcp_def fast_udp_def fast_icmp6_def slow_tcp_def slow_udp_def slow_icmp6_def Let_def split: option.split)

lemma ip_parsers_keep_eth:
  "pc_ethh (snd (fast_ipv4 d off c)) = pc_ethh c" "pc_ethh (snd (fast_ipv6 d off c)) = pc_ethh c"
  "pc_ethh (snd (slow_ipv4 h skb off c)) = pc_ethh c" "pc_ethh (snd (slow_ipv6 h skb off c)) = pc_ethh c"
  by (simp_all add: fast_ipv4_def fast_ipv6_def slow_ipv4_def slow_ipv6_def Let_def parsers_keep_eth
      split: option.split prod.split sum.split)

lemma eth_prefix: "prefix d s \<Longrightarrow> 14 \<le> length d \<Longrightarrow> ethhdr_of (part 0 14 d) = ethhdr_of s"
  by (auto simp: ethhdr_of_def part_part part_prefix)

lemma parsed_eth:
  assumes "packet_ok h" "parse_transport h skb ETH_HLEN = (0, c)"
  shows "pc_ethh c = ethhdr_of (sk_data skb)" "ETH_HLEN \<le> length (sk_data skb)"
proof -
  have k: "pc_ethh c = ethhdr_of (sk_data skb) \<and> ETH_HLEN \<le> length (sk_data skb)" if "parse_transport_fast h skb ETH_HLEN = (0, c)"
  proof -
    from that obtain d where d: "bh_pull_data h skb HEADER_PULL_SIZE = Some d" "14 \<le> length d"
      by (auto simp: parse_transport_fast_def Let_def split: option.splits if_splits)
    have p: "prefix d (sk_data skb)" using assms(1) d(1) unfolding packet_ok_def by blast
    have "pc_ethh (snd (parse_transport_fast h skb ETH_HLEN)) = ethhdr_of (part 0 14 d)"
      using d by (simp add: parse_transport_fast_def Let_def ip_parsers_keep_eth)
    then show ?thesis using that eth_prefix [OF p d(2)] d(2) prefix_length_le [OF p] by simp
  qed
  have z: "pc_ethh (parse_ctx_zero e) = e" for e by (simp add: parse_ctx_zero_def)
  have "pc_ethh c = ethhdr_of (sk_data skb) \<and> ETH_HLEN \<le> length (sk_data skb)" if "parse_transport_slow h skb ETH_HLEN c0 = (0, c)" for c0
  proof -
    have l: "bh_load_bytes h skb 0 14 = (if 14 \<le> length (sk_data skb) then Some (part 0 14 (sk_data skb)) else None)"
      using assms(1) by (simp add: packet_ok_def)
    with that have n: "14 \<le> length (sk_data skb)" by (auto simp: parse_transport_slow_def split: if_splits)
    have "pc_ethh (snd (parse_transport_slow h skb ETH_HLEN c0)) = ethhdr_of (part 0 14 (sk_data skb))"
      using l n by (simp add: parse_transport_slow_def ip_parsers_keep_eth z)
    then show ?thesis using that n eth_prefix [of "sk_data skb" "sk_data skb"] by simp
  qed
  note sl = this
  obtain r c1 where f: "parse_transport_fast h skb ETH_HLEN = (r, c1)" by fastforce
  have "pc_ethh c = ethhdr_of (sk_data skb) \<and> ETH_HLEN \<le> length (sk_data skb)"
  proof (cases "r = - 1")
    case True
    have "parse_transport_slow h skb ETH_HLEN c1 = (0, c)" using assms(2) unfolding parse_transport_def f Let_def prod.case True by simp
    then show ?thesis by (rule sl)
  next
    case False
    have "parse_transport_fast h skb ETH_HLEN = (0, c)" using assms(2) False unfolding parse_transport_def f Let_def prod.case by simp
    then show ?thesis by (rule k)
  qed
  then show "pc_ethh c = ethhdr_of (sk_data skb)" "ETH_HLEN \<le> length (sk_data skb)" by simp_all
qed

lemma parsed_packet_eth:
  assumes "packet_ok h" "parse_packet h g skb ETH_HLEN = (0, Some pkt)"
  shows "h_source (pp_ethh pkt) = part 6 6 (sk_data skb)" "h_dest (pp_ethh pkt) = part 0 6 (sk_data skb)" "ETH_HLEN \<le> length (sk_data skb)"
proof -
  obtain c where "parse_transport h skb ETH_HLEN = (0, c)" "pp_ethh pkt = pc_ethh c"
    using assms(2) by (auto simp: parse_packet_def Let_def split: prod.splits if_splits)
  with parsed_eth [OF assms(1)]
  show "h_source (pp_ethh pkt) = part 6 6 (sk_data skb)" "h_dest (pp_ethh pkt) = part 0 6 (sk_data skb)" "ETH_HLEN \<le> length (sk_data skb)"
    by (simp_all add: ethhdr_of_def)
qed

text \<open>
  C4: a reply returns to where the packet came from.  Once a packet was handed to the control plane, from
  a LAN or from this host on a WAN interface, the reply that the control plane sends to the flow leaves
  through the interface of the packet, in the direction of its sender, with the two MAC addresses of
  the packet exchanged, for as long as the table keeps the entry of this pair of hosts.
\<close>

theorem reply_returns:
  assumes "packet_ok (kv_packet env)" "rewrite_ok env" "update_ok (kv_update_redirect env)"
    and "parse_packet (kv_packet env) (ce_generation (kv_ct env)) skb link = (0, Some pkt)"
    and "forward env from_wan skb link s = (act, skb', s1)" "act \<noteq> TC_OK" "act \<noteq> TC_SHOT" "sk_ifindex skb \<noteq> 0"
    and "replies_to reply skb (pp_tuples pkt)"
    and "ks_redirect s2 (redirect_key (fill_redirect_tuple_from_forward_packet skb (pp_tuples pkt)))
       = ks_redirect s1 (redirect_key (fill_redirect_tuple_from_forward_packet skb (pp_tuples pkt)))"
  shows "\<exists>reply' s3. tproxy_dae0_ingress env reply s2 = (Redirect (sk_ifindex skb) from_wan, reply', s3)
     \<and> (link = ETH_HLEN \<and> ETH_HLEN \<le> length (sk_data reply)
          \<and> (\<forall>x off bs. off + length bs \<le> length (sk_data x) \<longrightarrow> kv_store_bytes env x off bs \<noteq> None)
        \<longrightarrow> sk_data reply' = part 6 6 (sk_data skb) @ part 0 6 (sk_data skb) @ drop 12 (sk_data reply))"
proof -
  have t: "tracked skb link (pp_tuples pkt) (pp_ethh pkt) from_wan s1"
    using assms(5) lan_ingress_tracks [OF assms(2-4) _ assms(7,6)] wan_egress_tracks [OF assms(2-4) _ assms(7,6)]
    by (cases from_wan) (auto simp: forward_def)
  let ?k = "redirect_key (fill_redirect_tuple_from_forward_packet skb (pp_tuples pkt))"
  have l: "load_redirect_tuple (kv_packet env) reply = Some ?k" by (rule reply_key [OF assms(1,9)])
  from t assms(10) obtain e where e: "ks_redirect s2 ?k = Some e" "re_ifindex e = sk_ifindex skb" "re_from_wan e = from_wan"
      "link = ETH_HLEN \<Longrightarrow> re_smac e = h_source (pp_ethh pkt) \<and> re_dmac e = h_dest (pp_ethh pkt)"
    by (auto simp: tracked_def split: option.splits)
  let ?r1 = "or_same reply (kv_store_bytes env reply 6 (re_dmac e))"
  let ?r2 = "or_same ?r1 (kv_store_bytes env ?r1 0 (re_smac e))"
  let ?r3 = "or_same ?r2 (kv_change_type env ?r2 (if re_from_wan e then PACKET_HOST else PACKET_OTHERHOST))"
  have d3: "sk_data ?r3 = sk_data ?r2" by (rule type_data [OF assms(2)])
  have "sk_data ?r3 = part 6 6 (sk_data skb) @ part 0 6 (sk_data skb) @ drop 12 (sk_data reply)"
    if h: "link = ETH_HLEN" "ETH_HLEN \<le> length (sk_data reply)"
      "\<forall>x off bs. off + length bs \<le> length (sk_data x) \<longrightarrow> kv_store_bytes env x off bs \<noteq> None"
  proof -
    note pe = parsed_packet_eth [OF assms(1) assms(4) [unfolded h(1)]]
    have m: "re_smac e = part 6 6 (sk_data skb)" "re_dmac e = part 0 6 (sk_data skb)" using e(4) h(1) pe by simp_all
    have n: "length (re_smac e) = 6" "length (re_dmac e) = 6" using pe(3) by (simp_all add: m)
    obtain a where a: "kv_store_bytes env reply 6 (re_dmac e) = Some a" using h(2,3) n(2) by fastforce
    note da = rewrite_okD(2) [OF assms(2) a]
    obtain b where b: "kv_store_bytes env a 0 (re_smac e) = Some b" using h(2,3) n by (fastforce simp: da)
    have "sk_data b = re_smac e @ re_dmac e @ drop 12 (sk_data reply)"
      using rewrite_okD(2) [OF assms(2) b] h(2) n by (simp add: da)
    moreover have "?r2 = b" by (simp add: or_same_def a b)
    ultimately show ?thesis using d3 m by simp
  qed
  moreover obtain s3 where "tproxy_dae0_ingress env reply s2 = (Redirect (sk_ifindex skb) from_wan, ?r3, s3)"
    using e(1-3) assms(8) by (simp add: tproxy_dae0_ingress_def l ktime_def Let_def)
  ultimately show ?thesis by blast
qed

section \<open>Concrete runs\<close>

text \<open>An environment in which every table has room and every helper succeeds, and empty tables.\<close>

definition demo_env :: "kern \<Rightarrow> kenv" where
  "demo_env kn =
     \<lparr>kv_packet = linear_helpers,
      kv_ct = \<lparr>ce_ktime = of_nat, ce_update = (\<lambda>m k v. Some (m(k := Some v))), ce_args = True, ce_generation = 3\<rparr>,
      kv_param = \<lparr>dp_control_plane_pid = 77, dp_dae0_ifindex = 9, dp_dae0peer_mac = [1, 2, 3, 4, 5, 6],
                  dp_use_redirect_peer = False, dp_dae_socket_mark = 0x2000\<rparr>,
      kv_route = kn, kv_scratch = True, kv_alive = (\<lambda>_. None), kv_dae_ifindex = None,
      kv_socket_cookie = (\<lambda>_. 5), kv_lookup_tcp = (\<lambda>_ _ _. None), kv_lookup_udp = (\<lambda>_ _ _. None),
      kv_update_handoff = (\<lambda>m k v. Some (m(k := Some v))), kv_update_redirect = (\<lambda>m k v. Some (m(k := Some v))),
      kv_update_cookie = (\<lambda>m k v. Some (m(k := Some v))),
      kv_change_head = (\<lambda>skb n. Some (skb\<lparr>sk_data := zeros n @ sk_data skb\<rparr>)),
      kv_store_bytes = (\<lambda>skb off bs. if off + length bs \<le> length (sk_data skb)
         then Some (skb\<lparr>sk_data := take off (sk_data skb) @ bs @ drop (off + length bs) (sk_data skb)\<rparr>) else None),
      kv_change_type = (\<lambda>skb ty. Some (skb\<lparr>sk_pkt_type := ty\<rparr>)), kv_redirect_error = (\<lambda>_. False),
      kv_listen_socket = (\<lambda>_. True), kv_current_tgid = 1, kv_current_comm = None\<rparr>"

definition demo_state :: kstate where
  "demo_state = \<lparr>ks_conn = (\<lambda>_. None), ks_handoff = (\<lambda>_. None), ks_redirect = (\<lambda>_. None), ks_cookie = (\<lambda>_. None),
     ks_udp_overflow = 0, ks_tcp_overflow = 0, ks_events = [], ks_time = 0\<rparr>"


text \<open>A routing table of one fallback entry.\<close>

definition fallback_kern :: "u8 \<Rightarrow> u32 \<Rightarrow> kern" where
  "fallback_kern ob mark =
     \<lparr>kn_routing = (\<lambda>k. if k = 0 then Some \<lparr>ms_value = MatchSetValue_zeroed, ms_not = 0, ms_type = MT_FALLBACK,
         ms_outbound = ob, ms_must = 0, ms_mark = mark\<rparr> else None),
      kn_lpm = (\<lambda>_. None), kn_domain = (\<lambda>_ _. None), kn_active_epoch = Some 0, kn_meta = (\<lambda>_. Some 1), kn_scratch = True,
      kn_loop = (\<lambda>n cb c. (of_nat n, loop_from cb 0 n c))\<rparr>"

lemma fallback_route:
  assumes "ob \<in> {0, 1, 5}"
  shows "route (fallback_kern ob mark) args = full_result ob mark False 0"
  using assms pack_nonneg [of ob mark False]
  by (auto simp: route_def fallback_kern_def route_loop_cb_def route_eval_match_def Let_def route_finalize_match_def
      route_ctx_init_def full_result_def)

lemma direct_route: "route (fallback_kern 0 0) args = 0x20000000000"
  and proxy_route: "route (fallback_kern 5 7) args = 0x20000000705"
  by (simp_all add: fallback_route full_result_def pack_result_def routing_epoch_slot_encode_def)

lemma proxy_result: "result_outbound 0x20000000705 = 5" "result_mark 0x20000000705 = 7" "\<not> result_must 0x20000000705"
    "result_outbound 0x20000000000 = 0" "result_mark 0x20000000000 = 0"
  by (simp_all add: result_outbound_def result_mark_def result_must_def)

text \<open>The packet \<^const>\<open>demo_tcp\<close> with the SYN or the ACK flag, as it is parsed.\<close>

definition demo_five :: tuples_key where
  "demo_five = \<lparr>tk_sip = mapped [10, 0, 0, 1], tk_dip = mapped [10, 0, 0, 2], tk_sport = [0x1f, 0x90], tk_dport = [0, 80],
     tk_l4proto = IPPROTO_TCP\<rparr>"

definition demo_pkt :: "bool \<Rightarrow> parsed_packet" where
  "demo_pkt syn =
     \<lparr>pp_ethh = \<lparr>h_dest = [2, 0, 0, 0, 0, 1], h_source = [2, 0, 0, 0, 0, 2], h_proto = ETH_P_IP\<rparr>,
      pp_tuples = \<lparr>tp_five = demo_five, tp_dscp = 0\<rparr>,
      pp_tcph = \<lparr>th_source = [0x1f, 0x90], th_dest = [0, 80], th_seq = [0, 0, 0, 1], th_ack_seq = [0, 0, 0, 2], th_doff = 5,
        th_fin = False, th_syn = syn, th_rst = False, th_ack = (\<not> syn), th_window = [1, 0]\<rparr>,
      pp_udph = udphdr_of (zeros 8), pp_l4proto = IPPROTO_TCP, pp_listener_l4proto = (if syn then IPPROTO_TCP else 0),
      pp_datapath_generation = 3\<rparr>"

lemma demo_parsed:
  "parse_packet linear_helpers 3 (demo_tcp 0x02 0) 14 = (0, Some (demo_pkt True))"
  "parse_packet linear_helpers 3 (demo_tcp 0x10 0) 14 = (0, Some (demo_pkt False))"
  by code_simp+

lemma demo_env_ok: "update_ok (ce_update (kv_ct (demo_env kn)))" "update_ok (kv_update_redirect (demo_env kn))" "rewrite_ok (demo_env kn)"
    "packet_ok (kv_packet (demo_env kn))" "kv_packet (demo_env kn) = linear_helpers" "ce_generation (kv_ct (demo_env kn)) = 3"
    "kv_scratch (demo_env kn)" "ce_args (kv_ct (demo_env kn))"
  using linear_helpers_ok by (auto simp: demo_env_def update_ok_def rewrite_ok_def intro!: exI [of _ "zeros n" for n])

lemma demo_pkt_simps [simp]: "pp_l4proto (demo_pkt b) = IPPROTO_TCP" "tp_five (pp_tuples (demo_pkt b)) = demo_five"
    "is_new_tcp_connection (pp_tcph (demo_pkt b)) = b"
  by (simp_all add: demo_pkt_def is_new_tcp_connection_def)

text \<open>What the program does with the first packet when routing chooses the outbound 5, and the direct one.\<close>

lemmas demo_simps = do_tproxy_lan_ingress_def demo_env_ok demo_parsed lan_route_def lan_route_result_def direct_route proxy_route
  proxy_result local_service_def mark_tcp_seen_def mark_tcp_seen_core_def demo_state_def ktime_def conn_create_def lan_decide_def
  wan_outbound_is_alive_def redirect_lan_packet_to_control_plane_def prep_redirect_to_control_plane_def
  rewrite_packet_for_control_plane_def publish_redirect_track_for_packet_def redirect_to_control_plane_ingress_def
  get_dae0_ifindex_def publish_routing_handoff_def new_conn_state_def store_none conn_write_def demo_tcp_def Let_def

lemma demo_syn_proxied:
  "let r = do_tproxy_lan_ingress (demo_env (fallback_kern 5 7)) (demo_tcp 0x02 0) 14 demo_state
   in fst r = Redirect 9 False \<and> (\<exists>st. ks_conn (snd (snd r)) demo_five = Some st \<and> cs_state st = TCP_STATE_ACTIVE)"
  by (simp add: Let_def do_tproxy_lan_ingress_def demo_env_ok demo_parsed)
    (simp add: demo_simps, simp add: demo_simps demo_env_def demo_pkt_def)

lemma demo_syn_direct:
  "fst (do_tproxy_lan_ingress (demo_env (fallback_kern 0 0)) (demo_tcp 0x02 0) 14 demo_state) = TC_OK"
  by (simp add: Let_def do_tproxy_lan_ingress_def demo_env_ok demo_parsed)
    (simp add: demo_simps, simp add: demo_simps demo_env_def demo_pkt_def)

theorem lan_flow_follows_decision_witness:
  "\<exists>skb1 s1 act' skb2 s3. do_tproxy_lan_ingress (demo_env (fallback_kern 5 7)) (demo_tcp 0x02 0) 14 demo_state = (Redirect 9 False, skb1, s1)
   \<and> do_tproxy_lan_ingress (demo_env (fallback_kern 5 7)) (demo_tcp 0x10 0) 14 (tproxy_wan_cg_sock_release 4 s1) = (act', skb2, s3)
   \<and> (\<exists>st. ks_conn (tproxy_wan_cg_sock_release 4 s1) demo_five = Some st
        \<and> cs_meta st = decided_meta (lan_route_result (demo_env (fallback_kern 5 7)) (demo_tcp 0x02 0) (demo_pkt True)) 0)
   \<and> (act' = TC_SHOT \<or> act' = redirect_to_control_plane_ingress (demo_env (fallback_kern 5 7)) \<and> sk_cb0 skb2 = TPROXY_MARK)"
proof -
  let ?env = "demo_env (fallback_kern 5 7)"
  obtain act skb1 s1 where r: "do_tproxy_lan_ingress ?env (demo_tcp 0x02 0) 14 demo_state = (act, skb1, s1)"
    by (metis prod_cases3)
  let ?s2 = "tproxy_wan_cg_sock_release 4 s1"
  obtain act' skb2 s3 where r': "do_tproxy_lan_ingress ?env (demo_tcp 0x10 0) 14 ?s2 = (act', skb2, s3)"
    by (metis prod_cases3)
  from demo_syn_proxied r obtain st where a: "act = Redirect 9 False" "ks_conn s1 demo_five = Some st" "cs_state st = TCP_STATE_ACTIVE"
    by (auto simp: Let_def)
  have st: "ks_conn ?s2 demo_five = Some st" using a(2) by (simp add: tproxy_wan_cg_sock_release_def)
  have "flow_run ?env demo_five s1 (run_hook ?env (SockRelease 4) (demo_tcp 0 0) s1)"
    by (rule flow_step [OF flow_refl]) (use st in simp_all)
  then have f: "flow_run ?env (tp_five (pp_tuples (demo_pkt True))) s1 ?s2" by simp
  have "\<not> tcp_conn_state_expired st now" for now using a(3) by (simp add: tcp_conn_state_expired_def)
  with st have e: "\<And>st'. ks_conn ?s2 (tp_five (pp_tuples (demo_pkt True))) = Some st' \<Longrightarrow>
      \<not> tcp_conn_state_expired st' (ce_ktime (kv_ct ?env) (ks_time ?s2))" by simp
  have d: "tp_dscp (pp_tuples (demo_pkt True)) = 0" by (simp add: demo_pkt_def)
  from lan_flow_follows_decision [OF demo_env_ok(1,8) _ _ _ r _ _ f _ _ _ e r', where pkt' = "demo_pkt False"] r r' a(1) d
  show ?thesis by (simp add: demo_env_ok demo_parsed)
qed

text \<open>The answer of the other host, as it leaves the control plane.\<close>

definition demo_reply :: sk_buff where
  "demo_reply =
     \<lparr>sk_data = [9, 9, 9, 9, 9, 9, 8, 8, 8, 8, 8, 8, 0x08, 0x00,
                 0x45, 0, 0, 40, 0, 0, 0, 0, 64, 6, 0, 0, 10, 0, 0, 2, 10, 0, 0, 1],
      sk_protocol = ETH_P_IP, sk_mark = 0, sk_cb0 = 0, sk_cb1 = 0, sk_ifindex = 9, sk_ingress_ifindex = 0, sk_pkt_type = 0\<rparr>"

lemma demo_replies: "replies_to demo_reply (demo_tcp 0x02 0) (pp_tuples (demo_pkt True))"
  by code_simp

theorem reply_returns_witness:
  "\<exists>skb s1 reply' s3. do_tproxy_lan_ingress (demo_env (fallback_kern 5 7)) (demo_tcp 0x02 0) 14 demo_state = (Redirect 9 False, skb, s1)
   \<and> tproxy_dae0_ingress (demo_env (fallback_kern 5 7)) demo_reply s1 = (Redirect (sk_ifindex (demo_tcp 0x02 0)) False, reply', s3)
   \<and> sk_data reply' = [2, 0, 0, 0, 0, 2] @ [2, 0, 0, 0, 0, 1] @ drop 12 (sk_data demo_reply)"
proof -
  let ?env = "demo_env (fallback_kern 5 7)"
  obtain act skb1 s1 where r: "do_tproxy_lan_ingress ?env (demo_tcp 0x02 0) 14 demo_state = (act, skb1, s1)"
    by (metis prod_cases3)
  from demo_syn_proxied r have a: "act = Redirect 9 False" by (auto simp: Let_def)
  have f: "forward ?env False (demo_tcp 0x02 0) 14 demo_state = (act, skb1, s1)" using r by (simp add: forward_def)
  have i: "sk_ifindex (demo_tcp 0x02 0) \<noteq> 0" by (simp add: demo_tcp_def)
  have m: "part 6 6 (sk_data (demo_tcp 0x02 0)) = [2, 0, 0, 0, 0, 2]" "part 0 6 (sk_data (demo_tcp 0x02 0)) = [2, 0, 0, 0, 0, 1]"
    "14 \<le> length (sk_data demo_reply)" by code_simp+
  have st: "\<forall>x off bs. off + length bs \<le> length (sk_data x) \<longrightarrow> kv_store_bytes ?env x off bs \<noteq> None" by (simp add: demo_env_def)
  from reply_returns [OF demo_env_ok(4,3,2) _ f _ _ i demo_replies refl] a m st r show ?thesis
    by (auto simp: demo_env_ok demo_parsed)
qed

section \<open>A large SYN-ACK\<close>

text \<open>
  A SYN-ACK that carries data takes the fast path of the parser, which loses its ACK flag.  On its way
  out to the LAN it counts as a new connection: the entry of the proxied flow is replaced by one without a
  decision, and the packets that follow are passed on unproxied.
\<close>

definition demo_synack :: sk_buff where
  "demo_synack =
     \<lparr>sk_data = [2, 0, 0, 0, 0, 2, 2, 0, 0, 0, 0, 1, 0x08, 0x00,
                 0x45, 0, 0, 120, 0, 0, 0, 0, 64, 6, 0, 0, 10, 0, 0, 2, 10, 0, 0, 1,
                 0, 80, 0x1f, 0x90, 0, 0, 0, 1, 0, 0, 0, 2, 0x50, 0x12, 1, 0, 0, 0, 0, 0] @ zeros 80,
      sk_protocol = ETH_P_IP, sk_mark = 0, sk_cb0 = 0, sk_cb1 = 0, sk_ifindex = 3, sk_ingress_ifindex = 0, sk_pkt_type = 0\<rparr>"

definition proxied_state :: kstate where
  "proxied_state = demo_state\<lparr>ks_conn := (\<lambda>_. None)(demo_five := Some
     \<lparr>cs_wan_ingress = False, cs_state = TCP_STATE_ACTIVE, cs_last_seen_ns = 0, cs_meta = build_routing_meta 5 7 0 0,
      cs_mac = zeros 6, cs_pname = zeros 16, cs_pid = 0, cs_slot = 1, cs_generation = 3\<rparr>)\<rparr>"

lemma large_synack_erases_decision:
  "fst (do_tproxy_lan_ingress (demo_env (fallback_kern 5 7)) (demo_tcp 0x10 0) 14 proxied_state) = Redirect 9 False"
  "fst (do_tproxy_lan_ingress (demo_env (fallback_kern 5 7)) (demo_tcp 0x10 0) 14
     (snd (do_tproxy_lan_egress (demo_env (fallback_kern 5 7)) demo_synack 14 proxied_state))) = TC_OK"
  by code_simp+

section \<open>Traffic of the control plane itself\<close>

text \<open>
  C7: no loop.  On a WAN interface the packets of the control plane's own sockets are passed on
  unchanged and leave no entry behind, whether the socket is known by its process or only by the mark that the
  control plane sets; a later packet of such a connection, which has no entry, is passed on as well.
\<close>

theorem own_traffic_not_looped:
  assumes "parse_packet (kv_packet env) (ce_generation (kv_ct env)) skb link = (0, Some pkt)" "kv_scratch env"
    and "pp_l4proto pkt = IPPROTO_TCP \<or> pp_l4proto pkt = IPPROTO_UDP"
    and "case ks_cookie s (kv_socket_cookie env skb) of
           Some p \<Rightarrow> pn_pid p = dp_control_plane_pid (kv_param env) \<and> dp_control_plane_pid (kv_param env) \<noteq> 0
         | None \<Rightarrow> sk_mark skb = dp_dae_socket_mark (kv_param env) \<and> dp_dae_socket_mark (kv_param env) \<noteq> 0"
    and "pp_l4proto pkt = IPPROTO_TCP \<and> \<not> is_new_tcp_connection (pp_tcph pkt) \<Longrightarrow> ks_conn s (tp_five (pp_tuples pkt)) = None"
  shows "\<exists>s'. do_tproxy_wan_egress env skb link s = (TC_OK, skb, s') \<and> ks_conn s' = ks_conn s \<and> ks_handoff s' = ks_handoff s"
proof -
  obtain s1 p where o: "pid_is_control_plane env skb s = (True, p, s1)" "ks_conn s1 = ks_conn s" "ks_handoff s1 = ks_handoff s"
    using assms(4) by (auto simp: pid_is_control_plane_def ktime_def Let_def split: option.splits)
  let ?five = "tp_five (pp_tuples pkt)"
  have e: "\<exists>s'. do_tproxy_wan_egress_tcp env skb link (pp_tuples pkt) (pp_ethh pkt) (pp_tcph pkt) s = (TC_OK, skb, s')
      \<and> ks_conn s' = ks_conn s \<and> ks_handoff s' = ks_handoff s"
    if "\<not> is_new_tcp_connection (pp_tcph pkt)" "ks_conn s ?five = None"
    using that assms(2)
    by (auto simp: do_tproxy_wan_egress_tcp_def mark_tcp_seen_def mark_tcp_seen_core_def is_new_tcp_connection_def ktime_def)
  show ?thesis
    using assms(1-3,5) o e
    by (cases "sk_ingress_ifindex skb \<noteq> NOWHERE_IFINDEX \<and> sk_ingress_ifindex skb \<noteq> sk_ifindex skb";
        cases "pp_l4proto pkt = IPPROTO_TCP"; cases "is_new_tcp_connection (pp_tcph pkt)")
      (auto simp: do_tproxy_wan_egress_def do_tproxy_wan_egress_tcp_def do_tproxy_wan_egress_udp_def)
qed

theorem own_traffic_not_looped_witness:
  "\<exists>s'. do_tproxy_wan_egress (demo_env (fallback_kern 5 7)) ((demo_tcp 0x02 0)\<lparr>sk_mark := 0x2000\<rparr>) 14 demo_state
      = (TC_OK, (demo_tcp 0x02 0)\<lparr>sk_mark := 0x2000\<rparr>, s') \<and> ks_conn s' = ks_conn demo_state \<and> ks_handoff s' = ks_handoff demo_state"
proof -
  let ?env = "demo_env (fallback_kern 5 7)" and ?skb = "(demo_tcp 0x02 0)\<lparr>sk_mark := 0x2000\<rparr>"
  have "parse_packet linear_helpers 3 ?skb 14 = (0, Some (demo_pkt True))" by code_simp
  then show ?thesis
    using own_traffic_not_looped [of ?env ?skb 14 "demo_pkt True" demo_state]
    by (simp add: demo_env_ok) (simp add: demo_env_def demo_state_def)
qed

end
