(* ===== verification/Dns_Message.thy ===== *)
theory Dns_Message
  imports Wire
begin

text \<open>
  DNS packets, \<^verbatim>\<open>control/src/net/dns.rs\<close>: the query parser with its EDNS scan, the TTL readers of
  responses, the error response and the rewriting of the transaction id.  A packet is a byte list;
  every index and slice of the code is one that panics out of range.
\<close>

section \<open>Parsing\<close>

abbreviation "DNS_HEADER_LEN \<equiv> (12 :: nat)"
abbreviation "TYPE_OPT \<equiv> (41 :: u16)"
abbreviation "TYPE_SOA \<equiv> (6 :: u16)"
abbreviation "NEGATIVE_TTL_CAP_SECS \<equiv> (3600 :: u32)"

record DnsQuery =
  dq_id :: u16
  dq_qname :: string
  dq_qtype :: u16
  dq_has_edns :: bool
  dq_do_bit :: bool

function skip_name :: "u8 list \<Rightarrow> nat \<Rightarrow> nat option run" where
  "skip_name buf pos =
     (if pos \<ge> length buf then Ret None
      else run_bind (index_get buf pos) (\<lambda>b.
        let len = unat b
        in if len = 0 then Ret (Some (pos + 1))
           else if b AND 192 = 192 then Ret (Some (pos + 2))
           else if len > 63 \<or> pos + 1 + len > length buf then Ret None
           else skip_name buf (pos + 1 + len)))"
  by pat_completeness auto
termination by (relation "measure (\<lambda>(buf, pos). length buf - pos)") auto

declare skip_name.simps [simp del]

text \<open>The name in the text form the router matches: bytes read as UTF-8.\<close>

definition bytes_str :: "u8 list \<Rightarrow> string" where
  "bytes_str bs = map (\<lambda>b. char_of (unat b)) bs"

function read_labels :: "u8 list \<Rightarrow> nat \<Rightarrow> string list \<Rightarrow> (string list \<times> nat) option run" where
  "read_labels buf pos labels =
     (if pos \<ge> length buf then Ret None
      else run_bind (index_get buf pos) (\<lambda>b.
        let len = unat b
        in if len = 0 then Ret (Some (labels, pos + 1))
           else if b AND 192 = 192 \<or> len > 63 \<or> pos + 1 + len > length buf then Ret None
           else run_bind (slice_get buf (pos + 1) (pos + 1 + len)) (\<lambda>bs.
             if utf8_valid (bytes_str bs)
             then read_labels buf (pos + 1 + len) (labels @ [to_ascii_lowercase (bytes_str bs)])
             else Ret None)))"
  by pat_completeness auto
termination by (relation "measure (\<lambda>(buf, pos, labels). length buf - pos)") auto

declare read_labels.simps [simp del]

text \<open>A name ends past its start, by at most two bytes past the end of the packet.\<close>

lemma skip_name_bounds: "skip_name buf pos = Ret (Some p) \<Longrightarrow> pos < p \<and> p \<le> length buf + 1"
proof (induction buf pos rule: skip_name.induct)
  case (1 buf pos)
  from 1(2) show ?case
    unfolding skip_name.simps [of buf pos]
    using 1(1) by (fastforce simp: Let_def split: if_splits)
qed

function parse_edns :: "u8 list \<Rightarrow> nat \<Rightarrow> (bool \<times> bool) run" where
  "parse_edns buf pos =
     (if pos + 11 > length buf then Ret (False, False)
      else run_bind (skip_name buf pos) (\<lambda>r. case r of
        None \<Rightarrow> Ret (False, False)
      | Some p \<Rightarrow>
          if p + 10 > length buf then Ret (False, False)
          else run_bind (get_u16 buf p) (\<lambda>rtype. run_bind (index_get buf (p + 6)) (\<lambda>ttl2.
               run_bind (get_u16 buf (p + 8)) (\<lambda>rdlength.
                 if p + 10 + unat rdlength > length buf then Ret (False, False)
                 else if rtype = TYPE_OPT then Ret (True, ttl2 AND 128 \<noteq> 0)
                 else parse_edns buf (p + 10 + unat rdlength))))))"
  by pat_completeness auto
termination
  by (relation "measure (\<lambda>(buf, pos). length buf - pos)") (auto dest: skip_name_bounds)

declare parse_edns.simps [simp del]

definition parse_dns_query :: "u8 list \<Rightarrow> DnsQuery option run" where
  "parse_dns_query buf =
     (if length buf < DNS_HEADER_LEN then Ret None
      else run_bind (get_u16 buf 0) (\<lambda>id. run_bind (get_u16 buf 4) (\<lambda>qdcount.
        if qdcount = 0 then Ret None
        else opt_bind (read_labels buf DNS_HEADER_LEN []) (\<lambda>(labels, pos).
          if pos + 4 > length buf then Ret None
          else run_bind (get_u16 buf pos) (\<lambda>qtype.
               run_bind (parse_edns buf (pos + 4)) (\<lambda>(has_edns, do_bit).
                 Ret (Some \<lparr>dq_id = id, dq_qname = join ''.'' labels, dq_qtype = qtype,
                            dq_has_edns = has_edns, dq_do_bit = do_bit\<rparr>)))))))"

section \<open>Responses\<close>

fun skip_questions :: "u8 list \<Rightarrow> nat \<Rightarrow> nat \<Rightarrow> nat option run" where
  "skip_questions buf 0 pos = Ret (Some pos)"
| "skip_questions buf (Suc n) pos =
     opt_bind (skip_name buf pos) (\<lambda>p. if p + 4 > length buf then Ret None else skip_questions buf n (p + 4))"

fun min_ttl_loop :: "u8 list \<Rightarrow> nat \<Rightarrow> nat \<Rightarrow> u32 option \<Rightarrow> u32 option run" where
  "min_ttl_loop buf 0 pos min_ttl = Ret min_ttl"
| "min_ttl_loop buf (Suc n) pos min_ttl =
     opt_bind (skip_name buf pos) (\<lambda>p.
       if p + 10 > length buf then Ret None
       else run_bind (get_u32 buf (p + 4)) (\<lambda>ttl. run_bind (get_u16 buf (p + 8)) (\<lambda>rdlength.
         if p + 10 + unat rdlength > length buf then Ret None
         else min_ttl_loop buf n (p + 10 + unat rdlength)
                (Some (case min_ttl of Some m \<Rightarrow> min m ttl | None \<Rightarrow> ttl)))))"

fun parse_negative_ttl :: "u8 list \<Rightarrow> nat \<Rightarrow> nat \<Rightarrow> u32 option run" where
  "parse_negative_ttl buf 0 pos = Ret (Some 0)"
| "parse_negative_ttl buf (Suc n) pos =
     opt_bind (skip_name buf pos) (\<lambda>p.
       if p + 10 > length buf then Ret None
       else run_bind (get_u16 buf p) (\<lambda>rtype. run_bind (get_u32 buf (p + 4)) (\<lambda>ttl.
            run_bind (get_u16 buf (p + 8)) (\<lambda>rdlength.
              let q = p + 10; rd = unat rdlength
              in if q + rd > length buf then Ret None
                 else if rtype = TYPE_SOA
                 then (if rd < 22 then Ret None
                       else run_bind (get_u32 buf (q + rd - 4)) (\<lambda>minimum.
                         Ret (Some (min (min ttl minimum) NEGATIVE_TTL_CAP_SECS))))
                 else parse_negative_ttl buf n (q + rd)))))"

definition parse_response_min_ttl :: "u8 list \<Rightarrow> u32 option run" where
  "parse_response_min_ttl response =
     (if length response < DNS_HEADER_LEN then Ret None
      else run_bind (get_u16 response 2) (\<lambda>flags.
        if flags AND 0x8000 = 0 then Ret None
        else run_bind (get_u16 response 4) (\<lambda>qdcount. run_bind (get_u16 response 6) (\<lambda>ancount.
             run_bind (get_u16 response 8) (\<lambda>nscount.
               opt_bind (skip_questions response (unat qdcount) DNS_HEADER_LEN) (\<lambda>pos.
                 if ancount = 0
                 then (let rcode = flags AND 0x000F
                       in if rcode \<noteq> 0 \<and> rcode \<noteq> 3 then Ret (Some 0)
                          else parse_negative_ttl response (unat nscount) pos)
                 else min_ttl_loop response (unat ancount) pos None))))))"

definition rewrite_response_id :: "u8 list \<Rightarrow> u16 \<Rightarrow> u8 list" where
  "rewrite_response_id response ident =
     (if length response \<ge> 2 then response[0 := ucast (drop_bit 8 ident), 1 := ucast (ident AND 255)] else response)"

definition build_error_response :: "u8 list \<Rightarrow> u8 \<Rightarrow> u8 list" where
  "build_error_response query rcode =
     (let ident = (if length query \<ge> 2 then take 2 query else [0, 0]);
          rd = (if length query \<ge> 4 \<and> query ! 2 AND 1 \<noteq> 0 then 0x0100 else 0);
          flags = (0x8000 OR rd) OR (ucast rcode AND 0x000F) :: u16
      in ident @ be_bytes 2 (unat flags) @ [0, 1, 0, 0, 0, 0, 0, 0]
         @ (if length query > DNS_HEADER_LEN then drop DNS_HEADER_LEN query else []))"

section \<open>The readers stay inside the packet\<close>

lemma skip_name_total [simp]: "skip_name buf pos \<noteq> Panic"
proof (induction buf pos rule: skip_name.induct)
  case (1 buf pos)
  then show ?case unfolding skip_name.simps [of buf pos] by (auto simp: Let_def)
qed

lemma read_labels_total [simp]: "read_labels buf pos labels \<noteq> Panic"
proof (induction buf pos labels rule: read_labels.induct)
  case (1 buf pos labels)
  then show ?case unfolding read_labels.simps [of buf pos labels] by (auto simp: Let_def)
qed

lemma parse_edns_total [simp]: "parse_edns buf pos \<noteq> Panic"
proof (induction buf pos rule: parse_edns.induct)
  case (1 buf pos)
  then show ?case unfolding parse_edns.simps [of buf pos]
    by (auto simp: run_bind_eq_Panic split: option.splits)
qed

lemma parse_dns_query_total: "parse_dns_query buf \<noteq> Panic"
  by (auto simp: parse_dns_query_def run_bind_eq_Panic opt_bind_eq_Panic)

lemma skip_questions_total [simp]: "skip_questions buf n pos \<noteq> Panic"
  by (induction buf n pos rule: skip_questions.induct) (auto simp: opt_bind_eq_Panic)

lemma min_ttl_loop_total [simp]: "min_ttl_loop buf n pos m \<noteq> Panic"
  by (induction buf n pos m rule: min_ttl_loop.induct) (auto simp: opt_bind_eq_Panic)

lemma parse_negative_ttl_total [simp]: "parse_negative_ttl buf n pos \<noteq> Panic"
  by (induction buf n pos rule: parse_negative_ttl.induct) (auto simp: opt_bind_eq_Panic Let_def)

lemma parse_response_min_ttl_total: "parse_response_min_ttl buf \<noteq> Panic"
  by (auto simp: parse_response_min_ttl_def run_bind_eq_Panic opt_bind_eq_Panic Let_def)

section \<open>A negative answer is cached for at most an hour\<close>

lemma parse_negative_ttl_cap: "parse_negative_ttl buf n pos = Ret (Some t) \<Longrightarrow> t \<le> NEGATIVE_TTL_CAP_SECS"
  by (induction buf n pos rule: parse_negative_ttl.induct)
    (auto simp: opt_bind_eq_Some run_bind_eq_Ret Let_def split: if_splits)

text \<open>
  C25: the DNS readers are safe on every packet: no input makes the query parser or the TTL reader
  of responses index or slice out of range, and an answer without records is never cached for more
  than an hour, whatever its authority section says.
\<close>

theorem dns_readers_safe:
  "parse_dns_query buf \<noteq> Panic \<and> parse_response_min_ttl buf \<noteq> Panic
   \<and> (parse_response_min_ttl buf = Ret (Some t) \<and> get_u16 buf 6 = Ret 0 \<longrightarrow> t \<le> NEGATIVE_TTL_CAP_SECS)"
proof -
  have "t \<le> NEGATIVE_TTL_CAP_SECS" if "parse_response_min_ttl buf = Ret (Some t)" "get_u16 buf 6 = Ret 0"
    using that by (auto simp: parse_response_min_ttl_def opt_bind_eq_Some run_bind_eq_Ret Let_def
      dest: parse_negative_ttl_cap split: if_splits)
  then show ?thesis using parse_dns_query_total parse_response_min_ttl_total by blast
qed

section \<open>The wire format\<close>

text \<open>
  Encoders for the format of RFC 1035, against which the readers are stated: names as labels ended
  by the root or by a compression pointer, resource records, and whole messages.
\<close>

definition str_bytes :: "string \<Rightarrow> u8 list" where
  "str_bytes s = map (\<lambda>c. of_nat (byte_of c)) s"

definition enc_labels :: "string list \<Rightarrow> u8 list" where
  "enc_labels ls = concat (map (\<lambda>l. of_nat (length l) # str_bytes l) ls)"

definition enc_end :: "(u8 \<times> u8) option \<Rightarrow> u8 list" where
  "enc_end ptr = (case ptr of None \<Rightarrow> [0] | Some (a, b) \<Rightarrow> [a, b])"

definition wf_label :: "string \<Rightarrow> bool" where
  "wf_label l \<longleftrightarrow> l \<noteq> [] \<and> length l \<le> 63"

definition wf_ptr :: "(u8 \<times> u8) option \<Rightarrow> bool" where
  "wf_ptr ptr \<longleftrightarrow> (case ptr of None \<Rightarrow> True | Some (a, b) \<Rightarrow> a AND 192 = 192)"

record rr =
  rr_name :: "string list"
  rr_ptr :: "(u8 \<times> u8) option"
  rr_type :: u16
  rr_class :: u16
  rr_ttl :: u32
  rr_data :: "u8 list"

definition wf_rr :: "rr \<Rightarrow> bool" where
  "wf_rr r \<longleftrightarrow> list_all wf_label (rr_name r) \<and> wf_ptr (rr_ptr r) \<and> length (rr_data r) < 65536"

definition rr_fixed :: "rr \<Rightarrow> u8 list" where
  "rr_fixed r = be_bytes 2 (unat (rr_type r)) @ be_bytes 2 (unat (rr_class r)) @ be_bytes 4 (unat (rr_ttl r))
     @ be_bytes 2 (length (rr_data r)) @ rr_data r"

definition enc_rr :: "rr \<Rightarrow> u8 list" where
  "enc_rr r = enc_labels (rr_name r) @ enc_end (rr_ptr r) @ rr_fixed r"

definition enc_question :: "string list \<Rightarrow> u16 \<Rightarrow> u16 \<Rightarrow> u8 list" where
  "enc_question ls qtype qclass = enc_labels ls @ [0] @ be_bytes 2 (unat qtype) @ be_bytes 2 (unat qclass)"

definition enc_header :: "u16 \<Rightarrow> u16 \<Rightarrow> nat \<Rightarrow> nat \<Rightarrow> nat \<Rightarrow> nat \<Rightarrow> u8 list" where
  "enc_header ident flags qd an ns ar =
     be_bytes 2 (unat ident) @ be_bytes 2 (unat flags) @ be_bytes 2 qd @ be_bytes 2 an @ be_bytes 2 ns @ be_bytes 2 ar"

lemma length_enc_header [simp]: "length (enc_header ident flags qd an ns ar) = 12"
  by (simp add: enc_header_def)

lemma length_str_bytes [simp]: "length (str_bytes s) = length s"
  by (simp add: str_bytes_def)

lemma bytes_str_str_bytes [simp]: "bytes_str (str_bytes s) = s"
  by (simp add: bytes_str_def str_bytes_def byte_of_def comp_def unsigned_of_nat take_bit_nat_eq_self map_idI)

lemma unat_small: "n < 256 \<Longrightarrow> unat (of_nat n :: u8) = n"
  by (simp add: unsigned_of_nat take_bit_nat_eq_self)

lemma length_byte_no_pointer:
  assumes "n < 64"
  shows "(of_nat n :: u8) AND 192 \<noteq> 192"
proof
  assume "(of_nat n :: u8) AND 192 = 192"
  moreover have "bit (192 :: u8) 6" by simp
  ultimately have "bit (of_nat n :: u8) 6" by (metis bit_and_iff)
  then have "bit n 6" by (simp add: bit_of_nat_iff)
  with assms show False by (simp add: bit_iff_odd)
qed

lemma pointer_pos: "a AND 192 = 192 \<Longrightarrow> 0 < unat (a :: u8)"
  by (auto simp: unat_gt_0)

section \<open>Skipping names\<close>

lemma skip_name_label:
  assumes "wf_label l" "pos = length pre"
  shows "skip_name (pre @ of_nat (length l) # str_bytes l @ post) pos
    = skip_name (pre @ of_nat (length l) # str_bytes l @ post) (pos + 1 + length l)"
  using assms length_byte_no_pointer [of "length l"]
  by (subst skip_name.simps) (simp add: wf_label_def unat_small Let_def)

lemma skip_name_enc:
  assumes "list_all wf_label ls" "wf_ptr ptr" "pos = length pre"
  shows "skip_name (pre @ enc_labels ls @ enc_end ptr @ post) pos
    = Ret (Some (pos + length (enc_labels ls @ enc_end ptr)))"
  using assms
proof (induction ls arbitrary: pre pos)
  case Nil
  then show ?case
    by (subst skip_name.simps) (auto simp: enc_labels_def enc_end_def wf_ptr_def Let_def pointer_pos split: option.splits)
next
  case (Cons l ls)
  let ?pre = "pre @ of_nat (length l) # str_bytes l"
  have "skip_name (?pre @ enc_labels ls @ enc_end ptr @ post) (length ?pre)
      = Ret (Some (length ?pre + length (enc_labels ls @ enc_end ptr)))"
    using Cons.prems by (intro Cons.IH) auto
  with Cons.prems skip_name_label [of l pos pre "enc_labels ls @ enc_end ptr @ post"] show ?case
    by (simp add: enc_labels_def)
qed

lemma read_labels_enc:
  assumes "list_all wf_label ls" "list_all utf8_valid ls" "pos = length pre"
  shows "read_labels (pre @ enc_labels ls @ 0 # post) pos acc
    = Ret (Some (acc @ map to_ascii_lowercase ls, pos + length (enc_labels ls) + 1))"
  using assms
proof (induction ls arbitrary: pre pos acc)
  case Nil
  then show ?case by (subst read_labels.simps) (simp add: enc_labels_def)
next
  case (Cons l ls)
  let ?pre = "pre @ of_nat (length l) # str_bytes l"
  have "read_labels (?pre @ enc_labels ls @ 0 # post) (length ?pre) (acc @ [to_ascii_lowercase l])
      = Ret (Some ((acc @ [to_ascii_lowercase l]) @ map to_ascii_lowercase ls, length ?pre + length (enc_labels ls) + 1))"
    using Cons.prems by (intro Cons.IH) auto
  with Cons.prems length_byte_no_pointer [of "length l"] show ?case
    by (subst read_labels.simps) (simp add: enc_labels_def wf_label_def unat_small Let_def)
qed

section \<open>Resource records\<close>

lemma and_128: "(x :: u8) AND 128 \<noteq> 0 \<longleftrightarrow> bit x 7"
proof -
  have "(128 :: u8) = 2 ^ 7" by simp
  then show ?thesis by (simp only: bit_eq_iff [of "x AND 2 ^ 7"] bit_and_iff bit_exp_iff) auto
qed

lemma do_byte: "be_bytes 4 (unat ttl) ! 2 AND 128 \<noteq> 0 \<longleftrightarrow> bit (ttl :: u32) 15"
proof -
  have "be_bytes 4 (unat ttl) ! 2 = of_nat (unat ttl div 256 mod 256)"
    by (simp only: be_bytes_4) simp
  moreover have "bit (of_nat (unat ttl div 256 mod 256) :: u8) 7 \<longleftrightarrow> bit ttl 15"
  proof -
    have e: "unat ttl div 256 mod 256 = take_bit 8 (drop_bit 8 (unat ttl))"
      by (simp add: take_bit_eq_mod drop_bit_eq_div)
    show ?thesis unfolding e by (simp add: bit_simps)
  qed
  ultimately show ?thesis by (simp add: and_128)
qed

lemma rr_reads:
  assumes "buf = pre @ rr_fixed r @ post" "p = length pre" "length (rr_data r) < 65536"
  shows "get_u16 buf p = Ret (rr_type r)" "get_u32 buf (p + 4) = Ret (rr_ttl r)"
    "get_u16 buf (p + 8) = Ret (of_nat (length (rr_data r)))"
    "index_get buf (p + 6) = Ret (be_bytes 4 (unat (rr_ttl r)) ! 2)"
    "unat (of_nat (length (rr_data r)) :: u16) = length (rr_data r)"
    "length buf = p + 10 + length (rr_data r) + length post"
proof -
  let ?t = "be_bytes 2 (unat (rr_type r))" and ?c = "be_bytes 2 (unat (rr_class r))"
    and ?l = "be_bytes 4 (unat (rr_ttl r))"
  show u: "unat (of_nat (length (rr_data r)) :: u16) = length (rr_data r)"
    using assms(3) by (simp add: unsigned_of_nat take_bit_nat_eq_self)
  show "get_u16 buf p = Ret (rr_type r)"
    using get_u16_at [of p pre "rr_type r"] assms(1,2) by (simp add: rr_fixed_def)
  show "get_u32 buf (p + 4) = Ret (rr_ttl r)"
    using get_u32_at [of "p + 4" "pre @ ?t @ ?c" "rr_ttl r"] assms(1,2) by (simp add: rr_fixed_def)
  show "get_u16 buf (p + 8) = Ret (of_nat (length (rr_data r)))"
    using get_u16_at [of "p + 8" "pre @ ?t @ ?c @ ?l" "of_nat (length (rr_data r))"] assms(1,2) u by (simp add: rr_fixed_def)
  show "index_get buf (p + 6) = Ret (?l ! 2)"
    using assms(1,2) by (simp add: rr_fixed_def nth_append)
  show "length buf = p + 10 + length (rr_data r) + length post"
    using assms(1,2) by (simp add: rr_fixed_def)
qed

lemma length_enc_end: "1 \<le> length (enc_end ptr)"
  by (auto simp: enc_end_def split: option.splits)

lemma skip_name_rr:
  assumes "wf_rr r" "pos = length pre"
  shows "skip_name (pre @ enc_rr r @ post) pos = Ret (Some (pos + length (enc_labels (rr_name r) @ enc_end (rr_ptr r))))"
  using skip_name_enc [of "rr_name r" "rr_ptr r" pos pre "rr_fixed r @ post"] assms
  by (simp add: wf_rr_def enc_rr_def)

text \<open>One record of a section: the fields a reader gets and the position where the next one starts.\<close>

lemma rr_step:
  assumes "wf_rr r" "buf = pre @ enc_rr r @ post" "pos = length pre"
  obtains p where "skip_name buf pos = Ret (Some p)" "p + 10 \<le> length buf" "pos + 11 \<le> length buf"
    "get_u16 buf p = Ret (rr_type r)" "get_u32 buf (p + 4) = Ret (rr_ttl r)"
    "get_u16 buf (p + 8) = Ret (of_nat (length (rr_data r)))"
    "index_get buf (p + 6) = Ret (be_bytes 4 (unat (rr_ttl r)) ! 2)"
    "unat (of_nat (length (rr_data r)) :: u16) = length (rr_data r)"
    "p + 10 + length (rr_data r) = length (pre @ enc_rr r)" "p + 10 + length (rr_data r) \<le> length buf"
    "p + 10 = length (pre @ enc_rr r) - length (rr_data r)"
proof -
  let ?n = "enc_labels (rr_name r) @ enc_end (rr_ptr r)"
  let ?p = "pos + length ?n"
  have b: "buf = (pre @ ?n) @ rr_fixed r @ post" using assms(2) by (simp add: enc_rr_def)
  have p: "?p = length (pre @ ?n)" using assms(3) by simp
  note f = rr_reads [OF b p] assms(1) [unfolded wf_rr_def]
  have "?p + 10 + length (rr_data r) = length (pre @ enc_rr r)"
    using assms(3) by (simp add: enc_rr_def rr_fixed_def)
  with f skip_name_rr [OF assms(1,3), of post] assms(2) length_enc_end [of "rr_ptr r"] show ?thesis
    by (intro that [of ?p]) simp_all
qed

lemma parse_edns_enc:
  assumes "list_all wf_rr recs" "pos = length pre"
  shows "parse_edns (pre @ concat (map enc_rr recs)) pos
    = Ret (case find (\<lambda>r. rr_type r = TYPE_OPT) recs of None \<Rightarrow> (False, False) | Some r \<Rightarrow> (True, bit (rr_ttl r) 15))"
  using assms
proof (induction recs arbitrary: pre pos)
  case Nil
  then show ?case by (subst parse_edns.simps) simp
next
  case (Cons r recs)
  let ?buf = "pre @ enc_rr r @ concat (map enc_rr recs)"
  have r: "wf_rr r" using Cons.prems(1) by simp
  obtain p where p: "skip_name ?buf pos = Ret (Some p)" "p + 10 \<le> length ?buf" "pos + 11 \<le> length ?buf"
      "get_u16 ?buf p = Ret (rr_type r)" "get_u16 ?buf (p + 8) = Ret (of_nat (length (rr_data r)))"
      "index_get ?buf (p + 6) = Ret (be_bytes 4 (unat (rr_ttl r)) ! 2)"
      "unat (of_nat (length (rr_data r)) :: u16) = length (rr_data r)"
      "p + 10 + length (rr_data r) = length (pre @ enc_rr r)" "p + 10 + length (rr_data r) \<le> length ?buf"
    by (rule rr_step [OF r refl Cons.prems(2), of "concat (map enc_rr recs)"])
  have "parse_edns ((pre @ enc_rr r) @ concat (map enc_rr recs)) (length (pre @ enc_rr r))
      = Ret (case find (\<lambda>r. rr_type r = TYPE_OPT) recs of None \<Rightarrow> (False, False) | Some r \<Rightarrow> (True, bit (rr_ttl r) 15))"
    using Cons.prems(1) by (intro Cons.IH) simp_all
  with p have "parse_edns ?buf pos = Ret (if rr_type r = TYPE_OPT then (True, be_bytes 4 (unat (rr_ttl r)) ! 2 AND 128 \<noteq> 0)
      else (case find (\<lambda>r. rr_type r = TYPE_OPT) recs of None \<Rightarrow> (False, False) | Some r \<Rightarrow> (True, bit (rr_ttl r) 15)))"
    by (subst parse_edns.simps) simp
  then show ?case unfolding do_byte by simp
qed

section \<open>Whole messages\<close>

lemma be_bytes_count: "n < 65536 \<Longrightarrow> be_bytes 2 n = be_bytes 2 (unat (of_nat n :: u16))"
  by (simp add: unsigned_of_nat take_bit_nat_eq_self)

lemma header_reads:
  assumes "buf = enc_header ident flags qd an ns ar @ post" "qd < 65536" "an < 65536" "ns < 65536"
  shows "get_u16 buf 0 = Ret ident" "get_u16 buf 2 = Ret flags" "get_u16 buf 4 = Ret (of_nat qd)"
    "get_u16 buf 6 = Ret (of_nat an)" "get_u16 buf 8 = Ret (of_nat ns)" "length buf = 12 + length post"
proof -
  let ?b = "\<lambda>x. be_bytes 2 (unat (x :: u16))"
  show "length buf = 12 + length post" using assms(1) by simp
  show "get_u16 buf 0 = Ret ident"
    using get_u16_at [of 0 "[]" ident] assms(1) by (simp add: enc_header_def)
  show "get_u16 buf 2 = Ret flags"
    using get_u16_at [of 2 "?b ident" flags] assms(1) by (simp add: enc_header_def)
  show "get_u16 buf 4 = Ret (of_nat qd)"
    using get_u16_at [of 4 "?b ident @ ?b flags" "of_nat qd"] assms(1) be_bytes_count [OF assms(2)]
    by (simp add: enc_header_def)
  show "get_u16 buf 6 = Ret (of_nat an)"
    using get_u16_at [of 6 "?b ident @ ?b flags @ be_bytes 2 qd" "of_nat an"] assms(1) be_bytes_count [OF assms(3)]
    by (simp add: enc_header_def)
  show "get_u16 buf 8 = Ret (of_nat ns)"
    using get_u16_at [of 8 "?b ident @ ?b flags @ be_bytes 2 qd @ be_bytes 2 an" "of_nat ns"] assms(1) be_bytes_count [OF assms(4)]
    by (simp add: enc_header_def)
qed

definition enc_query :: "u16 \<Rightarrow> u16 \<Rightarrow> string list \<Rightarrow> u16 \<Rightarrow> u16 \<Rightarrow> rr list \<Rightarrow> u8 list" where
  "enc_query ident flags ls qtype qclass recs =
     enc_header ident flags 1 0 0 (length recs) @ enc_question ls qtype qclass @ concat (map enc_rr recs)"

text \<open>
  C23: the query parser reads what a query says.  For every encoded query with one question, the
  parser returns its id, its name in lower case with dots between the labels, its type, and the EDNS
  and DNSSEC flags of the first OPT record among the additional records.
\<close>

theorem dns_query_roundtrip:
  assumes "list_all wf_label ls" "list_all utf8_valid ls" "list_all wf_rr recs"
  shows "parse_dns_query (enc_query ident flags ls qtype qclass recs) = Ret (Some
    \<lparr>dq_id = ident, dq_qname = join ''.'' (map to_ascii_lowercase ls), dq_qtype = qtype,
     dq_has_edns = list_ex (\<lambda>r. rr_type r = TYPE_OPT) recs,
     dq_do_bit = (case find (\<lambda>r. rr_type r = TYPE_OPT) recs of None \<Rightarrow> False | Some r \<Rightarrow> bit (rr_ttl r) 15)\<rparr>)"
proof -
  let ?h = "enc_header ident flags 1 0 0 (length recs)"
  let ?buf = "enc_query ident flags ls qtype qclass recs"
  let ?q = "?h @ enc_labels ls @ [0]"
  let ?rest = "be_bytes 2 (unat qclass) @ concat (map enc_rr recs)"
  have buf: "?buf = ?h @ (enc_question ls qtype qclass @ concat (map enc_rr recs))" by (simp add: enc_query_def)
  have b: "?buf = ?q @ be_bytes 2 (unat qtype) @ ?rest"
    by (simp add: enc_query_def enc_question_def)
  have h: "get_u16 ?buf 0 = Ret ident" "get_u16 ?buf 4 = Ret 1" "\<not> length ?buf < 12"
    using header_reads [OF buf] by simp_all
  have l: "read_labels ?buf 12 [] = Ret (Some (map to_ascii_lowercase ls, length ?q))"
    using read_labels_enc [OF assms(1,2), of 12 ?h "be_bytes 2 (unat qtype) @ ?rest" "[]"] b by simp
  have t: "get_u16 ?buf (length ?q) = Ret qtype" "\<not> length ?buf < length ?q + 4"
    using get_u16_at [OF refl, of ?q qtype ?rest] unfolding b by simp_all
  let ?p = "?q @ be_bytes 2 (unat qtype) @ be_bytes 2 (unat qclass)"
  have "parse_edns ?buf (length ?q + 4) = Ret (case find (\<lambda>r. rr_type r = TYPE_OPT) recs of None \<Rightarrow> (False, False) | Some r \<Rightarrow> (True, bit (rr_ttl r) 15))"
    using parse_edns_enc [OF assms(3) refl, of ?p] unfolding b by simp
  moreover have "list_ex (\<lambda>r. rr_type r = TYPE_OPT) recs \<longleftrightarrow> find (\<lambda>r. rr_type r = TYPE_OPT) recs \<noteq> None"
    by (auto simp: find_None_iff list_ex_iff)
  ultimately show ?thesis
    using h l t by (simp add: parse_dns_query_def split: option.splits)
qed


section \<open>TTL of a response\<close>

definition enc_response :: "u16 \<Rightarrow> u16 \<Rightarrow> (string list \<times> u16 \<times> u16) list \<Rightarrow> rr list \<Rightarrow> rr list \<Rightarrow> nat \<Rightarrow> u8 list \<Rightarrow> u8 list" where
  "enc_response ident flags qs ans auth ar rest =
     enc_header ident flags (length qs) (length ans) (length auth) ar
     @ concat (map (\<lambda>(ls, t, c). enc_question ls t c) qs) @ concat (map enc_rr ans) @ concat (map enc_rr auth) @ rest"

lemma skip_questions_enc:
  assumes "list_all (\<lambda>(ls, t, c). list_all wf_label ls) qs" "pos = length pre"
  shows "skip_questions (pre @ concat (map (\<lambda>(ls, t, c). enc_question ls t c) qs) @ post) (length qs) pos
    = Ret (Some (pos + length (concat (map (\<lambda>(ls, t, c). enc_question ls t c) qs))))"
  using assms
proof (induction qs arbitrary: pre pos)
  case (Cons q qs)
  obtain ls t c where q: "q = (ls, t, c)" by (cases q)
  let ?e = "concat (map (\<lambda>(ls, t, c). enc_question ls t c) qs)"
  let ?buf = "pre @ enc_question ls t c @ ?e @ post"
  obtain p where p: "skip_name ?buf pos = Ret (Some p)" "p + 4 = length (pre @ enc_question ls t c)"
    using skip_name_enc [of ls None pos pre "be_bytes 2 (unat t) @ be_bytes 2 (unat c) @ ?e @ post"] Cons.prems q
    by (auto simp: wf_ptr_def enc_end_def enc_question_def)
  have "skip_questions ((pre @ enc_question ls t c) @ ?e @ post) (length qs) (length (pre @ enc_question ls t c))
      = Ret (Some (length (pre @ enc_question ls t c) + length ?e))"
    using Cons.prems q by (intro Cons.IH) auto
  with p Cons.prems(2) show ?case by (simp add: q)
qed simp

fun min_ttl :: "u32 option \<Rightarrow> rr list \<Rightarrow> u32 option" where
  "min_ttl m [] = m"
| "min_ttl m (r # rs) = min_ttl (Some (case m of Some x \<Rightarrow> min x (rr_ttl r) | None \<Rightarrow> rr_ttl r)) rs"

lemma min_ttl_loop_enc:
  assumes "list_all wf_rr ans" "pos = length pre"
  shows "min_ttl_loop (pre @ concat (map enc_rr ans) @ post) (length ans) pos m = Ret (min_ttl m ans)"
  using assms
proof (induction ans arbitrary: pre pos m)
  case (Cons r ans)
  let ?buf = "pre @ enc_rr r @ concat (map enc_rr ans) @ post"
  have r: "wf_rr r" using Cons.prems(1) by simp
  obtain p where p: "skip_name ?buf pos = Ret (Some p)" "p + 10 \<le> length ?buf"
      "get_u32 ?buf (p + 4) = Ret (rr_ttl r)" "get_u16 ?buf (p + 8) = Ret (of_nat (length (rr_data r)))"
      "unat (of_nat (length (rr_data r)) :: u16) = length (rr_data r)"
      "p + 10 + length (rr_data r) = length (pre @ enc_rr r)" "p + 10 + length (rr_data r) \<le> length ?buf"
    by (rule rr_step [OF r refl Cons.prems(2), of "concat (map enc_rr ans) @ post"])
  have "min_ttl_loop ((pre @ enc_rr r) @ concat (map enc_rr ans) @ post) (length ans) (length (pre @ enc_rr r)) m'
      = Ret (min_ttl m' ans)" for m'
    using Cons.prems(1) by (intro Cons.IH) simp_all
  with p show ?case by simp
qed simp

lemma Min_insert_min: "finite S \<Longrightarrow> Min (insert (min a b) S) = Min (insert a (insert (b :: 'a :: linorder) S))"
  by (cases "S = {}") (simp_all add: min.assoc)

lemma min_ttl_Min: "ans \<noteq> [] \<Longrightarrow> min_ttl None ans = Some (Min (rr_ttl ` set ans))"
proof -
  have "min_ttl (Some m) rs = Some (Min (insert m (rr_ttl ` set rs)))" for m rs
    by (induction rs arbitrary: m) (simp_all add: Min_insert_min del: Min_insert)
  then show "ans \<noteq> [] \<Longrightarrow> min_ttl None ans = Some (Min (rr_ttl ` set ans))"
    by (cases ans) auto
qed

definition soa_minimum :: "rr \<Rightarrow> u32" where
  "soa_minimum r = of_nat (be_nat (drop (length (rr_data r) - 4) (rr_data r)))"

definition negative_ttl :: "rr list \<Rightarrow> u32 option" where
  "negative_ttl auth =
     (case find (\<lambda>r. rr_type r = TYPE_SOA) auth of
        None \<Rightarrow> Some 0
      | Some r \<Rightarrow> if length (rr_data r) < 22 then None
                else Some (min (min (rr_ttl r) (soa_minimum r)) NEGATIVE_TTL_CAP_SECS))"

lemma get_u32_end:
  assumes "4 \<le> length xs"
  shows "get_u32 (xs @ post) (length xs - 4) = Ret (of_nat (be_nat (drop (length xs - 4) xs)))"
  using get_u32_part [of "length xs - 4" "take (length xs - 4) xs" "drop (length xs - 4) xs" post] assms
  by (simp add: min_def flip: append_assoc)

lemma parse_negative_ttl_enc:
  assumes "list_all wf_rr auth" "pos = length pre"
  shows "parse_negative_ttl (pre @ concat (map enc_rr auth) @ post) (length auth) pos = Ret (negative_ttl auth)"
  using assms
proof (induction auth arbitrary: pre pos)
  case Nil
  then show ?case by (simp add: negative_ttl_def)
next
  case (Cons r auth)
  let ?post = "concat (map enc_rr auth) @ post"
  let ?buf = "pre @ enc_rr r @ ?post"
  have r: "wf_rr r" using Cons.prems(1) by simp
  obtain p where p: "skip_name ?buf pos = Ret (Some p)" "p + 10 \<le> length ?buf" "get_u16 ?buf p = Ret (rr_type r)"
      "get_u32 ?buf (p + 4) = Ret (rr_ttl r)" "get_u16 ?buf (p + 8) = Ret (of_nat (length (rr_data r)))"
      "unat (of_nat (length (rr_data r)) :: u16) = length (rr_data r)"
      "p + 10 + length (rr_data r) = length (pre @ enc_rr r)" "p + 10 + length (rr_data r) \<le> length ?buf"
    by (rule rr_step [OF r refl Cons.prems(2), of ?post])
  have IH: "parse_negative_ttl ((pre @ enc_rr r) @ ?post) (length auth) (length (pre @ enc_rr r)) = Ret (negative_ttl auth)"
    using Cons.prems(1) by (intro Cons.IH) simp_all
  have m: "get_u32 ?buf (length (pre @ enc_rr r) - 4) = Ret (soa_minimum r)" if "22 \<le> length (rr_data r)"
    using that get_u32_end [of "pre @ enc_rr r" ?post]
    by (simp add: soa_minimum_def enc_rr_def rr_fixed_def)
  from p IH m show ?case
    by (auto simp: negative_ttl_def Let_def)
qed

text \<open>
  C24: how long a response is cached.  For every encoded response the reader returns the smallest
  TTL of its answer records; without answers it returns, for NOERROR and NXDOMAIN, the smaller of
  the TTL and the minimum field of the first SOA record of the authority section, capped at an hour
  and zero without such a record, and zero for other errors; a message that is not a response has none.
\<close>

theorem response_ttl_spec:
  assumes "list_all (\<lambda>(ls, t, c). list_all wf_label ls) qs" "list_all wf_rr ans" "list_all wf_rr auth"
    and "length qs < 65536" "length ans < 65536" "length auth < 65536"
  shows "parse_response_min_ttl (enc_response ident flags qs ans auth ar rest) = Ret
    (if flags AND 0x8000 = 0 then None
     else if ans \<noteq> [] then Some (Min (rr_ttl ` set ans))
     else if flags AND 0x000F \<noteq> 0 \<and> flags AND 0x000F \<noteq> 3 then Some 0
     else negative_ttl auth)"
proof -
  let ?h = "enc_header ident flags (length qs) (length ans) (length auth) ar"
  let ?q = "concat (map (\<lambda>(ls, t, c). enc_question ls t c) qs)"
  let ?a = "concat (map enc_rr ans)" and ?n = "concat (map enc_rr auth)"
  let ?buf = "enc_response ident flags qs ans auth ar rest"
  have c: "unat (of_nat (length qs) :: u16) = length qs" "unat (of_nat (length ans) :: u16) = length ans"
      "unat (of_nat (length auth) :: u16) = length auth"
    using assms(4-6) by (simp_all add: unsigned_of_nat take_bit_nat_eq_self)
  have h: "get_u16 ?buf 2 = Ret flags" "get_u16 ?buf 4 = Ret (of_nat (length qs))" "get_u16 ?buf 6 = Ret (of_nat (length ans))"
      "get_u16 ?buf 8 = Ret (of_nat (length auth))" "\<not> length ?buf < 12"
    using header_reads [OF enc_response_def assms(4-6)] by simp_all
  have q: "skip_questions ?buf (length qs) 12 = Ret (Some (length (?h @ ?q)))"
    using skip_questions_enc [OF assms(1), of 12 ?h "?a @ ?n @ rest"] by (simp add: enc_response_def)
  have a: "min_ttl_loop ?buf (length ans) (length (?h @ ?q)) None = Ret (min_ttl None ans)"
    using min_ttl_loop_enc [OF assms(2) refl, of "?h @ ?q" "?n @ rest"] by (simp add: enc_response_def)
  have n: "parse_negative_ttl ?buf (length auth) (length (?h @ ?q)) = Ret (negative_ttl auth)" if "ans = []"
    using parse_negative_ttl_enc [OF assms(3) refl, of "?h @ ?q" rest] that by (simp add: enc_response_def)
  have z: "(of_nat (length ans) :: u16) = 0 \<longleftrightarrow> ans = []"
    using c(2) by (metis length_0_conv of_nat_0 unat_eq_zero)
  show ?thesis
    unfolding parse_response_min_ttl_def h(1-4) run_bind.simps c q opt_bind.simps z
    using h(5) a n min_ttl_Min [of ans] by (simp add: Let_def)
qed

section \<open>The answer to a blocked query\<close>

text \<open>The parser reads the id, the question count and the bytes behind the header only.\<close>

lemma drop_nth:
  assumes "drop 12 buf = drop 12 buf'" "12 \<le> i" "length buf = length buf'"
  shows "index_get buf i = index_get buf' i" "drop i buf = drop i buf'"
proof -
  show d: "drop i buf = drop i buf'"
    using assms(1,2) by (metis drop_drop le_add_diff_inverse2)
  then show "index_get buf i = index_get buf' i"
    using assms(3) by (metis (no_types, lifting) index_get_def hd_drop_conv_nth)
qed

lemma get_u16_cong:
  "drop 12 buf = drop 12 buf' \<Longrightarrow> length buf = length buf' \<Longrightarrow> 12 \<le> i \<Longrightarrow> get_u16 buf i = get_u16 buf' i"
  using drop_nth(1) [of buf buf' i] drop_nth(1) [of buf buf' "i + 1"] by (simp add: get_u16_def)

lemma skip_name_cong:
  assumes "drop 12 buf = drop 12 buf'" "length buf = length buf'" "12 \<le> pos"
  shows "skip_name buf pos = skip_name buf' pos"
  using assms
proof (induction buf pos rule: skip_name.induct)
  case (1 buf pos)
  note e = drop_nth(1) [OF 1(2,4,3)]
  show ?case
    unfolding skip_name.simps [of buf pos] skip_name.simps [of buf' pos] e 1(3)
    using 1(1) 1(2-4) e by (auto simp: Let_def intro!: run_bind_cong)
qed

lemma read_labels_cong:
  assumes "drop 12 buf = drop 12 buf'" "length buf = length buf'" "12 \<le> pos"
  shows "read_labels buf pos ls = read_labels buf' pos ls"
  using assms
proof (induction buf pos ls rule: read_labels.induct)
  case (1 buf pos ls)
  note e = drop_nth(1) [OF 1(2,4,3)]
  have d: "drop (Suc pos) buf = drop (Suc pos) buf'"
    using drop_nth(2) [OF 1(2) _ 1(3), of "pos + 1"] 1(4) by simp
  then have s: "slice_get buf (pos + 1) b = slice_get buf' (pos + 1) b" for b
    using 1(3) by (simp add: slice_get_def)
  show ?case
    unfolding read_labels.simps [of buf pos] read_labels.simps [of buf' pos] e 1(3) s
    using 1(1) 1(2-4) e d by (auto simp: Let_def intro!: run_bind_cong)
qed

lemma parse_edns_cong:
  assumes "drop 12 buf = drop 12 buf'" "length buf = length buf'" "12 \<le> pos"
  shows "parse_edns buf pos = parse_edns buf' pos"
  using assms
proof (induction buf pos rule: parse_edns.induct)
  case (1 buf pos)
  note s = skip_name_cong [OF 1(2-4)]
  have g: "get_u16 buf i = get_u16 buf' i" "index_get buf i = index_get buf' i" if "12 \<le> i" for i
    using get_u16_cong [OF 1(2,3) that] drop_nth(1) [OF 1(2) that 1(3)] by simp_all
  show ?case
  proof (cases "\<exists>p. skip_name buf' pos = Ret (Some p) \<and> pos + 11 \<le> length buf' \<and> p + 10 \<le> length buf'")
    case True
    then obtain p where p: "skip_name buf' pos = Ret (Some p)" "pos + 11 \<le> length buf'" "p + 10 \<le> length buf'" by blast
    then have "12 \<le> p" using skip_name_bounds [OF p(1)] 1(4) by simp
    then have g': "get_u16 buf p = get_u16 buf' p" "index_get buf (p + 6) = index_get buf' (p + 6)" "get_u16 buf (p + 8) = get_u16 buf' (p + 8)"
      by (simp_all add: g del: get_u16_Ret index_get_Ret)
    obtain rt t rd where r: "get_u16 buf' p = Ret rt" "index_get buf' (p + 6) = Ret t" "get_u16 buf' (p + 8) = Ret rd"
      using p(3) by simp
    have "parse_edns buf (p + 10 + unat rd) = parse_edns buf' (p + 10 + unat rd)"
      if "p + 10 + unat rd \<le> length buf'" "rt \<noteq> TYPE_OPT"
      using p r g' s 1(2-4) that \<open>12 \<le> p\<close> by (intro 1(1) [of "Some p" p rt t rd]) simp_all
    then show ?thesis
      unfolding parse_edns.simps [of buf pos] parse_edns.simps [of buf' pos] s 1(3) p(1) run_bind.simps option.case g' r by simp
  next
    case False
    then show ?thesis
      unfolding parse_edns.simps [of buf pos] parse_edns.simps [of buf' pos] s 1(3)
      by (cases "skip_name buf' pos") (auto split: option.splits)
  qed
qed

lemma parse_dns_query_cong:
  assumes "drop 12 buf = drop 12 buf'" "length buf = length buf'" "get_u16 buf 0 = get_u16 buf' 0"
    and "get_u16 buf 4 = Ret q" "get_u16 buf' 4 = Ret q'" "q \<noteq> 0" "q' \<noteq> 0"
  shows "parse_dns_query buf = parse_dns_query buf'"
proof -
  have pos: "12 \<le> p" if "read_labels buf' pos ls = Ret (Some (ls', p))" "12 \<le> pos" for pos ls ls' p
    using that
  proof (induction buf' pos ls rule: read_labels.induct)
    case (1 buf' pos ls)
    from 1(2) show ?case unfolding read_labels.simps [of buf' pos]
      using 1(1,3) by (fastforce simp: Let_def split: if_splits)
  qed
  show ?thesis
    unfolding parse_dns_query_def assms(2,3,4,5) read_labels_cong [OF assms(1,2) order_refl]
    using assms(6,7) pos [of 12 "[]"] get_u16_cong [OF assms(1,2)] parse_edns_cong [OF assms(1,2)]
    by (auto intro!: run_bind_cong opt_bind_cong)
qed


section \<open>Instances\<close>

definition demo_opt :: rr where
  "demo_opt = \<lparr>rr_name = [], rr_ptr = None, rr_type = 41, rr_class = 1232, rr_ttl = 0x8000, rr_data = []\<rparr>"

definition demo_soa :: rr where
  "demo_soa = \<lparr>rr_name = [''com''], rr_ptr = None, rr_type = 6, rr_class = 1, rr_ttl = 900,
     rr_data = [0, 0] @ replicate 16 1 @ [0, 0, 0, 60]\<rparr>"

theorem dns_readers_safe_witness:
  "parse_response_min_ttl (enc_response 7 0x8183 [([''A'', ''com''], 1, 1)] [] [demo_soa] 0 []) = Ret (Some 60)
   \<and> get_u16 (enc_response 7 0x8183 [([''A'', ''com''], 1, 1)] [] [demo_soa] 0 []) 6 = Ret 0
   \<and> (60 :: u32) \<le> NEGATIVE_TTL_CAP_SECS"
proof -
  let ?b = "enc_response 7 0x8183 [([''A'', ''com''], 1, 1)] [] [demo_soa] 0 []"
  have "parse_response_min_ttl ?b = Ret (Some 60)" "get_u16 ?b 6 = Ret 0" by code_simp+
  with dns_readers_safe [of ?b 60] show ?thesis by simp
qed

theorem dns_query_roundtrip_witness:
  "parse_dns_query (enc_query 7 0x0100 [''WWW'', ''Example'', ''com''] 28 1 [demo_opt]) = Ret (Some
     \<lparr>dq_id = 7, dq_qname = ''www.example.com'', dq_qtype = 28, dq_has_edns = True, dq_do_bit = True\<rparr>)"
proof -
  let ?ls = "[''WWW'', ''Example'', ''com'']"
  have h: "list_all wf_label ?ls" "list_all utf8_valid ?ls" "list_all wf_rr [demo_opt]" by code_simp+
  have "join ''.'' (map to_ascii_lowercase ?ls) = ''www.example.com''"
    "list_ex (\<lambda>r. rr_type r = TYPE_OPT) [demo_opt]"
    "(case find (\<lambda>r. rr_type r = TYPE_OPT) [demo_opt] of None \<Rightarrow> False | Some r \<Rightarrow> bit (rr_ttl r) 15)" by code_simp+
  with dns_query_roundtrip [OF h, of 7 "0x0100" 28 1] show ?thesis by simp
qed

theorem response_ttl_spec_witness:
  "parse_response_min_ttl (enc_response 7 0x8180 [([''a''], 1, 1)] [demo_soa, demo_soa\<lparr>rr_ptr := Some (192, 12), rr_ttl := 30\<rparr>] [] 0 [])
   = Ret (Some 30)"
proof -
  let ?ans = "[demo_soa, demo_soa\<lparr>rr_ptr := Some (192, 12), rr_ttl := 30\<rparr>]"
  have h: "list_all (\<lambda>(ls, t, c). list_all wf_label ls) [([''a''], 1 :: u16, 1 :: u16)]" "list_all wf_rr ?ans" by code_simp+
  have "Min (rr_ttl ` set ?ans) = 30" by (simp add: demo_soa_def)
  with response_ttl_spec [OF h, of "[]" 7 "0x8180" 0 "[]"] show ?thesis by simp
qed


end
