(* ===== verification/Dns_Cache.thy ===== *)
theory Dns_Cache
  imports Dns_Message
begin

text \<open>
  The response cache of one outbound, \<^verbatim>\<open>control/src/net/dns.rs\<close> \<^verbatim>\<open>DnsCache\<close>, and the interface
  its clients rely on.  Times are nanoseconds of the monotonic clock; an operation takes the time at
  which it runs.
\<close>

section \<open>The interface of a cache with expiry\<close>

text \<open>
  A store may forget an entry at any insertion, but what it returns is the value stored last for
  that key, and never after its expiry.
\<close>

text \<open>The stores in order; the specification remembers the last one of each key with its expiry.\<close>

type_synonym ('k, 'v, 'd) store = "nat \<times> 'k \<times> 'v \<times> 'd"

definition ttl_runs :: "(nat \<Rightarrow> 'k \<Rightarrow> 'v \<Rightarrow> 'd \<Rightarrow> 'c \<Rightarrow> 'c) \<Rightarrow> 'c \<Rightarrow> ('k, 'v, 'd) store list \<Rightarrow> 'c" where
  "ttl_runs put c ops = foldl (\<lambda>c (t, k, v, d). put t k v d c) c ops"

definition ttl_spec :: "('d \<Rightarrow> nat) \<Rightarrow> ('k, 'v, 'd) store list \<Rightarrow> 'k \<Rightarrow> ('v \<times> nat) option" where
  "ttl_spec dur ops = foldl (\<lambda>m (t, k, v, d). if dur d = 0 then m else m(k \<mapsto> (v, t + dur d))) Map.empty ops"

locale ttl_cache =
  fixes get :: "'c \<Rightarrow> nat \<Rightarrow> 'k \<Rightarrow> 'v option"
    and put :: "nat \<Rightarrow> 'k \<Rightarrow> 'v \<Rightarrow> 'd \<Rightarrow> 'c \<Rightarrow> 'c"
    and empty :: 'c
    and dur :: "'d \<Rightarrow> nat"
    and inv :: "'c \<Rightarrow> bool"
  assumes inv_empty: "inv empty"
    and inv_put: "inv c \<Longrightarrow> inv (put t k v d c)"
    and get_empty: "get empty t k = None"
    and put_zero: "dur d = 0 \<Longrightarrow> put t k v d c = c"
    and get_put_same: "0 < dur d \<Longrightarrow> get (put t k v d c) t' k = (if t' < t + dur d then Some v else None)"
    and get_put_other: "inv c \<Longrightarrow> k' \<noteq> k \<Longrightarrow> get (put t k v d c) t' k' = Some w \<Longrightarrow> get c t' k' = Some w"
begin

lemma get_put_cases:
  assumes "inv c" "get (put t0 k0 v0 d c) t k = Some v"
  shows "(dur d = 0 \<or> k \<noteq> k0) \<and> get c t k = Some v \<or> 0 < dur d \<and> k = k0 \<and> v = v0 \<and> t < t0 + dur d"
proof (cases "k = k0")
  case True
  with assms(2) get_put_same [of d t0 k0 v0 c t] put_zero [of d t0 k0 v0 c] show ?thesis
    by (cases "dur d = 0") (simp_all split: if_splits)
next
  case False
  with get_put_other [OF assms(1) False assms(2)] show ?thesis by simp
qed

lemma inv_runs: "inv (ttl_runs put empty ops)"
  by (induction ops rule: rev_induct) (auto simp: ttl_runs_def inv_empty inv_put split: prod.splits)

lemma refines: "get (ttl_runs put empty ops) t k = Some v \<Longrightarrow> \<exists>e. ttl_spec dur ops k = Some (v, e) \<and> t < e"
proof (induction ops arbitrary: t k v rule: rev_induct)
  case Nil
  then show ?case by (simp add: ttl_runs_def get_empty)
next
  case (snoc op ops)
  obtain t0 k0 v0 d where op: "op = (t0, k0, v0, d)" by (cases op)
  have s: "ttl_spec dur (ops @ [op]) = (if dur d = 0 then ttl_spec dur ops else (ttl_spec dur ops)(k0 \<mapsto> (v0, t0 + dur d)))"
    by (simp add: ttl_spec_def op)
  have "get (put t0 k0 v0 d (ttl_runs put empty ops)) t k = Some v"
    using snoc.prems by (simp add: ttl_runs_def op)
  from get_put_cases [OF inv_runs this] snoc.IH [of t k v] show ?case by (auto simp: s)
qed

end

section \<open>DnsCache\<close>

abbreviation "DNS_CACHE_MAX \<equiv> (2048 :: nat)"
abbreviation "NANOS_PER_SEC \<equiv> (1000000000 :: nat)"

record CacheEntry =
  ce_response :: "u8 list"
  ce_expires :: nat

type_synonym cache_key = "string \<times> u16 \<times> bool \<times> bool"

record DnsCache =
  dc_entries :: "(cache_key \<times> CacheEntry) list"

definition DnsCache_new :: DnsCache where
  "DnsCache_new = \<lparr>dc_entries = []\<rparr>"

definition DnsCache_get :: "DnsCache \<Rightarrow> nat \<Rightarrow> cache_key \<Rightarrow> u8 list option" where
  "DnsCache_get c now k =
     (case map_of (dc_entries c) k of
        None \<Rightarrow> None
      | Some e \<Rightarrow> if now < ce_expires e then Some (ce_response e) else None)"

text \<open>The clean-up of a full cache: expired entries, and everything if that is not enough.\<close>

definition make_room :: "nat \<Rightarrow> (cache_key \<times> CacheEntry) list \<Rightarrow> (cache_key \<times> CacheEntry) list" where
  "make_room now es =
     (if length es \<ge> DNS_CACHE_MAX
      then (let live = filter (\<lambda>(k, e). now < ce_expires e) es
            in if length live \<ge> DNS_CACHE_MAX then [] else live)
      else es)"

definition DnsCache_insert :: "nat \<Rightarrow> cache_key \<Rightarrow> u8 list \<Rightarrow> u32 \<Rightarrow> DnsCache \<Rightarrow> DnsCache" where
  "DnsCache_insert now k response ttl c =
     (if ttl = 0 then c
      else c\<lparr>dc_entries := map_insert k \<lparr>ce_response = response, ce_expires = now + unat ttl * NANOS_PER_SEC\<rparr>
               (make_room now (dc_entries c))\<rparr>)"

definition dns_cache_inv :: "DnsCache \<Rightarrow> bool" where
  "dns_cache_inv c \<longleftrightarrow> distinct (map fst (dc_entries c)) \<and> length (dc_entries c) \<le> DNS_CACHE_MAX"

section \<open>The cache implements the interface\<close>

lemma make_room_sub: "distinct (map fst es) \<Longrightarrow> map_of (make_room now es) k = Some e \<Longrightarrow> map_of es k = Some e"
proof -
  assume d: "distinct (map fst es)" and "map_of (make_room now es) k = Some e"
  then have "(k, e) \<in> set es"
    by (auto simp: make_room_def Let_def dest!: map_of_SomeD split: if_splits)
  with d show ?thesis by simp
qed

lemma length_map_insert: "length (map_insert k v m) \<le> Suc (length m)"
  by (simp add: map_insert_def length_filter_le)

lemma make_room_inv:
  "distinct (map fst es) \<Longrightarrow> distinct (map fst (make_room now es))"
  "length es \<le> DNS_CACHE_MAX \<Longrightarrow> length (make_room now es) < DNS_CACHE_MAX"
  by (auto simp: make_room_def Let_def distinct_map_filter not_le)

lemma dns_cache_inv_new: "dns_cache_inv DnsCache_new"
  by (simp add: dns_cache_inv_def DnsCache_new_def)

lemma dns_cache_inv_insert: "dns_cache_inv c \<Longrightarrow> dns_cache_inv (DnsCache_insert now k r ttl c)"
proof -
  assume i: "dns_cache_inv c"
  let ?m = "make_room now (dc_entries c)"
  have "distinct (map fst ?m)" "length ?m < DNS_CACHE_MAX"
    using i make_room_inv [of "dc_entries c" now] by (simp_all add: dns_cache_inv_def)
  moreover from this have "length (map_insert k e ?m) \<le> DNS_CACHE_MAX" for e
    using length_map_insert [of k e ?m] by simp
  ultimately show ?thesis using i by (auto simp: DnsCache_insert_def dns_cache_inv_def map_insert_distinct)
qed

lemma DnsCache_get_insert_same:
  "ttl \<noteq> 0 \<Longrightarrow> DnsCache_get (DnsCache_insert t k r ttl c) t' k
     = (if t' < t + unat ttl * NANOS_PER_SEC then Some r else None)"
  by (simp add: DnsCache_get_def DnsCache_insert_def)

lemma DnsCache_get_insert_other:
  assumes "dns_cache_inv c" "k' \<noteq> k" "DnsCache_get (DnsCache_insert t k r ttl c) t' k' = Some w"
  shows "DnsCache_get c t' k' = Some w"
proof (cases "ttl = 0")
  case False
  then obtain e where "map_of (make_room t (dc_entries c)) k' = Some e" "t' < ce_expires e" "w = ce_response e"
    using assms(2,3) by (auto simp: DnsCache_get_def DnsCache_insert_def split: option.splits if_splits)
  moreover from this have "map_of (dc_entries c) k' = Some e"
    using assms(1) make_room_sub by (auto simp: dns_cache_inv_def simp del: map_of_eq_Some_iff)
  ultimately show ?thesis by (simp add: DnsCache_get_def del: map_of_eq_Some_iff)
qed (use assms(3) in \<open>simp add: DnsCache_insert_def\<close>)

definition ttl_nanos :: "u32 \<Rightarrow> nat" where
  "ttl_nanos ttl = unat ttl * NANOS_PER_SEC"

interpretation ttl_store: ttl_cache DnsCache_get DnsCache_insert DnsCache_new ttl_nanos dns_cache_inv
proof
  show "DnsCache_get DnsCache_new t k = None" for t k
    by (simp add: DnsCache_get_def DnsCache_new_def)
  show "ttl_nanos d = 0 \<Longrightarrow> DnsCache_insert t k v d c = c" for d t k v c
    by (simp add: ttl_nanos_def DnsCache_insert_def unat_eq_zero)
  show "0 < ttl_nanos d \<Longrightarrow> DnsCache_get (DnsCache_insert t k v d c) t' k = (if t' < t + ttl_nanos d then Some v else None)"
    for d t k v c t'
    using DnsCache_get_insert_same [of d t k v c t'] by (auto simp: ttl_nanos_def unat_gt_0)
qed (fact dns_cache_inv_new dns_cache_inv_insert DnsCache_get_insert_other)+

text \<open>
  C27: the DNS cache refines the table of the last stored responses.  After any sequence of
  insertions from the empty cache it holds at most 2048 entries, and whatever it returns is the
  response stored last under exactly that name, type and EDNS flags, not yet past its TTL.
\<close>

theorem dns_cache_refines:
  assumes "DnsCache_get (ttl_runs DnsCache_insert DnsCache_new ops) t k = Some r"
  shows "(\<exists>e. ttl_spec ttl_nanos ops k = Some (r, e) \<and> t < e)
    \<and> length (dc_entries (ttl_runs DnsCache_insert DnsCache_new ops)) \<le> DNS_CACHE_MAX"
  using ttl_store.refines [OF assms] ttl_store.inv_runs [of ops] by (simp add: dns_cache_inv_def)

theorem dns_cache_refines_witness:
  "let ops = [(0, (''a'', 1, False, False), [1, 2], 5), (7, (''a'', 1, False, False), [3], 60), (8, (''a'', 1, True, False), [4], 9)];
       c = ttl_runs DnsCache_insert DnsCache_new ops
   in DnsCache_get c 50000000000 (''a'', 1, False, False) = Some [3]
      \<and> (\<exists>e. ttl_spec ttl_nanos ops (''a'', 1, False, False) = Some ([3], e) \<and> 50000000000 < e)
      \<and> length (dc_entries c) \<le> DNS_CACHE_MAX"
proof -
  let ?ops = "[(0, (''a'', 1, False, False), [1, 2], 5), (7, (''a'', 1, False, False), [3], 60), (8, (''a'', 1, True, False), [4], 9)]"
  have "DnsCache_get (ttl_runs DnsCache_insert DnsCache_new ?ops) 50000000000 (''a'', 1, False, False) = Some [3]" by code_simp
  with dns_cache_refines [OF this] show ?thesis by (simp add: Let_def)
qed

text \<open>An insertion into a cache that is not full keeps every other entry.\<close>

lemma insert_keeps_others:
  "length (dc_entries c) < DNS_CACHE_MAX \<Longrightarrow> k' \<noteq> k \<Longrightarrow> DnsCache_get (DnsCache_insert t k r ttl c) t' k' = DnsCache_get c t' k'"
  by (simp add: DnsCache_get_def DnsCache_insert_def make_room_def)

end
