(* ===== verification/Dns_Forward.thy ===== *)
theory Dns_Forward
  imports Dns_Cache Routing_Compile
begin

text \<open>
  The DNS forwarder, \<^verbatim>\<open>control/src/net/dns.rs\<close>, with the route table it derives from the routing
  rules (\<^verbatim>\<open>build_dns_domain_routes\<close> of \<^verbatim>\<open>control/src/routing/matcher.rs\<close>).  The network is a
  parameter: what a direct query returns, what the dialer of a group does, which datagrams a session
  delivers before the timeout.  Other queries run while one waits; what they do to the shared state
  is the argument \<open>others\<close>.
\<close>

section \<open>Domain routes\<close>

datatype DnsOutbound = DnsDirect | DnsBlock | DnsGroup string

record DnsDomainRoute =
  dr_matcher :: CompiledDomainSet
  dr_outbound :: DnsOutbound

definition dns_outbound_of :: "string \<Rightarrow> DnsOutbound" where
  "dns_outbound_of name =
     (if name = ''direct'' then DnsDirect else if name = ''block'' then DnsBlock else DnsGroup name)"

text \<open>The patterns of one function; \<open>None\<close> where a rule set is missing and the rule is skipped.\<close>

fun dns_patterns :: "RuleSetCache option \<Rightarrow> string list \<Rightarrow> DomainPattern list option" where
  "dns_patterns cache [] = Some []"
| "dns_patterns cache (raw # raws) =
     (case parse_ref raw of
        SetRef name \<Rightarrow>
          (case cache of
             None \<Rightarrow> None
           | Some c \<Rightarrow>
               (case get_set_domains c name of
                  Some pats \<Rightarrow> map_option (\<lambda>rest. pats @ rest) (dns_patterns cache raws)
                | None \<Rightarrow> None))
      | PlainRef v \<Rightarrow> map_option (\<lambda>rest. domain_strings_to_patterns [v] @ rest) (dns_patterns cache raws))"

fun dns_rule_patterns :: "RuleSetCache option \<Rightarrow> Function list \<Rightarrow> DomainPattern list option" where
  "dns_rule_patterns cache [] = Some []"
| "dns_rule_patterns cache (f # fs) =
     (if is_domain_function f
      then (case dns_patterns cache (fn_params f) of
              None \<Rightarrow> None
            | Some ps \<Rightarrow> map_option (\<lambda>rest. ps @ rest) (dns_rule_patterns cache fs))
      else dns_rule_patterns cache fs)"

fun dns_routes_loop :: "RuleSetCache option \<Rightarrow> NormalizedRule list \<Rightarrow> DnsDomainRoute list run" where
  "dns_routes_loop cache [] = Ret []"
| "dns_routes_loop cache (rule # rules) =
     (case dns_rule_patterns cache (nr_functions rule) of
        None \<Rightarrow> dns_routes_loop cache rules
      | Some patterns \<Rightarrow>
          if \<not> list_ex is_domain_function (nr_functions rule) \<or> patterns = []
          then dns_routes_loop cache rules
          else run_bind (CompiledDomainSet_compile patterns) (\<lambda>m.
               run_bind (dns_routes_loop cache rules) (\<lambda>routes.
                 Ret (\<lparr>dr_matcher = m, dr_outbound = dns_outbound_of (ob_name (nr_outbound rule))\<rparr> # routes))))"

definition build_dns_domain_routes ::
    "RoutingConfig \<Rightarrow> RuleSetCache option \<Rightarrow> (RouteError + DnsDomainRoute list) run" where
  "build_dns_domain_routes routing cache =
     try_bind (Ret (from_config routing)) (\<lambda>program.
       run_bind (dns_routes_loop cache (np_rules program)) (\<lambda>routes. Ret (Inr routes)))"

definition dns_outbound_from_action :: "string \<Rightarrow> RouteError + DnsOutbound" where
  "dns_outbound_from_action action =
     res_bind (parse_action action) (\<lambda>outbound. Inr (dns_outbound_of (ob_name outbound)))"

fun route_domain :: "regex_engine \<Rightarrow> DnsDomainRoute list \<Rightarrow> DnsOutbound \<Rightarrow> string \<Rightarrow> DnsOutbound run" where
  "route_domain rx [] fallback qname = Ret fallback"
| "route_domain rx (route # routes) fallback qname =
     run_bind (CompiledDomainSet_matches rx (dr_matcher route) qname) (\<lambda>m.
       if m then Ret (dr_outbound route) else route_domain rx routes fallback qname)"

section \<open>Server addresses\<close>

datatype SocketAddr = SockV4 u32 u16 | SockV6 u128 u16 u32

fun SocketAddr_new :: "IpAddr \<Rightarrow> u16 \<Rightarrow> SocketAddr" where
  "SocketAddr_new (IpV4 a) port = SockV4 a port"
| "SocketAddr_new (IpV6 a) port = SockV6 a port 0"

text \<open>\<^verbatim>\<open>str::parse::<SocketAddr>\<close>: \<^verbatim>\<open>a.b.c.d:port\<close> or \<^verbatim>\<open>[v6]:port\<close>, with an optional \<^verbatim>\<open>%scope\<close>.\<close>

definition read_port :: "string \<Rightarrow> (nat \<times> string) option" where
  "read_port s = (case s of c # cs \<Rightarrow> if c = CHR '':'' then read_number 10 (length cs) True 65535 cs else None | [] \<Rightarrow> None)"

definition read_scope_id :: "string \<Rightarrow> nat \<times> string" where
  "read_scope_id s =
     (case s of
        c # cs \<Rightarrow> if c = CHR ''%'' then (case read_number 10 (length cs) True 4294967295 cs of Some r \<Rightarrow> r | None \<Rightarrow> (0, s)) else (0, s)
      | [] \<Rightarrow> (0, s))"

definition parse_socket_addr :: "string \<Rightarrow> SocketAddr option" where
  "parse_socket_addr s =
     (case Option.bind (read_ipv4_addr s) (\<lambda>(os, s1). whole (map_option (\<lambda>(p, r). ((os, p), r)) (read_port s1))) of
        Some (os, p) \<Rightarrow> Some (SockV4 (of_nat (be_value 256 os)) (of_nat p))
      | None \<Rightarrow>
          (case s of
             c # cs \<Rightarrow>
               if c \<noteq> CHR ''['' then None
               else Option.bind (read_ipv6_addr cs) (\<lambda>(gs, s1).
                 let (scope, s2) = read_scope_id s1
                 in case s2 of
                      d # ds \<Rightarrow> if d = CHR '']'' then map_option (\<lambda>p. SockV6 (of_nat (be_value 65536 gs)) (of_nat p) (of_nat scope))
                                                      (whole (read_port ds)) else None
                    | [] \<Rightarrow> None)
           | [] \<Rightarrow> None))"

fun parse_servers :: "string list \<Rightarrow> string + SocketAddr list" where
  "parse_servers [] = Inr []"
| "parse_servers (s0 # rest) =
     (let s = trim s0
      in if s = [] then parse_servers rest
         else (case parse_ip_addr s of
                 Some ip \<Rightarrow> res_bind (parse_servers rest) (\<lambda>out. Inr (SocketAddr_new ip 53 # out))
               | None \<Rightarrow>
                   (case parse_socket_addr s of
                      Some sa \<Rightarrow> res_bind (parse_servers rest) (\<lambda>out. Inr (sa # out))
                    | None \<Rightarrow> Inl s)))"

definition resolv_line :: "string \<Rightarrow> SocketAddr option" where
  "resolv_line line0 =
     (case strip_prefix ''nameserver'' (trim line0) of
        None \<Rightarrow> None
      | Some rest \<Rightarrow>
          (let ns = trim rest
           in case parse_ip_addr ns of
                Some ip \<Rightarrow> Some (SocketAddr_new ip 53)
              | None \<Rightarrow> parse_socket_addr ns))"

text \<open>The content of \<^verbatim>\<open>/etc/resolv.conf\<close> is the argument; \<open>None\<close> when it cannot be read.\<close>

definition read_system_dns :: "string option \<Rightarrow> SocketAddr list" where
  "read_system_dns content = (case content of None \<Rightarrow> [] | Some c \<Rightarrow> List.map_filter resolv_line (lines c))"

section \<open>The forwarder\<close>

text \<open>Failures of the network and of the configuration, by the step that reports them.\<close>

datatype DnsError =
  UnparseableQuery | NoDirectUpstream | DirectFailed string | DirectTimeout
| DialFailed string | SendFailed string | RecvFailed string | ProxyTimeout

text \<open>
  The configuration of the forwarder and the parts of the network it calls: \<open>nw_direct\<close> is a whole
  direct exchange; \<open>nw_node\<close> the node a group dialer would use (absent for other dialers);
  \<open>nw_recv\<close> the results of successive \<^verbatim>\<open>recv\<close> calls before the timeout.
\<close>

record DnsForwarder =
  df_proxy_dns_servers :: "SocketAddr list"
  df_direct_dns_servers :: "SocketAddr list"
  df_direct_use_system_dns :: bool
  df_enable_cache :: bool
  df_routes :: "DnsDomainRoute list"
  df_group_dialers :: "string list"
  df_fallback :: DnsOutbound

record 's dns_net =
  nw_resolv_conf :: "string option"
  nw_direct :: "SocketAddr \<Rightarrow> u8 list \<Rightarrow> DnsError + u8 list"
  nw_node :: "string \<Rightarrow> string option"
  nw_dial :: "string \<Rightarrow> DnsError + 's"
  nw_send :: "'s \<Rightarrow> SocketAddr \<Rightarrow> u8 list \<Rightarrow> string option"
  nw_recv :: "'s \<Rightarrow> u8 list \<Rightarrow> (string + SocketAddr \<times> u8 list) list"

text \<open>The shared state: one cache for each outbound, one session for each group.\<close>

record 's dns_state =
  st_caches :: "(string \<times> DnsCache) list"
  st_sessions :: "(string \<times> string \<times> 's) list"

definition pick_direct_server :: "DnsForwarder \<Rightarrow> 's dns_net \<Rightarrow> DnsError + SocketAddr" where
  "pick_direct_server f net =
     (case df_direct_dns_servers f of
        addr # _ \<Rightarrow> Inr addr
      | [] \<Rightarrow> if df_direct_use_system_dns f
              then (case read_system_dns (nw_resolv_conf net) of addr # _ \<Rightarrow> Inr addr | [] \<Rightarrow> Inl NoDirectUpstream)
              else Inl NoDirectUpstream)"

definition query_key :: "DnsQuery \<Rightarrow> cache_key" where
  "query_key q = (dq_qname q, dq_qtype q, dq_has_edns q, dq_do_bit q)"

text \<open>\<^verbatim>\<open>get_cache\<close> creates an empty cache on first use; \<open>cache_of\<close> is what it returns.\<close>

definition cache_of :: "'s dns_state \<Rightarrow> string \<Rightarrow> DnsCache" where
  "cache_of st ob = (case map_of (st_caches st) ob of Some c \<Rightarrow> c | None \<Rightarrow> DnsCache_new)"

definition get_cache :: "string \<Rightarrow> 's dns_state \<Rightarrow> 's dns_state" where
  "get_cache ob st =
     (case map_of (st_caches st) ob of
        Some c \<Rightarrow> st
      | None \<Rightarrow> st\<lparr>st_caches := map_insert ob DnsCache_new (st_caches st)\<rparr>)"

definition cached_lookup :: "DnsForwarder \<Rightarrow> nat \<Rightarrow> DnsCache \<Rightarrow> DnsQuery \<Rightarrow> u8 list option" where
  "cached_lookup f now cache q =
     (if \<not> df_enable_cache f then None
      else map_option (\<lambda>resp. rewrite_response_id resp (dq_id q)) (DnsCache_get cache now (query_key q)))"

definition cache_store :: "DnsForwarder \<Rightarrow> nat \<Rightarrow> string \<Rightarrow> DnsQuery \<Rightarrow> u8 list \<Rightarrow> 's dns_state \<Rightarrow> 's dns_state run" where
  "cache_store f now ob q response st =
     (if \<not> df_enable_cache f then Ret st
      else run_bind (parse_response_min_ttl response) (\<lambda>r. case r of
             None \<Rightarrow> Ret st
           | Some ttl \<Rightarrow> Ret (st\<lparr>st_caches := map_insert ob (DnsCache_insert now (query_key q) response ttl (cache_of st ob))
                                               (st_caches st)\<rparr>)))"

fun recv_loop :: "SocketAddr \<Rightarrow> (string + SocketAddr \<times> u8 list) list \<Rightarrow> DnsError + u8 list" where
  "recv_loop server [] = Inl ProxyTimeout"
| "recv_loop server (Inl e # rs) = Inl (RecvFailed e)"
| "recv_loop server (Inr (from_addr, payload) # rs) = (if from_addr = server then Inr payload else recv_loop server rs)"

definition drop_session :: "string \<Rightarrow> 's dns_state \<Rightarrow> 's dns_state" where
  "drop_session grp st = st\<lparr>st_sessions := filter (\<lambda>(g, _). g \<noteq> grp) (st_sessions st)\<rparr>"

definition proxy_session :: "'s dns_net \<Rightarrow> string \<Rightarrow> 's dns_state \<Rightarrow> (DnsError + 's) \<times> 's dns_state" where
  "proxy_session net grp st =
     (let node_key = (case nw_node net grp of Some n \<Rightarrow> n | None \<Rightarrow> [])
      in case map_of (st_sessions st) grp of
           Some (stored_node, s) \<Rightarrow>
             if node_key = [] \<or> stored_node = node_key then (Inr s, st)
             else (case nw_dial net grp of
                     Inl e \<Rightarrow> (Inl e, drop_session grp st)
                   | Inr s' \<Rightarrow> (Inr s', (drop_session grp st)\<lparr>st_sessions := map_insert grp (node_key, s') (st_sessions (drop_session grp st))\<rparr>))
         | None \<Rightarrow>
             (case nw_dial net grp of
                Inl e \<Rightarrow> (Inl e, drop_session grp st)
              | Inr s' \<Rightarrow> (Inr s', (drop_session grp st)\<lparr>st_sessions := map_insert grp (node_key, s') (st_sessions (drop_session grp st))\<rparr>)))"

definition forward_via_proxy ::
    "'s dns_net \<Rightarrow> string \<Rightarrow> u8 list \<Rightarrow> SocketAddr \<Rightarrow> 's dns_state \<Rightarrow> (DnsError + u8 list) \<times> 's dns_state" where
  "forward_via_proxy net grp query server st =
     (case proxy_session net grp st of
        (Inl e, st1) \<Rightarrow> (Inl e, st1)
      | (Inr s, st1) \<Rightarrow>
          (case nw_send net s server query of
             Some e \<Rightarrow> (Inl (SendFailed e), drop_session grp st1)
           | None \<Rightarrow>
               (let r = recv_loop server (nw_recv net s query)
                in (r, case r of Inl (RecvFailed e) \<Rightarrow> drop_session grp st1 | _ \<Rightarrow> st1))))"

section \<open>Resolving a query\<close>

text \<open>The points where a query waits and the others run.\<close>

datatype await = AwaitFlight | AwaitLock | AwaitProxy | AwaitDirect

text \<open>
  \<open>flying\<close> says whether another query with the same key is in flight when this one registers, and
  \<open>clock\<close> gives the time of the first lookup, of the second one and of the store.
\<close>

record 's dns_task =
  tk_flying :: bool
  tk_others :: "await \<Rightarrow> 's dns_state \<Rightarrow> 's dns_state"
  tk_clock :: "nat \<Rightarrow> nat"

type_synonym 's answer = "((DnsError + u8 list) \<times> 's dns_state) run"

text \<open>Ask the server, then store the answer in the cache of \<open>direct\<close>.\<close>

definition ask_direct :: "DnsForwarder \<Rightarrow> 's dns_net \<Rightarrow> 's dns_task \<Rightarrow> DnsQuery \<Rightarrow> u8 list \<Rightarrow> SocketAddr \<Rightarrow> 's dns_state \<Rightarrow> 's answer" where
  "ask_direct f net tk q query server st =
     (let st1 = tk_others tk AwaitDirect st
      in case nw_direct net server query of
           Inl e \<Rightarrow> Ret (Inl e, st1)
         | Inr response \<Rightarrow>
             run_bind (cache_store f (tk_clock tk 2) ''direct'' q response st1) (\<lambda>st2. Ret (Inr response, st2)))"

definition fallback_direct :: "DnsForwarder \<Rightarrow> 's dns_net \<Rightarrow> 's dns_task \<Rightarrow> DnsQuery \<Rightarrow> u8 list \<Rightarrow> 's dns_state \<Rightarrow> 's answer" where
  "fallback_direct f net tk q query st =
     (case pick_direct_server f net of
        Inl e \<Rightarrow> Ret (Inl e, st)
      | Inr server \<Rightarrow> ask_direct f net tk q query server (get_cache ''direct'' st))"

definition resolve_direct :: "DnsForwarder \<Rightarrow> 's dns_net \<Rightarrow> 's dns_task \<Rightarrow> DnsQuery \<Rightarrow> u8 list \<Rightarrow> 's dns_state \<Rightarrow> 's answer" where
  "resolve_direct f net tk q query st =
     (case pick_direct_server f net of
        Inl e \<Rightarrow> Ret (Inl e, st)
      | Inr server \<Rightarrow>
          (let st1 = get_cache ''direct'' st
           in case cached_lookup f (tk_clock tk 0) (cache_of st1 ''direct'') q of
                Some resp \<Rightarrow> Ret (Inr resp, st1)
              | None \<Rightarrow>
                  if tk_flying tk
                  then (let st2 = tk_others tk AwaitFlight st1
                        in case cached_lookup f (tk_clock tk 1) (cache_of st2 ''direct'') q of
                             Some resp \<Rightarrow> Ret (Inr resp, st2)
                           | None \<Rightarrow> ask_direct f net tk q query server st2)
                  else ask_direct f net tk q query server st1))"

definition group_key :: "string \<Rightarrow> string" where
  "group_key grp = ''group:'' @ grp"

definition resolve_group :: "DnsForwarder \<Rightarrow> 's dns_net \<Rightarrow> 's dns_task \<Rightarrow> string \<Rightarrow> DnsQuery \<Rightarrow> u8 list \<Rightarrow> 's dns_state \<Rightarrow> 's answer" where
  "resolve_group f net tk grp q query st =
     (let ck = group_key grp; st1 = get_cache ck st
      in case cached_lookup f (tk_clock tk 0) (cache_of st1 ck) q of
           Some resp \<Rightarrow> Ret (Inr resp, st1)
         | None \<Rightarrow>
             if grp \<notin> set (df_group_dialers f) then fallback_direct f net tk q query st1
             else (case df_proxy_dns_servers f of
                     [] \<Rightarrow> fallback_direct f net tk q query st1
                   | server # _ \<Rightarrow>
                       (let st2 = tk_others tk AwaitLock st1
                        in case cached_lookup f (tk_clock tk 1) (cache_of st2 ck) q of
                             Some resp \<Rightarrow> Ret (Inr resp, st2)
                           | None \<Rightarrow>
                               (let (r, st3) = forward_via_proxy net grp query server st2;
                                    st4 = tk_others tk AwaitProxy st3
                                in case r of
                                     Inl e \<Rightarrow> fallback_direct f net tk q query st4
                                   | Inr response \<Rightarrow>
                                       run_bind (cache_store f (tk_clock tk 2) ck q response st4)
                                         (\<lambda>st5. Ret (Inr response, st5))))))"

definition resolve :: "regex_engine \<Rightarrow> DnsForwarder \<Rightarrow> 's dns_net \<Rightarrow> 's dns_task \<Rightarrow> u8 list \<Rightarrow> 's dns_state \<Rightarrow> 's answer" where
  "resolve rx f net tk query st =
     run_bind (parse_dns_query query) (\<lambda>p. case p of
       None \<Rightarrow> Ret (Inl UnparseableQuery, st)
     | Some q \<Rightarrow>
         run_bind (route_domain rx (df_routes f) (df_fallback f) (dq_qname q)) (\<lambda>ob. case ob of
           DnsBlock \<Rightarrow> Ret (Inr (build_error_response query 3), st)
         | DnsDirect \<Rightarrow> resolve_direct f net tk q query st
         | DnsGroup grp \<Rightarrow> resolve_group f net tk grp q query st))"

section \<open>Routes follow the rules\<close>

fun dns_route_spec :: "regex_engine \<Rightarrow> RuleSetCache option \<Rightarrow> NormalizedRule list \<Rightarrow> DnsOutbound \<Rightarrow> string \<Rightarrow> DnsOutbound" where
  "dns_route_spec rx cache [] fallback qname = fallback"
| "dns_route_spec rx cache (rule # rules) fallback qname =
     (case dns_rule_patterns cache (nr_functions rule) of
        Some ps \<Rightarrow> if match_domain_patterns rx qname ps then dns_outbound_of (ob_name (nr_outbound rule))
                   else dns_route_spec rx cache rules fallback qname
      | None \<Rightarrow> dns_route_spec rx cache rules fallback qname)"

definition dns_patterns_ok :: "RuleSetCache option \<Rightarrow> NormalizedRule list \<Rightarrow> bool" where
  "dns_patterns_ok cache rules \<longleftrightarrow>
     list_all (\<lambda>rule. case dns_rule_patterns cache (nr_functions rule) of Some ps \<Rightarrow> compilable_patterns ps | None \<Rightarrow> True) rules"

lemma dns_rule_patterns_domain:
  "dns_rule_patterns cache fs = Some ps \<Longrightarrow> ps \<noteq> [] \<Longrightarrow> list_ex is_domain_function fs"
  by (induction fs arbitrary: ps) (auto split: if_splits option.splits)

lemma match_no_patterns [simp]: "\<not> match_domain_patterns rx qname []"
  by (simp add: match_domain_patterns_def)

lemma dns_routes_loop_spec:
  assumes "dns_patterns_ok cache rules" "normalize_qname qname \<noteq> []"
  shows "\<exists>routes. dns_routes_loop cache rules = Ret routes
    \<and> route_domain rx routes fallback qname = Ret (dns_route_spec rx cache rules fallback qname)"
  using assms(1)
proof (induction rules)
  case Nil
  then show ?case by simp
next
  case (Cons rule rules)
  then obtain routes where IH: "dns_routes_loop cache rules = Ret routes"
      "route_domain rx routes fallback qname = Ret (dns_route_spec rx cache rules fallback qname)"
    by (auto simp: dns_patterns_ok_def)
  show ?case
  proof (cases "dns_rule_patterns cache (nr_functions rule)")
    case None
    with IH show ?thesis by simp
  next
    case (Some ps)
    show ?thesis
    proof (cases "ps = []")
      case True
      with Some IH show ?thesis by simp
    next
      case False
      with Some Cons.prems have "compilable_patterns ps" by (simp add: dns_patterns_ok_def)
      from domain_set.lookup_eq [OF this assms(2), of rx] obtain m where "CompiledDomainSet_compile ps = Ret m"
          "CompiledDomainSet_matches rx m qname = Ret (match_domain_patterns rx qname ps)"
        by (auto simp: run_bind_eq_Ret match_domain_patterns_def list_ex_iff)
      with Some IH False dns_rule_patterns_domain [OF Some False] show ?thesis by simp
    qed
  qed
qed


definition domain_only :: "Function list \<Rightarrow> Function list" where
  "domain_only fs = map (\<lambda>f. f\<lparr>fn_not := False\<rparr>) (filter is_domain_function fs)"

lemma dns_rule_patterns_only: "dns_rule_patterns cache (domain_only fs) = dns_rule_patterns cache fs"
  by (induction fs) (auto simp: domain_only_def is_domain_function_def split: option.splits)

text \<open>
  the route table ignores everything but the patterns.  A negated domain condition, and a
  domain condition combined with a port, send the listed names through the outbound of the rule as if
  the rule had the plain domain condition only.
\<close>

theorem dns_route_ignores_conditions:
  "dns_route_spec rx cache (map (\<lambda>r. r\<lparr>nr_functions := domain_only (nr_functions r)\<rparr>) rules) fallback qname
   = dns_route_spec rx cache rules fallback qname"
  by (induction rules) (auto simp: dns_rule_patterns_only split: option.splits)

section \<open>Where an answer comes from\<close>

text \<open>\<open>P ob k r\<close>: the response \<open>r\<close> may be given to queries with key \<open>k\<close> sent over \<open>ob\<close>.\<close>

definition entries_ok :: "(cache_key \<Rightarrow> u8 list \<Rightarrow> bool) \<Rightarrow> DnsCache \<Rightarrow> bool" where
  "entries_ok Q c \<longleftrightarrow> dns_cache_inv c \<and> (\<forall>t k r. DnsCache_get c t k = Some r \<longrightarrow> Q k r)"

definition caches_ok :: "(string \<Rightarrow> cache_key \<Rightarrow> u8 list \<Rightarrow> bool) \<Rightarrow> 's dns_state \<Rightarrow> bool" where
  "caches_ok P st \<longleftrightarrow> (\<forall>ob c. map_of (st_caches st) ob = Some c \<longrightarrow> entries_ok (P ob) c)"

lemma caches_ok_cong: "st_caches st = st_caches st' \<Longrightarrow> caches_ok P st = caches_ok P st'"
  by (simp add: caches_ok_def)

lemma entries_ok_new: "entries_ok Q DnsCache_new"
  unfolding entries_ok_def using dns_cache_inv_new ttl_store.get_empty by simp

lemma entries_ok_get: "entries_ok Q c \<Longrightarrow> DnsCache_get c t k = Some r \<Longrightarrow> Q k r"
  unfolding entries_ok_def by blast

lemma entries_ok_insert: "entries_ok Q c \<Longrightarrow> Q k r \<Longrightarrow> entries_ok Q (DnsCache_insert t k r ttl c)"
  unfolding entries_ok_def using ttl_store.get_put_cases dns_cache_inv_insert by blast

lemma cache_of_ok: "caches_ok P st \<Longrightarrow> entries_ok (P ob) (cache_of st ob)"
  by (auto simp: caches_ok_def cache_of_def entries_ok_new split: option.splits)

lemma caches_ok_get_cache: "caches_ok P st \<Longrightarrow> caches_ok P (get_cache ob st)"
  by (auto simp: caches_ok_def get_cache_def entries_ok_new split: option.splits)

lemma caches_ok_store:
  assumes "caches_ok P st" "P ob (query_key q) r" "cache_store f now ob q r st = Ret st'"
  shows "caches_ok P st'"
  using assms entries_ok_insert [where t = now, OF cache_of_ok [OF assms(1)] assms(2)]
  by (auto simp: cache_store_def caches_ok_def run_bind_eq_Ret split: if_splits option.splits)

lemma forward_keeps_caches: "forward_via_proxy net grp query server st = (r, st') \<Longrightarrow> st_caches st' = st_caches st"
  by (auto simp: forward_via_proxy_def proxy_session_def drop_session_def Let_def
      split: option.splits sum.splits prod.splits if_splits DnsError.splits)

lemma cached_lookup_ok:
  "caches_ok P st \<Longrightarrow> cached_lookup f now (cache_of st ob) q = Some r
    \<Longrightarrow> \<exists>r0. P ob (query_key q) r0 \<and> r = rewrite_response_id r0 (dq_id q)"
  using entries_ok_get [OF cache_of_ok, of P st ob now "query_key q"] by (auto simp: cached_lookup_def split: if_splits)

text \<open>
  What a query may rely on and must keep: the replies of the network answer the query, and the other
  queries keep the caches good.
\<close>

definition answer_ok :: "(string \<Rightarrow> cache_key \<Rightarrow> u8 list \<Rightarrow> bool) \<Rightarrow> string set \<Rightarrow> DnsQuery \<Rightarrow> u8 list \<Rightarrow> bool" where
  "answer_ok P obs q r \<longleftrightarrow> (\<exists>ob \<in> obs. \<exists>r0. P ob (query_key q) r0 \<and> (r = r0 \<or> r = rewrite_response_id r0 (dq_id q)))"

definition post_ok :: "(string \<Rightarrow> cache_key \<Rightarrow> u8 list \<Rightarrow> bool) \<Rightarrow> string set \<Rightarrow> DnsQuery \<Rightarrow> 's answer \<Rightarrow> bool" where
  "post_ok P obs q a \<longleftrightarrow> (\<forall>res st. a = Ret (res, st) \<longrightarrow> caches_ok P st \<and> (\<forall>r. res = Inr r \<longrightarrow> answer_ok P obs q r))"

definition net_ok :: "(string \<Rightarrow> cache_key \<Rightarrow> u8 list \<Rightarrow> bool) \<Rightarrow> 's dns_net \<Rightarrow> DnsQuery \<Rightarrow> u8 list \<Rightarrow> bool" where
  "net_ok P net q query \<longleftrightarrow>
     (\<forall>server r. nw_direct net server query = Inr r \<longrightarrow> P ''direct'' (query_key q) r)
     \<and> (\<forall>grp s server r. Inr (server, r) \<in> set (nw_recv net s query) \<longrightarrow> P (group_key grp) (query_key q) r)"

definition others_ok :: "(string \<Rightarrow> cache_key \<Rightarrow> u8 list \<Rightarrow> bool) \<Rightarrow> 's dns_task \<Rightarrow> bool" where
  "others_ok P tk \<longleftrightarrow> (\<forall>a st. caches_ok P st \<longrightarrow> caches_ok P (tk_others tk a st))"

lemma post_ok_error [simp]: "post_ok P obs q (Ret (Inl e, st)) \<longleftrightarrow> caches_ok P st"
  by (simp add: post_ok_def)

lemma post_ok_cached:
  "caches_ok P st \<Longrightarrow> caches_ok P st' \<Longrightarrow> cached_lookup f t (cache_of st ob) q = Some r \<Longrightarrow> ob \<in> obs
    \<Longrightarrow> post_ok P obs q (Ret (Inr r, st'))"
  using cached_lookup_ok [of P st f t ob q r] by (auto simp: post_ok_def answer_ok_def)

lemma post_ok_store:
  "caches_ok P st \<Longrightarrow> P ob (query_key q) r \<Longrightarrow> ob \<in> obs
    \<Longrightarrow> post_ok P obs q (run_bind (cache_store f t ob q r st) (\<lambda>st'. Ret (Inr r, st')))"
  by (auto simp: post_ok_def answer_ok_def run_bind_eq_Ret intro: caches_ok_store)

lemma recv_loop_source: "recv_loop server rs = Inr r \<Longrightarrow> Inr (server, r) \<in> set rs"
  by (induction server rs rule: recv_loop.induct) (auto split: if_splits)

lemma forward_reply:
  "forward_via_proxy net grp query server st = (Inr r, st') \<Longrightarrow> \<exists>s. Inr (server, r) \<in> set (nw_recv net s query)"
  by (auto simp: forward_via_proxy_def Let_def dest: recv_loop_source split: prod.splits sum.splits option.splits)

lemma ask_direct_ok:
  "caches_ok P st \<Longrightarrow> others_ok P tk \<Longrightarrow> net_ok P net q query \<Longrightarrow> ''direct'' \<in> obs
    \<Longrightarrow> post_ok P obs q (ask_direct f net tk q query server st)"
  unfolding ask_direct_def Let_def
  by (auto simp: others_ok_def net_ok_def intro: post_ok_store split: sum.splits)

lemma fallback_direct_ok:
  "caches_ok P st \<Longrightarrow> others_ok P tk \<Longrightarrow> net_ok P net q query \<Longrightarrow> ''direct'' \<in> obs
    \<Longrightarrow> post_ok P obs q (fallback_direct f net tk q query st)"
  unfolding fallback_direct_def
  by (auto intro: ask_direct_ok caches_ok_get_cache split: sum.splits)

lemma resolve_direct_ok:
  assumes "caches_ok P st" "others_ok P tk" "net_ok P net q query"
  shows "post_ok P {''direct''} q (resolve_direct f net tk q query st)"
proof -
  let ?st1 = "get_cache ''direct'' st"
  have st: "caches_ok P ?st1" "caches_ok P (tk_others tk AwaitFlight ?st1)"
    using assms by (simp_all add: caches_ok_get_cache others_ok_def)
  show ?thesis
    unfolding resolve_direct_def Let_def
    using assms st by (auto intro: ask_direct_ok post_ok_cached split: sum.splits option.splits)
qed

lemma resolve_group_ok:
  assumes "caches_ok P st" "others_ok P tk" "net_ok P net q query"
  shows "post_ok P {group_key grp, ''direct''} q (resolve_group f net tk grp q query st)"
proof -
  let ?st1 = "get_cache (group_key grp) st"
  let ?st2 = "tk_others tk AwaitLock ?st1"
  have st: "caches_ok P ?st1" "caches_ok P ?st2"
    using assms by (simp_all add: caches_ok_get_cache others_ok_def)
  have fw: "caches_ok P (tk_others tk AwaitProxy st3)" if "forward_via_proxy net grp query server ?st2 = (r, st3)" for server r st3
    using caches_ok_cong [OF forward_keeps_caches [OF that]] st(2) assms(2) by (simp add: others_ok_def)
  have rp: "P (group_key grp) (query_key q) r" if "forward_via_proxy net grp query server ?st2 = (Inr r, st3)" for server r st3
    using forward_reply [OF that] assms(3) by (auto simp: net_ok_def)
  show ?thesis
    unfolding resolve_group_def Let_def
    using assms st fw rp
    by (auto intro: fallback_direct_ok post_ok_cached post_ok_store split: option.splits list.splits prod.splits sum.splits)
qed


section \<open>A reply is always found\<close>

lemma cache_store_total: "\<exists>st'. cache_store f now ob q r st = Ret st'"
proof (cases "parse_response_min_ttl r")
  case Panic
  with parse_response_min_ttl_total show ?thesis by blast
qed (auto simp: cache_store_def split: option.splits)

lemma ask_direct_answers:
  "nw_direct net server query = Inr r \<Longrightarrow> \<exists>st'. ask_direct f net tk q query server st = Ret (Inr r, st')"
  using cache_store_total [of f "tk_clock tk 2" "''direct''" q r "tk_others tk AwaitDirect st"] by (auto simp: ask_direct_def Let_def)

lemma resolve_replies:
  assumes "parse_dns_query query = Ret (Some q)" "route_domain rx (df_routes f) (df_fallback f) (dq_qname q) = Ret ob"
    and "pick_direct_server f net = Inr server" "nw_direct net server query = Inr d"
  shows "\<exists>r st'. resolve rx f net tk query st = Ret (Inr r, st')"
proof -
  have fb: "\<exists>r st'. fallback_direct f net tk q query s = Ret (Inr r, st')" for s
    using ask_direct_answers [OF assms(4), of f tk q "get_cache ''direct'' s"] by (auto simp: fallback_direct_def assms(3))
  have dir: "\<exists>r st'. resolve_direct f net tk q query s = Ret (Inr r, st')" for s
    using ask_direct_answers [OF assms(4), of f tk q "get_cache ''direct'' s"]
      ask_direct_answers [OF assms(4), of f tk q "tk_others tk AwaitFlight (get_cache ''direct'' s)"]
    by (auto simp: resolve_direct_def assms(3) Let_def split: option.splits)
  have "\<exists>r st'. resolve_group f net tk grp q query s = Ret (Inr r, st')" for grp s
  proof -
    have "\<exists>r' st'. run_bind (cache_store f (tk_clock tk 2) (group_key grp) q r s') (\<lambda>s''. Ret (Inr r, s'')) = Ret (Inr r', st')" for r s'
      using cache_store_total [of f "tk_clock tk 2" "group_key grp" q r s'] by auto
    with fb show ?thesis
      unfolding resolve_group_def Let_def by (auto split: option.splits list.splits prod.splits sum.splits)
  qed
  with dir show ?thesis by (cases ob) (auto simp: resolve_def assms(1,2))
qed

text \<open>
  C30: a query is not lost when proxies fail.  As long as the direct server answers, every query that
  parses and is routed gets an answer, whatever dialing, sending and receiving through the groups do
  and whatever the other queries do meanwhile, provided a wait for one of them ends.
\<close>

theorem resolve_always_answers:
  assumes "parse_dns_query query = Ret (Some q)" "route_domain rx (df_routes f) (df_fallback f) (dq_qname q) = Ret ob"
    and "pick_direct_server f net = Inr server" "nw_direct net server query = Inr d"
  shows "\<exists>r st'. resolve rx f net tk query st = Ret (Inr r, st')"
  by (rule resolve_replies [OF assms])

text \<open>
  a late reply is taken for the answer to another query.  A session of a group outlives its
  queries and the receive loop compares only the sender with the server.  A datagram that is still
  in the session, whatever id and name it carries, is returned as the answer to the next query of the
  group, and stored under the name of that query for its whole TTL.
\<close>

theorem late_reply_accepted:
  assumes "parse_dns_query query = Ret (Some q)" "route_domain rx (df_routes f) (df_fallback f) (dq_qname q) = Ret (DnsGroup grp)"
    and "grp \<in> set (df_group_dialers f)" "df_proxy_dns_servers f = server # servers" "df_enable_cache f"
    and "map_of (st_sessions st) grp = Some (node, s)" "nw_node net grp = Some node \<or> nw_node net grp = None"
    and "nw_send net s server query = None" "nw_recv net s query = Inr (server, late) # rest"
    and "map_of (st_caches st) (group_key grp) = None" "tk_others tk = (\<lambda>a st. st)"
    and "parse_response_min_ttl late = Ret (Some ttl)" "t < tk_clock tk 2 + ttl_nanos ttl"
  shows "\<exists>st'. resolve rx f net tk query st = Ret (Inr late, st')
    \<and> (ttl \<noteq> 0 \<longrightarrow> DnsCache_get (cache_of st' (group_key grp)) t (query_key q) = Some late)"
proof -
  let ?ck = "group_key grp" and ?st1 = "get_cache (group_key grp) st"
  have c: "cache_of ?st1 ?ck = DnsCache_new" "st_sessions ?st1 = st_sessions st"
    using assms(10) by (simp_all add: cache_of_def get_cache_def)
  then have l: "cached_lookup f now (cache_of ?st1 ?ck) q = None" for now
    by (simp add: cached_lookup_def ttl_store.get_empty)
  have fw: "forward_via_proxy net grp query server ?st1 = (Inr late, ?st1)"
    using assms(6-9) c(2) by (auto simp: forward_via_proxy_def proxy_session_def)
  let ?st2 = "?st1\<lparr>st_caches := map_insert ?ck (DnsCache_insert (tk_clock tk 2) (query_key q) late ttl (cache_of ?st1 ?ck)) (st_caches ?st1)\<rparr>"
  have "resolve rx f net tk query st = Ret (Inr late, ?st2)"
    using assms(3-5,11,12) l fw by (simp add: resolve_def assms(1,2) resolve_group_def Let_def cache_store_def)
  moreover have "DnsCache_get (cache_of ?st2 ?ck) t (query_key q) = Some late" if "ttl \<noteq> 0"
    using ttl_store.get_put_same [of ttl "tk_clock tk 2" "query_key q" late "cache_of ?st1 ?ck" t] assms(13) that
    by (simp add: cache_of_def ttl_nanos_def unat_gt_0)
  ultimately show ?thesis by blast
qed

section \<open>Instances\<close>

text \<open>A forwarder with one group, and a network that answers directly and through a session.\<close>

definition demo_query :: "string \<Rightarrow> u8 list" where
  "demo_query name = enc_query 7 0x0100 [name] 1 1 []"

definition demo_reply :: "u16 \<Rightarrow> string \<Rightarrow> u8 list" where
  "demo_reply ident name = enc_response ident 0x8180 [([name], 1, 1)]
     [\<lparr>rr_name = [name], rr_ptr = None, rr_type = 1, rr_class = 1, rr_ttl = 60, rr_data = [10, 0, 0, 1]\<rparr>] [] 0 []"

definition demo_forwarder :: DnsForwarder where
  "demo_forwarder = \<lparr>df_proxy_dns_servers = [SockV4 1 53], df_direct_dns_servers = [SockV4 2 53], df_direct_use_system_dns = False,
     df_enable_cache = True, df_routes = [], df_group_dialers = [''g''], df_fallback = DnsGroup ''g''\<rparr>"

definition demo_net :: "unit dns_net" where
  "demo_net = \<lparr>nw_resolv_conf = None, nw_direct = (\<lambda>_ _. Inr (demo_reply 7 ''b'')), nw_node = (\<lambda>_. None),
     nw_dial = (\<lambda>_. Inl (DialFailed ''down'')), nw_send = (\<lambda>_ _ _. None),
     nw_recv = (\<lambda>_ _. [Inr (SockV4 1 53, demo_reply 6 ''a'')])\<rparr>"

definition demo_task :: "unit dns_task" where
  "demo_task = \<lparr>tk_flying = False, tk_others = (\<lambda>a st. st), tk_clock = (\<lambda>n. n)\<rparr>"

definition demo_key :: DnsQuery where
  "demo_key = \<lparr>dq_id = 7, dq_qname = ''b'', dq_qtype = 1, dq_has_edns = False, dq_do_bit = False\<rparr>"

lemma demo_facts:
  "parse_dns_query (demo_query ''b'') = Ret (Some demo_key)"
  "parse_response_min_ttl (demo_reply 6 ''a'') = Ret (Some 60)"
  by code_simp+

lemma demo_route: "route_domain rx (df_routes demo_forwarder) (df_fallback demo_forwarder) n = Ret (DnsGroup ''g'')"
  by (simp add: demo_forwarder_def)

theorem late_reply_accepted_witness:
  "\<exists>st'. resolve (\<lambda>_. None) demo_forwarder demo_net demo_task (demo_query ''b'')
      \<lparr>st_caches = [], st_sessions = [(''g'', '''', ())]\<rparr> = Ret (Inr (demo_reply 6 ''a''), st')
    \<and> DnsCache_get (cache_of st' (group_key ''g'')) 1000000000 (''b'', 1, False, False) = Some (demo_reply 6 ''a'')"
proof -
  have "(1000000000 :: nat) < tk_clock demo_task 2 + ttl_nanos 60" by (simp add: demo_task_def ttl_nanos_def)
  with late_reply_accepted [OF demo_facts(1) demo_route, of "SockV4 1 53" "[]"
      "\<lparr>st_caches = [], st_sessions = [(''g'', '''', ())]\<rparr>" "''''" "()" demo_net "demo_reply 6 ''a''" "[]" demo_task 60 1000000000]
  show ?thesis by (simp add: demo_forwarder_def demo_net_def demo_task_def demo_facts query_key_def demo_key_def)
qed

theorem resolve_always_answers_witness:
  "\<exists>r st'. resolve (\<lambda>_. None) demo_forwarder demo_net demo_task (demo_query ''b'') \<lparr>st_caches = [], st_sessions = []\<rparr> = Ret (Inr r, st')"
  by (rule resolve_always_answers [OF demo_facts(1) demo_route, of _ "SockV4 2 53" "demo_reply 7 ''b''"])
    (simp_all add: pick_direct_server_def demo_forwarder_def demo_net_def)


text \<open>Names listed in a negated rule with a port go where the rule sends the other names on that port.\<close>

definition demo_rules :: RoutingConfig where
  "demo_rules = \<lparr>rc_rules = [\<lparr>rr_match = ''!domain(a.com) && dport(443)'', rr_action = ''direct''\<rparr>], rc_fallback = ''block''\<rparr>"

definition demo_rules_program :: NormalizedProgram where
  "demo_rules_program = (case from_config demo_rules of Inr p \<Rightarrow> p)"


end
