(* ===== verification/Dns_Flight.thy ===== *)
theory Dns_Flight
  imports Dae_Prelude
begin

text \<open>
  The merging of concurrent direct queries, \<^verbatim>\<open>control/src/net/dns.rs\<close>: \<^verbatim>\<open>begin_inflight\<close>,
  \<^verbatim>\<open>end_inflight\<close> and the direct branch of \<^verbatim>\<open>resolve\<close>, as a step relation.  A step is what one
  task does between two points where another may run: a critical section or an \<^verbatim>\<open>await\<close>.
\<close>

section \<open>Tasks\<close>

text \<open>
  Where a task for key \<open>k\<close> is in the branch.  \<open>Entering\<close> is the point between the return of
  \<^verbatim>\<open>begin_inflight\<close> and the creation of the \<^verbatim>\<open>notified()\<close> future; \<open>Ending\<close> follows the upstream
  exchange, with its success; \<open>Storing\<close> lies between \<^verbatim>\<open>end_inflight\<close> and \<^verbatim>\<open>cache_store\<close>.
\<close>

datatype 'k phase =
  Start 'k | Registering 'k | Entering 'k nat | Waiting 'k nat | Woken 'k
| Asking 'k | Ending 'k bool | Storing 'k | Finished bool

text \<open>The shared state; a notifier is a number, \<open>fl_next\<close> the next fresh one, and \<open>fl_asked\<close> logs the upstream requests.\<close>

record 'k flight =
  fl_cache :: "'k set"
  fl_inflight :: "'k \<Rightarrow> nat option"
  fl_next :: nat
  fl_tasks :: "'k phase list"
  fl_asked :: "'k list"

text \<open>\<^verbatim>\<open>Notify::notify_waiters\<close>, which of the futures registered on a notifier it wakes, by task.\<close>

record tokio =
  notify_waiters :: "nat set \<Rightarrow> nat set"

definition notify_ok :: "tokio \<Rightarrow> bool" where
  "notify_ok tk \<longleftrightarrow> (\<forall>W. notify_waiters tk W = W)"

definition set_task :: "nat \<Rightarrow> 'k phase \<Rightarrow> 'k flight \<Rightarrow> 'k flight" where
  "set_task i p s = s\<lparr>fl_tasks := (fl_tasks s)[i := p]\<rparr>"

definition begin_inflight :: "'k \<Rightarrow> 'k flight \<Rightarrow> (bool \<times> nat) \<times> 'k flight" where
  "begin_inflight k s =
     (case fl_inflight s k of
        Some n \<Rightarrow> ((False, n), s)
      | None \<Rightarrow> ((True, fl_next s), s\<lparr>fl_inflight := (fl_inflight s)(k \<mapsto> fl_next s), fl_next := fl_next s + 1\<rparr>))"

fun waits_on :: "nat \<Rightarrow> 'k phase \<Rightarrow> bool" where
  "waits_on n (Waiting k m) = (m = n)"
| "waits_on n p = False"

definition waiters :: "nat \<Rightarrow> 'k flight \<Rightarrow> nat set" where
  "waiters n s = set (filter (\<lambda>i. waits_on n (fl_tasks s ! i)) [0..<length (fl_tasks s)])"

fun wake_up :: "'k phase \<Rightarrow> 'k phase" where
  "wake_up (Waiting k n) = Woken k"
| "wake_up p = p"

definition wake :: "nat set \<Rightarrow> 'k flight \<Rightarrow> 'k flight" where
  "wake W s = s\<lparr>fl_tasks := map (\<lambda>(i, p). if i \<in> W then wake_up p else p) (enumerate 0 (fl_tasks s))\<rparr>"

definition end_inflight :: "tokio \<Rightarrow> 'k \<Rightarrow> 'k flight \<Rightarrow> 'k flight" where
  "end_inflight tk k s =
     (case fl_inflight s k of
        None \<Rightarrow> s
      | Some n \<Rightarrow> wake (notify_waiters tk (waiters n s)) (s\<lparr>fl_inflight := (fl_inflight s)(k := None)\<rparr>))"

text \<open>
  The steps of task \<open>i\<close>; a reply of the server and whether it has a TTL are arbitrary.
\<close>

inductive step :: "tokio \<Rightarrow> 'k flight \<Rightarrow> 'k flight \<Rightarrow> bool" for tk where
  hit: "i < length (fl_tasks s) \<Longrightarrow> fl_tasks s ! i = Start k \<Longrightarrow> k \<in> fl_cache s
    \<Longrightarrow> step tk s (set_task i (Finished True) s)"
| miss: "i < length (fl_tasks s) \<Longrightarrow> fl_tasks s ! i = Start k \<Longrightarrow> k \<notin> fl_cache s
    \<Longrightarrow> step tk s (set_task i (Registering k) s)"
| create: "i < length (fl_tasks s) \<Longrightarrow> fl_tasks s ! i = Registering k \<Longrightarrow> begin_inflight k s = ((True, n), s')
    \<Longrightarrow> step tk s (set_task i (Asking k) (s'\<lparr>fl_asked := fl_asked s' @ [k]\<rparr>))"
| join: "i < length (fl_tasks s) \<Longrightarrow> fl_tasks s ! i = Registering k \<Longrightarrow> begin_inflight k s = ((False, n), s')
    \<Longrightarrow> step tk s (set_task i (Entering k n) s')"
| listen: "i < length (fl_tasks s) \<Longrightarrow> fl_tasks s ! i = Entering k n
    \<Longrightarrow> step tk s (set_task i (Waiting k n) s)"
| rehit: "i < length (fl_tasks s) \<Longrightarrow> fl_tasks s ! i = Woken k \<Longrightarrow> k \<in> fl_cache s
    \<Longrightarrow> step tk s (set_task i (Finished True) s)"
| remiss: "i < length (fl_tasks s) \<Longrightarrow> fl_tasks s ! i = Woken k \<Longrightarrow> k \<notin> fl_cache s
    \<Longrightarrow> step tk s (set_task i (Asking k) (s\<lparr>fl_asked := fl_asked s @ [k]\<rparr>))"
| reply: "i < length (fl_tasks s) \<Longrightarrow> fl_tasks s ! i = Asking k
    \<Longrightarrow> step tk s (set_task i (Ending k ok) s)"
| finish: "i < length (fl_tasks s) \<Longrightarrow> fl_tasks s ! i = Ending k ok
    \<Longrightarrow> step tk s (set_task i (if ok then Storing k else Finished False) (end_inflight tk k s))"
| store: "i < length (fl_tasks s) \<Longrightarrow> fl_tasks s ! i = Storing k
    \<Longrightarrow> step tk s (set_task i (Finished True) (s\<lparr>fl_cache := insert k (fl_cache s)\<rparr>))"
| no_ttl: "i < length (fl_tasks s) \<Longrightarrow> fl_tasks s ! i = Storing k
    \<Longrightarrow> step tk s (set_task i (Finished True) s)"

definition initial :: "'k list \<Rightarrow> 'k set \<Rightarrow> 'k flight" where
  "initial ks cache = \<lparr>fl_cache = cache, fl_inflight = (\<lambda>_. None), fl_next = 0, fl_tasks = map Start ks, fl_asked = []\<rparr>"

section \<open>Every run ends\<close>

fun rank :: "'k phase \<Rightarrow> nat" where
  "rank (Start k) = 8" | "rank (Registering k) = 7" | "rank (Entering k n) = 6" | "rank (Waiting k n) = 5"
| "rank (Woken k) = 4" | "rank (Asking k) = 3" | "rank (Ending k b) = 2" | "rank (Storing k) = 1" | "rank (Finished b) = 0"

definition work :: "'k flight \<Rightarrow> nat" where
  "work s = sum_list (map rank (fl_tasks s))"

lemma sum_list_update_less:
  "i < length xs \<Longrightarrow> f y < f (xs ! i) \<Longrightarrow> sum_list (map f (xs[i := y])) < sum_list (map (f :: 'a \<Rightarrow> nat) xs)"
  by (induction xs arbitrary: i) (auto split: nat.splits)

lemma rank_wake_up: "rank (wake_up p) \<le> rank p"
  by (cases p) auto

lemma length_wake [simp]: "length (fl_tasks (wake W s)) = length (fl_tasks s)"
  by (simp add: wake_def)

lemma nth_wake: "i < length (fl_tasks s) \<Longrightarrow> fl_tasks (wake W s) ! i = (if i \<in> W then wake_up (fl_tasks s ! i) else fl_tasks s ! i)"
  by (simp add: wake_def nth_enumerate_eq)

lemma work_wake: "work (wake W s) \<le> work s"
proof -
  have "work (wake W s) = (\<Sum>i<length (fl_tasks s). rank (fl_tasks (wake W s) ! i))"
    by (simp add: work_def sum_list_sum_nth atLeast0LessThan)
  also have "\<dots> \<le> (\<Sum>i<length (fl_tasks s). rank (fl_tasks s ! i))"
    by (rule sum_mono) (simp add: nth_wake rank_wake_up)
  finally show ?thesis by (simp add: work_def sum_list_sum_nth atLeast0LessThan)
qed

lemma end_inflight_tasks:
  "length (fl_tasks (end_inflight tk k s)) = length (fl_tasks s)" "work (end_inflight tk k s) \<le> work s"
  "i < length (fl_tasks s) \<Longrightarrow> fl_tasks s ! i = Ending k ok \<Longrightarrow> fl_tasks (end_inflight tk k s) ! i = Ending k ok"
  using work_wake [of _ "s\<lparr>fl_inflight := (fl_inflight s)(k := None)\<rparr>"]
  by (auto simp: end_inflight_def nth_wake work_def split: option.splits)

lemma work_set_task:
  "i < length (fl_tasks s) \<Longrightarrow> rank p < rank (fl_tasks s ! i) \<Longrightarrow> work (set_task i p s) < work s"
  by (simp add: work_def set_task_def sum_list_update_less)

lemma begin_inflight_tasks: "begin_inflight k s = (r, s') \<Longrightarrow> fl_tasks s' = fl_tasks s"
  by (auto simp: begin_inflight_def split: option.splits)

lemma step_work: "step tk s s' \<Longrightarrow> work s' < work s"
proof (induction rule: step.induct)
  case (finish i s k ok)
  let ?s = "end_inflight tk k s"
  have "work (set_task i (if ok then Storing k else Finished False) ?s) < work ?s"
    using finish end_inflight_tasks(1,3) [where s = s] by (intro work_set_task) auto
  then show ?case using end_inflight_tasks(2) [of tk k s] by simp
next
  case (create i s k n s')
  then show ?case using work_set_task [of i "s'\<lparr>fl_asked := fl_asked s' @ [k]\<rparr>" "Asking k"] begin_inflight_tasks [OF create(3)]
    by (simp add: work_def)
next
  case (join i s k n s')
  then show ?case using work_set_task [of i s' "Entering k n"] begin_inflight_tasks [OF join(3)]
    by (simp add: work_def)
qed (auto simp: work_def set_task_def intro!: sum_list_update_less)

section \<open>Who can be stuck\<close>

fun asks :: "'k phase \<Rightarrow> 'k option" where
  "asks (Asking k) = Some k"
| "asks (Ending k ok) = Some k"
| "asks p = None"

definition asking :: "'k \<Rightarrow> 'k flight \<Rightarrow> bool" where
  "asking k s \<longleftrightarrow> (\<exists>i < length (fl_tasks s). asks (fl_tasks s ! i) = Some k)"

text \<open>An entry in the table has a task that will remove it.\<close>

definition owned :: "'k flight \<Rightarrow> bool" where
  "owned s \<longleftrightarrow> (\<forall>k n. fl_inflight s k = Some n \<longrightarrow> asking k s)"

definition listening :: "'k flight \<Rightarrow> bool" where
  "listening s \<longleftrightarrow> (\<forall>i < length (fl_tasks s). \<forall>k n. fl_tasks s ! i = Waiting k n \<longrightarrow> fl_inflight s k = Some n)"

lemma set_task_simps [simp]:
  "fl_inflight (set_task i p s) = fl_inflight s" "fl_cache (set_task i p s) = fl_cache s"
  "fl_tasks (set_task i p s) = (fl_tasks s)[i := p]" "fl_next (set_task i p s) = fl_next s" "fl_asked (set_task i p s) = fl_asked s"
  by (simp_all add: set_task_def)

lemma asking_set_task:
  assumes "i < length (fl_tasks s)" "asking k s" "asks (fl_tasks s ! i) = Some k \<Longrightarrow> asks p = Some k"
  shows "asking k (set_task i p s)"
proof -
  from assms(2) obtain j where "j < length (fl_tasks s)" "asks (fl_tasks s ! j) = Some k" by (auto simp: asking_def)
  with assms(1,3) show ?thesis unfolding asking_def by (cases "j = i") (auto intro!: exI [of _ j])
qed

lemma asking_new: "i < length (fl_tasks s) \<Longrightarrow> asks p = Some k \<Longrightarrow> asking k (set_task i p s)"
  by (auto simp: asking_def)

lemma asks_wake_up [simp]: "asks (wake_up p) = asks p"
  by (cases p) auto

lemma asks_end_inflight: "i < length (fl_tasks s) \<Longrightarrow> asks (fl_tasks (end_inflight tk k s) ! i) = asks (fl_tasks s ! i)"
  by (auto simp: end_inflight_def nth_wake split: option.splits)

lemma asking_end [simp]: "asking k' (end_inflight tk k s) = asking k' s"
  by (auto simp: asking_def end_inflight_tasks asks_end_inflight)

lemma end_inflight_table: "fl_inflight (end_inflight tk k s) = (fl_inflight s)(k := None)"
  by (auto simp: end_inflight_def wake_def split: option.splits)

lemma asking_cong: "fl_tasks s = fl_tasks s' \<Longrightarrow> asking k s = asking k s'"
  by (simp add: asking_def)

lemma owned_set_task:
  assumes "owned s" "i < length (fl_tasks s)" "fl_tasks s' = fl_tasks s"
    and "\<And>k n. fl_inflight s' k = Some n \<Longrightarrow> asks p = Some k \<or> fl_inflight s k = Some n \<and> asks (fl_tasks s ! i) \<noteq> Some k"
  shows "owned (set_task i p s')"
  unfolding owned_def
proof (intro allI impI)
  fix k n assume "fl_inflight (set_task i p s') k = Some n"
  with assms(4) consider "asks p = Some k" | "fl_inflight s k = Some n" "asks (fl_tasks s ! i) \<noteq> Some k" by auto
  then show "asking k (set_task i p s')"
  proof cases
    case 1
    with assms(2,3) show ?thesis by (simp add: asking_new)
  next
    case 2
    with assms(1) have "asking k s'" using asking_cong [OF assms(3)] by (auto simp: owned_def)
    with 2 assms(2,3) show ?thesis by (intro asking_set_task) auto
  qed
qed

lemma step_owned: "step tk s s' \<Longrightarrow> owned s \<Longrightarrow> owned s'"
proof (induction rule: step.induct)
  case (create i s k n s')
  then show ?case by (intro owned_set_task [where s = s]) (auto simp: begin_inflight_def split: option.splits if_splits)
next
  case (finish i s k ok)
  let ?s = "end_inflight tk k s"
  have "owned ?s" using finish(3) by (auto simp: owned_def end_inflight_table)
  then show ?case using finish end_inflight_tasks [where s = s]
    by (intro owned_set_task [where s = ?s]) (auto simp: end_inflight_table)
next
  case (join i s k n s')
  then show ?case by (intro owned_set_task [where s = s]) (auto simp: begin_inflight_def split: option.splits)
qed (auto intro!: owned_set_task)

lemma can_step:
  assumes "i < length (fl_tasks s)" "\<not> (\<exists>b. fl_tasks s ! i = Finished b)" "\<not> (\<exists>k n. fl_tasks s ! i = Waiting k n)"
  shows "\<exists>s'. step tk s s'"
proof (cases "fl_tasks s ! i")
  case (Start k)
  from step.hit [OF assms(1) Start] step.miss [OF assms(1) Start] show ?thesis by blast
next
  case (Registering k)
  obtain c n s' where b: "begin_inflight k s = ((c, n), s')" by (metis surj_pair)
  show ?thesis
  proof (cases c)
    case True
    with b have "begin_inflight k s = ((True, n), s')" by simp
    from step.create [OF assms(1) Registering this] show ?thesis by blast
  next
    case False
    with b have "begin_inflight k s = ((False, n), s')" by simp
    from step.join [OF assms(1) Registering this] show ?thesis by blast
  qed
next
  case (Entering k n)
  from step.listen [OF assms(1) Entering] show ?thesis by blast
next
  case (Woken k)
  from step.rehit [OF assms(1) Woken] step.remiss [OF assms(1) Woken] show ?thesis by blast
next
  case (Asking k)
  from step.reply [OF assms(1) Asking] show ?thesis by blast
next
  case (Ending k ok)
  from step.finish [OF assms(1) Ending] show ?thesis by blast
next
  case (Storing k)
  from step.store [OF assms(1) Storing] show ?thesis by blast
qed (use assms(2,3) in simp_all)

lemma stuck_tasks:
  assumes "\<nexists>s'. step tk s s'" "owned s" "i < length (fl_tasks s)"
  shows "(\<exists>b. fl_tasks s ! i = Finished b) \<or> (\<exists>k n. fl_tasks s ! i = Waiting k n \<and> fl_inflight s k = None)"
proof (rule ccontr)
  assume c: "\<not> ?thesis"
  with can_step [OF assms(3), of tk] assms(1) obtain k n where "fl_tasks s ! i = Waiting k n" by blast
  with c obtain m where "fl_inflight s k = Some m" by auto
  with assms(2) obtain j where j: "j < length (fl_tasks s)" "asks (fl_tasks s ! j) = Some k" by (auto simp: owned_def asking_def)
  then have "\<not> (\<exists>b. fl_tasks s ! j = Finished b)" "\<not> (\<exists>k n. fl_tasks s ! j = Waiting k n)" by auto
  from can_step [OF j(1) this, of tk] assms(1) show False by blast
qed

lemma owned_initial: "owned (initial ks cache)"
  by (simp add: owned_def initial_def)

lemma reachable_owned: "(step tk)\<^sup>*\<^sup>* s s' \<Longrightarrow> owned s \<Longrightarrow> owned s'"
  by (induction rule: rtranclp_induct) (auto intro: step_owned)

lemma run_bound: "(step tk ^^ n) s s' \<Longrightarrow> n + work s' \<le> work s"
proof (induction n arbitrary: s')
  case (Suc n)
  then obtain t where "(step tk ^^ n) s t" "step tk t s'" by (auto elim: relcomppE)
  with Suc.IH step_work show ?case by (metis Suc_leI add_Suc add_Suc_right le_trans nat_add_left_cancel_le)
qed simp

lemma work_initial: "work (initial ks cache) = 8 * length ks"
  by (induction ks) (auto simp: work_def initial_def)

text \<open>
  C31: merged queries do not run forever.  From \<open>n\<close> queries there are at most \<open>8 * n\<close> steps whatever
  the replies and the interleaving; and when nothing can run any more, every query is answered or
  waits on a notifier that is no longer registered.
\<close>

theorem flight_terminates:
  assumes "(step tk ^^ n) (initial ks cache) s"
  shows "n \<le> 8 * length ks
    \<and> ((\<nexists>s'. step tk s s') \<longrightarrow> (\<forall>i < length (fl_tasks s).
         (\<exists>b. fl_tasks s ! i = Finished b) \<or> (\<exists>k m. fl_tasks s ! i = Waiting k m \<and> fl_inflight s k = None)))"
proof -
  have "owned s" using reachable_owned [OF relpowp_imp_rtranclp [OF assms] owned_initial] .
  with run_bound [OF assms] stuck_tasks show ?thesis by (auto simp: work_initial)
qed

section \<open>Queries that listen in time are answered\<close>

text \<open>A run is timely when no task starts to listen on a notifier that has been removed.\<close>

definition timely :: "tokio \<Rightarrow> 'k flight \<Rightarrow> 'k flight \<Rightarrow> bool" where
  "timely tk s s' \<longleftrightarrow> step tk s s' \<and>
     (\<forall>i < length (fl_tasks s). \<forall>k n. fl_tasks s ! i = Entering k n \<and> fl_tasks s' ! i = Waiting k n \<longrightarrow> fl_inflight s k = Some n)"

lemma listening_set_task:
  assumes "listening s" "fl_tasks s' = fl_tasks s" "\<And>k n. fl_inflight s k = Some n \<Longrightarrow> fl_inflight s' k = Some n"
    and "\<And>k n. p = Waiting k n \<Longrightarrow> fl_inflight s' k = Some n"
  shows "listening (set_task i p s')"
proof -
  have "fl_inflight s' k = Some n" if "j < length (fl_tasks s)" "(fl_tasks s)[i := p] ! j = Waiting k n" for j k n
    using that assms(1,3,4) by (cases "j = i") (auto simp: listening_def)
  then show ?thesis using assms(2) by (simp add: listening_def)
qed

lemma listening_end:
  assumes "notify_ok tk" "listening s"
  shows "listening (end_inflight tk k s)"
proof (cases "fl_inflight s k")
  case None
  with assms(2) show ?thesis by (simp add: end_inflight_def)
next
  case (Some n)
  let ?s = "s\<lparr>fl_inflight := (fl_inflight s)(k := None)\<rparr>"
  have e: "end_inflight tk k s = wake (waiters n s) ?s" using assms(1) Some by (simp add: end_inflight_def notify_ok_def)
  have "fl_inflight s k' = Some m \<and> k' \<noteq> k"
    if "i < length (fl_tasks s)" "fl_tasks (wake (waiters n s) ?s) ! i = Waiting k' m" for i k' m
  proof -
    have w: "fl_tasks s ! i = Waiting k' m" "i \<notin> waiters n s"
      using that nth_wake [of i ?s "waiters n s"] by (auto split: if_splits elim: wake_up.elims)
    then have "fl_inflight s k' = Some m" using assms(2) that(1) by (auto simp: listening_def)
    moreover have "m \<noteq> n" using w that(1) by (auto simp: waiters_def)
    ultimately show ?thesis using Some by auto
  qed
  then show ?thesis unfolding e by (auto simp: listening_def wake_def)
qed

lemma timely_listening: "notify_ok tk \<Longrightarrow> timely tk s s' \<Longrightarrow> listening s \<Longrightarrow> listening s'"
proof -
  assume n: "notify_ok tk" and t: "timely tk s s'" and l: "listening s"
  from t have "step tk s s'" by (simp add: timely_def)
  then show "listening s'"
  proof cases
    case (listen i k m)
    with t have "fl_inflight s k = Some m" by (auto simp: timely_def)
    with l listen show ?thesis by (auto intro: listening_set_task)
  next
    case (finish i k ok)
    then show ?thesis using listening_end [OF n l, of k] by (auto intro: listening_set_task)
  next
    case (create i k m s2)
    then show ?thesis using l
      by (auto intro!: listening_set_task [OF l] simp: begin_inflight_def split: option.splits)
  next
    case (join i k m s2)
    then show ?thesis using l
      by (auto intro!: listening_set_task [OF l] simp: begin_inflight_def split: option.splits)
  qed (auto intro!: listening_set_task [OF l])
qed

lemma timely_reachable:
  assumes "notify_ok tk" "(timely tk)\<^sup>*\<^sup>* (initial ks cache) s"
  shows "listening s \<and> owned s"
  using assms(2)
proof (induction rule: rtranclp_induct)
  case base
  then show ?case by (auto simp: listening_def initial_def owned_def)
next
  case (step s s')
  then show ?case using timely_listening [OF assms(1)] step_owned by (auto simp: timely_def)
qed

text \<open>
  C32: queries that listen in time are answered.  In every run in which each joining query creates
  its future before the notifier is removed, a state where nothing can run any more has every query
  finished.
\<close>

theorem flight_live:
  assumes "notify_ok tk" "(timely tk)\<^sup>*\<^sup>* (initial ks cache) s" "\<nexists>s'. step tk s s'"
  shows "\<forall>p \<in> set (fl_tasks s). \<exists>ok. p = Finished ok"
proof
  fix p assume "p \<in> set (fl_tasks s)"
  then obtain i where i: "i < length (fl_tasks s)" "fl_tasks s ! i = p" by (auto simp: in_set_conv_nth)
  with stuck_tasks [OF assms(3) _ i(1)] timely_reachable [OF assms(1,2)] show "\<exists>ok. p = Finished ok"
    by (fastforce simp: listening_def)
qed

section \<open>Runs\<close>

text \<open>The step of a given task, with the outcome of its exchange or store.\<close>

definition act :: "tokio \<Rightarrow> nat \<Rightarrow> bool \<Rightarrow> 'k flight \<Rightarrow> 'k flight option" where
  "act tk i ok s =
     (if i \<ge> length (fl_tasks s) then None
      else (case fl_tasks s ! i of
              Start k \<Rightarrow> Some (set_task i (if k \<in> fl_cache s then Finished True else Registering k) s)
            | Registering k \<Rightarrow>
                (case begin_inflight k s of ((c, n), s') \<Rightarrow>
                   Some (if c then set_task i (Asking k) (s'\<lparr>fl_asked := fl_asked s' @ [k]\<rparr>) else set_task i (Entering k n) s'))
            | Entering k n \<Rightarrow> Some (set_task i (Waiting k n) s)
            | Waiting k n \<Rightarrow> None
            | Woken k \<Rightarrow> Some (if k \<in> fl_cache s then set_task i (Finished True) s
                               else set_task i (Asking k) (s\<lparr>fl_asked := fl_asked s @ [k]\<rparr>))
            | Asking k \<Rightarrow> Some (set_task i (Ending k ok) s)
            | Ending k b \<Rightarrow> Some (set_task i (if b then Storing k else Finished False) (end_inflight tk k s))
            | Storing k \<Rightarrow> Some (set_task i (Finished True) (if ok then s\<lparr>fl_cache := insert k (fl_cache s)\<rparr> else s))
            | Finished b \<Rightarrow> None))"

lemma act_step: "act tk i ok s = Some s' \<Longrightarrow> step tk s s'"
  by (auto simp: act_def intro: step.intros step.finish [where ok = True, simplified] step.finish [where ok = False, simplified]
      split: if_splits phase.splits prod.splits)

fun idle :: "'k phase \<Rightarrow> bool" where
  "idle (Finished b) = True" | "idle (Waiting k n) = True" | "idle p = False"

lemma idle_stuck: "list_all idle (fl_tasks s) \<Longrightarrow> \<nexists>s'. step tk s s'"
  by (auto elim!: step.cases simp: list_all_length)

fun acts :: "tokio \<Rightarrow> (nat \<times> bool) list \<Rightarrow> 'k flight \<Rightarrow> 'k flight option" where
  "acts tk [] s = Some s"
| "acts tk ((i, ok) # rest) s = Option.bind (act tk i ok s) (acts tk rest)"

lemma acts_run: "acts tk script s = Some s' \<Longrightarrow> (step tk ^^ length script) s s'"
proof (induction script arbitrary: s)
  case (Cons a script)
  obtain i ok where a: "a = (i, ok)" by (cases a)
  with Cons.prems obtain t where "act tk i ok s = Some t" "acts tk script t = Some s'" by (auto simp: bind_eq_Some_conv)
  with Cons.IH act_step have "step tk s t" "(step tk ^^ length script) t s'" by blast+
  then show ?case by (simp add: relpowp_Suc_I2 del: relpowp.simps)
qed simp

lemma acts_run_length: "acts tk script s = Some s' \<Longrightarrow> length script = n \<Longrightarrow> (step tk ^^ n) s s'"
  using acts_run by blast

lemmas act_simps = act_def initial_def begin_inflight_def end_inflight_def wake_def set_task_def waiters_def

lemma acts_lost: "acts tk [(0, True), (1, True), (0, True), (1, True), (0, True), (0, True), (0, True), (1, True)] (initial [k, k] {})
  = Some \<lparr>fl_cache = {k}, fl_inflight = (\<lambda>_. None), fl_next = 1, fl_tasks = [Finished True, Waiting k 0], fl_asked = [k]\<rparr>"
  by (simp add: act_simps)

text \<open>
  C33: a query can be lost for ever.  A query that joins another one in flight and creates its future
  only after that one has removed its notifier waits on it although the answer is in the cache; no
  step is left, and the wait has no timeout.
\<close>

theorem flight_lost_wakeup:
  "\<exists>s. (step tk)\<^sup>*\<^sup>* (initial [k, k] {}) s \<and> (\<nexists>s'. step tk s s') \<and> fl_tasks s = [Finished True, Waiting k 0] \<and> k \<in> fl_cache s"
  using relpowp_imp_rtranclp [OF acts_run [OF acts_lost, of tk k]]
  by (intro exI conjI, assumption) (rule idle_stuck, simp_all)

text \<open>
  merging does not prevent a second request.  The notifier is removed and the waiters are woken
  before the response is stored, so a woken query may find the cache empty and ask the server again,
  although the first request succeeded.
\<close>

theorem flight_duplicate_request:
  assumes "notify_ok tk"
  shows "\<exists>s. (step tk)\<^sup>*\<^sup>* (initial [k, k] {}) s \<and> fl_tasks s = [Storing k, Asking k] \<and> fl_asked s = [k, k]"
proof -
  have "acts tk [(0, True), (1, True), (0, True), (1, True), (1, True), (0, True), (0, True), (1, True)] (initial [k, k] {})
    = Some \<lparr>fl_cache = {}, fl_inflight = (\<lambda>_. None), fl_next = 1, fl_tasks = [Storing k, Asking k], fl_asked = [k, k]\<rparr>"
    using assms by (simp add: act_simps notify_ok_def)
  from relpowp_imp_rtranclp [OF acts_run [OF this]] show ?thesis by (intro exI conjI, assumption) auto
qed

theorem flight_duplicate_request_witness:
  "\<exists>s. (step \<lparr>notify_waiters = (\<lambda>W. W)\<rparr>)\<^sup>*\<^sup>* (initial [''a'', ''a''] {}) s \<and> fl_tasks s = [Storing ''a'', Asking ''a''] \<and> fl_asked s = [''a'', ''a'']"
  by (rule flight_duplicate_request) (simp add: notify_ok_def)

theorem flight_terminates_witness:
  "\<exists>s. (step \<lparr>notify_waiters = (\<lambda>W. W)\<rparr> ^^ 8) (initial [''a'', ''a''] {}) s \<and> (8 :: nat) \<le> 8 * length [''a'', ''a'']
    \<and> (\<forall>i < length (fl_tasks s). (\<exists>b. fl_tasks s ! i = Finished b) \<or> (\<exists>k m. fl_tasks s ! i = Waiting k m \<and> fl_inflight s k = None))"
proof -
  let ?tk = "\<lparr>notify_waiters = (\<lambda>W. W)\<rparr>"
  have "(step ?tk ^^ 8) (initial [''a'', ''a''] {})
      \<lparr>fl_cache = {''a''}, fl_inflight = (\<lambda>_. None), fl_next = 1, fl_tasks = [Finished True, Waiting ''a'' 0], fl_asked = [''a'']\<rparr>"
    by (rule acts_run_length [OF acts_lost]) simp
  then obtain s where s: "(step ?tk ^^ 8) (initial [''a'', ''a''] {}) s" "fl_tasks s = [Finished True, Waiting ''a'' 0]"
    by (rule that) simp
  have "\<nexists>s'. step ?tk s s'" by (rule idle_stuck) (simp add: s(2))
  with flight_terminates [OF s(1)] s(1) show ?thesis by blast
qed

definition punctual :: "nat \<Rightarrow> 'k flight \<Rightarrow> bool" where
  "punctual i s = (case fl_tasks s ! i of Entering k n \<Rightarrow> fl_inflight s k = Some n | _ \<Rightarrow> True)"

lemma act_entering:
  "act tk i ok s = Some s' \<Longrightarrow> j \<noteq> i \<Longrightarrow> j < length (fl_tasks s) \<Longrightarrow> fl_tasks s ! j = Entering k n \<Longrightarrow> fl_tasks s' ! j = Entering k n"
  by (auto simp: act_def end_inflight_def nth_wake begin_inflight_tasks split: if_splits phase.splits prod.splits option.splits)

lemma act_timely:
  assumes "act tk i ok s = Some s'" "punctual i s"
  shows "timely tk s s'"
proof -
  have "fl_inflight s k = Some n" if "j < length (fl_tasks s)" "fl_tasks s ! j = Entering k n" "fl_tasks s' ! j = Waiting k n" for j k n
  proof (cases "j = i")
    case True
    with that(2) assms(2) show ?thesis by (simp add: punctual_def)
  next
    case False
    from act_entering [OF assms(1) False that(1,2)] that(3) show ?thesis by simp
  qed
  with act_step [OF assms(1)] show ?thesis by (auto simp: timely_def)
qed

fun timely_acts :: "tokio \<Rightarrow> (nat \<times> bool) list \<Rightarrow> 'k flight \<Rightarrow> 'k flight option" where
  "timely_acts tk [] s = Some s"
| "timely_acts tk ((i, ok) # rest) s = (if punctual i s then Option.bind (act tk i ok s) (timely_acts tk rest) else None)"

lemma timely_acts_run: "timely_acts tk script s = Some s' \<Longrightarrow> (timely tk)\<^sup>*\<^sup>* s s'"
  by (induction tk script s rule: timely_acts.induct)
    (auto simp: bind_eq_Some_conv split: if_splits intro: converse_rtranclp_into_rtranclp act_timely)

theorem flight_live_witness:
  "\<exists>s. (timely \<lparr>notify_waiters = (\<lambda>W. W)\<rparr>)\<^sup>*\<^sup>* (initial [''a'', ''a''] {}) s \<and> fl_asked s = [''a'']
    \<and> (\<forall>p \<in> set (fl_tasks s). \<exists>ok. p = Finished ok)"
proof -
  let ?tk = "\<lparr>notify_waiters = (\<lambda>W. W)\<rparr>"
    and ?s = "\<lparr>fl_cache = {''a''}, fl_inflight = (\<lambda>_. None), fl_next = 1, fl_tasks = [Finished True, Finished True], fl_asked = [''a'']\<rparr>"
  have n: "notify_ok ?tk" by (simp add: notify_ok_def)
  have "timely_acts ?tk [(0, True), (1, True), (0, True), (1, True), (1, True), (0, True), (0, True), (0, True), (1, True)]
      (initial [''a'', ''a''] {}) = Some ?s" by (simp add: act_simps punctual_def)
  then have r: "(timely ?tk)\<^sup>*\<^sup>* (initial [''a'', ''a''] {}) ?s" by (rule timely_acts_run)
  have "\<nexists>s'. step ?tk ?s s'" by (rule idle_stuck) simp
  from flight_live [OF n r this] r show ?thesis by (intro exI [of _ ?s]) simp
qed

end
