(* ===== verification/Config_Types.thy ===== *)
theory Config_Types
  imports Routing_IR
begin

text \<open>
  The configuration of the program, \<^verbatim>\<open>control/src/config/mod.rs\<close>: one record for each structure, its
  default, and the errors of the parser and of the validator.  A message made by \<^verbatim>\<open>format!\<close> is a
  value of \<open>ConfigMessage\<close> with the arguments of the format.  The file starts with the operations
  of the standard library that only the configuration layer uses.
\<close>

section \<open>Strings\<close>

definition quote1 :: char where "quote1 = CHR 0x27"

definition quote2 :: char where "quote2 = CHR 0x22"

fun find_str :: "string \<Rightarrow> string \<Rightarrow> nat option" where
  "find_str p [] = (if p = [] then Some 0 else None)"
| "find_str p (x # xs) = (if prefix p (x # xs) then Some 0 else map_option Suc (find_str p xs))"

text \<open>\<^verbatim>\<open>rfind\<close> of a character, as the text before and after the last occurrence.\<close>

definition rsplit_once :: "char \<Rightarrow> string \<Rightarrow> (string \<times> string) option" where
  "rsplit_once c s = map_option (\<lambda>(b, a). (rev a, rev b)) (split_once c (rev s))"

text \<open>\<^verbatim>\<open>split_whitespace\<close>: the maximal runs without white space.\<close>

fun take_word :: "string \<Rightarrow> string" where
  "take_word [] = []"
| "take_word (c # cs) = (if headless ws_utf8 (c # cs) then c # take_word cs else [])"

function split_whitespace :: "string \<Rightarrow> string list" where
  "split_whitespace s =
     (let t = trim_start s
      in if t = [] then [] else take_word t # split_whitespace (drop (length (take_word t)) t))"
  by pat_completeness auto
termination
proof (relation "measure length", simp, goal_cases)
  case (1 s t)
  then have "headless ws_utf8 t" by (simp add: trim_start_def)
  with 1(2) have "0 < length (take_word t)" by (cases t) auto
  moreover have "length t \<le> length s"
    using 1(1) strip_heads_suffix [of ws_utf8 s] by (simp add: trim_start_def suffix_length_le)
  moreover have "0 < length t" using 1(2) by simp
  ultimately have "length t - length (take_word t) < length s" by linarith
  then show ?case by simp
qed

declare split_whitespace.simps [simp del]

definition parse_u64 :: "string \<Rightarrow> u64 option" where
  "parse_u64 s = map_option of_nat (parse_uint 10 18446744073709551615 s)"

text \<open>
  \<^verbatim>\<open>unquote\<close> slices from 1 to \<^verbatim>\<open>len - 1\<close>; when the text is a single quote, the start of the slice is
  behind its end and the slice panics.
\<close>

definition quoted :: "char \<Rightarrow> string \<Rightarrow> bool" where
  "quoted q s \<longleftrightarrow> starts_with s [q] \<and> ends_with s [q]"

definition unquote :: "string \<Rightarrow> string run" where
  "unquote s0 =
     (let s = trim s0
      in if quoted quote1 s \<or> quoted quote2 s
         then (if 1 \<le> length s - 1 then Ret (butlast (tl s)) else Panic)
         else Ret s)"

fun run_map :: "('a \<Rightarrow> 'b run) \<Rightarrow> 'a list \<Rightarrow> 'b list run" where
  "run_map f [] = Ret []"
| "run_map f (x # xs) = run_bind (f x) (\<lambda>y. run_bind (run_map f xs) (\<lambda>ys. Ret (y # ys)))"

section \<open>The structures\<close>

record RuntimeConfig =
  rt_tproxy_port :: u16
  rt_log_level :: string
  rt_temp_json :: bool
  rt_route_table :: u32
  rt_fwmark_proxy :: u32
  rt_fwmark_bypass :: u32
  rt_fwmark_mask :: u32
  rt_mtu :: u32

definition RuntimeConfig_default :: RuntimeConfig where
  "RuntimeConfig_default =
     \<lparr>rt_tproxy_port = 15080, rt_log_level = ''info'', rt_temp_json = True, rt_route_table = 2023,
      rt_fwmark_proxy = 0x08000000, rt_fwmark_bypass = 0x04000000, rt_fwmark_mask = 0x08000000, rt_mtu = 1500\<rparr>"

record DnsConfig =
  dc_listen_addr :: string
  dc_proxy_dns_servers :: "string list"
  dc_direct_dns_servers :: "string list"
  dc_direct_use_system_dns :: bool
  dc_query_timeout_ms :: u64
  dc_enable_cache :: bool

definition DnsConfig_default :: DnsConfig where
  "DnsConfig_default =
     \<lparr>dc_listen_addr = ''169.254.0.1:53'', dc_proxy_dns_servers = [''8.8.8.8:53'', ''1.1.1.1:53''],
      dc_direct_dns_servers = [], dc_direct_use_system_dns = True, dc_query_timeout_ms = 5000, dc_enable_cache = True\<rparr>"

record InterfaceConfig =
  if_wan_interface :: "string list"
  if_lan_interface :: "string list"
  if_bind_interface :: "string option"

definition InterfaceConfig_default :: InterfaceConfig where
  "InterfaceConfig_default = \<lparr>if_wan_interface = [], if_lan_interface = [], if_bind_interface = None\<rparr>"

record ProcessMatchConfig =
  pm_comm :: "string list"
  pm_pid :: "u32 list"
  pm_tgid :: "u32 list"

definition ProcessMatchConfig_default :: ProcessMatchConfig where
  "ProcessMatchConfig_default = \<lparr>pm_comm = [], pm_pid = [], pm_tgid = []\<rparr>"

record ProcessExclusionConfig =
  pe_enabled :: bool
  pe_protect_self :: bool
  pe_protect_children :: bool
  pe_gc_interval_sec :: u32
  pe_stale_after_sec :: u32
  pe_match :: ProcessMatchConfig

definition ProcessExclusionConfig_default :: ProcessExclusionConfig where
  "ProcessExclusionConfig_default =
     \<lparr>pe_enabled = True, pe_protect_self = True, pe_protect_children = True,
      pe_gc_interval_sec = 30, pe_stale_after_sec = 120, pe_match = ProcessMatchConfig_default\<rparr>"

datatype NodeSelector = SelList "string list" | SelRegex string

record OutboundNodeConfig =
  nc_name :: string
  nc_protocol :: string
  nc_address :: string
  nc_import :: "string option"
  nc_username :: "string option"
  nc_password :: "string option"
  nc_cipher :: "string option"
  nc_sni :: "string option"
  nc_ca_sha256 :: "string option"
  nc_uuid :: "string option"
  nc_congestion_control :: "string option"
  nc_alpn :: "string list option"
  nc_security :: "string option"
  nc_alter_id :: "u32 option"
  nc_network :: "string option"
  nc_ws_path :: "string option"
  nc_ws_headers :: "(string \<times> string) list option"
  nc_h2_path :: "string option"
  nc_h2_host :: "string option"
  nc_grpc_service_name :: "string option"
  nc_dial_timeout_ms :: u64

text \<open>The node the parser starts from.\<close>

definition empty_node :: "string \<Rightarrow> OutboundNodeConfig" where
  "empty_node name =
     \<lparr>nc_name = name, nc_protocol = [], nc_address = [], nc_import = None, nc_username = None,
      nc_password = None, nc_cipher = None, nc_sni = None, nc_ca_sha256 = None, nc_uuid = None,
      nc_congestion_control = None, nc_alpn = None, nc_security = None, nc_alter_id = None,
      nc_network = None, nc_ws_path = None, nc_ws_headers = None, nc_h2_path = None,
      nc_h2_host = None, nc_grpc_service_name = None, nc_dial_timeout_ms = 5000\<rparr>"

datatype GroupType = GroupAuto | GroupSelect

datatype PolicyType = PolicyFixed | PolicyRandom | PolicyMin | PolicyMinAvg10 | PolicyMinMovingAvg

record OutboundGroupConfig =
  gc_name :: string
  gc_group_type :: GroupType
  gc_policy :: "PolicyType option"
  gc_selected :: "string option"
  gc_selectors :: "NodeSelector list"

definition empty_group :: "string \<Rightarrow> OutboundGroupConfig" where
  "empty_group name =
     \<lparr>gc_name = name, gc_group_type = GroupAuto, gc_policy = None, gc_selected = None, gc_selectors = []\<rparr>"

definition empty_rule_set :: "string \<Rightarrow> RuleSetConfig" where
  "empty_rule_set name =
     \<lparr>cfg_name = name, cfg_type = IpList, cfg_url = [], cfg_expected_sha256 = None,
      cfg_update = None, cfg_update_on_start = False, cfg_proxy = None\<rparr>"

text \<open>The outbounds with all their fields; \<open>outbound_names\<close> is what the rule compiler reads of them.\<close>

record Outbounds =
  os_nodes :: "OutboundNodeConfig list"
  os_groups :: "OutboundGroupConfig list"

definition outbound_names :: "Outbounds \<Rightarrow> OutboundsConfig" where
  "outbound_names ob = \<lparr>oc_nodes = map nc_name (os_nodes ob), oc_groups = map gc_name (os_groups ob)\<rparr>"

definition RoutingConfig_default :: RoutingConfig where
  "RoutingConfig_default = \<lparr>rc_rules = [], rc_fallback = ''proxy(proxy_primary)''\<rparr>"

record ApiConfig =
  ac_enabled :: bool
  ac_listen :: string
  ac_tls :: bool
  ac_cert :: "string option"
  ac_key :: "string option"
  ac_token :: string

record DaefileConfig =
  dae_version :: u32
  dae_runtime :: RuntimeConfig
  dae_interface :: "InterfaceConfig option"
  dae_process_exclusion :: "ProcessExclusionConfig option"
  dae_outbounds :: Outbounds
  dae_routing :: RoutingConfig
  dae_api :: "ApiConfig option"
  dae_dns :: "DnsConfig option"
  dae_rule_set :: "RuleSetConfig list"

definition DaefileConfig_default :: DaefileConfig where
  "DaefileConfig_default =
     \<lparr>dae_version = 1, dae_runtime = RuntimeConfig_default, dae_interface = None,
      dae_process_exclusion = Some ProcessExclusionConfig_default,
      dae_outbounds = \<lparr>os_nodes = [], os_groups = []\<rparr>, dae_routing = RoutingConfig_default,
      dae_api = None, dae_dns = None, dae_rule_set = []\<rparr>"

section \<open>Errors\<close>

datatype ParseState =
  Top | Global | Interface | ProcessExclusion | ProcessMatch | InOutbounds | OutboundNodes
| OutboundNode string | OutboundGroups | OutboundGroup string | Routing | Api | Dns
| InRuleSet | RuleSetEntry string

text \<open>Messages, by the format they are made from and the values it shows.\<close>

datatype ConfigMessage =
  Expected string string
| CannotParse string string
| Unknown string string
| UpdateAlreadySet string
| UnclosedBlock ParseState
| EmptyEntry string string
| NotInRange string nat
| StaleBelowGc u32 u32
| Missing string string
| Bad string string
| BadTime time_error
| BadPeriod period_error

datatype ConfigError =
  Syntax nat ConfigMessage
| MissingSection string
| FieldType nat string ConfigMessage
| OutOfRange nat string ConfigMessage
| InvalidValue nat string ConfigMessage
| DuplicateNode string
| DuplicateGroup string
| UnknownNode string string
| UnknownGroup string
| ImportConflict string
| ImportInvalid string string
| RegexSyntax string string
| RegexNoMatch string string
| SelectMissingSelected string
| SelectSelectedUnreachable string string
| SelectHasPolicy string
| AutoHasSelected string
| ApiListenInvalid string
| ApiTokenEmpty
| ApiTlsMissingCertKey
| DuplicateRuleSet string
| UnknownRuleSetRef string
| InvalidRuleSetUpdate string ConfigMessage
| InvalidRuleSetUrl string ConfigMessage
| UnknownSection nat string

end
