(* ===== verification/Config_Import.thy ===== *)
theory Config_Import
  imports Config_Types
begin

text \<open>
  Import links, \<^verbatim>\<open>control/src/config/protocol.rs\<close>: the share links of the six protocols and their
  conversion into node fields.  The crates \<^verbatim>\<open>base64\<close> and \<^verbatim>\<open>serde_json\<close> are parameters: the decoder of
  standard base64 and the reader of JSON with the accessors the code uses.
\<close>

record 'j import_libs =
  il_base64 :: "string \<Rightarrow> string option"
  il_json :: "string \<Rightarrow> 'j option"
  il_get :: "'j \<Rightarrow> string \<Rightarrow> 'j option"
  il_as_str :: "'j \<Rightarrow> string option"
  il_as_u64 :: "'j \<Rightarrow> u64 option"

section \<open>Shared helpers\<close>

definition strip_trailing_slash :: "string \<Rightarrow> string" where
  "strip_trailing_slash addr = (case strip_suffix ''/'' addr of Some r \<Rightarrow> r | None \<Rightarrow> addr)"

definition before_fragment :: "string \<Rightarrow> string" where
  "before_fragment s = (case split_once (CHR ''#'') s of Some (r, _) \<Rightarrow> r | None \<Rightarrow> s)"

fun query_pairs :: "string list \<Rightarrow> (string \<times> string) list run" where
  "query_pairs [] = Ret []"
| "query_pairs (kv # kvs) =
     (case split_once (CHR ''='') kv of
        None \<Rightarrow> query_pairs kvs
      | Some (k, v) \<Rightarrow>
          run_bind (unquote v) (\<lambda>v'. run_bind (query_pairs kvs) (\<lambda>ps. Ret ((k, v') # ps))))"

definition split_url :: "string \<Rightarrow> (string \<times> (string \<times> string) list) run" where
  "split_url rest0 =
     (let rest = before_fragment rest0;
          (main, query) = (case split_once (CHR ''?'') rest of Some (m, q) \<Rightarrow> (m, q) | None \<Rightarrow> (rest, []))
      in run_bind (query_pairs (filter (\<lambda>s. s \<noteq> []) (split_char (CHR ''&'') query))) (\<lambda>pairs. Ret (main, pairs)))"

definition base64_decode :: "'j import_libs \<Rightarrow> string \<Rightarrow> string option" where
  "base64_decode il input0 =
     (let input = trim input0;
          n = length input mod 4;
          padded = (if n = 0 then input else input @ replicate (4 - n) (CHR ''=''))
      in Option.bind (il_base64 il padded) (\<lambda>bytes. if utf8_valid bytes then Some bytes else None))"

section \<open>SOCKS5 and Shadowsocks\<close>

definition parse_socks5_import :: "string \<Rightarrow> OutboundNodeConfig \<Rightarrow> OutboundNodeConfig" where
  "parse_socks5_import rest node0 =
     (let node = node0\<lparr>nc_protocol := ''socks5'', nc_address := strip_trailing_slash (before_fragment rest)\<rparr>
      in case rsplit_once (CHR ''@'') (nc_address node) of
           None \<Rightarrow> node
         | Some (cred, addr) \<Rightarrow>
             (let node1 = node\<lparr>nc_address := strip_trailing_slash addr\<rparr>
              in case split_once (CHR '':'') cred of
                   Some (user, pass) \<Rightarrow> node1\<lparr>nc_username := Some user, nc_password := Some pass\<rparr>
                 | None \<Rightarrow> node1\<lparr>nc_username := Some cred\<rparr>))"

definition assign_ss_userinfo ::
    "'j import_libs \<Rightarrow> string \<Rightarrow> OutboundNodeConfig \<Rightarrow> bool \<times> OutboundNodeConfig" where
  "assign_ss_userinfo il userinfo node =
     (case split_once (CHR '':'') userinfo of
        Some (c, p) \<Rightarrow> (True, node\<lparr>nc_cipher := Some c, nc_password := Some p\<rparr>)
      | None \<Rightarrow>
          (case Option.bind (base64_decode il userinfo) (split_once (CHR '':'')) of
             Some (c, p) \<Rightarrow> (True, node\<lparr>nc_cipher := Some c, nc_password := Some p\<rparr>)
           | None \<Rightarrow> (False, node)))"

definition assign_ss_parts ::
    "'j import_libs \<Rightarrow> string option \<Rightarrow> OutboundNodeConfig \<Rightarrow> bool \<times> OutboundNodeConfig" where
  "assign_ss_parts il text node =
     (case Option.bind text (rsplit_once (CHR ''@'')) of
        None \<Rightarrow> (False, node)
      | Some (userinfo, addr) \<Rightarrow> assign_ss_userinfo il userinfo (node\<lparr>nc_address := strip_trailing_slash addr\<rparr>))"

definition parse_ss_import :: "'j import_libs \<Rightarrow> string \<Rightarrow> OutboundNodeConfig \<Rightarrow> ConfigError + OutboundNodeConfig" where
  "parse_ss_import il rest0 node0 =
     (let rest = before_fragment rest0;
          (assigned0, node1) = assign_ss_parts il (Some rest) (node0\<lparr>nc_protocol := ''shadowsocks''\<rparr>);
          (assigned, node) = (if assigned0 then (True, node1) else assign_ss_parts il (base64_decode il rest) node1)
      in if \<not> assigned \<or> nc_address node = [] then Inl (ImportInvalid (nc_name node) (''ss://'' @ rest))
         else Inr node)"

section \<open>Trojan, TUIC and Juicity\<close>

definition trojan_query :: "OutboundNodeConfig \<Rightarrow> string \<times> string \<Rightarrow> OutboundNodeConfig" where
  "trojan_query node kv =
     (case kv of (key, v) \<Rightarrow>
        if key = ''sni'' \<or> key = ''peer'' then node\<lparr>nc_sni := Some v\<rparr>
        else if key = ''ca_sha256'' then node\<lparr>nc_ca_sha256 := Some v\<rparr>
        else node)"

definition parse_trojan_import :: "string \<Rightarrow> OutboundNodeConfig \<Rightarrow> (ConfigError + OutboundNodeConfig) run" where
  "parse_trojan_import rest node0 =
     run_bind (split_url rest) (\<lambda>(main, query).
       (let node1 = node0\<lparr>nc_protocol := ''trojan''\<rparr>;
            node2 = (case rsplit_once (CHR ''@'') main of
                       None \<Rightarrow> node1
                     | Some (pw, addr) \<Rightarrow> node1\<lparr>nc_password := Some pw, nc_address := strip_trailing_slash addr\<rparr>);
            node = foldl trojan_query node2 query
        in if nc_password node = None \<or> nc_address node = [] then Ret (Inl (ImportInvalid (nc_name node) (''trojan://'' @ rest)))
           else Ret (Inr node)))"

definition assign_uuid_password :: "string \<Rightarrow> OutboundNodeConfig \<Rightarrow> OutboundNodeConfig" where
  "assign_uuid_password main node0 =
     (case rsplit_once (CHR ''@'') main of
        None \<Rightarrow> node0
      | Some (cred, addr) \<Rightarrow>
          (let node = node0\<lparr>nc_address := strip_trailing_slash addr\<rparr>
           in case split_once (CHR '':'') cred of
                Some (u, p) \<Rightarrow> node\<lparr>nc_uuid := Some u, nc_password := Some p\<rparr>
              | None \<Rightarrow> node\<lparr>nc_uuid := Some cred\<rparr>))"

definition uuid_missing :: "OutboundNodeConfig \<Rightarrow> bool" where
  "uuid_missing node \<longleftrightarrow> nc_uuid node = None \<or> nc_password node = None \<or> nc_address node = []"

definition tuic_query :: "OutboundNodeConfig \<Rightarrow> string \<times> string \<Rightarrow> OutboundNodeConfig" where
  "tuic_query node kv =
     (case kv of (key, v) \<Rightarrow>
        if key = ''congestion_control'' then node\<lparr>nc_congestion_control := Some v\<rparr>
        else if key = ''alpn'' then node\<lparr>nc_alpn := Some (filter (\<lambda>s. s \<noteq> []) (map trim (split_char (CHR '','') v)))\<rparr>
        else if key = ''sni'' then node\<lparr>nc_sni := Some v\<rparr>
        else if key = ''ca_sha256'' then node\<lparr>nc_ca_sha256 := Some v\<rparr>
        else node)"

definition parse_tuic_import :: "string \<Rightarrow> OutboundNodeConfig \<Rightarrow> (ConfigError + OutboundNodeConfig) run" where
  "parse_tuic_import rest node0 =
     run_bind (split_url rest) (\<lambda>(main, query).
       (let node = foldl tuic_query (assign_uuid_password main (node0\<lparr>nc_protocol := ''tuic''\<rparr>)) query
        in if uuid_missing node then Ret (Inl (ImportInvalid (nc_name node) (''tuic://'' @ rest))) else Ret (Inr node)))"

definition juicity_query :: "OutboundNodeConfig \<Rightarrow> string \<times> string \<Rightarrow> OutboundNodeConfig" where
  "juicity_query node kv =
     (case kv of (key, v) \<Rightarrow>
        if key = ''congestion_control'' then node\<lparr>nc_congestion_control := Some v\<rparr>
        else if key = ''sni'' then node\<lparr>nc_sni := Some v\<rparr>
        else if key = ''ca_sha256'' then node\<lparr>nc_ca_sha256 := Some v\<rparr>
        else node)"

definition parse_juicity_import :: "string \<Rightarrow> OutboundNodeConfig \<Rightarrow> (ConfigError + OutboundNodeConfig) run" where
  "parse_juicity_import rest node0 =
     run_bind (split_url rest) (\<lambda>(main, query).
       (let node = foldl juicity_query (assign_uuid_password main (node0\<lparr>nc_protocol := ''juicity''\<rparr>)) query
        in if uuid_missing node then Ret (Inl (ImportInvalid (nc_name node) (''juicity://'' @ rest))) else Ret (Inr node)))"

section \<open>VMess\<close>

definition set_host_header :: "string \<Rightarrow> OutboundNodeConfig \<Rightarrow> OutboundNodeConfig" where
  "set_host_header v node =
     node\<lparr>nc_ws_headers := Some (map_insert ''Host'' v (case nc_ws_headers node of Some h \<Rightarrow> h | None \<Rightarrow> []))\<rparr>"

definition vmess_query :: "OutboundNodeConfig \<Rightarrow> string \<times> string \<Rightarrow> OutboundNodeConfig" where
  "vmess_query node kv =
     (case kv of (key, v) \<Rightarrow>
        if key = ''security'' \<or> key = ''scy'' then node\<lparr>nc_security := Some v\<rparr>
        else if key = ''alterId'' \<or> key = ''aid'' then node\<lparr>nc_alter_id := parse_u32_radix 10 v\<rparr>
        else if key = ''network'' \<or> key = ''net'' then node\<lparr>nc_network := Some v\<rparr>
        else if key = ''sni'' then node\<lparr>nc_sni := Some v\<rparr>
        else if key = ''path'' \<or> key = ''wsPath'' then node\<lparr>nc_ws_path := Some v\<rparr>
        else if key = ''grpcServiceName'' then node\<lparr>nc_grpc_service_name := Some v\<rparr>
        else if key = ''host'' then
          (let network = (case nc_network node of Some n \<Rightarrow> n | None \<Rightarrow> [])
           in if network = ''h2'' then node\<lparr>nc_h2_host := Some v\<rparr>
              else if network = ''ws'' then set_host_header v node
              else node)
        else node)"

definition or_else :: "'a option \<Rightarrow> 'a option \<Rightarrow> 'a option" where
  "or_else x y = (case x of Some v \<Rightarrow> Some v | None \<Rightarrow> y)"

definition json_str :: "'j import_libs \<Rightarrow> 'j \<Rightarrow> string \<Rightarrow> string option" where
  "json_str il json key = Option.bind (il_get il json key) (il_as_str il)"

definition json_u64 :: "'j import_libs \<Rightarrow> 'j \<Rightarrow> string \<Rightarrow> u64 option" where
  "json_u64 il json key =
     Option.bind (il_get il json key) (\<lambda>v. or_else (il_as_u64 il v) (Option.bind (il_as_str il v) parse_u64))"

definition parse_vmess_json :: "'j import_libs \<Rightarrow> 'j \<Rightarrow> OutboundNodeConfig \<Rightarrow> ConfigError + OutboundNodeConfig" where
  "parse_vmess_json il json node0 =
     (let get = json_str il json;
          node1 = (case (get ''add'', json_u64 il json ''port'') of
                     (Some add, Some port) \<Rightarrow> node0\<lparr>nc_address := add @ '':'' @ show_dec (unat port)\<rparr>
                   | _ \<Rightarrow> node0);
          node2 = node1\<lparr>nc_uuid := or_else (get ''id'') (nc_uuid node1),
                       nc_alter_id := map_option (\<lambda>v. ucast v) (json_u64 il json ''aid''),
                       nc_security := or_else (get ''scy'') (get ''security''),
                       nc_network := get ''net'',
                       nc_sni := or_else (get ''sni'') (case get ''tls'' of Some s \<Rightarrow> if s \<noteq> ''none'' then Some s else None | None \<Rightarrow> None)\<rparr>;
          node3 = (case get ''path'' of Some path \<Rightarrow> node2\<lparr>nc_ws_path := Some path\<rparr> | None \<Rightarrow> node2);
          node = (case get ''host'' of
                    None \<Rightarrow> node3
                  | Some host \<Rightarrow>
                      if nc_network node3 = Some ''h2'' then node3\<lparr>nc_h2_host := Some host\<rparr>
                      else if nc_network node3 = Some ''ws'' then set_host_header host node3
                      else node3)
      in if nc_uuid node = None \<or> nc_address node = [] then Inl (ImportInvalid (nc_name node) ''vmess://<base64>'')
         else Inr node)"

definition parse_vmess_import :: "'j import_libs \<Rightarrow> string \<Rightarrow> OutboundNodeConfig \<Rightarrow> (ConfigError + OutboundNodeConfig) run" where
  "parse_vmess_import il rest node0 =
     (let node1 = node0\<lparr>nc_protocol := ''vmess''\<rparr>
      in case Option.bind (base64_decode il rest) (il_json il) of
           Some json \<Rightarrow> Ret (parse_vmess_json il json node1)
         | None \<Rightarrow>
             run_bind (split_url rest) (\<lambda>(main, query).
               (let node2 = (case rsplit_once (CHR ''@'') main of
                               None \<Rightarrow> node1
                             | Some (u, addr) \<Rightarrow> node1\<lparr>nc_uuid := Some u, nc_address := strip_trailing_slash addr\<rparr>);
                    node = foldl vmess_query node2 query
                in if nc_uuid node = None \<or> nc_address node = [] then Ret (Inl (ImportInvalid (nc_name node) (''vmess://'' @ rest)))
                   else Ret (Inr node))))"

section \<open>Dispatch\<close>

definition parse_import_url ::
    "'j import_libs \<Rightarrow> string \<Rightarrow> string \<Rightarrow> OutboundNodeConfig \<Rightarrow> (ConfigError + OutboundNodeConfig) run" where
  "parse_import_url il node_name url node =
     (case or_else (strip_prefix ''socks5://'' url) (strip_prefix ''socks://'' url) of
        Some rest \<Rightarrow> Ret (Inr (parse_socks5_import rest node))
      | None \<Rightarrow>
     (case strip_prefix ''ss://'' url of Some rest \<Rightarrow> Ret (parse_ss_import il rest node) | None \<Rightarrow>
     (case strip_prefix ''trojan://'' url of Some rest \<Rightarrow> parse_trojan_import rest node | None \<Rightarrow>
     (case strip_prefix ''tuic://'' url of Some rest \<Rightarrow> parse_tuic_import rest node | None \<Rightarrow>
     (case strip_prefix ''juicity://'' url of Some rest \<Rightarrow> parse_juicity_import rest node | None \<Rightarrow>
     (case strip_prefix ''vmess://'' url of Some rest \<Rightarrow> parse_vmess_import il rest node | None \<Rightarrow>
        Ret (Inl (ImportInvalid node_name url))))))))"

end
