(* ===== verification/Config_Parser.thy ===== *)
theory Config_Parser
  imports Config_Import
begin

text \<open>
  The parser of the configuration text, \<^verbatim>\<open>control/src/config/parser.rs\<close>: the preprocessing of lines,
  the helpers, and the line-driven state machine \<^verbatim>\<open>parse_daefile\<close> with one definition for each
  section.  Every \<^verbatim>\<open>unquote\<close> may panic, so the sections return a \<open>run\<close>.
\<close>

section \<open>Lines\<close>

fun comment_pos :: "char option \<Rightarrow> nat \<Rightarrow> string \<Rightarrow> nat option" where
  "comment_pos in_quote i [] = None"
| "comment_pos in_quote i (ch # cs) =
     (if (ch = quote1 \<or> ch = quote2) \<and> in_quote = Some ch then comment_pos None (Suc i) cs
      else if (ch = quote1 \<or> ch = quote2) \<and> in_quote = None then comment_pos (Some ch) (Suc i) cs
      else if ch = CHR ''#'' \<and> in_quote = None then Some i
      else comment_pos in_quote (Suc i) cs)"

definition strip_inline_comment :: "string \<Rightarrow> string" where
  "strip_inline_comment line =
     (case comment_pos None 0 line of Some i \<Rightarrow> trim_end (take i line) | None \<Rightarrow> line)"

fun merge_lines :: "string list \<Rightarrow> string" where
  "merge_lines [] = []"
| "merge_lines (line # rest) =
     (case strip_suffix [CHR 0x5C] (trim_end line) of
        Some stripped \<Rightarrow> stripped @ merge_lines rest
      | None \<Rightarrow> line @ (if rest = [] then [] else CHR 0x0A # merge_lines rest))"

definition preprocess_multiline :: "string \<Rightarrow> string" where
  "preprocess_multiline input = merge_lines (lines input)"

section \<open>Values\<close>

definition parse_bool :: "string \<Rightarrow> bool option" where
  "parse_bool s0 =
     (let s = trim s0
      in if s = ''true'' \<or> s = ''yes'' \<or> s = ''on'' \<or> s = ''1'' then Some True
         else if s = ''false'' \<or> s = ''no'' \<or> s = ''off'' \<or> s = ''0'' then Some False
         else None)"

definition parse_hex_or_decimal :: "string \<Rightarrow> nat \<Rightarrow> string \<Rightarrow> ConfigError + u32" where
  "parse_hex_or_decimal v line_number key =
     (if starts_with v ''0x'' \<or> starts_with v ''0X''
      then ok_or (FieldType line_number key (CannotParse ''hex value'' v)) (parse_u32_radix 16 (drop 2 v))
      else ok_or (FieldType line_number key (CannotParse ''integer'' v)) (parse_u32_radix 10 v))"

definition parse_kv_pair :: "string \<Rightarrow> nat \<Rightarrow> ConfigError + string \<times> string" where
  "parse_kv_pair line line_number =
     (case split_once (CHR '':'') line of
        None \<Rightarrow> Inl (Syntax line_number (Expected ''key: value'' line))
      | Some (k, v) \<Rightarrow>
          if trim k = [] then Inl (Syntax line_number (EmptyEntry ''key name'' line)) else Inr (trim k, trim v))"

definition split_csv_list :: "string \<Rightarrow> string list run" where
  "split_csv_list v =
     run_bind (run_map (\<lambda>s. unquote (trim s)) (split_char (CHR '','') v)) (\<lambda>xs. Ret (filter (\<lambda>s. s \<noteq> []) xs))"

fun map_value_loop :: "string list \<Rightarrow> nat \<Rightarrow> string \<Rightarrow> (string \<times> string) list \<Rightarrow> (ConfigError + (string \<times> string) list) run" where
  "map_value_loop [] line_number field m = Ret (Inr m)"
| "map_value_loop (entry0 # entries) line_number field m =
     (let entry = trim entry0
      in if entry = [] then map_value_loop entries line_number field m
         else (case split_once (CHR '':'') entry of
                 None \<Rightarrow> Ret (Inl (Syntax line_number (Expected field entry)))
               | Some (k0, v0) \<Rightarrow>
                   run_bind (unquote (trim k0)) (\<lambda>key.
                   run_bind (unquote (trim v0)) (\<lambda>val.
                     if key = [] then Ret (Inl (Syntax line_number (EmptyEntry field entry)))
                     else map_value_loop entries line_number field (map_insert key val m)))))"

definition parse_map_value :: "string \<Rightarrow> nat \<Rightarrow> string \<Rightarrow> (ConfigError + (string \<times> string) list) run" where
  "parse_map_value v0 line_number field =
     (let v = trim v0
      in case Option.bind (strip_prefix ''{'' v) (strip_suffix ''}'') of
           None \<Rightarrow> Ret (Inl (Syntax line_number (Expected field v)))
         | Some inner \<Rightarrow> map_value_loop (split_char (CHR '','') inner) line_number field [])"

definition parse_import_line :: "string \<Rightarrow> string option run" where
  "parse_import_line line =
     (case strip_prefix ''import:'' (trim line) of
        None \<Rightarrow> Ret None
      | Some rest \<Rightarrow> run_bind (unquote (trim rest)) (\<lambda>v. Ret (Some v)))"

definition parse_nodes_selector :: "string \<Rightarrow> NodeSelector list option run" where
  "parse_nodes_selector line =
     (case Option.bind (strip_prefix ''nodes('' (trim line)) (strip_suffix '')'') of
        None \<Rightarrow> Ret None
      | Some content0 \<Rightarrow>
          (let content = trim content0
           in if content = [] then Ret (Some [])
              else (case strip_prefix ''regex:'' content of
                      Some pat \<Rightarrow> run_bind (unquote (trim pat)) (\<lambda>p. Ret (Some [SelRegex p]))
                    | None \<Rightarrow>
                        (let nodes = filter (\<lambda>s. s \<noteq> []) (map trim (split_char (CHR '','') content))
                         in Ret (Some (if nodes \<noteq> [] then [SelList nodes] else []))))))"

fun comm_items :: "string list \<Rightarrow> string list \<Rightarrow> string list run" where
  "comm_items [] acc = Ret acc"
| "comm_items (item0 # items) acc =
     (let item = trim item0
      in if item = [] then comm_items items acc
         else run_bind (unquote item) (\<lambda>v. comm_items items (acc @ [v])))"

fun id_items :: "string \<Rightarrow> nat \<Rightarrow> string list \<Rightarrow> u32 list \<Rightarrow> ConfigError + u32 list" where
  "id_items field line_number [] acc = Inr acc"
| "id_items field line_number (item0 # items) acc =
     (let item = trim item0
      in if item = [] then id_items field line_number items acc
         else (case parse_u32_radix 10 item of
                 None \<Rightarrow> Inl (FieldType line_number field (CannotParse ''integer'' item))
               | Some v \<Rightarrow> id_items field line_number items (acc @ [v])))"

definition call_args :: "string \<Rightarrow> string \<Rightarrow> string list option" where
  "call_args name line = map_option (split_char (CHR '','')) (Option.bind (strip_prefix (name @ ''('') line) (strip_suffix '')''))"

definition parse_match_stmts :: "string \<Rightarrow> nat \<Rightarrow> ProcessMatchConfig \<Rightarrow> (ConfigError + ProcessMatchConfig) run" where
  "parse_match_stmts line0 line_number m =
     (let line = trim line0
      in case call_args ''comm'' line of
           Some args \<Rightarrow> run_bind (comm_items args (pm_comm m)) (\<lambda>xs. Ret (Inr (m\<lparr>pm_comm := xs\<rparr>)))
         | None \<Rightarrow>
        (case call_args ''pid'' line of
           Some args \<Rightarrow> Ret (res_bind (id_items ''pid'' line_number args (pm_pid m)) (\<lambda>xs. Inr (m\<lparr>pm_pid := xs\<rparr>)))
         | None \<Rightarrow>
        (case call_args ''tgid'' line of
           Some args \<Rightarrow> Ret (res_bind (id_items ''tgid'' line_number args (pm_tgid m)) (\<lambda>xs. Inr (m\<lparr>pm_tgid := xs\<rparr>)))
         | None \<Rightarrow> Ret (Inl (Syntax line_number (Expected ''comm(...)/pid(...)/tgid(...) in match'' line))))))"

section \<open>Fields of the sections\<close>

text \<open>A field that is an unquoted string, an integer or a boolean; \<open>put\<close> stores the value.\<close>

definition text_field :: "string \<Rightarrow> (string \<Rightarrow> 'a) \<Rightarrow> (ConfigError + 'a) run" where
  "text_field v put = run_bind (unquote v) (\<lambda>t. Ret (Inr (put t)))"

definition int_field :: "nat \<Rightarrow> string \<Rightarrow> string \<Rightarrow> 'n option \<Rightarrow> ('n \<Rightarrow> 'a) \<Rightarrow> (ConfigError + 'a) run" where
  "int_field line_number key v parsed put =
     Ret (res_bind (ok_or (FieldType line_number key (CannotParse ''integer'' v)) parsed) (\<lambda>n. Inr (put n)))"

definition bool_field :: "nat \<Rightarrow> string \<Rightarrow> string \<Rightarrow> (bool \<Rightarrow> 'a) \<Rightarrow> (ConfigError + 'a) run" where
  "bool_field line_number key v put =
     Ret (res_bind (ok_or (FieldType line_number key (CannotParse ''boolean'' v)) (parse_bool v)) (\<lambda>b. Inr (put b)))"

definition global_field :: "nat \<Rightarrow> string \<Rightarrow> string \<Rightarrow> RuntimeConfig \<Rightarrow> (ConfigError + RuntimeConfig) run" where
  "global_field n key v rt =
     (if key = ''tproxy_port'' then int_field n key v (parse_u16 v) (\<lambda>x. rt\<lparr>rt_tproxy_port := x\<rparr>)
      else if key = ''log_level'' then text_field v (\<lambda>x. rt\<lparr>rt_log_level := x\<rparr>)
      else if key = ''route_table'' then int_field n key v (parse_u32_radix 10 v) (\<lambda>x. rt\<lparr>rt_route_table := x\<rparr>)
      else if key = ''fwmark_proxy'' then Ret (res_bind (parse_hex_or_decimal v n key) (\<lambda>x. Inr (rt\<lparr>rt_fwmark_proxy := x\<rparr>)))
      else if key = ''fwmark_bypass'' then Ret (res_bind (parse_hex_or_decimal v n key) (\<lambda>x. Inr (rt\<lparr>rt_fwmark_bypass := x\<rparr>)))
      else if key = ''fwmark_mask'' then Ret (res_bind (parse_hex_or_decimal v n key) (\<lambda>x. Inr (rt\<lparr>rt_fwmark_mask := x\<rparr>)))
      else if key = ''mtu'' then int_field n key v (parse_u32_radix 10 v) (\<lambda>x. rt\<lparr>rt_mtu := x\<rparr>)
      else Ret (Inl (Syntax n (Unknown ''global field'' key))))"

definition interface_field :: "nat \<Rightarrow> string \<Rightarrow> string \<Rightarrow> InterfaceConfig \<Rightarrow> (ConfigError + InterfaceConfig) run" where
  "interface_field n key v iface =
     (if key = ''wan_interface'' then run_bind (run_map unquote (split_whitespace v)) (\<lambda>xs. Ret (Inr (iface\<lparr>if_wan_interface := xs\<rparr>)))
      else if key = ''lan_interface'' then run_bind (run_map unquote (split_whitespace v)) (\<lambda>xs. Ret (Inr (iface\<lparr>if_lan_interface := xs\<rparr>)))
      else if key = ''bind_interface'' then text_field v (\<lambda>x. iface\<lparr>if_bind_interface := Some x\<rparr>)
      else Ret (Inl (Syntax n (Unknown ''interface field'' key))))"

definition process_exclusion_field ::
    "nat \<Rightarrow> string \<Rightarrow> string \<Rightarrow> ProcessExclusionConfig \<Rightarrow> (ConfigError + ProcessExclusionConfig) run" where
  "process_exclusion_field n key v pe =
     (if key = ''enabled'' then bool_field n key v (\<lambda>x. pe\<lparr>pe_enabled := x\<rparr>)
      else if key = ''protect_self'' then bool_field n key v (\<lambda>x. pe\<lparr>pe_protect_self := x\<rparr>)
      else if key = ''protect_children'' then bool_field n key v (\<lambda>x. pe\<lparr>pe_protect_children := x\<rparr>)
      else if key = ''gc_interval_sec'' then int_field n key v (parse_u32_radix 10 v) (\<lambda>x. pe\<lparr>pe_gc_interval_sec := x\<rparr>)
      else if key = ''stale_after_sec'' then int_field n key v (parse_u32_radix 10 v) (\<lambda>x. pe\<lparr>pe_stale_after_sec := x\<rparr>)
      else Ret (Inl (Syntax n (Unknown ''process_exclusion field'' key))))"

definition node_field :: "nat \<Rightarrow> string \<Rightarrow> string \<Rightarrow> OutboundNodeConfig \<Rightarrow> (ConfigError + OutboundNodeConfig) run" where
  "node_field n key v node =
     (if key = ''protocol'' then text_field v (\<lambda>x. node\<lparr>nc_protocol := x\<rparr>)
      else if key = ''address'' then text_field v (\<lambda>x. node\<lparr>nc_address := x\<rparr>)
      else if key = ''username'' then text_field v (\<lambda>x. node\<lparr>nc_username := Some x\<rparr>)
      else if key = ''password'' then text_field v (\<lambda>x. node\<lparr>nc_password := Some x\<rparr>)
      else if key = ''cipher'' then text_field v (\<lambda>x. node\<lparr>nc_cipher := Some x\<rparr>)
      else if key = ''sni'' then text_field v (\<lambda>x. node\<lparr>nc_sni := Some x\<rparr>)
      else if key = ''ca_sha256'' then text_field v (\<lambda>x. node\<lparr>nc_ca_sha256 := Some x\<rparr>)
      else if key = ''uuid'' then text_field v (\<lambda>x. node\<lparr>nc_uuid := Some x\<rparr>)
      else if key = ''congestion_control'' then text_field v (\<lambda>x. node\<lparr>nc_congestion_control := Some x\<rparr>)
      else if key = ''alpn'' then
        run_bind (run_map unquote (split_char (CHR '','') v)) (\<lambda>xs. Ret (Inr (node\<lparr>nc_alpn := Some (filter (\<lambda>s. s \<noteq> []) xs)\<rparr>)))
      else if key = ''security'' then text_field v (\<lambda>x. node\<lparr>nc_security := Some x\<rparr>)
      else if key = ''alter_id'' then int_field n key v (parse_u32_radix 10 v) (\<lambda>x. node\<lparr>nc_alter_id := Some x\<rparr>)
      else if key = ''network'' then text_field v (\<lambda>x. node\<lparr>nc_network := Some x\<rparr>)
      else if key = ''ws_path'' then text_field v (\<lambda>x. node\<lparr>nc_ws_path := Some x\<rparr>)
      else if key = ''ws_headers'' then try_bind (parse_map_value v n key) (\<lambda>m. Ret (Inr (node\<lparr>nc_ws_headers := Some m\<rparr>)))
      else if key = ''h2_path'' then text_field v (\<lambda>x. node\<lparr>nc_h2_path := Some x\<rparr>)
      else if key = ''h2_host'' then text_field v (\<lambda>x. node\<lparr>nc_h2_host := Some x\<rparr>)
      else if key = ''grpc_service_name'' then text_field v (\<lambda>x. node\<lparr>nc_grpc_service_name := Some x\<rparr>)
      else if key = ''dial_timeout_ms'' then int_field n key v (parse_u64 v) (\<lambda>x. node\<lparr>nc_dial_timeout_ms := x\<rparr>)
      else Ret (Inl (Syntax n (Unknown ''node field'' key))))"

definition group_type_of :: "string \<Rightarrow> GroupType option" where
  "group_type_of v = (if v = ''auto'' then Some GroupAuto else if v = ''select'' then Some GroupSelect else None)"

definition policy_of :: "string \<Rightarrow> PolicyType option" where
  "policy_of v =
     (if v = ''fixed'' then Some PolicyFixed else if v = ''random'' then Some PolicyRandom
      else if v = ''min'' then Some PolicyMin else if v = ''min_avg10'' then Some PolicyMinAvg10
      else if v = ''min_moving_avg'' then Some PolicyMinMovingAvg else None)"

definition group_field :: "nat \<Rightarrow> string \<Rightarrow> string \<Rightarrow> OutboundGroupConfig \<Rightarrow> (ConfigError + OutboundGroupConfig) run" where
  "group_field n key v grp =
     (if key = ''type'' then
        run_bind (unquote v) (\<lambda>t. Ret (res_bind (ok_or (InvalidValue n key (Unknown ''group type'' t)) (group_type_of t))
          (\<lambda>gt. Inr (grp\<lparr>gc_group_type := gt\<rparr>))))
      else if key = ''policy'' then
        run_bind (unquote v) (\<lambda>t. Ret (res_bind (ok_or (InvalidValue n key (Unknown ''policy'' t)) (policy_of t))
          (\<lambda>p. Inr (grp\<lparr>gc_policy := Some p\<rparr>))))
      else if key = ''selected'' then text_field v (\<lambda>x. grp\<lparr>gc_selected := Some x\<rparr>)
      else Ret (Inl (Syntax n (Unknown ''group field'' key))))"

definition api_field :: "nat \<Rightarrow> string \<Rightarrow> string \<Rightarrow> ApiConfig \<Rightarrow> (ConfigError + ApiConfig) run" where
  "api_field n key v api =
     (if key = ''enabled'' then bool_field n key v (\<lambda>x. api\<lparr>ac_enabled := x\<rparr>)
      else if key = ''listen'' then text_field v (\<lambda>x. api\<lparr>ac_listen := x\<rparr>)
      else if key = ''tls'' then bool_field n key v (\<lambda>x. api\<lparr>ac_tls := x\<rparr>)
      else if key = ''cert'' then text_field v (\<lambda>x. api\<lparr>ac_cert := Some x\<rparr>)
      else if key = ''key'' then text_field v (\<lambda>x. api\<lparr>ac_key := Some x\<rparr>)
      else if key = ''token'' then text_field v (\<lambda>x. api\<lparr>ac_token := x\<rparr>)
      else Ret (Inl (Syntax n (Unknown ''api field'' key))))"

definition dns_field :: "nat \<Rightarrow> string \<Rightarrow> string \<Rightarrow> DnsConfig \<Rightarrow> (ConfigError + DnsConfig) run" where
  "dns_field n key v dns =
     (if key = ''listen_addr'' then text_field v (\<lambda>x. dns\<lparr>dc_listen_addr := x\<rparr>)
      else if key = ''proxy_dns_servers'' then run_bind (split_csv_list v) (\<lambda>xs. Ret (Inr (dns\<lparr>dc_proxy_dns_servers := xs\<rparr>)))
      else if key = ''direct_dns_servers'' then run_bind (split_csv_list v) (\<lambda>xs. Ret (Inr (dns\<lparr>dc_direct_dns_servers := xs\<rparr>)))
      else if key = ''direct_use_system_dns'' then bool_field n key v (\<lambda>x. dns\<lparr>dc_direct_use_system_dns := x\<rparr>)
      else if key = ''query_timeout_ms'' then int_field n key v (parse_u64 v) (\<lambda>x. dns\<lparr>dc_query_timeout_ms := x\<rparr>)
      else if key = ''enable_cache'' then bool_field n key v (\<lambda>x. dns\<lparr>dc_enable_cache := x\<rparr>)
      else Ret (Inl (Syntax n (Unknown ''dns field'' key))))"

definition rule_set_type_of :: "string \<Rightarrow> RuleSetType option" where
  "rule_set_type_of v = (if v = ''domain_list'' then Some DomainList else if v = ''ip_list'' then Some IpList else None)"

definition rule_set_field :: "string \<Rightarrow> nat \<Rightarrow> string \<Rightarrow> string \<Rightarrow> RuleSetConfig \<Rightarrow> (ConfigError + RuleSetConfig) run" where
  "rule_set_field entry_name n key v rs =
     (if key = ''type'' then
        run_bind (unquote v) (\<lambda>t.
          Ret (res_bind (ok_or (InvalidValue n (''rule_set.'' @ entry_name @ ''.type'') (Unknown ''rule set type'' t)) (rule_set_type_of t))
            (\<lambda>ty. Inr (rs\<lparr>cfg_type := ty\<rparr>))))
      else if key = ''url'' then text_field v (\<lambda>url. rs\<lparr>cfg_expected_sha256 := expected_sha256_from_url url, cfg_url := url\<rparr>)
      else if key = ''name'' then text_field v (\<lambda>x. rs\<lparr>cfg_name := x\<rparr>)
      else if key = ''update'' then
        (if cfg_update rs \<noteq> None then Ret (Inl (Syntax n (UpdateAlreadySet entry_name)))
         else (case strip_prefix ''time:'' (trim v) of
                 Some t \<Rightarrow> Ret (Inr (rs\<lparr>cfg_update := Some (UpdTime (trim t))\<rparr>))
               | None \<Rightarrow>
                   (case strip_prefix ''period:'' (trim v) of
                      Some p \<Rightarrow> Ret (Inr (rs\<lparr>cfg_update := Some (UpdPeriod (trim p))\<rparr>))
                    | None \<Rightarrow> Ret (Inl (Syntax n (Expected entry_name (trim v)))))))
      else if key = ''update_on_start'' then bool_field n key v (\<lambda>x. rs\<lparr>cfg_update_on_start := x\<rparr>)
      else if key = ''proxy'' then text_field v (\<lambda>x. rs\<lparr>cfg_proxy := Some x\<rparr>)
      else Ret (Inl (Syntax n (Unknown ''rule set field'' key))))"

section \<open>The state machine\<close>

record pstate =
  ps_config :: DaefileConfig
  ps_state :: ParseState
  ps_stack :: "ParseState list"
  ps_node :: OutboundNodeConfig
  ps_has_import :: bool
  ps_import_url :: string
  ps_group :: OutboundGroupConfig
  ps_match :: ProcessMatchConfig
  ps_rule_set :: RuleSetConfig

definition pstate_init :: pstate where
  "pstate_init =
     \<lparr>ps_config = DaefileConfig_default, ps_state = Top, ps_stack = [], ps_node = empty_node [], ps_has_import = False,
      ps_import_url = [], ps_group = empty_group [], ps_match = ProcessMatchConfig_default, ps_rule_set = empty_rule_set []\<rparr>"

definition with_kv ::
    "string \<Rightarrow> nat \<Rightarrow> (string \<Rightarrow> string \<Rightarrow> (ConfigError + 'a) run) \<Rightarrow> (ConfigError + 'a) run" where
  "with_kv line n f = try_bind (Ret (parse_kv_pair line n)) (\<lambda>(key, v). f key v)"

definition section_of :: "string \<Rightarrow> ParseState option" where
  "section_of name =
     (if name = ''global'' then Some Global else if name = ''interface'' then Some Interface
      else if name = ''process_exclusion'' then Some ProcessExclusion else if name = ''outbounds'' then Some InOutbounds
      else if name = ''routing'' then Some Routing else if name = ''api'' then Some Api
      else if name = ''dns'' then Some Dns else if name = ''rule_set'' then Some InRuleSet else None)"

definition top_line :: "nat \<Rightarrow> string \<Rightarrow> pstate \<Rightarrow> ConfigError + pstate" where
  "top_line n line ps =
     (case strip_suffix ''{'' line of
        None \<Rightarrow> Inl (Syntax n (Expected ''section declaration'' line))
      | Some s \<Rightarrow> res_bind (ok_or (UnknownSection n (trim s)) (section_of (trim s))) (\<lambda>st. Inr (ps\<lparr>ps_state := st\<rparr>)))"

definition set_config :: "(DaefileConfig \<Rightarrow> DaefileConfig) \<Rightarrow> pstate \<Rightarrow> pstate" where
  "set_config f ps = ps\<lparr>ps_config := f (ps_config ps)\<rparr>"

definition get_or :: "'a \<Rightarrow> 'a option \<Rightarrow> 'a" where
  "get_or d x = (case x of Some v \<Rightarrow> v | None \<Rightarrow> d)"

text \<open>\<^verbatim>\<open>Option::get_or_insert_with\<close> stores the default before the line is parsed; an error ends the parser.\<close>

definition global_line :: "nat \<Rightarrow> string \<Rightarrow> pstate \<Rightarrow> (ConfigError + pstate) run" where
  "global_line n line ps =
     (if line = ''}'' then Ret (Inr (ps\<lparr>ps_state := Top\<rparr>))
      else try_bind (with_kv line n (\<lambda>k v. global_field n k v (dae_runtime (ps_config ps)))) (\<lambda>rt.
             Ret (Inr (set_config (\<lambda>c. c\<lparr>dae_runtime := rt\<rparr>) ps))))"

definition interface_line :: "nat \<Rightarrow> string \<Rightarrow> pstate \<Rightarrow> (ConfigError + pstate) run" where
  "interface_line n line ps =
     (if line = ''}'' then Ret (Inr (ps\<lparr>ps_state := Top\<rparr>))
      else try_bind (with_kv line n (\<lambda>k v. interface_field n k v (get_or InterfaceConfig_default (dae_interface (ps_config ps))))) (\<lambda>i.
             Ret (Inr (set_config (\<lambda>c. c\<lparr>dae_interface := Some i\<rparr>) ps))))"

definition process_exclusion_line :: "nat \<Rightarrow> string \<Rightarrow> pstate \<Rightarrow> (ConfigError + pstate) run" where
  "process_exclusion_line n line ps =
     (let pe = get_or ProcessExclusionConfig_default (dae_process_exclusion (ps_config ps))
      in if line = ''}'' then
           Ret (Inr ((set_config (\<lambda>c. c\<lparr>dae_process_exclusion := Some (pe\<lparr>pe_match := ps_match ps\<rparr>)\<rparr>) ps)
             \<lparr>ps_match := ProcessMatchConfig_default, ps_state := Top\<rparr>))
         else if starts_with line ''match'' \<and> CHR 0x7B \<in> set line then
           (let ps1 = ps\<lparr>ps_stack := ps_stack ps @ [ProcessExclusion], ps_state := ProcessMatch\<rparr>;
                after_brace = trim (strip_heads [''match''] line)
            in if after_brace = ''{'' then Ret (Inr ps1)
               else (case Option.bind (map_option trim (strip_prefix ''{'' after_brace)) (\<lambda>rest. map_option trim (strip_suffix ''}'' rest)) of
                       None \<Rightarrow> Ret (Inr ps1)
                     | Some inner \<Rightarrow>
                         try_bind (parse_match_stmts inner n (ps_match ps1)) (\<lambda>m.
                           Ret (Inr (ps1\<lparr>ps_match := m, ps_state := ProcessExclusion\<rparr>)))))
         else try_bind (with_kv line n (\<lambda>k v. process_exclusion_field n k v pe)) (\<lambda>pe'.
                Ret (Inr (set_config (\<lambda>c. c\<lparr>dae_process_exclusion := Some pe'\<rparr>) ps))))"

definition process_match_line :: "nat \<Rightarrow> string \<Rightarrow> pstate \<Rightarrow> (ConfigError + pstate) run" where
  "process_match_line n line ps =
     (if line = ''}'' then
        Ret (Inr (if ps_stack ps = [] then ps\<lparr>ps_state := ProcessExclusion\<rparr>
                  else ps\<lparr>ps_state := last (ps_stack ps), ps_stack := butlast (ps_stack ps)\<rparr>))
      else try_bind (parse_match_stmts line n (ps_match ps)) (\<lambda>m. Ret (Inr (ps\<lparr>ps_match := m\<rparr>))))"

definition outbounds_line :: "nat \<Rightarrow> string \<Rightarrow> pstate \<Rightarrow> ConfigError + pstate" where
  "outbounds_line n line ps =
     (if line = ''}'' then Inr (ps\<lparr>ps_state := Top\<rparr>)
      else if line = ''nodes {'' then Inr (ps\<lparr>ps_state := OutboundNodes\<rparr>)
      else if line = ''groups {'' then Inr (ps\<lparr>ps_state := OutboundGroups\<rparr>)
      else Inl (Syntax n (Expected ''nodes or groups inside outbounds'' line)))"

text \<open>A declaration \<^verbatim>\<open>name {\<close>: a name that is not empty and has no space.\<close>

definition declared :: "string \<Rightarrow> string option" where
  "declared line =
     (case map_option trim (strip_suffix ''{'' line) of
        Some name \<Rightarrow> if name \<noteq> [] \<and> CHR '' '' \<notin> set name then Some name else None
      | None \<Rightarrow> None)"

definition nodes_line :: "nat \<Rightarrow> string \<Rightarrow> pstate \<Rightarrow> ConfigError + pstate" where
  "nodes_line n line ps =
     (if line = ''}'' then Inr (ps\<lparr>ps_state := InOutbounds\<rparr>)
      else (case declared line of
              Some name \<Rightarrow> Inr (ps\<lparr>ps_node := empty_node name, ps_has_import := False, ps_import_url := [],
                                  ps_state := OutboundNode name\<rparr>)
            | None \<Rightarrow> Inl (Syntax n (Expected ''node declaration in nodes'' line))))"

definition push_node :: "OutboundNodeConfig \<Rightarrow> pstate \<Rightarrow> pstate" where
  "push_node node ps =
     (set_config (\<lambda>c. c\<lparr>dae_outbounds := (dae_outbounds c)\<lparr>os_nodes := os_nodes (dae_outbounds c) @ [node]\<rparr>\<rparr>) ps)
       \<lparr>ps_node := empty_node [], ps_state := OutboundNodes\<rparr>"

definition node_line :: "'j import_libs \<Rightarrow> string \<Rightarrow> nat \<Rightarrow> string \<Rightarrow> pstate \<Rightarrow> (ConfigError + pstate) run" where
  "node_line il node_name n line ps =
     (if line = ''}'' then
        try_bind (if ps_has_import ps then parse_import_url il node_name (ps_import_url ps) (ps_node ps) else Ret (Inr (ps_node ps)))
          (\<lambda>node. Ret (Inr (push_node node ps)))
      else run_bind (parse_import_line line) (\<lambda>imp.
        case imp of
          Some url \<Rightarrow> Ret (Inr (ps\<lparr>ps_has_import := True, ps_import_url := url\<rparr>))
        | None \<Rightarrow>
            try_bind (with_kv line n (\<lambda>k v.
                if ps_has_import ps then Ret (Inl (ImportConflict node_name)) else node_field n k v (ps_node ps)))
              (\<lambda>node. Ret (Inr (ps\<lparr>ps_node := node\<rparr>)))))"

definition groups_line :: "nat \<Rightarrow> string \<Rightarrow> pstate \<Rightarrow> ConfigError + pstate" where
  "groups_line n line ps =
     (if line = ''}'' then Inr (ps\<lparr>ps_state := InOutbounds\<rparr>)
      else (case declared line of
              Some name \<Rightarrow> Inr (ps\<lparr>ps_group := empty_group name, ps_state := OutboundGroup name\<rparr>)
            | None \<Rightarrow> Inl (Syntax n (Expected ''group declaration in groups'' line))))"

definition push_group :: "pstate \<Rightarrow> pstate" where
  "push_group ps =
     (set_config (\<lambda>c. c\<lparr>dae_outbounds := (dae_outbounds c)\<lparr>os_groups := os_groups (dae_outbounds c) @ [ps_group ps]\<rparr>\<rparr>) ps)
       \<lparr>ps_group := empty_group [], ps_state := OutboundGroups\<rparr>"

definition group_line :: "nat \<Rightarrow> string \<Rightarrow> pstate \<Rightarrow> (ConfigError + pstate) run" where
  "group_line n line ps =
     (if line = ''}'' then Ret (Inr (push_group ps))
      else run_bind (parse_nodes_selector line) (\<lambda>sel.
        case sel of
          Some sels \<Rightarrow> Ret (Inr (ps\<lparr>ps_group := (ps_group ps)\<lparr>gc_selectors := gc_selectors (ps_group ps) @ sels\<rparr>\<rparr>))
        | None \<Rightarrow>
            try_bind (with_kv line n (\<lambda>k v. group_field n k v (ps_group ps))) (\<lambda>g. Ret (Inr (ps\<lparr>ps_group := g\<rparr>)))))"

definition set_routing :: "(RoutingConfig \<Rightarrow> RoutingConfig) \<Rightarrow> pstate \<Rightarrow> pstate" where
  "set_routing f ps = set_config (\<lambda>c. c\<lparr>dae_routing := f (dae_routing c)\<rparr>) ps"

definition routing_line :: "nat \<Rightarrow> string \<Rightarrow> pstate \<Rightarrow> ConfigError + pstate" where
  "routing_line n line ps =
     (if line = ''}'' then Inr (ps\<lparr>ps_state := Top\<rparr>)
      else (case strip_prefix ''fallback:'' line of
              Some action \<Rightarrow> Inr (set_routing (\<lambda>r. r\<lparr>rc_fallback := trim action\<rparr>) ps)
            | None \<Rightarrow>
                (case find_str ''->'' line of
                   None \<Rightarrow> Inl (Syntax n (Expected ''rule line or fallback in routing'' line))
                 | Some pos \<Rightarrow>
                     (let expr = trim (take pos line); action = trim (drop (pos + 2) line)
                      in if expr \<noteq> [] \<and> action \<noteq> []
                         then Inr (set_routing (\<lambda>r. r\<lparr>rc_rules := rc_rules r @ [\<lparr>rr_match = expr, rr_action = action\<rparr>]\<rparr>) ps)
                         else Inl (Syntax n (Expected ''rule line or fallback in routing'' line))))))"

definition ApiConfig_initial :: ApiConfig where
  "ApiConfig_initial =
     \<lparr>ac_enabled = True, ac_listen = ''127.0.0.1:9090'', ac_tls = False, ac_cert = None, ac_key = None, ac_token = []\<rparr>"

definition api_line :: "nat \<Rightarrow> string \<Rightarrow> pstate \<Rightarrow> (ConfigError + pstate) run" where
  "api_line n line ps =
     (if line = ''}'' then Ret (Inr (ps\<lparr>ps_state := Top\<rparr>))
      else try_bind (with_kv line n (\<lambda>k v. api_field n k v (get_or ApiConfig_initial (dae_api (ps_config ps))))) (\<lambda>a.
             Ret (Inr (set_config (\<lambda>c. c\<lparr>dae_api := Some a\<rparr>) ps))))"

definition dns_line :: "nat \<Rightarrow> string \<Rightarrow> pstate \<Rightarrow> (ConfigError + pstate) run" where
  "dns_line n line ps =
     (if line = ''}'' then Ret (Inr (ps\<lparr>ps_state := Top\<rparr>))
      else try_bind (with_kv line n (\<lambda>k v. dns_field n k v (get_or DnsConfig_default (dae_dns (ps_config ps))))) (\<lambda>d.
             Ret (Inr (set_config (\<lambda>c. c\<lparr>dae_dns := Some d\<rparr>) ps))))"

definition rule_set_line :: "nat \<Rightarrow> string \<Rightarrow> pstate \<Rightarrow> ConfigError + pstate" where
  "rule_set_line n line ps =
     (if line = ''}'' then Inr (ps\<lparr>ps_state := Top\<rparr>)
      else (case declared line of
              Some name \<Rightarrow> Inr (ps\<lparr>ps_rule_set := empty_rule_set name, ps_state := RuleSetEntry name\<rparr>)
            | None \<Rightarrow> Inl (Syntax n (Expected ''rule set entry declaration'' line))))"

definition rule_set_entry_line :: "string \<Rightarrow> nat \<Rightarrow> string \<Rightarrow> pstate \<Rightarrow> (ConfigError + pstate) run" where
  "rule_set_entry_line entry_name n line ps =
     (if line = ''}'' then
        Ret (Inr ((set_config (\<lambda>c. c\<lparr>dae_rule_set := dae_rule_set c @ [ps_rule_set ps]\<rparr>) ps)
          \<lparr>ps_rule_set := empty_rule_set [], ps_state := InRuleSet\<rparr>))
      else try_bind (with_kv line n (\<lambda>k v. rule_set_field entry_name n k v (ps_rule_set ps))) (\<lambda>rs.
             Ret (Inr (ps\<lparr>ps_rule_set := rs\<rparr>))))"

definition state_line :: "'j import_libs \<Rightarrow> nat \<Rightarrow> string \<Rightarrow> pstate \<Rightarrow> (ConfigError + pstate) run" where
  "state_line il n line ps =
     (case ps_state ps of
        Top \<Rightarrow> Ret (top_line n line ps)
      | Global \<Rightarrow> global_line n line ps
      | Interface \<Rightarrow> interface_line n line ps
      | ProcessExclusion \<Rightarrow> process_exclusion_line n line ps
      | ProcessMatch \<Rightarrow> process_match_line n line ps
      | InOutbounds \<Rightarrow> Ret (outbounds_line n line ps)
      | OutboundNodes \<Rightarrow> Ret (nodes_line n line ps)
      | OutboundNode name \<Rightarrow> node_line il name n line ps
      | OutboundGroups \<Rightarrow> Ret (groups_line n line ps)
      | OutboundGroup name \<Rightarrow> group_line n line ps
      | Routing \<Rightarrow> Ret (routing_line n line ps)
      | Api \<Rightarrow> api_line n line ps
      | Dns \<Rightarrow> dns_line n line ps
      | InRuleSet \<Rightarrow> Ret (rule_set_line n line ps)
      | RuleSetEntry name \<Rightarrow> rule_set_entry_line name n line ps)"

definition parse_line :: "'j import_libs \<Rightarrow> nat \<Rightarrow> string \<Rightarrow> pstate \<Rightarrow> (ConfigError + pstate) run" where
  "parse_line il n raw_line ps =
     (let line = trim (strip_inline_comment raw_line)
      in if line = [] \<or> starts_with line ''#'' then Ret (Inr ps) else state_line il n line ps)"

fun parse_lines :: "'j import_libs \<Rightarrow> nat \<Rightarrow> string list \<Rightarrow> pstate \<Rightarrow> (ConfigError + pstate) run" where
  "parse_lines il n [] ps = Ret (Inr ps)"
| "parse_lines il n (l # ls) ps = try_bind (parse_line il n l ps) (parse_lines il (Suc n) ls)"

definition parse_daefile :: "'j import_libs \<Rightarrow> string \<Rightarrow> (ConfigError + DaefileConfig) run" where
  "parse_daefile il input =
     try_bind (parse_lines il 1 (lines (preprocess_multiline input)) pstate_init) (\<lambda>ps.
       if ps_state ps \<noteq> Top then Ret (Inl (Syntax (length (lines input)) (UnclosedBlock (ps_state ps))))
       else Ret (Inr (ps_config ps)))"

end
