(* ===== verification/Config_Print.thy ===== *)
theory Config_Print
  imports Config_Parser
begin

text \<open>
  A printer for configurations and the round trip through the parser.  A block of lines is described
  by the parser states it leads between (\<open>runs\<close>); blocks compose, and every section whose lines are
  \<^verbatim>\<open>key: value\<close> fields satisfies the contract of the locale \<open>field_section\<close>.
\<close>

section \<open>Clean lines\<close>

definition graph_char :: "char \<Rightarrow> bool" where
  "graph_char c \<longleftrightarrow> 33 \<le> byte_of c \<and> byte_of c \<le> 126"

definition fenced :: "string \<Rightarrow> bool" where
  "fenced s \<longleftrightarrow> s \<noteq> [] \<and> graph_char (hd s) \<and> graph_char (last s)"

lemma ws_no_graph: "list_all (\<lambda>p. p \<noteq> [] \<and> \<not> graph_char (hd p) \<and> \<not> graph_char (last p)) ws_utf8"
  by code_simp

lemma headless_graph: "graph_char c \<Longrightarrow> headless ws_utf8 (c # s)" "graph_char c \<Longrightarrow> headless (map rev ws_utf8) (c # s)"
proof -
  assume c: "graph_char c"
  have p: "p \<noteq> [] \<and> \<not> graph_char (hd p) \<and> \<not> graph_char (last p)" if "p \<in> set ws_utf8" for p
    using ws_no_graph that by (auto simp: list_all_iff)
  have "\<not> prefix p (c # s)" if "p \<in> set ws_utf8" for p
    using p [OF that] c by (cases p) auto
  then show "headless ws_utf8 (c # s)" by (simp add: headless_def)
  have "\<not> prefix (rev p) (c # s)" if "p \<in> set ws_utf8" for p
    using p [OF that] c by (cases p rule: rev_cases) auto
  then show "headless (map rev ws_utf8) (c # s)" by (simp add: headless_def)
qed

lemma trim_start_graph: "graph_char c \<Longrightarrow> trim_start (c # s) = c # s"
  by (simp add: trim_start_def strip_heads_headless headless_graph)

lemma trim_end_graph: "graph_char c \<Longrightarrow> trim_end (s @ [c]) = s @ [c]"
  by (simp add: trim_end_def strip_heads_headless headless_graph)

lemma trim_end_fenced: "fenced s \<Longrightarrow> trim_end s = s"
  by (cases s rule: rev_cases) (simp_all add: fenced_def trim_end_graph)

lemma trim_fenced: "fenced s \<Longrightarrow> trim s = s"
  using trim_end_fenced [of s] by (cases s) (simp_all add: fenced_def trim_def trim_start_graph)

lemma trim_start_space: "trim_start (CHR '' '' # s) = trim_start s"
proof -
  have "find (\<lambda>p. p \<noteq> [] \<and> prefix p (CHR '' '' # s)) ws_utf8 = Some '' ''" by (simp add: ws_utf8_def)
  then show ?thesis by (simp add: trim_start_def strip_heads.simps [of ws_utf8 "CHR '' '' # s"])
qed

lemma trim_space_fenced: "fenced s \<Longrightarrow> trim (CHR '' '' # s) = s"
  using trim_fenced [of s] by (simp add: trim_def trim_start_space)

lemma trim_end_space: "trim_end (s @ '' '') = trim_end s"
proof -
  have "find (\<lambda>p. p \<noteq> [] \<and> prefix p (CHR '' '' # rev s)) (map rev ws_utf8) = Some '' ''" by (simp add: ws_utf8_def)
  then show ?thesis by (simp add: trim_end_def strip_heads.simps [of "map rev ws_utf8" "CHR '' '' # rev s"])
qed

lemma trim_fenced_space: "fenced s \<Longrightarrow> trim (s @ '' '') = s"
proof -
  assume s: "fenced s"
  then have "trim_start (s @ '' '') = s @ '' ''" by (cases s) (simp_all add: fenced_def trim_start_graph)
  with s show ?thesis by (simp add: trim_def trim_end_space trim_end_fenced)
qed

lemma fenced_append: "fenced a \<Longrightarrow> fenced b \<Longrightarrow> fenced (a @ m @ b)"
  by (auto simp: fenced_def)

definition clean_line :: "string \<Rightarrow> bool" where
  "clean_line l \<longleftrightarrow> fenced l \<and> comment_pos None 0 l = None \<and> CHR 0x0A \<notin> set l \<and> last l \<noteq> CHR 0x5C"

lemma parse_line_clean: "clean_line l \<Longrightarrow> parse_line il n l ps = state_line il n l ps"
proof -
  assume l: "clean_line l"
  then have "trim l = l" "l \<noteq> []" by (auto simp: clean_line_def trim_fenced fenced_def)
  moreover have "\<not> starts_with l ''#''"
    using l by (cases l) (auto simp: clean_line_def starts_with_def quote1_def quote2_def)
  ultimately show ?thesis
    using l by (simp add: parse_line_def strip_inline_comment_def clean_line_def)
qed

definition unlines :: "string list \<Rightarrow> string" where
  "unlines ls = concat (map (\<lambda>l. l @ [CHR 0x0A]) ls)"

lemma lines_cons: "CHR 0x0A \<notin> set l \<Longrightarrow> lines (l @ CHR 0x0A # s) = strip_cr l # lines s"
  by (simp add: lines_def split_char_append_sep Let_def)

lemma strip_cr_clean: "clean_line l \<Longrightarrow> strip_cr l = l"
proof -
  assume "clean_line l"
  then have "graph_char (last l)" "l \<noteq> []" by (auto simp: clean_line_def fenced_def)
  then have "strip_suffix [CHR 0x0D] l = None"
    by (cases l rule: rev_cases) (auto simp: strip_suffix_def suffix_def graph_char_def byte_of_def)
  then show ?thesis by (simp add: strip_cr_def)
qed

lemma lines_unlines: "list_all clean_line ls \<Longrightarrow> lines (unlines ls) = ls"
proof (induction ls)
  case Nil
  then show ?case by (simp add: unlines_def lines_def)
next
  case (Cons l ls)
  then have "lines (unlines (l # ls)) = strip_cr l # lines (unlines ls)"
    by (simp add: unlines_def lines_cons clean_line_def)
  with Cons show ?case by (simp add: strip_cr_clean)
qed

lemma merge_clean: "list_all clean_line ls \<Longrightarrow> lines (merge_lines ls) = ls"
proof (induction ls)
  case Nil
  then show ?case by (simp add: lines_def)
next
  case (Cons l ls)
  then have l: "clean_line l" by simp
  then have "trim_end l = l" "l \<noteq> []" "last l \<noteq> CHR 0x5C" "CHR 0x0A \<notin> set l"
    by (auto simp: clean_line_def trim_end_fenced fenced_def)
  then have m: "strip_suffix [CHR 0x5C] (trim_end l) = None"
    by (cases l rule: rev_cases) (auto simp: strip_suffix_def suffix_def)
  show ?case
  proof (cases "ls = []")
    case True
    with m \<open>CHR 0x0A \<notin> set l\<close> \<open>l \<noteq> []\<close> show ?thesis by (simp add: lines_def split_char_no_occurrence)
  next
    case False
    with m Cons \<open>CHR 0x0A \<notin> set l\<close> show ?thesis by (simp add: lines_cons strip_cr_clean)
  qed
qed

lemma preprocess_unlines: "list_all clean_line ls \<Longrightarrow> lines (preprocess_multiline (unlines ls)) = ls"
  by (simp add: preprocess_multiline_def lines_unlines merge_clean)

section \<open>Blocks of lines\<close>

definition runs :: "'j import_libs \<Rightarrow> string list \<Rightarrow> pstate \<Rightarrow> pstate \<Rightarrow> bool" where
  "runs il ls ps ps' \<longleftrightarrow> list_all clean_line ls \<and> (\<forall>n. parse_lines il n ls ps = Ret (Inr ps'))"

lemma parse_lines_append:
  "parse_lines il n (as @ bs) ps = try_bind (parse_lines il n as ps) (parse_lines il (n + length as) bs)"
proof (induction as arbitrary: n ps)
  case Nil
  then show ?case by simp
next
  case (Cons a as)
  show ?case
    by (cases "(parse_line il n a ps, parse_lines il (Suc n) as)" rule: try_bind.cases) (simp_all add: Cons)
qed

lemma runs_Nil [intro, simp]: "runs il [] ps ps"
  by (simp add: runs_def)

lemma runs_append: "runs il as ps ps1 \<Longrightarrow> runs il bs ps1 ps2 \<Longrightarrow> runs il (as @ bs) ps ps2"
  by (auto simp: runs_def parse_lines_append)

lemma runs_line: "clean_line l \<Longrightarrow> (\<And>n. state_line il n l ps = Ret (Inr ps')) \<Longrightarrow> runs il [l] ps ps'"
  by (simp add: runs_def parse_line_clean)

lemma runs_Cons: "clean_line l \<Longrightarrow> (\<And>n. state_line il n l ps = Ret (Inr ps1)) \<Longrightarrow> runs il ls ps1 ps2 \<Longrightarrow> runs il (l # ls) ps ps2"
  using runs_append [OF runs_line, of l il ps ps1 ls ps2] by simp

lemma runs_concat:
  assumes "\<And>x s. x \<in> set xs \<Longrightarrow> runs il (f x) (st s) (st (g x s))"
  shows "runs il (concat (map f xs)) (st s) (st (fold g xs s))"
  using assms
proof (induction xs arbitrary: s)
  case (Cons x xs)
  then have "runs il (f x) (st s) (st (g x s))" "runs il (concat (map f xs)) (st (g x s)) (st (fold g xs (g x s)))"
    by auto
  then show ?case by (simp add: runs_append)
qed simp

section \<open>Fields\<close>

text \<open>Values: quoted text, decimal numbers, booleans, lists of quoted items.\<close>

definition qv :: "string \<Rightarrow> string" where
  "qv v = quote1 # v @ [quote1]"

definition quotable :: "string \<Rightarrow> bool" where
  "quotable v \<longleftrightarrow> quote1 \<notin> set v \<and> CHR 0x0A \<notin> set v"

definition bv :: "bool \<Rightarrow> string" where
  "bv b = (if b then ''true'' else ''false'')"

definition key_char :: "char \<Rightarrow> bool" where
  "key_char c \<longleftrightarrow> (97 \<le> byte_of c \<and> byte_of c \<le> 122) \<or> (48 \<le> byte_of c \<and> byte_of c \<le> 57) \<or> c = CHR ''_''"

definition cfg_key :: "string \<Rightarrow> bool" where
  "cfg_key k \<longleftrightarrow> k \<noteq> [] \<and> list_all key_char k"

definition value_ok :: "string \<Rightarrow> bool" where
  "value_ok v \<longleftrightarrow> fenced v \<and> comment_pos None 0 v = None \<and> CHR 0x0A \<notin> set v \<and> last v \<noteq> CHR 0x5C"

lemma comment_pos_shift: "comment_pos q i s = map_option ((+) i) (comment_pos q 0 s)"
proof (induction s arbitrary: q i)
  case (Cons c s)
  show ?case
    by (simp add: Cons [of None "Suc i"] Cons [of None "Suc 0"] Cons [of "Some c" "Suc i"] Cons [of "Some c" "Suc 0"]
        Cons [of q "Suc i"] Cons [of q "Suc 0"] option.map_comp comp_def)
qed simp

lemma value_ok_iff:
  "value_ok v \<longleftrightarrow> fenced v \<and> (\<forall>i. comment_pos None i v = None) \<and> CHR 0x0A \<notin> set v \<and> last v \<noteq> CHR 0x5C"
  using comment_pos_shift [of None _ v] unfolding value_ok_def by (metis option.map_disc_iff)

definition kv :: "string \<Rightarrow> string \<Rightarrow> string" where
  "kv k v = k @ '': '' @ v"

lemma comment_pos_plain:
  "quote1 \<notin> set p \<Longrightarrow> quote2 \<notin> set p \<Longrightarrow> CHR ''#'' \<notin> set p \<Longrightarrow>
    comment_pos None i (p @ v) = comment_pos None (i + length p) v"
  by (induction p arbitrary: i) auto

lemma comment_pos_quoted:
  "quote1 \<notin> set v \<Longrightarrow> comment_pos (Some quote1) i (v @ quote1 # s) = comment_pos None (Suc (i + length v)) s"
  by (induction v arbitrary: i) (auto simp: quote1_def quote2_def)

lemma fenced_graph: "s \<noteq> [] \<Longrightarrow> list_all graph_char s \<Longrightarrow> fenced s"
  by (simp add: fenced_def list_all_iff)

lemma key_char_graph: "key_char c \<Longrightarrow> graph_char c"
  by (auto simp: key_char_def graph_char_def byte_of_def)

lemma key_chars:
  assumes "cfg_key k"
  shows "quote1 \<notin> set k" "quote2 \<notin> set k" "CHR ''#'' \<notin> set k" "CHR '':'' \<notin> set k"
    "CHR 0x0A \<notin> set k" "CHR ''('' \<notin> set k" "CHR 0x7B \<notin> set k" "fenced k"
proof -
  have "list_all graph_char k" using assms key_char_graph by (auto simp: cfg_key_def list_all_iff)
  with assms show "fenced k" by (simp add: cfg_key_def fenced_graph)
qed (use assms in \<open>auto simp: cfg_key_def list_all_iff key_char_def quote1_def quote2_def byte_of_def\<close>)

lemma kv_clean: "cfg_key k \<Longrightarrow> value_ok v \<Longrightarrow> clean_line (kv k v)"
  using key_chars [of k] comment_pos_plain [of "k @ '': ''" 0 v]
  by (auto simp: clean_line_def kv_def value_ok_iff fenced_def quote1_def quote2_def)

lemma kv_parse: "cfg_key k \<Longrightarrow> value_ok v \<Longrightarrow> parse_kv_pair (kv k v) n = Inr (k, v)"
proof -
  assume k: "cfg_key k" and v: "value_ok v"
  have "split_once (CHR '':'') (kv k v) = Some (k, CHR '' '' # v)"
    using key_chars [OF k] by (simp add: split_once_Some kv_def)
  moreover have "trim k = k" "trim (CHR '' '' # v) = v" "k \<noteq> []"
    using key_chars [OF k] v by (auto simp: trim_fenced trim_space_fenced value_ok_iff fenced_def)
  ultimately show ?thesis by (simp add: parse_kv_pair_def)
qed

lemma kv_not_brace: "cfg_key k \<Longrightarrow> kv k v \<noteq> ''}''"
  by (cases k) (auto simp: kv_def)

lemma graph_quote1 [simp]: "graph_char quote1"
  by (simp add: graph_char_def quote1_def byte_of_def)

lemma fenced_qv [simp]: "fenced (qv v)"
  by (simp add: fenced_def qv_def)

lemma qv_ok: "quotable v \<Longrightarrow> value_ok (qv v)"
proof -
  assume v: "quotable v"
  then have "comment_pos None i (qv v) = None" for i
    using comment_pos_quoted [of v "Suc i" "[]"] by (simp add: qv_def quotable_def)
  with v show ?thesis by (simp add: value_ok_iff quotable_def) (simp add: qv_def quote1_def)
qed

lemma unquote_qv [simp]: "unquote (qv v) = Ret v"
  by (simp add: unquote_def trim_fenced) (simp add: qv_def quoted_def starts_with_def ends_with_def suffix_def)

lemma bv_ok [simp]: "value_ok (bv b)"
  by (cases b) (simp_all add: value_ok_iff bv_def fenced_def graph_char_def byte_of_def quote1_def quote2_def)

lemma parse_bool_bv [simp]: "parse_bool (bv b) = Some b"
  using trim_fenced [of "bv b"] bv_ok [of b] unfolding value_ok_iff parse_bool_def Let_def by (cases b) (simp_all add: bv_def)

lemma digit_key_char: "is_digit_of 10 c \<Longrightarrow> key_char c"
  using digit_bytes by (simp add: key_char_def)

lemma show_dec_key: "cfg_key (show_dec n)"
  using show_dec_digits [of n] digit_key_char by (auto simp: cfg_key_def list_all_iff)

lemma key_value: "cfg_key k \<Longrightarrow> value_ok k"
proof -
  assume k: "cfg_key k"
  then have "CHR 0x5C \<notin> set k" by (auto simp: cfg_key_def list_all_iff key_char_def byte_of_def)
  moreover have "k \<noteq> []" using k by (simp add: cfg_key_def)
  ultimately have "last k \<noteq> CHR 0x5C" using last_in_set by metis
  moreover have "comment_pos None i k = None" for i
    using comment_pos_plain [of k i "[]"] key_chars [OF k] by simp
  ultimately show ?thesis using key_chars [OF k] by (simp add: value_ok_iff)
qed

lemma show_dec_ok: "value_ok (show_dec n)"
  by (rule key_value [OF show_dec_key])

lemma parse_show_dec: "n \<le> m \<Longrightarrow> parse_uint 10 m (show_dec n) = Some n"
  using parse_uint_digits [of 10 "show_dec n" m] show_dec_digits [of n] by simp

lemma parse_u16_dec [simp]: "parse_u16 (show_dec (unat x)) = Some x"
  using unat_lt [of x] by (simp add: parse_u16_def parse_show_dec)

lemma parse_u32_dec [simp]: "parse_u32_radix 10 (show_dec (unat x)) = Some x"
  using unat_lt [of x] by (simp add: parse_u32_radix_def parse_show_dec)

lemma parse_u64_dec [simp]: "parse_u64 (show_dec (unat x)) = Some x"
  using unat_lt [of x] by (simp add: parse_u64_def parse_show_dec)

text \<open>
  The contract of a section made of fields: \<open>view\<close> is the parser state while the section is read,
  as a function of the structure being filled, and \<open>fld\<close> the function that reads a field.
\<close>

locale field_section =
  fixes il :: "'j import_libs" and keys :: "string set" and view :: "'r \<Rightarrow> pstate"
    and fld :: "nat \<Rightarrow> string \<Rightarrow> string \<Rightarrow> 'r \<Rightarrow> (ConfigError + 'r) run"
  assumes field_step: "k \<in> keys \<Longrightarrow> cfg_key k \<Longrightarrow> value_ok v \<Longrightarrow>
    state_line il n (kv k v) (view r) = try_bind (fld n k v r) (\<lambda>r'. Ret (Inr (view r')))"
begin

lemma field_runs:
  assumes "k \<in> keys" "cfg_key k" "value_ok v" "\<And>n. fld n k v r = Ret (Inr r')"
  shows "runs il [kv k v] (view r) (view r')"
  using assms by (intro runs_line) (simp_all add: kv_clean field_step)

lemma option_runs:
  assumes "k \<in> keys" "cfg_key k" "\<And>v. x = Some v \<Longrightarrow> value_ok (p v)"
    and "\<And>n v. x = Some v \<Longrightarrow> fld n k (p v) r = Ret (Inr (put (Some v) r))" "put None r = r"
  shows "runs il (case x of None \<Rightarrow> [] | Some v \<Rightarrow> [kv k (p v)]) (view r) (view (put x r))"
  using assms by (cases x) (simp_all add: field_runs)

end

definition at :: "DaefileConfig \<Rightarrow> pstate" where
  "at c = pstate_init\<lparr>ps_config := c\<rparr>"

definition global_view :: "DaefileConfig \<Rightarrow> RuntimeConfig \<Rightarrow> pstate" where
  "global_view c rt = (at (c\<lparr>dae_runtime := rt\<rparr>))\<lparr>ps_state := Global\<rparr>"

definition interface_view :: "DaefileConfig \<Rightarrow> InterfaceConfig \<Rightarrow> pstate" where
  "interface_view c i = (at (c\<lparr>dae_interface := Some i\<rparr>))\<lparr>ps_state := Interface\<rparr>"

definition exclusion_view :: "DaefileConfig \<Rightarrow> ProcessMatchConfig \<Rightarrow> ProcessExclusionConfig \<Rightarrow> pstate" where
  "exclusion_view c m pe = (at (c\<lparr>dae_process_exclusion := Some pe\<rparr>))\<lparr>ps_state := ProcessExclusion, ps_match := m\<rparr>"

definition node_view :: "DaefileConfig \<Rightarrow> string \<Rightarrow> OutboundNodeConfig \<Rightarrow> pstate" where
  "node_view c name node = (at c)\<lparr>ps_state := OutboundNode name, ps_node := node\<rparr>"

definition group_view :: "DaefileConfig \<Rightarrow> string \<Rightarrow> OutboundGroupConfig \<Rightarrow> pstate" where
  "group_view c name grp = (at c)\<lparr>ps_state := OutboundGroup name, ps_group := grp\<rparr>"

definition api_view :: "DaefileConfig \<Rightarrow> ApiConfig \<Rightarrow> pstate" where
  "api_view c a = (at (c\<lparr>dae_api := Some a\<rparr>))\<lparr>ps_state := Api\<rparr>"

definition dns_view :: "DaefileConfig \<Rightarrow> DnsConfig \<Rightarrow> pstate" where
  "dns_view c d = (at (c\<lparr>dae_dns := Some d\<rparr>))\<lparr>ps_state := Dns\<rparr>"

definition rule_set_view :: "DaefileConfig \<Rightarrow> string \<Rightarrow> RuleSetConfig \<Rightarrow> pstate" where
  "rule_set_view c name rs = (at c)\<lparr>ps_state := RuleSetEntry name, ps_rule_set := rs\<rparr>"

lemmas view_defs = at_def pstate_init_def global_view_def interface_view_def exclusion_view_def node_view_def
  group_view_def api_view_def dns_view_def rule_set_view_def set_config_def

lemma with_kv_line: "cfg_key k \<Longrightarrow> value_ok v \<Longrightarrow> with_kv (kv k v) n f = f k v"
  by (simp add: with_kv_def kv_parse)

lemma prefix_key: "CHR '':'' \<notin> set p \<Longrightarrow> prefix p (k @ CHR '':'' # s) \<Longrightarrow> prefix p k"
proof -
  assume p: "CHR '':'' \<notin> set p" and "prefix p (k @ CHR '':'' # s)"
  then consider "prefix p k" | r where "p = k @ r" "prefix r (CHR '':'' # s)" by (auto simp: prefix_append)
  then show ?thesis
  proof cases
    case 2
    with p have "r = []" by (cases r) auto
    with 2 show ?thesis by simp
  qed
qed

interpretation glob: field_section il UNIV "global_view c" global_field for il c
  by unfold_locales (simp add: state_line_def global_line_def with_kv_line kv_not_brace view_defs)

interpretation iface: field_section il UNIV "interface_view c" interface_field for il c
  by unfold_locales (simp add: state_line_def interface_line_def with_kv_line kv_not_brace get_or_def view_defs)

interpretation api: field_section il UNIV "api_view c" api_field for il c
  by unfold_locales (simp add: state_line_def api_line_def with_kv_line kv_not_brace get_or_def view_defs)

interpretation dns: field_section il UNIV "dns_view c" dns_field for il c
  by unfold_locales (simp add: state_line_def dns_line_def with_kv_line kv_not_brace get_or_def view_defs)

interpretation rset: field_section il UNIV "rule_set_view c name" "rule_set_field name" for il c name
  by unfold_locales (simp add: state_line_def rule_set_entry_line_def with_kv_line kv_not_brace view_defs)

interpretation excl: field_section il "{k. \<not> prefix ''match'' k}" "exclusion_view c m" process_exclusion_field for il c m
proof unfold_locales
  fix k v n r
  assume k: "k \<in> {k. \<not> prefix ''match'' k}" "cfg_key k" "value_ok v"
  then have "\<not> starts_with (kv k v) ''match''"
    using prefix_key [of "''match''" k "CHR '' '' # v"] by (auto simp: starts_with_def kv_def)
  with k show "state_line il n (kv k v) (exclusion_view c m r)
      = try_bind (process_exclusion_field n k v r) (\<lambda>r'. Ret (Inr (exclusion_view c m r')))"
    by (simp add: state_line_def process_exclusion_line_def with_kv_line kv_not_brace get_or_def view_defs)
qed

interpretation nd: field_section il "- {''import''}" "node_view c name" node_field for il c name
proof unfold_locales
  fix k v n r
  assume k: "k \<in> - {''import''}" "cfg_key k" "value_ok v"
  have "trim (kv k v) = kv k v" using kv_clean k by (auto simp: clean_line_def trim_fenced)
  moreover have "\<not> prefix ''import:'' (kv k v)"
  proof
    assume p: "prefix ''import:'' (kv k v)"
    then have "prefix ''import'' k" using prefix_key [of "''import''" k "CHR '' '' # v"] by (auto simp: kv_def prefix_def)
    then obtain t where t: "k = ''import'' @ t" by (auto simp: prefix_def)
    with p k key_chars(4) [of k] show False by (cases t) (auto simp: kv_def)
  qed
  ultimately have "parse_import_line (kv k v) = Ret None" by (simp add: parse_import_line_def strip_prefix_def)
  with k show "state_line il n (kv k v) (node_view c name r)
      = try_bind (node_field n k v r) (\<lambda>r'. Ret (Inr (node_view c name r')))"
    by (simp add: state_line_def node_line_def with_kv_line kv_not_brace view_defs)
qed

interpretation grp: field_section il UNIV "group_view c name" group_field for il c name
proof unfold_locales
  fix k v n r
  assume k: "k \<in> (UNIV :: string set)" "cfg_key k" "value_ok v"
  have "trim (kv k v) = kv k v" using kv_clean k by (auto simp: clean_line_def trim_fenced)
  moreover have "\<not> prefix ''nodes('' (kv k v)"
    using prefix_key [of "''nodes(''" k "CHR '' '' # v"] key_chars(6) [OF k(2)] by (auto simp: kv_def prefix_def)
  ultimately have "parse_nodes_selector (kv k v) = Ret None" by (simp add: parse_nodes_selector_def strip_prefix_def)
  with k show "state_line il n (kv k v) (group_view c name r)
      = try_bind (group_field n k v r) (\<lambda>r'. Ret (Inr (group_view c name r')))"
    by (simp add: state_line_def group_line_def with_kv_line kv_not_brace view_defs)
qed

section \<open>The printer\<close>

definition text_line :: "string \<Rightarrow> string \<Rightarrow> string" where
  "text_line k v = kv k (qv v)"

definition int_line :: "string \<Rightarrow> 'a::len word \<Rightarrow> string" where
  "int_line k x = kv k (show_dec (unat x))"

definition bool_line :: "string \<Rightarrow> bool \<Rightarrow> string" where
  "bool_line k b = kv k (bv b)"

definition opt_lines :: "('a \<Rightarrow> string) \<Rightarrow> 'a option \<Rightarrow> string list" where
  "opt_lines p x = (case x of None \<Rightarrow> [] | Some v \<Rightarrow> [p v])"

text \<open>A list of quoted items; an empty list is printed as an empty item, which the parser drops.\<close>

definition csv :: "string list \<Rightarrow> string" where
  "csv xs = join '','' (map qv (if xs = [] then [[]] else xs))"

definition print_global :: "RuntimeConfig \<Rightarrow> string list" where
  "print_global rt =
     [''global {'', int_line ''tproxy_port'' (rt_tproxy_port rt), text_line ''log_level'' (rt_log_level rt),
      int_line ''route_table'' (rt_route_table rt), int_line ''fwmark_proxy'' (rt_fwmark_proxy rt),
      int_line ''fwmark_bypass'' (rt_fwmark_bypass rt), int_line ''fwmark_mask'' (rt_fwmark_mask rt),
      int_line ''mtu'' (rt_mtu rt), ''}'']"

definition words_line :: "string \<Rightarrow> string list \<Rightarrow> string list" where
  "words_line k ws = (if ws = [] then [] else [kv k (join '' '' (map qv ws))])"

definition print_interface :: "InterfaceConfig \<Rightarrow> string list" where
  "print_interface i =
     [''interface {''] @ words_line ''wan_interface'' (if_wan_interface i) @ words_line ''lan_interface'' (if_lan_interface i)
       @ opt_lines (text_line ''bind_interface'') (if_bind_interface i) @ [''}'']"

definition call_line :: "string \<Rightarrow> string list \<Rightarrow> string" where
  "call_line name args = name @ ''('' @ join '','' args @ '')''"

definition print_exclusion :: "ProcessExclusionConfig \<Rightarrow> string list" where
  "print_exclusion pe =
     [''process_exclusion {'', bool_line ''enabled'' (pe_enabled pe), bool_line ''protect_self'' (pe_protect_self pe),
      bool_line ''protect_children'' (pe_protect_children pe), int_line ''gc_interval_sec'' (pe_gc_interval_sec pe),
      int_line ''stale_after_sec'' (pe_stale_after_sec pe), ''match {'',
      call_line ''comm'' (map qv (pm_comm (pe_match pe))),
      call_line ''pid'' (map (\<lambda>x. show_dec (unat x)) (pm_pid (pe_match pe))),
      call_line ''tgid'' (map (\<lambda>x. show_dec (unat x)) (pm_tgid (pe_match pe))), ''}'', ''}'']"

definition headers_value :: "(string \<times> string) list \<Rightarrow> string" where
  "headers_value m = ''{'' @ join '','' (map (\<lambda>(k, v). qv k @ '':'' @ qv v) (rev m)) @ ''}''"

definition open_line :: "string \<Rightarrow> string" where
  "open_line name = name @ '' {''"

definition print_node :: "OutboundNodeConfig \<Rightarrow> string list" where
  "print_node n =
     [open_line (nc_name n), text_line ''protocol'' (nc_protocol n), text_line ''address'' (nc_address n),
      int_line ''dial_timeout_ms'' (nc_dial_timeout_ms n)]
     @ opt_lines (text_line ''username'') (nc_username n) @ opt_lines (text_line ''password'') (nc_password n)
     @ opt_lines (text_line ''cipher'') (nc_cipher n) @ opt_lines (text_line ''sni'') (nc_sni n)
     @ opt_lines (text_line ''ca_sha256'') (nc_ca_sha256 n) @ opt_lines (text_line ''uuid'') (nc_uuid n)
     @ opt_lines (text_line ''congestion_control'') (nc_congestion_control n)
     @ opt_lines (\<lambda>xs. kv ''alpn'' (csv xs)) (nc_alpn n)
     @ opt_lines (text_line ''security'') (nc_security n) @ opt_lines (int_line ''alter_id'') (nc_alter_id n)
     @ opt_lines (text_line ''network'') (nc_network n) @ opt_lines (text_line ''ws_path'') (nc_ws_path n)
     @ opt_lines (\<lambda>m. kv ''ws_headers'' (headers_value m)) (nc_ws_headers n)
     @ opt_lines (text_line ''h2_path'') (nc_h2_path n) @ opt_lines (text_line ''h2_host'') (nc_h2_host n)
     @ opt_lines (text_line ''grpc_service_name'') (nc_grpc_service_name n) @ [''}'']"

fun print_selector :: "NodeSelector \<Rightarrow> string" where
  "print_selector (SelList ns) = call_line ''nodes'' ns"
| "print_selector (SelRegex p) = ''nodes(regex:'' @ qv p @ '')''"

fun group_type_name :: "GroupType \<Rightarrow> string" where
  "group_type_name GroupAuto = ''auto''"
| "group_type_name GroupSelect = ''select''"

fun policy_name :: "PolicyType \<Rightarrow> string" where
  "policy_name PolicyFixed = ''fixed''"
| "policy_name PolicyRandom = ''random''"
| "policy_name PolicyMin = ''min''"
| "policy_name PolicyMinAvg10 = ''min_avg10''"
| "policy_name PolicyMinMovingAvg = ''min_moving_avg''"

definition print_group :: "OutboundGroupConfig \<Rightarrow> string list" where
  "print_group g =
     [open_line (gc_name g), text_line ''type'' (group_type_name (gc_group_type g))]
     @ opt_lines (\<lambda>p. text_line ''policy'' (policy_name p)) (gc_policy g)
     @ opt_lines (text_line ''selected'') (gc_selected g) @ map print_selector (gc_selectors g) @ [''}'']"

definition print_outbounds :: "Outbounds \<Rightarrow> string list" where
  "print_outbounds ob =
     [''outbounds {'', ''nodes {''] @ concat (map print_node (os_nodes ob)) @ [''}'', ''groups {'']
     @ concat (map print_group (os_groups ob)) @ [''}'', ''}'']"

definition print_rule :: "RouteRule \<Rightarrow> string" where
  "print_rule r = rr_match r @ '' -> '' @ rr_action r"

definition print_routing :: "RoutingConfig \<Rightarrow> string list" where
  "print_routing rc = [''routing {''] @ map print_rule (rc_rules rc) @ [''fallback: '' @ rc_fallback rc, ''}'']"

definition print_api :: "ApiConfig \<Rightarrow> string list" where
  "print_api a =
     [''api {'', bool_line ''enabled'' (ac_enabled a), text_line ''listen'' (ac_listen a), bool_line ''tls'' (ac_tls a)]
     @ opt_lines (text_line ''cert'') (ac_cert a) @ opt_lines (text_line ''key'') (ac_key a)
     @ [text_line ''token'' (ac_token a), ''}'']"

definition print_dns :: "DnsConfig \<Rightarrow> string list" where
  "print_dns d =
     [''dns {'', text_line ''listen_addr'' (dc_listen_addr d), kv ''proxy_dns_servers'' (csv (dc_proxy_dns_servers d)),
      kv ''direct_dns_servers'' (csv (dc_direct_dns_servers d)), bool_line ''direct_use_system_dns'' (dc_direct_use_system_dns d),
      int_line ''query_timeout_ms'' (dc_query_timeout_ms d), bool_line ''enable_cache'' (dc_enable_cache d), ''}'']"

fun update_value :: "RuleSetUpdate \<Rightarrow> string" where
  "update_value (UpdTime t) = ''time: '' @ t"
| "update_value (UpdPeriod p) = ''period: '' @ p"

definition print_rule_set :: "RuleSetConfig \<Rightarrow> string list" where
  "print_rule_set rs =
     [open_line (cfg_name rs), text_line ''type'' (as_str (cfg_type rs)), text_line ''url'' (cfg_url rs)]
     @ opt_lines (\<lambda>u. kv ''update'' (update_value u)) (cfg_update rs)
     @ [bool_line ''update_on_start'' (cfg_update_on_start rs)]
     @ opt_lines (text_line ''proxy'') (cfg_proxy rs) @ [''}'']"

definition print_lines :: "DaefileConfig \<Rightarrow> string list" where
  "print_lines c =
     print_global (dae_runtime c)
     @ (case dae_interface c of None \<Rightarrow> [] | Some i \<Rightarrow> print_interface i)
     @ (case dae_process_exclusion c of None \<Rightarrow> [] | Some pe \<Rightarrow> print_exclusion pe)
     @ print_outbounds (dae_outbounds c) @ print_routing (dae_routing c)
     @ (case dae_api c of None \<Rightarrow> [] | Some a \<Rightarrow> print_api a)
     @ (case dae_dns c of None \<Rightarrow> [] | Some d \<Rightarrow> print_dns d)
     @ [''rule_set {''] @ concat (map print_rule_set (dae_rule_set c)) @ [''}'']"

definition print_daefile :: "DaefileConfig \<Rightarrow> string" where
  "print_daefile c = unlines (print_lines c)"

section \<open>What can be printed\<close>

definition opt_all :: "('a \<Rightarrow> bool) \<Rightarrow> 'a option \<Rightarrow> bool" where
  "opt_all P x \<longleftrightarrow> (case x of None \<Rightarrow> True | Some v \<Rightarrow> P v)"

definition name_ok :: "string \<Rightarrow> bool" where
  "name_ok s \<longleftrightarrow> s \<noteq> [] \<and> list_all (\<lambda>c. graph_char c \<and> c \<notin> {quote1, quote2, CHR ''#''}) s"

definition item_ok :: "string \<Rightarrow> bool" where
  "item_ok s \<longleftrightarrow> quotable s \<and> s \<noteq> [] \<and> CHR '','' \<notin> set s"

definition word_ok :: "string \<Rightarrow> bool" where
  "word_ok s \<longleftrightarrow> list_all (\<lambda>c. graph_char c \<and> c \<noteq> quote1) s"

definition headers_ok :: "(string \<times> string) list \<Rightarrow> bool" where
  "headers_ok m \<longleftrightarrow> distinct (map fst m)
     \<and> list_all (\<lambda>(k, v). item_ok k \<and> CHR '':'' \<notin> set k \<and> quotable v \<and> CHR '','' \<notin> set v) m"

definition interface_ok :: "InterfaceConfig \<Rightarrow> bool" where
  "interface_ok i \<longleftrightarrow> i \<noteq> InterfaceConfig_default \<and> list_all word_ok (if_wan_interface i)
     \<and> list_all word_ok (if_lan_interface i) \<and> opt_all quotable (if_bind_interface i)"

definition exclusion_ok :: "ProcessExclusionConfig \<Rightarrow> bool" where
  "exclusion_ok pe \<longleftrightarrow> list_all (\<lambda>s. quotable s \<and> CHR '','' \<notin> set s) (pm_comm (pe_match pe))"

definition node_ok :: "OutboundNodeConfig \<Rightarrow> bool" where
  "node_ok n \<longleftrightarrow> name_ok (nc_name n) \<and> quotable (nc_protocol n) \<and> quotable (nc_address n) \<and> nc_import n = None
     \<and> list_all (opt_all quotable) [nc_username n, nc_password n, nc_cipher n, nc_sni n, nc_ca_sha256 n, nc_uuid n,
         nc_congestion_control n, nc_security n, nc_network n, nc_ws_path n, nc_h2_path n, nc_h2_host n, nc_grpc_service_name n]
     \<and> opt_all (list_all item_ok) (nc_alpn n) \<and> opt_all headers_ok (nc_ws_headers n)"

fun selector_ok :: "NodeSelector \<Rightarrow> bool" where
  "selector_ok (SelList ns) \<longleftrightarrow> ns \<noteq> [] \<and> list_all (\<lambda>s. name_ok s \<and> CHR '','' \<notin> set s) ns \<and> \<not> prefix ''regex:'' (hd ns)"
| "selector_ok (SelRegex p) \<longleftrightarrow> quotable p"

definition group_ok :: "OutboundGroupConfig \<Rightarrow> bool" where
  "group_ok g \<longleftrightarrow> name_ok (gc_name g) \<and> opt_all quotable (gc_selected g) \<and> list_all selector_ok (gc_selectors g)"

definition rule_ok :: "RouteRule \<Rightarrow> bool" where
  "rule_ok r \<longleftrightarrow> fenced (rr_match r) \<and> fenced (rr_action r) \<and> CHR ''>'' \<notin> set (rr_match r)
     \<and> \<not> prefix ''fallback:'' (rr_match r) \<and> clean_line (print_rule r)"

definition routing_ok :: "RoutingConfig \<Rightarrow> bool" where
  "routing_ok rc \<longleftrightarrow> list_all rule_ok (rc_rules rc) \<and> value_ok (rc_fallback rc)"

definition api_ok :: "ApiConfig \<Rightarrow> bool" where
  "api_ok a \<longleftrightarrow> quotable (ac_listen a) \<and> opt_all quotable (ac_cert a) \<and> opt_all quotable (ac_key a) \<and> quotable (ac_token a)"

definition dns_ok :: "DnsConfig \<Rightarrow> bool" where
  "dns_ok d \<longleftrightarrow> quotable (dc_listen_addr d) \<and> list_all item_ok (dc_proxy_dns_servers d) \<and> list_all item_ok (dc_direct_dns_servers d)"

fun update_ok :: "RuleSetUpdate \<Rightarrow> bool" where
  "update_ok (UpdTime t) \<longleftrightarrow> value_ok t"
| "update_ok (UpdPeriod p) \<longleftrightarrow> value_ok p"

definition rule_set_ok :: "RuleSetConfig \<Rightarrow> bool" where
  "rule_set_ok rs \<longleftrightarrow> name_ok (cfg_name rs) \<and> quotable (cfg_url rs) \<and> opt_all update_ok (cfg_update rs)
     \<and> opt_all quotable (cfg_proxy rs) \<and> cfg_expected_sha256 rs = expected_sha256_from_url (cfg_url rs)"

text \<open>
  The text has no syntax for the version, the temporary JSON file, the absence of a process exclusion
  and the import link of a node; these must have the values the parser gives them.
\<close>

definition printable :: "DaefileConfig \<Rightarrow> bool" where
  "printable c \<longleftrightarrow> dae_version c = 1 \<and> rt_temp_json (dae_runtime c) \<and> quotable (rt_log_level (dae_runtime c))
     \<and> opt_all interface_ok (dae_interface c) \<and> (case dae_process_exclusion c of None \<Rightarrow> False | Some pe \<Rightarrow> exclusion_ok pe)
     \<and> list_all node_ok (os_nodes (dae_outbounds c)) \<and> list_all group_ok (os_groups (dae_outbounds c))
     \<and> routing_ok (dae_routing c) \<and> opt_all api_ok (dae_api c) \<and> opt_all dns_ok (dae_dns c)
     \<and> list_all rule_set_ok (dae_rule_set c)"

section \<open>Values read back\<close>

lemma fenced_join: "xs \<noteq> [] \<Longrightarrow> list_all fenced xs \<Longrightarrow> fenced (join d xs)"
proof (induction xs)
  case (Cons x xs)
  then show ?case by (cases xs) (auto simp: fenced_append)
qed simp

lemma split_join: "ws \<noteq> [] \<Longrightarrow> list_all (\<lambda>w. c \<notin> set w) ws \<Longrightarrow> split_char c (join [c] ws) = ws"
proof (induction ws)
  case (Cons w ws)
  then show ?case by (cases ws) (simp_all add: split_char_no_occurrence split_char_append_sep)
qed simp

lemma comment_pos_qv: "quotable v \<Longrightarrow> comment_pos None i (qv v @ s) = comment_pos None (i + length (qv v)) s"
  using comment_pos_quoted [of v "Suc i" s] by (simp add: qv_def quotable_def)

lemma comment_pos_join:
  assumes "list_all quotable xs" "d \<in> {'','', '' ''}"
  shows "comment_pos None i (join d (map qv xs) @ s) = comment_pos None (i + length (join d (map qv xs))) s"
  using assms(1)
proof (induction xs arbitrary: i)
  case (Cons x xs)
  have d: "comment_pos None j (d @ t) = comment_pos None (j + length d) t" for j t
    using assms(2) by (intro comment_pos_plain) (auto simp: quote1_def quote2_def)
  show ?case
  proof (cases xs)
    case Nil
    with Cons show ?thesis by (simp add: comment_pos_qv)
  next
    case (Cons y ys)
    with Cons.prems Cons.IH [of "i + length (qv x) + length d"] show ?thesis
      by (simp add: comment_pos_qv d add.assoc)
  qed
qed simp

lemma last_join: "xs \<noteq> [] \<Longrightarrow> last xs \<noteq> [] \<Longrightarrow> join d xs \<noteq> [] \<and> last (join d xs) = last (last xs)"
proof (induction xs)
  case (Cons x xs)
  then show ?case by (cases xs) auto
qed simp

lemma quoted_items_value: "xs \<noteq> [] \<Longrightarrow> list_all quotable xs \<Longrightarrow> d \<in> {'','', '' ''} \<Longrightarrow> value_ok (join d (map qv xs))"
proof -
  assume xs: "xs \<noteq> []" "list_all quotable xs" and d: "d \<in> {'','', '' ''}"
  let ?v = "join d (map qv xs)"
  have "comment_pos None i ?v = None" for i using comment_pos_join [OF xs(2) d, of i "[]"] by simp
  moreover have "fenced ?v" using xs by (intro fenced_join) (auto simp: list_all_iff)
  moreover have "CHR 0x0A \<notin> set ?v"
    using set_join [of d "map qv xs"] xs(2) d by (fastforce simp: list_all_iff quotable_def qv_def quote1_def)
  moreover have "last ?v = quote1"
    using last_join [of "map qv xs" d] xs(1) by (simp add: last_map) (simp add: qv_def)
  ultimately show ?thesis by (simp add: value_ok_iff quote1_def)
qed

lemma run_map_map: "list_all (\<lambda>x. f (g x) = Ret x) xs \<Longrightarrow> run_map f (map g xs) = Ret xs"
  by (induction xs) auto

lemma csv_ok: "list_all item_ok xs \<Longrightarrow> value_ok (csv xs)"
  using quoted_items_value [of "if xs = [] then [[]] else xs" "'',''"]
  by (auto simp: csv_def item_ok_def list_all_iff quotable_def)

lemma csv_split: "list_all item_ok xs \<Longrightarrow> split_char (CHR '','') (csv xs) = map qv (if xs = [] then [[]] else xs)"
  unfolding csv_def by (rule split_join) (auto simp: item_ok_def list_all_iff qv_def quote1_def)

lemma csv_items:
  assumes "list_all item_ok xs" "\<And>x. f (qv x) = Ret x"
  shows "run_bind (run_map f (split_char (CHR '','') (csv xs))) (\<lambda>ys. Ret (filter (\<lambda>s. s \<noteq> []) ys)) = Ret xs"
proof -
  have "run_map f (map qv (if xs = [] then [[]] else xs)) = Ret (if xs = [] then [[]] else xs)"
    using assms(2) by (intro run_map_map) (simp add: list_all_iff)
  moreover have "filter (\<lambda>s. s \<noteq> []) xs = xs"
    using assms(1) by (simp add: filter_id_conv item_ok_def list_all_iff)
  ultimately show ?thesis by (simp add: csv_split [OF assms(1)] split: if_splits)
qed

lemma split_csv_list_csv: "list_all item_ok xs \<Longrightarrow> split_csv_list (csv xs) = Ret xs"
  unfolding split_csv_list_def by (rule csv_items) (simp_all add: trim_fenced)

lemma take_word_graph:
  "list_all graph_char w \<Longrightarrow> take_word w = w" "list_all graph_char w \<Longrightarrow> take_word (w @ CHR '' '' # s) = w"
  by (induction w) (auto simp: headless_graph, auto simp: headless_def ws_utf8_def)

lemma split_whitespace_words:
  "list_all (\<lambda>w. w \<noteq> [] \<and> list_all graph_char w) ws \<Longrightarrow> split_whitespace (join '' '' ws) = ws"
proof (induction ws)
  case Nil
  have "trim_start [] = []" using strip_heads_suffix [of ws_utf8 "[]"] by (simp add: trim_start_def)
  then show ?case by (simp add: split_whitespace.simps [of "[]"])
next
  case (Cons w ws)
  then obtain c t where w: "w = c # t" "graph_char c" "list_all graph_char w" by (cases w) auto
  show ?case
  proof (cases ws)
    case Nil
    have "split_whitespace [] = []" using Cons.IH Nil by simp
    with Nil w take_word_graph(1) [of w] show ?thesis
      by (simp add: split_whitespace.simps [of "c # t"] trim_start_graph Let_def)
  next
    case (Cons y ys)
    let ?s = "w @ CHR '' '' # join '' '' ws"
    have "split_whitespace (CHR '' '' # join '' '' ws) = ws"
      using Cons.IH Cons.prems
      by (subst split_whitespace.simps) (simp add: trim_start_space flip: split_whitespace.simps)
    moreover have "trim_start ?s = ?s" using w by (simp add: trim_start_graph)
    moreover have "take_word ?s = w" using w(3) by (rule take_word_graph(2))
    moreover have "split_whitespace ?s = (let t = trim_start ?s
        in if t = [] then [] else take_word t # split_whitespace (drop (length (take_word t)) t))"
      by (rule split_whitespace.simps)
    ultimately have "split_whitespace ?s = w # ws" by (simp del: take_word.simps)
    with Cons show ?thesis by simp
  qed
qed

section \<open>Sections read back\<close>

lemma fixed_lines_clean [simp]:
  "clean_line ''}''" "clean_line ''global {''" "clean_line ''interface {''" "clean_line ''process_exclusion {''"
  "clean_line ''match {''" "clean_line ''outbounds {''" "clean_line ''nodes {''" "clean_line ''groups {''"
  "clean_line ''routing {''" "clean_line ''api {''" "clean_line ''dns {''" "clean_line ''rule_set {''"
  by code_simp+

lemma sections [simp]:
  "top_line n ''global {'' ps = Inr (ps\<lparr>ps_state := Global\<rparr>)"
  "top_line n ''interface {'' ps = Inr (ps\<lparr>ps_state := Interface\<rparr>)"
  "top_line n ''process_exclusion {'' ps = Inr (ps\<lparr>ps_state := ProcessExclusion\<rparr>)"
  "top_line n ''outbounds {'' ps = Inr (ps\<lparr>ps_state := InOutbounds\<rparr>)"
  "top_line n ''routing {'' ps = Inr (ps\<lparr>ps_state := Routing\<rparr>)"
  "top_line n ''api {'' ps = Inr (ps\<lparr>ps_state := Api\<rparr>)"
  "top_line n ''dns {'' ps = Inr (ps\<lparr>ps_state := Dns\<rparr>)"
  "top_line n ''rule_set {'' ps = Inr (ps\<lparr>ps_state := InRuleSet\<rparr>)"
proof -
  have h: "top_line n (s @ '' {'') ps = res_bind (ok_or (UnknownSection n s) (section_of s)) (\<lambda>st. Inr (ps\<lparr>ps_state := st\<rparr>))"
    if "fenced s" for s
    using trim_fenced_space [OF that] by (simp add: top_line_def strip_suffix_def suffix_def)
  have f: "fenced ''global''" "fenced ''interface''" "fenced ''process_exclusion''" "fenced ''outbounds''"
    "fenced ''routing''" "fenced ''api''" "fenced ''dns''" "fenced ''rule_set''" by code_simp+
  show "top_line n ''global {'' ps = Inr (ps\<lparr>ps_state := Global\<rparr>)"
    using h [OF f(1)] by (simp add: section_of_def)
  show "top_line n ''interface {'' ps = Inr (ps\<lparr>ps_state := Interface\<rparr>)"
    using h [OF f(2)] by (simp add: section_of_def)
  show "top_line n ''process_exclusion {'' ps = Inr (ps\<lparr>ps_state := ProcessExclusion\<rparr>)"
    using h [OF f(3)] by (simp add: section_of_def)
  show "top_line n ''outbounds {'' ps = Inr (ps\<lparr>ps_state := InOutbounds\<rparr>)"
    using h [OF f(4)] by (simp add: section_of_def)
  show "top_line n ''routing {'' ps = Inr (ps\<lparr>ps_state := Routing\<rparr>)"
    using h [OF f(5)] by (simp add: section_of_def)
  show "top_line n ''api {'' ps = Inr (ps\<lparr>ps_state := Api\<rparr>)"
    using h [OF f(6)] by (simp add: section_of_def)
  show "top_line n ''dns {'' ps = Inr (ps\<lparr>ps_state := Dns\<rparr>)"
    using h [OF f(7)] by (simp add: section_of_def)
  show "top_line n ''rule_set {'' ps = Inr (ps\<lparr>ps_state := InRuleSet\<rparr>)"
    using h [OF f(8)] by (simp add: section_of_def)
qed

lemma keys [simp]:
  "cfg_key ''tproxy_port''" "cfg_key ''log_level''" "cfg_key ''route_table''" "cfg_key ''fwmark_proxy''"
  "cfg_key ''fwmark_bypass''" "cfg_key ''fwmark_mask''" "cfg_key ''mtu''" "cfg_key ''wan_interface''"
  "cfg_key ''lan_interface''" "cfg_key ''bind_interface''" "cfg_key ''enabled''" "cfg_key ''protect_self''"
  "cfg_key ''protect_children''" "cfg_key ''gc_interval_sec''" "cfg_key ''stale_after_sec''" "cfg_key ''listen''"
  "cfg_key ''tls''" "cfg_key ''cert''" "cfg_key ''key''" "cfg_key ''token''" "cfg_key ''listen_addr''"
  "cfg_key ''proxy_dns_servers''" "cfg_key ''direct_dns_servers''" "cfg_key ''direct_use_system_dns''"
  "cfg_key ''query_timeout_ms''" "cfg_key ''enable_cache''" "cfg_key ''type''" "cfg_key ''url''"
  "cfg_key ''update''" "cfg_key ''update_on_start''" "cfg_key ''proxy''" "cfg_key ''policy''" "cfg_key ''selected''"
  "cfg_key ''protocol''" "cfg_key ''address''" "cfg_key ''dial_timeout_ms''" "cfg_key ''username''" "cfg_key ''password''"
  "cfg_key ''cipher''" "cfg_key ''sni''" "cfg_key ''ca_sha256''" "cfg_key ''uuid''" "cfg_key ''congestion_control''"
  "cfg_key ''alpn''" "cfg_key ''security''" "cfg_key ''alter_id''" "cfg_key ''network''" "cfg_key ''ws_path''"
  "cfg_key ''ws_headers''" "cfg_key ''h2_path''" "cfg_key ''h2_host''" "cfg_key ''grpc_service_name''"
  by code_simp+

lemma runs_cons: "runs il [l] ps ps1 \<Longrightarrow> runs il ls ps1 ps2 \<Longrightarrow> runs il (l # ls) ps ps2"
  using runs_append [of il "[l]" ps ps1 ls ps2] by simp

lemma hex_or_dec: "parse_hex_or_decimal (show_dec (unat x)) n k = Inr x"
proof -
  have "CHR ''x'' \<notin> set (show_dec (unat x))" "CHR ''X'' \<notin> set (show_dec (unat x))"
    using show_dec_chars(3) [of _ "unat x"] by auto
  then have "\<not> starts_with (show_dec (unat x)) ''0x''" "\<not> starts_with (show_dec (unat x)) ''0X''"
    by (auto simp: starts_with_def prefix_def)
  then show ?thesis by (simp add: parse_hex_or_decimal_def)
qed

lemmas line_defs = text_line_def int_line_def bool_line_def opt_lines_def

lemmas field_defs = text_field_def int_field_def bool_field_def

lemma runs_eq: "runs il ls ps ps1 \<Longrightarrow> ps1 = ps2 \<Longrightarrow> runs il ls ps ps2"
  by simp

lemma global_steps:
  "runs il [''global {''] (at c) (global_view c (dae_runtime c))"
  "runs il [''}''] (global_view c r) (at (c\<lparr>dae_runtime := r\<rparr>))"
  "runs il [int_line ''tproxy_port'' x] (global_view c r) (global_view c (r\<lparr>rt_tproxy_port := x\<rparr>))"
  "runs il [int_line ''route_table'' y] (global_view c r) (global_view c (r\<lparr>rt_route_table := y\<rparr>))"
  "runs il [int_line ''fwmark_proxy'' y] (global_view c r) (global_view c (r\<lparr>rt_fwmark_proxy := y\<rparr>))"
  "runs il [int_line ''fwmark_bypass'' y] (global_view c r) (global_view c (r\<lparr>rt_fwmark_bypass := y\<rparr>))"
  "runs il [int_line ''fwmark_mask'' y] (global_view c r) (global_view c (r\<lparr>rt_fwmark_mask := y\<rparr>))"
  "runs il [int_line ''mtu'' y] (global_view c r) (global_view c (r\<lparr>rt_mtu := y\<rparr>))"
  "quotable l \<Longrightarrow> runs il [text_line ''log_level'' l] (global_view c r) (global_view c (r\<lparr>rt_log_level := l\<rparr>))"
proof -
  show "runs il [''global {''] (at c) (global_view c (dae_runtime c))"
    "runs il [''}''] (global_view c r) (at (c\<lparr>dae_runtime := r\<rparr>))"
    by (rule runs_line; simp add: state_line_def global_line_def view_defs)+
qed (unfold line_defs, (rule glob.field_runs; simp add: show_dec_ok qv_ok global_field_def field_defs hex_or_dec)+)

lemma print_global_runs:
  assumes "quotable (rt_log_level rt)" "rt_temp_json rt = rt_temp_json (dae_runtime c)"
  shows "runs il (print_global rt) (at c) (at (c\<lparr>dae_runtime := rt\<rparr>))"
  unfolding print_global_def
  by (rule runs_eq, (rule runs_cons, rule global_steps(1-8) global_steps(9) [OF assms(1)])+, rule runs_Nil)
    (use assms(2) in \<open>cases rt, cases "dae_runtime c", simp\<close>)

subsection \<open>Interfaces\<close>

lemma words_value: "list_all word_ok ws \<Longrightarrow> ws \<noteq> [] \<Longrightarrow> value_ok (join '' '' (map qv ws))"
proof -
  assume ws: "list_all word_ok ws" "ws \<noteq> []"
  have "\<not> graph_char (CHR 0x0A)" by code_simp
  then have "list_all quotable ws" using ws(1) by (auto simp: list_all_iff word_ok_def quotable_def)
  with ws(2) show ?thesis by (intro quoted_items_value) auto
qed

lemma words_read: "list_all word_ok ws \<Longrightarrow> run_map unquote (split_whitespace (join '' '' (map qv ws))) = Ret ws"
proof -
  assume ws: "list_all word_ok ws"
  then have "list_all (\<lambda>w. w \<noteq> [] \<and> list_all graph_char w) (map qv ws)"
    by (auto simp: list_all_iff word_ok_def qv_def)
  then have "split_whitespace (join '' '' (map qv ws)) = map qv ws" by (rule split_whitespace_words)
  moreover have "run_map unquote (map qv ws) = Ret ws" by (rule run_map_map) (simp add: list_all_iff)
  ultimately show ?thesis by simp
qed

lemma word_lines:
  assumes "list_all word_ok ws"
  shows "if_wan_interface r = [] \<Longrightarrow>
      runs il (words_line ''wan_interface'' ws) (interface_view c r) (interface_view c (r\<lparr>if_wan_interface := ws\<rparr>))"
    and "if_lan_interface r = [] \<Longrightarrow>
      runs il (words_line ''lan_interface'' ws) (interface_view c r) (interface_view c (r\<lparr>if_lan_interface := ws\<rparr>))"
  using words_read [OF assms] words_value [OF assms]
  by (cases r; auto simp: words_line_def interface_field_def intro!: iface.field_runs)+

lemma bind_line:
  "opt_all quotable x \<Longrightarrow> if_bind_interface r = None \<Longrightarrow>
    runs il (opt_lines (text_line ''bind_interface'') x) (interface_view c r) (interface_view c (r\<lparr>if_bind_interface := x\<rparr>))"
  by (cases r; cases x; auto simp: line_defs opt_all_def interface_field_def field_defs intro!: iface.field_runs qv_ok)

text \<open>The first field of a section creates its structure.\<close>

lemma runs_enter:
  assumes "runs il (l # ls) ps1 ps2" "\<And>n. state_line il n l ps0 = state_line il n l ps1"
  shows "runs il (l # ls) ps0 ps2"
proof -
  have "clean_line l" using assms(1) by (simp add: runs_def)
  with assms show ?thesis by (simp add: runs_def parse_line_clean)
qed

lemma interface_body:
  assumes "interface_ok i"
  defines "body \<equiv> words_line ''wan_interface'' (if_wan_interface i) @ words_line ''lan_interface'' (if_lan_interface i)
       @ opt_lines (text_line ''bind_interface'') (if_bind_interface i)"
  shows "runs il body (interface_view c InterfaceConfig_default) (interface_view c i)"
    and "body \<noteq> []" and "hd body \<noteq> ''}''"
proof -
  have ok: "list_all word_ok (if_wan_interface i)" "list_all word_ok (if_lan_interface i)" "opt_all quotable (if_bind_interface i)"
    using assms(1) by (auto simp: interface_ok_def)
  show "runs il body (interface_view c InterfaceConfig_default) (interface_view c i)"
    unfolding body_def
    by (rule runs_eq, rule runs_append, rule word_lines(1) [OF ok(1)], simp add: InterfaceConfig_default_def,
        rule runs_append, rule word_lines(2) [OF ok(2)], simp add: InterfaceConfig_default_def,
        rule bind_line [OF ok(3)], simp add: InterfaceConfig_default_def) (cases i, simp add: InterfaceConfig_default_def)
  show "body \<noteq> []" "hd body \<noteq> ''}''"
    using assms(1)
    by (cases i, auto simp: body_def interface_ok_def InterfaceConfig_default_def words_line_def opt_lines_def
        text_line_def kv_def split: option.splits)+
qed

lemma print_interface_runs:
  assumes "interface_ok i" "dae_interface c = None"
  shows "runs il (print_interface i) (at c) (at (c\<lparr>dae_interface := Some i\<rparr>))"
proof -
  obtain l ls where b: "words_line ''wan_interface'' (if_wan_interface i) @ words_line ''lan_interface'' (if_lan_interface i)
       @ opt_lines (text_line ''bind_interface'') (if_bind_interface i) = l # ls" "l \<noteq> ''}''"
    using interface_body(2,3) [OF assms(1)] by (metis list.collapse)
  have "runs il (l # ls) (interface_view c InterfaceConfig_default) (interface_view c i)"
    using interface_body(1) [OF assms(1), of il c] b by simp
  then have "runs il (l # ls) ((at c)\<lparr>ps_state := Interface\<rparr>) (interface_view c i)"
    by (rule runs_enter) (use b(2) assms(2) in \<open>simp add: state_line_def interface_line_def get_or_def view_defs\<close>)
  moreover have "runs il [''interface {''] (at c) ((at c)\<lparr>ps_state := Interface\<rparr>)"
    "runs il [''}''] (interface_view c i) (at (c\<lparr>dae_interface := Some i\<rparr>))"
    by (rule runs_line; simp add: state_line_def interface_line_def view_defs)+
  ultimately have "runs il ([''interface {''] @ (l # ls) @ [''}'']) (at c) (at (c\<lparr>dae_interface := Some i\<rparr>))"
    by (blast intro: runs_append)
  then show ?thesis by (simp add: print_interface_def flip: b(1))
qed

subsection \<open>Process exclusion\<close>

lemma comm_items_qv: "comm_items (map qv xs) acc = Ret (acc @ xs)"
  by (induction xs arbitrary: acc) (auto simp: trim_fenced Let_def, auto simp: qv_def)

lemma id_items_dec: "id_items field n (map (\<lambda>x. show_dec (unat x)) xs) acc = Inr (acc @ xs)"
proof (induction xs arbitrary: acc)
  case (Cons x xs)
  have "trim (show_dec (unat x)) = show_dec (unat x)" "show_dec (unat x) \<noteq> []"
    using show_dec_ok [of "unat x"] by (auto simp: value_ok_iff trim_fenced fenced_def)
  with Cons show ?case by (simp add: Let_def)
qed simp

lemma items_args:
  assumes "list_all (\<lambda>s. CHR '','' \<notin> set s) xs"
  shows "call_args name (call_line name xs) = Some (if xs = [] then [[]] else xs)"
  using split_join [of xs "CHR '',''"] assms
  by (simp add: call_args_def call_line_def strip_prefix_def strip_suffix_def suffix_def prefix_def)

lemma call_other: "name \<in> {''comm'', ''pid'', ''tgid''} \<Longrightarrow> name' \<in> {''comm'', ''pid'', ''tgid''} \<Longrightarrow> name \<noteq> name' \<Longrightarrow>
    call_args name (call_line name' xs) = None"
  by (auto simp: call_args_def call_line_def strip_prefix_def)

lemma call_fenced: "name \<in> {''comm'', ''pid'', ''tgid''} \<Longrightarrow> fenced (call_line name xs)"
  by (auto simp: call_line_def fenced_def graph_char_def byte_of_def)

lemma match_stmts:
  assumes "list_all (\<lambda>s. quotable s \<and> CHR '','' \<notin> set s) xs"
  shows "pm_comm m = [] \<Longrightarrow> parse_match_stmts (call_line ''comm'' (map qv xs)) n m = Ret (Inr (m\<lparr>pm_comm := xs\<rparr>))"
    and "pm_pid m = [] \<Longrightarrow> parse_match_stmts (call_line ''pid'' (map (\<lambda>x. show_dec (unat x)) ys)) n m = Ret (Inr (m\<lparr>pm_pid := ys\<rparr>))"
    and "pm_tgid m = [] \<Longrightarrow> parse_match_stmts (call_line ''tgid'' (map (\<lambda>x. show_dec (unat x)) ys)) n m = Ret (Inr (m\<lparr>pm_tgid := ys\<rparr>))"
proof -
  have q: "list_all (\<lambda>s. CHR '','' \<notin> set s) (map qv xs)" using assms by (auto simp: list_all_iff qv_def quote1_def)
  have d: "list_all (\<lambda>s. CHR '','' \<notin> set s) (map (\<lambda>x. show_dec (unat x)) ys)"
    using show_dec_chars(3) by (auto simp: list_all_iff)
  have e: "trim [] = []" using trim_length_le [of "[]"] by simp
  show "pm_comm m = [] \<Longrightarrow> parse_match_stmts (call_line ''comm'' (map qv xs)) n m = Ret (Inr (m\<lparr>pm_comm := xs\<rparr>))"
    using items_args [OF q, of "''comm''"] comm_items_qv [of xs "[]"]
    by (cases "xs = []") (simp_all add: parse_match_stmts_def trim_fenced call_fenced e)
  show "pm_pid m = [] \<Longrightarrow> parse_match_stmts (call_line ''pid'' (map (\<lambda>x. show_dec (unat x)) ys)) n m = Ret (Inr (m\<lparr>pm_pid := ys\<rparr>))"
    using items_args [OF d, of "''pid''"] id_items_dec [of "''pid''" n ys "[]"] call_other [of "''comm''" "''pid''"]
    by (cases "ys = []") (simp_all add: parse_match_stmts_def trim_fenced call_fenced e)
  show "pm_tgid m = [] \<Longrightarrow> parse_match_stmts (call_line ''tgid'' (map (\<lambda>x. show_dec (unat x)) ys)) n m = Ret (Inr (m\<lparr>pm_tgid := ys\<rparr>))"
    using items_args [OF d, of "''tgid''"] id_items_dec [of "''tgid''" n ys "[]"] call_other [of "''comm''" "''tgid''"]
      call_other [of "''pid''" "''tgid''"]
    by (cases "ys = []") (simp_all add: parse_match_stmts_def trim_fenced call_fenced e)
qed

lemma call_clean:
  assumes "name \<in> {''comm'', ''pid'', ''tgid'', ''nodes''}" "CHR 0x0A \<notin> set (join '','' xs)"
    and "\<And>i s. comment_pos None i (join '','' xs @ s) = comment_pos None (i + length (join '','' xs)) s"
  shows "clean_line (call_line name xs)"
proof -
  have "comment_pos None 0 (call_line name xs) = comment_pos None (length (name @ ''('' @ join '','' xs)) '')''"
    using assms(1,3) comment_pos_plain [of "name @ ''(''" 0 "join '','' xs @ '')''"]
    by (auto simp: call_line_def quote1_def quote2_def)
  also have "\<dots> = None" by (simp add: quote1_def quote2_def)
  finally show ?thesis
    using assms(1,2) by (auto simp: clean_line_def call_line_def fenced_def graph_char_def byte_of_def)
qed

lemma plain_join_clean:
  assumes "name \<in> {''comm'', ''pid'', ''tgid'', ''nodes''}" "list_all (list_all (\<lambda>c. graph_char c \<and> c \<notin> {quote1, quote2, CHR ''#''})) xs"
  shows "clean_line (call_line name xs)"
proof (rule call_clean [OF assms(1)])
  have nl: "\<not> graph_char (CHR 0x0A)" by code_simp
  have s: "set (join '','' xs) \<subseteq> {c. graph_char c \<and> c \<notin> {quote1, quote2, CHR ''#''}} \<union> {CHR '',''}"
    using set_join [of "'',''" xs] assms(2) by (fastforce simp: list_all_iff)
  then show "CHR 0x0A \<notin> set (join '','' xs)" using nl by auto
  have "quote1 \<notin> set (join '','' xs)" "quote2 \<notin> set (join '','' xs)" "CHR ''#'' \<notin> set (join '','' xs)"
    using s by (auto simp: quote1_def quote2_def)
  then show "comment_pos None i (join '','' xs @ s) = comment_pos None (i + length (join '','' xs)) s" for i s
    by (rule comment_pos_plain)
qed

lemma key_plain: "cfg_key k \<Longrightarrow> list_all (\<lambda>c. graph_char c \<and> c \<notin> {quote1, quote2, CHR ''#''}) k"
  using key_chars(1-3) [of k] key_char_graph by (auto simp: cfg_key_def list_all_iff)

definition match_view :: "DaefileConfig \<Rightarrow> ProcessExclusionConfig \<Rightarrow> ProcessMatchConfig \<Rightarrow> pstate" where
  "match_view c pe m = (exclusion_view c m pe)\<lparr>ps_state := ProcessMatch, ps_stack := [ProcessExclusion]\<rparr>"

lemma exclusion_steps:
  "dae_process_exclusion c = Some pe \<Longrightarrow> runs il [''process_exclusion {''] (at c) (exclusion_view c ProcessMatchConfig_default pe)"
  "runs il [bool_line ''enabled'' b] (exclusion_view c m r) (exclusion_view c m (r\<lparr>pe_enabled := b\<rparr>))"
  "runs il [bool_line ''protect_self'' b] (exclusion_view c m r) (exclusion_view c m (r\<lparr>pe_protect_self := b\<rparr>))"
  "runs il [bool_line ''protect_children'' b] (exclusion_view c m r) (exclusion_view c m (r\<lparr>pe_protect_children := b\<rparr>))"
  "runs il [int_line ''gc_interval_sec'' x] (exclusion_view c m r) (exclusion_view c m (r\<lparr>pe_gc_interval_sec := x\<rparr>))"
  "runs il [int_line ''stale_after_sec'' x] (exclusion_view c m r) (exclusion_view c m (r\<lparr>pe_stale_after_sec := x\<rparr>))"
  "runs il [''match {''] (exclusion_view c m r) (match_view c r m)"
  "runs il [''}''] (match_view c r m) (exclusion_view c m r)"
  "runs il [''}''] (exclusion_view c m r) (at (c\<lparr>dae_process_exclusion := Some (r\<lparr>pe_match := m\<rparr>)\<rparr>))"
proof -
  show "dae_process_exclusion c = Some pe \<Longrightarrow> runs il [''process_exclusion {''] (at c) (exclusion_view c ProcessMatchConfig_default pe)"
    by (rule runs_line; cases c; simp add: state_line_def view_defs)
  have h: "strip_heads [''match''] ''match {'' = '' {''" by (simp add: strip_heads.simps)
  have "fenced ''{''" by code_simp
  then have "trim '' {'' = ''{''" using trim_space_fenced [of "''{''"] by simp
  with h show "runs il [''match {''] (exclusion_view c m r) (match_view c r m)"
    by (intro runs_line) (simp_all add: state_line_def process_exclusion_line_def starts_with_def match_view_def view_defs)
  show "runs il [''}''] (match_view c r m) (exclusion_view c m r)"
    by (rule runs_line; simp add: state_line_def process_match_line_def match_view_def view_defs)
  show "runs il [''}''] (exclusion_view c m r) (at (c\<lparr>dae_process_exclusion := Some (r\<lparr>pe_match := m\<rparr>)\<rparr>))"
    by (rule runs_line; simp add: state_line_def process_exclusion_line_def get_or_def view_defs)
qed (unfold line_defs, (rule excl.field_runs; simp add: show_dec_ok process_exclusion_field_def field_defs)+)

lemma match_steps:
  assumes "list_all (\<lambda>s. quotable s \<and> CHR '','' \<notin> set s) xs"
  shows "pm_comm m = [] \<Longrightarrow> runs il [call_line ''comm'' (map qv xs)] (match_view c r m) (match_view c r (m\<lparr>pm_comm := xs\<rparr>))"
    and "pm_pid m = [] \<Longrightarrow> runs il [call_line ''pid'' (map (\<lambda>x. show_dec (unat x)) ys)] (match_view c r m) (match_view c r (m\<lparr>pm_pid := ys\<rparr>))"
    and "pm_tgid m = [] \<Longrightarrow> runs il [call_line ''tgid'' (map (\<lambda>x. show_dec (unat x)) ys)] (match_view c r m) (match_view c r (m\<lparr>pm_tgid := ys\<rparr>))"
proof -
  have q: "list_all quotable xs" using assms by (auto simp: list_all_iff)
  have nl: "CHR 0x0A \<notin> set (join '','' (map qv xs))"
    using set_join [of "'',''" "map qv xs"] q by (fastforce simp: list_all_iff quotable_def qv_def quote1_def)
  have c1: "clean_line (call_line ''comm'' (map qv xs))"
    by (rule call_clean [OF _ nl comment_pos_join [OF q]]) simp_all
  have d: "list_all (list_all (\<lambda>c. graph_char c \<and> c \<notin> {quote1, quote2, CHR ''#''})) (map (\<lambda>x. show_dec (unat x)) ys)"
    using key_plain [OF show_dec_key] by (simp add: list_all_iff)
  have l: "call_line name args \<noteq> ''}''" if "name \<in> {''comm'', ''pid'', ''tgid''}" for name args
    using that by (auto simp: call_line_def)
  note s = match_stmts [OF assms]
  show "pm_comm m = [] \<Longrightarrow> runs il [call_line ''comm'' (map qv xs)] (match_view c r m) (match_view c r (m\<lparr>pm_comm := xs\<rparr>))"
    by (rule runs_line [OF c1]) (simp add: state_line_def process_match_line_def match_view_def view_defs s l)
  show "pm_pid m = [] \<Longrightarrow> runs il [call_line ''pid'' (map (\<lambda>x. show_dec (unat x)) ys)] (match_view c r m) (match_view c r (m\<lparr>pm_pid := ys\<rparr>))"
    by (rule runs_line [OF plain_join_clean [OF _ d]]) (simp_all add: state_line_def process_match_line_def match_view_def view_defs s l)
  show "pm_tgid m = [] \<Longrightarrow> runs il [call_line ''tgid'' (map (\<lambda>x. show_dec (unat x)) ys)] (match_view c r m) (match_view c r (m\<lparr>pm_tgid := ys\<rparr>))"
    by (rule runs_line [OF plain_join_clean [OF _ d]]) (simp_all add: state_line_def process_match_line_def match_view_def view_defs s l)
qed

lemma print_exclusion_runs:
  assumes "exclusion_ok pe" "dae_process_exclusion c = Some pe0"
  shows "runs il (print_exclusion pe) (at c) (at (c\<lparr>dae_process_exclusion := Some pe\<rparr>))"
proof -
  have ok: "list_all (\<lambda>s. quotable s \<and> CHR '','' \<notin> set s) (pm_comm (pe_match pe))" using assms(1) by (simp add: exclusion_ok_def)
  note m = match_steps [OF ok]
  show ?thesis
    unfolding print_exclusion_def
    by (rule runs_eq, rule runs_cons, rule exclusion_steps(1) [OF assms(2)],
        (rule runs_cons, rule exclusion_steps(2-7))+,
        rule runs_cons, rule m(1), simp add: ProcessMatchConfig_default_def,
        rule runs_cons, rule m(2), simp add: ProcessMatchConfig_default_def,
        rule runs_cons, rule m(3), simp add: ProcessMatchConfig_default_def,
        rule runs_cons, rule exclusion_steps(8), rule exclusion_steps(9))
      (cases pe, cases "pe_match pe", cases pe0, simp add: ProcessMatchConfig_default_def)
qed

subsection \<open>API and DNS\<close>

lemma api_steps:
  "runs il [''api {''] (at c) ((at c)\<lparr>ps_state := Api\<rparr>)"
  "runs il [bool_line ''enabled'' b] (api_view c r) (api_view c (r\<lparr>ac_enabled := b\<rparr>))"
  "dae_api c = None \<Longrightarrow> runs il [bool_line ''enabled'' b] ((at c)\<lparr>ps_state := Api\<rparr>) (api_view c (ApiConfig_initial\<lparr>ac_enabled := b\<rparr>))"
  "runs il [bool_line ''tls'' b] (api_view c r) (api_view c (r\<lparr>ac_tls := b\<rparr>))"
  "runs il [''}''] (api_view c r) (at (c\<lparr>dae_api := Some r\<rparr>))"
  "quotable l \<Longrightarrow> runs il [text_line ''listen'' l] (api_view c r) (api_view c (r\<lparr>ac_listen := l\<rparr>))"
  "quotable l \<Longrightarrow> runs il [text_line ''token'' l] (api_view c r) (api_view c (r\<lparr>ac_token := l\<rparr>))"
  "opt_all quotable x \<Longrightarrow> ac_cert r = None \<Longrightarrow> runs il (opt_lines (text_line ''cert'') x) (api_view c r) (api_view c (r\<lparr>ac_cert := x\<rparr>))"
  "opt_all quotable x \<Longrightarrow> ac_key r = None \<Longrightarrow> runs il (opt_lines (text_line ''key'') x) (api_view c r) (api_view c (r\<lparr>ac_key := x\<rparr>))"
proof -
  show "runs il [''api {''] (at c) ((at c)\<lparr>ps_state := Api\<rparr>)" "runs il [''}''] (api_view c r) (at (c\<lparr>dae_api := Some r\<rparr>))"
    by (rule runs_line; simp add: state_line_def api_line_def view_defs)+
  have e: "runs il [bool_line ''enabled'' b] (api_view c r) (api_view c (r\<lparr>ac_enabled := b\<rparr>))" for r
    unfolding line_defs by (rule api.field_runs; simp add: api_field_def field_defs)
  then show "runs il [bool_line ''enabled'' b] (api_view c r) (api_view c (r\<lparr>ac_enabled := b\<rparr>))" .
  show "dae_api c = None \<Longrightarrow> runs il [bool_line ''enabled'' b] ((at c)\<lparr>ps_state := Api\<rparr>) (api_view c (ApiConfig_initial\<lparr>ac_enabled := b\<rparr>))"
    by (rule runs_enter [OF e]) (simp add: bool_line_def state_line_def api_line_def kv_not_brace get_or_def view_defs)
  show "opt_all quotable x \<Longrightarrow> ac_cert r = None \<Longrightarrow> runs il (opt_lines (text_line ''cert'') x) (api_view c r) (api_view c (r\<lparr>ac_cert := x\<rparr>))"
    "opt_all quotable x \<Longrightarrow> ac_key r = None \<Longrightarrow> runs il (opt_lines (text_line ''key'') x) (api_view c r) (api_view c (r\<lparr>ac_key := x\<rparr>))"
    by (cases r; cases x; auto simp: line_defs opt_all_def api_field_def field_defs intro!: api.field_runs qv_ok)+
qed (unfold line_defs, (rule api.field_runs; simp add: qv_ok api_field_def field_defs)+)

lemma print_api_runs:
  assumes "api_ok a" "dae_api c = None"
  shows "runs il (print_api a) (at c) (at (c\<lparr>dae_api := Some a\<rparr>))"
proof -
  have ok: "quotable (ac_listen a)" "opt_all quotable (ac_cert a)" "opt_all quotable (ac_key a)" "quotable (ac_token a)"
    using assms(1) by (auto simp: api_ok_def)
  show ?thesis
    unfolding print_api_def append_Cons append_Nil
    by (rule runs_eq, rule runs_cons, rule api_steps(1), rule runs_cons, rule api_steps(3) [OF assms(2)],
        rule runs_cons, rule api_steps(6) [OF ok(1)], rule runs_cons, rule api_steps(4),
        rule runs_append, rule api_steps(8) [OF ok(2)], simp add: ApiConfig_initial_def,
        rule runs_append, rule api_steps(9) [OF ok(3)], simp add: ApiConfig_initial_def,
        rule runs_cons, rule api_steps(7) [OF ok(4)], rule api_steps(5)) (cases a, simp add: ApiConfig_initial_def)
qed

lemma dns_steps:
  "runs il [''dns {''] (at c) ((at c)\<lparr>ps_state := Dns\<rparr>)"
  "dae_dns c = None \<Longrightarrow> quotable l \<Longrightarrow> runs il [text_line ''listen_addr'' l] ((at c)\<lparr>ps_state := Dns\<rparr>) (dns_view c (DnsConfig_default\<lparr>dc_listen_addr := l\<rparr>))"
  "list_all item_ok xs \<Longrightarrow> runs il [kv ''proxy_dns_servers'' (csv xs)] (dns_view c r) (dns_view c (r\<lparr>dc_proxy_dns_servers := xs\<rparr>))"
  "list_all item_ok xs \<Longrightarrow> runs il [kv ''direct_dns_servers'' (csv xs)] (dns_view c r) (dns_view c (r\<lparr>dc_direct_dns_servers := xs\<rparr>))"
  "runs il [bool_line ''direct_use_system_dns'' b] (dns_view c r) (dns_view c (r\<lparr>dc_direct_use_system_dns := b\<rparr>))"
  "runs il [int_line ''query_timeout_ms'' n] (dns_view c r) (dns_view c (r\<lparr>dc_query_timeout_ms := n\<rparr>))"
  "runs il [bool_line ''enable_cache'' b] (dns_view c r) (dns_view c (r\<lparr>dc_enable_cache := b\<rparr>))"
  "runs il [''}''] (dns_view c r) (at (c\<lparr>dae_dns := Some r\<rparr>))"
proof -
  show "runs il [''dns {''] (at c) ((at c)\<lparr>ps_state := Dns\<rparr>)" "runs il [''}''] (dns_view c r) (at (c\<lparr>dae_dns := Some r\<rparr>))"
    by (rule runs_line; simp add: state_line_def dns_line_def view_defs)+
  have e: "quotable l \<Longrightarrow> runs il [text_line ''listen_addr'' l] (dns_view c r) (dns_view c (r\<lparr>dc_listen_addr := l\<rparr>))" for r
    unfolding line_defs by (rule dns.field_runs; simp add: qv_ok dns_field_def field_defs)
  show "dae_dns c = None \<Longrightarrow> quotable l \<Longrightarrow> runs il [text_line ''listen_addr'' l] ((at c)\<lparr>ps_state := Dns\<rparr>) (dns_view c (DnsConfig_default\<lparr>dc_listen_addr := l\<rparr>))"
    by (rule runs_enter [OF e]) (simp_all add: text_line_def state_line_def dns_line_def kv_not_brace get_or_def view_defs)
qed (unfold line_defs, (rule dns.field_runs; simp add: csv_ok show_dec_ok split_csv_list_csv dns_field_def field_defs)+)

lemma print_dns_runs:
  assumes "dns_ok d" "dae_dns c = None"
  shows "runs il (print_dns d) (at c) (at (c\<lparr>dae_dns := Some d\<rparr>))"
proof -
  have ok: "quotable (dc_listen_addr d)" "list_all item_ok (dc_proxy_dns_servers d)" "list_all item_ok (dc_direct_dns_servers d)"
    using assms(1) by (auto simp: dns_ok_def)
  show ?thesis
    unfolding print_dns_def
    by (rule runs_eq, rule runs_cons, rule dns_steps(1), rule runs_cons, rule dns_steps(2) [OF assms(2) ok(1)],
        rule runs_cons, rule dns_steps(3) [OF ok(2)], rule runs_cons, rule dns_steps(4) [OF ok(3)],
        (rule runs_cons, rule dns_steps(5-7))+, rule dns_steps(8)) (cases d, simp add: DnsConfig_default_def)
qed

subsection \<open>Rule sets\<close>

lemma name_chars:
  assumes "name_ok s"
  shows "fenced s" "quote1 \<notin> set s" "quote2 \<notin> set s" "CHR ''#'' \<notin> set s" "CHR '' '' \<notin> set s" "CHR 0x0A \<notin> set s" "s \<noteq> []"
proof -
  have "\<not> graph_char (CHR '' '')" "\<not> graph_char (CHR 0x0A)" by code_simp+
  then show "CHR '' '' \<notin> set s" "CHR 0x0A \<notin> set s" using assms by (auto simp: name_ok_def list_all_iff)
  show "fenced s" using assms by (intro fenced_graph) (auto simp: name_ok_def list_all_iff)
qed (use assms in \<open>auto simp: name_ok_def list_all_iff\<close>)

lemma open_clean: "name_ok s \<Longrightarrow> clean_line (open_line s)"
  using name_chars [of s] comment_pos_plain [of "open_line s" 0 "[]"]
  by (auto simp: clean_line_def open_line_def fenced_def quote1_def quote2_def graph_char_def byte_of_def)

lemma open_declared: "name_ok s \<Longrightarrow> declared (open_line s) = Some s"
  using name_chars [of s] trim_fenced_space [of s]
  by (simp add: declared_def open_line_def strip_suffix_def suffix_def)

lemma open_not_brace: "open_line s \<noteq> ''}''"
  by (cases s) (auto simp: open_line_def)

lemma update_value_ok: "update_ok u \<Longrightarrow> value_ok (update_value u)"
proof -
  have h: "value_ok (p @ v)" if "p \<in> {''time: '', ''period: ''}" "value_ok v" for p v
    using that comment_pos_plain [of p _ v]
    by (auto simp: value_ok_iff fenced_def quote1_def quote2_def graph_char_def byte_of_def)
  show "update_ok u \<Longrightarrow> value_ok (update_value u)" using h [of "''time: ''"] h [of "''period: ''"] by (cases u) simp_all
qed

lemma update_read:
  assumes "update_ok u" "cfg_update r = None"
  shows "rule_set_field nm n ''update'' (update_value u) r = Ret (Inr (r\<lparr>cfg_update := Some u\<rparr>))"
proof -
  have "trim (update_value u) = update_value u" using update_value_ok [OF assms(1)] by (simp add: value_ok_iff trim_fenced)
  moreover have "trim (CHR '' '' # v) = v" if "value_ok v" for v using that by (simp add: value_ok_iff trim_space_fenced)
  ultimately show ?thesis using assms by (cases u) (simp_all add: rule_set_field_def strip_prefix_def)
qed

definition in_rule_sets :: "DaefileConfig \<Rightarrow> pstate" where
  "in_rule_sets c = (at c)\<lparr>ps_state := InRuleSet\<rparr>"

lemma rule_set_steps:
  "name_ok nm \<Longrightarrow> runs il [open_line nm] (in_rule_sets c) (rule_set_view c nm (empty_rule_set nm))"
  "runs il [text_line ''type'' (as_str ty)] (rule_set_view c nm r) (rule_set_view c nm (r\<lparr>cfg_type := ty\<rparr>))"
  "quotable u \<Longrightarrow> runs il [text_line ''url'' u] (rule_set_view c nm r)
     (rule_set_view c nm (r\<lparr>cfg_expected_sha256 := expected_sha256_from_url u, cfg_url := u\<rparr>))"
  "opt_all update_ok x \<Longrightarrow> cfg_update r = None \<Longrightarrow>
     runs il (opt_lines (\<lambda>u. kv ''update'' (update_value u)) x) (rule_set_view c nm r) (rule_set_view c nm (r\<lparr>cfg_update := x\<rparr>))"
  "runs il [bool_line ''update_on_start'' b] (rule_set_view c nm r) (rule_set_view c nm (r\<lparr>cfg_update_on_start := b\<rparr>))"
  "opt_all quotable y \<Longrightarrow> cfg_proxy r = None \<Longrightarrow>
     runs il (opt_lines (text_line ''proxy'') y) (rule_set_view c nm r) (rule_set_view c nm (r\<lparr>cfg_proxy := y\<rparr>))"
  "runs il [''}''] (rule_set_view c nm r) (in_rule_sets (c\<lparr>dae_rule_set := dae_rule_set c @ [r]\<rparr>))"
proof -
  show "name_ok nm \<Longrightarrow> runs il [open_line nm] (in_rule_sets c) (rule_set_view c nm (empty_rule_set nm))"
    by (rule runs_line [OF open_clean])
      (simp_all add: state_line_def rule_set_line_def open_declared open_not_brace in_rule_sets_def view_defs)
  show "runs il [''}''] (rule_set_view c nm r) (in_rule_sets (c\<lparr>dae_rule_set := dae_rule_set c @ [r]\<rparr>))"
    by (rule runs_line; simp add: state_line_def rule_set_entry_line_def in_rule_sets_def view_defs)
  show "opt_all update_ok x \<Longrightarrow> cfg_update r = None \<Longrightarrow>
     runs il (opt_lines (\<lambda>u. kv ''update'' (update_value u)) x) (rule_set_view c nm r) (rule_set_view c nm (r\<lparr>cfg_update := x\<rparr>))"
    by (cases r; cases x; auto simp: opt_lines_def opt_all_def update_read intro!: rset.field_runs update_value_ok)
  show "opt_all quotable y \<Longrightarrow> cfg_proxy r = None \<Longrightarrow>
     runs il (opt_lines (text_line ''proxy'') y) (rule_set_view c nm r) (rule_set_view c nm (r\<lparr>cfg_proxy := y\<rparr>))"
    by (cases r; cases y; auto simp: line_defs opt_all_def rule_set_field_def field_defs intro!: rset.field_runs qv_ok)
  have q: "quotable (as_str ty)" by (cases ty) (simp_all add: as_str_def quotable_def quote1_def)
  have "rule_set_type_of (as_str ty) = Some ty" by (cases ty) (simp_all add: as_str_def rule_set_type_of_def)
  with q show "runs il [text_line ''type'' (as_str ty)] (rule_set_view c nm r) (rule_set_view c nm (r\<lparr>cfg_type := ty\<rparr>))"
    unfolding line_defs by (intro rset.field_runs) (simp_all add: qv_ok rule_set_field_def)
qed (unfold line_defs, (rule rset.field_runs; simp add: qv_ok rule_set_field_def field_defs)+)

lemma print_rule_set_runs:
  assumes "rule_set_ok rs"
  shows "runs il (print_rule_set rs) (in_rule_sets c) (in_rule_sets (c\<lparr>dae_rule_set := dae_rule_set c @ [rs]\<rparr>))"
proof -
  have ok: "name_ok (cfg_name rs)" "quotable (cfg_url rs)" "opt_all update_ok (cfg_update rs)" "opt_all quotable (cfg_proxy rs)"
    and sha: "cfg_expected_sha256 rs = expected_sha256_from_url (cfg_url rs)"
    using assms by (auto simp: rule_set_ok_def)
  show ?thesis
    unfolding print_rule_set_def append_Cons append_Nil
    by (rule runs_eq, rule runs_cons, rule rule_set_steps(1) [OF ok(1)], rule runs_cons, rule rule_set_steps(2),
        rule runs_cons, rule rule_set_steps(3) [OF ok(2)],
        rule runs_append, rule rule_set_steps(4) [OF ok(3)], simp add: empty_rule_set_def,
        rule runs_cons, rule rule_set_steps(5),
        rule runs_append, rule rule_set_steps(6) [OF ok(4)], simp add: empty_rule_set_def, rule rule_set_steps(7))
      (use sha in \<open>cases rs, simp add: empty_rule_set_def\<close>)
qed

lemma rule_sets_runs:
  assumes "list_all rule_set_ok rss"
  shows "runs il (concat (map print_rule_set rss)) (in_rule_sets c) (in_rule_sets (c\<lparr>dae_rule_set := dae_rule_set c @ rss\<rparr>))"
proof -
  have "runs il (concat (map print_rule_set rss)) (in_rule_sets c)
      (in_rule_sets (fold (\<lambda>rs c. c\<lparr>dae_rule_set := dae_rule_set c @ [rs]\<rparr>) rss c))"
    by (rule runs_concat) (use assms in \<open>auto simp: list_all_iff intro: print_rule_set_runs\<close>)
  moreover have "fold (\<lambda>rs c. c\<lparr>dae_rule_set := dae_rule_set c @ [rs]\<rparr>) rss c = c\<lparr>dae_rule_set := dae_rule_set c @ rss\<rparr>"
    by (induction rss arbitrary: c) simp_all
  ultimately show ?thesis by simp
qed

subsection \<open>Routing\<close>

definition in_routing :: "DaefileConfig \<Rightarrow> RoutingConfig \<Rightarrow> pstate" where
  "in_routing c r = (at (c\<lparr>dae_routing := r\<rparr>))\<lparr>ps_state := Routing\<rparr>"

lemma find_arrow: "CHR ''>'' \<notin> set e \<Longrightarrow> find_str ''->'' (e @ '' -> '' @ a) = Some (Suc (length e))"
proof (induction e)
  case (Cons x e)
  then have "\<not> prefix ''->'' (x # e @ '' -> '' @ a)" by (cases e) auto
  with Cons show ?case by simp
qed simp

lemma prefix_fenced_rule:
  assumes "\<not> prefix ''fallback:'' e"
  shows "\<not> prefix ''fallback:'' (e @ '' -> '' @ a)"
proof
  assume "prefix ''fallback:'' (e @ '' -> '' @ a)"
  with assms(1) obtain r where r: "''fallback:'' = e @ r" "prefix r ('' -> '' @ a)"
    unfolding prefix_append by blast
  show False
  proof (cases r)
    case Nil
    with r(1) assms(1) show False by simp
  next
    case (Cons x xs)
    with r(2) have "CHR '' '' \<in> set (e @ r)" by simp
    then show False unfolding r(1) [symmetric] by simp
  qed
qed

lemma rule_step:
  assumes "rule_ok r"
  shows "runs il [print_rule r] (in_routing c rc) (in_routing c (rc\<lparr>rc_rules := rc_rules rc @ [r]\<rparr>))"
proof -
  have ok: "fenced (rr_match r)" "fenced (rr_action r)" "CHR ''>'' \<notin> set (rr_match r)" "clean_line (print_rule r)"
    "\<not> prefix ''fallback:'' (rr_match r)" using assms by (auto simp: rule_ok_def)
  have "find_str ''->'' (print_rule r) = Some (Suc (length (rr_match r)))"
    using find_arrow [OF ok(3)] by (simp add: print_rule_def)
  moreover have "take (Suc (length (rr_match r))) (print_rule r) = rr_match r @ '' ''"
    "drop (Suc (length (rr_match r)) + 2) (print_rule r) = CHR '' '' # rr_action r"
    by (simp_all add: print_rule_def)
  moreover have "strip_prefix ''fallback:'' (print_rule r) = None"
    using prefix_fenced_rule [OF ok(5), of "rr_action r"] by (simp add: strip_prefix_def print_rule_def)
  moreover have "print_rule r \<noteq> ''}''" by (cases "rr_match r") (auto simp: print_rule_def)
  ultimately have "routing_line n (print_rule r) (in_routing c rc) = Inr (in_routing c (rc\<lparr>rc_rules := rc_rules rc @ [r]\<rparr>))" for n
    using ok(1,2) trim_fenced_space [OF ok(1)] trim_space_fenced [OF ok(2)]
    by (simp add: routing_line_def in_routing_def set_routing_def view_defs fenced_def)
  then show ?thesis using ok(4) by (intro runs_line) (simp_all add: state_line_def in_routing_def view_defs)
qed

lemma routing_steps:
  "runs il [''routing {''] (at c) (in_routing c (dae_routing c))"
  "value_ok fb \<Longrightarrow> runs il [''fallback: '' @ fb] (in_routing c rc) (in_routing c (rc\<lparr>rc_fallback := fb\<rparr>))"
  "runs il [''}''] (in_routing c rc) (at (c\<lparr>dae_routing := rc\<rparr>))"
proof -
  show "runs il [''routing {''] (at c) (in_routing c (dae_routing c))" "runs il [''}''] (in_routing c rc) (at (c\<lparr>dae_routing := rc\<rparr>))"
    by (rule runs_line; simp add: state_line_def routing_line_def in_routing_def view_defs)+
  assume fb: "value_ok fb"
  have "cfg_key ''fallback''" by code_simp
  from kv_clean [OF this fb] have "clean_line (''fallback: '' @ fb)" by (simp add: kv_def)
  moreover have "trim (CHR '' '' # fb) = fb" using fb by (simp add: value_ok_iff trim_space_fenced)
  ultimately show "runs il [''fallback: '' @ fb] (in_routing c rc) (in_routing c (rc\<lparr>rc_fallback := fb\<rparr>))"
    by (intro runs_line) (simp_all add: state_line_def routing_line_def strip_prefix_def set_routing_def in_routing_def view_defs)
qed

lemma rules_runs:
  "list_all rule_ok rs \<Longrightarrow> runs il (map print_rule rs) (in_routing c rc) (in_routing c (rc\<lparr>rc_rules := rc_rules rc @ rs\<rparr>))"
proof (induction rs arbitrary: rc)
  case (Cons r rs)
  then have "rule_ok r" by simp
  from runs_cons [OF rule_step [OF this] Cons.IH] Cons.prems show ?case by simp
qed simp

lemma print_routing_runs:
  assumes "routing_ok rc" "rc_rules (dae_routing c) = []"
  shows "runs il (print_routing rc) (at c) (at (c\<lparr>dae_routing := rc\<rparr>))"
proof -
  have ok: "list_all rule_ok (rc_rules rc)" "value_ok (rc_fallback rc)" using assms(1) by (auto simp: routing_ok_def)
  show ?thesis
    unfolding print_routing_def
    by (rule runs_eq, rule runs_append, rule routing_steps(1), rule runs_append, rule rules_runs [OF ok(1)],
        rule runs_cons, rule routing_steps(2) [OF ok(2)], rule routing_steps(3)) (use assms(2) in \<open>cases rc, cases "dae_routing c", simp\<close>)
qed

subsection \<open>Nodes\<close>

lemma headers_fold:
  assumes "list_all (\<lambda>(k, v). k \<noteq> [] \<and> CHR '':'' \<notin> set k) m"
  shows "map_value_loop (map (\<lambda>(k, v). qv k @ '':'' @ qv v) m) n field acc = Ret (Inr (fold (\<lambda>(k, v). map_insert k v) m acc))"
  using assms
proof (induction m arbitrary: acc)
  case (Cons kv m)
  obtain k v where kv: "kv = (k, v)" by (cases kv)
  let ?e = "qv k @ '':'' @ qv v"
  have "fenced ?e" by (rule fenced_append) simp_all
  then have "trim ?e = ?e" "?e \<noteq> []" by (simp_all only: trim_fenced) (simp_all add: qv_def)
  moreover have "split_once (CHR '':'') ?e = Some (qv k, qv v)"
    using Cons.prems kv by (auto simp: split_once_Some qv_def quote1_def)
  ultimately show ?case using Cons kv by (simp add: trim_fenced Let_def)
qed simp

lemma fold_insert_rev: "distinct (map fst m) \<Longrightarrow> fold (\<lambda>(k, v). map_insert k v) (rev m) [] = m"
proof (induction m)
  case (Cons kv m)
  obtain k v where kv: "kv = (k, v)" by (cases kv)
  have "filter (\<lambda>(k', _). k' \<noteq> k) m = m"
    using Cons.prems kv by (force simp: filter_id_conv)
  with Cons kv show ?case by (simp add: map_insert_def)
qed simp

lemma join_notin: "x \<notin> set d \<Longrightarrow> (\<And>e. e \<in> set xs \<Longrightarrow> x \<notin> set e) \<Longrightarrow> x \<notin> set (join d xs)"
  using set_join [of d xs] by blast

lemma comment_pos_pairs:
  defines "p \<equiv> \<lambda>(k, v). qv k @ '':'' @ qv v"
  assumes "list_all (\<lambda>(k, v). quotable k \<and> quotable v) xs"
  shows "comment_pos None i (join '','' (map p xs) @ s) = comment_pos None (i + length (join '','' (map p xs))) s"
  using assms(2)
proof (induction xs arbitrary: i)
  case (Cons x xs)
  obtain k v where x: "x = (k, v)" by (cases x)
  have c: "comment_pos None j (CHR '':'' # t) = comment_pos None (Suc j) t" "comment_pos None j (CHR '','' # t) = comment_pos None (Suc j) t" for j t
    by (simp_all add: quote1_def quote2_def)
  show ?case
  proof (cases xs)
    case Nil
    with Cons x show ?thesis by (simp add: p_def comment_pos_qv c add.assoc del: comment_pos.simps)
  next
    case (Cons y ys)
    with Cons.prems Cons.IH x show ?thesis by (simp add: p_def comment_pos_qv c add.assoc del: comment_pos.simps)
  qed
qed simp

lemma headers_read:
  assumes "headers_ok m"
  shows "parse_map_value (headers_value m) n field = Ret (Inr m)" "value_ok (headers_value m)"
proof -
  let ?es = "map (\<lambda>(k, v). qv k @ '':'' @ qv v) (rev m)"
  have ok: "list_all (\<lambda>(k, v). quotable k \<and> k \<noteq> [] \<and> CHR '','' \<notin> set k \<and> CHR '':'' \<notin> set k \<and> quotable v \<and> CHR '','' \<notin> set v) (rev m)"
    "distinct (map fst m)"
    using assms by (auto simp: headers_ok_def item_ok_def list_all_iff)
  have f: "fenced (headers_value m)" by (simp add: headers_value_def fenced_def graph_char_def byte_of_def)
  have "parse_map_value (headers_value m) n field = map_value_loop (split_char (CHR '','') (join '','' ?es)) n field []"
    using f by (simp add: parse_map_value_def trim_fenced)
      (simp add: headers_value_def strip_prefix_def strip_suffix_def suffix_def prefix_def)
  also have "\<dots> = Ret (Inr (fold (\<lambda>(k, v). map_insert k v) (rev m) []))"
  proof (cases "m = []")
    case True
    have "trim [] = []" using trim_length_le [of "[]"] by simp
    with True show ?thesis by simp
  next
    case False
    have "list_all (\<lambda>w. CHR '','' \<notin> set w) ?es" using ok(1) by (fastforce simp: list_all_iff qv_def quote1_def)
    with False have "split_char (CHR '','') (join '','' ?es) = ?es" by (intro split_join) auto
    moreover have "list_all (\<lambda>(k, v). k \<noteq> [] \<and> CHR '':'' \<notin> set k) (rev m)" using ok(1) by (auto simp: list_all_iff)
    ultimately show ?thesis by (simp only: headers_fold)
  qed
  also have "\<dots> = Ret (Inr m)" using fold_insert_rev [OF ok(2)] by simp
  finally show "parse_map_value (headers_value m) n field = Ret (Inr m)" .
  have "list_all (\<lambda>(k, v). quotable k \<and> quotable v) (rev m)" using ok(1) by (auto simp: list_all_iff)
  from comment_pos_pairs [OF this, of _ "''}''"] have "comment_pos None i (headers_value m) = None" for i
    by (simp add: headers_value_def quote1_def quote2_def)
  moreover have "CHR 0x0A \<notin> set (headers_value m)"
  proof -
    have "CHR 0x0A \<notin> set e" if "e \<in> set ?es" for e
      using that ok(1) by (fastforce simp: list_all_iff quotable_def qv_def quote1_def)
    then have "CHR 0x0A \<notin> set (join '','' ?es)" by (intro join_notin) simp_all
    then show ?thesis by (simp add: headers_value_def)
  qed
  moreover have "last (headers_value m) = CHR 0x7D" by (simp add: headers_value_def)
  ultimately show "value_ok (headers_value m)" using f by (simp add: value_ok_iff)
qed

definition in_nodes :: "DaefileConfig \<Rightarrow> pstate" where
  "in_nodes c = (at c)\<lparr>ps_state := OutboundNodes\<rparr>"

definition add_node :: "OutboundNodeConfig \<Rightarrow> DaefileConfig \<Rightarrow> DaefileConfig" where
  "add_node n c = c\<lparr>dae_outbounds := (dae_outbounds c)\<lparr>os_nodes := os_nodes (dae_outbounds c) @ [n]\<rparr>\<rparr>"

lemma node_steps:
  "name_ok nm \<Longrightarrow> runs il [open_line nm] (in_nodes c) (node_view c nm (empty_node nm))"
  "quotable u \<Longrightarrow> runs il [text_line ''protocol'' u] (node_view c nm r) (node_view c nm (r\<lparr>nc_protocol := u\<rparr>))"
  "quotable u \<Longrightarrow> runs il [text_line ''address'' u] (node_view c nm r) (node_view c nm (r\<lparr>nc_address := u\<rparr>))"
  "runs il [int_line ''dial_timeout_ms'' t] (node_view c nm r) (node_view c nm (r\<lparr>nc_dial_timeout_ms := t\<rparr>))"
  "runs il [''}''] (node_view c nm r) (in_nodes (add_node r c))"
proof -
  show "name_ok nm \<Longrightarrow> runs il [open_line nm] (in_nodes c) (node_view c nm (empty_node nm))"
    by (rule runs_line [OF open_clean])
      (simp_all add: state_line_def nodes_line_def open_declared open_not_brace in_nodes_def view_defs)
  show "runs il [''}''] (node_view c nm r) (in_nodes (add_node r c))"
    by (rule runs_line; simp add: state_line_def node_line_def push_node_def add_node_def in_nodes_def view_defs)
qed (unfold line_defs, (rule nd.field_runs; simp add: qv_ok show_dec_ok node_field_def field_defs)+)

lemma node_opts:
  assumes "opt_all quotable x"
  shows "nc_username r = None \<Longrightarrow> runs il (opt_lines (text_line ''username'') x) (node_view c nm r) (node_view c nm (r\<lparr>nc_username := x\<rparr>))"
    and "nc_password r = None \<Longrightarrow> runs il (opt_lines (text_line ''password'') x) (node_view c nm r) (node_view c nm (r\<lparr>nc_password := x\<rparr>))"
    and "nc_cipher r = None \<Longrightarrow> runs il (opt_lines (text_line ''cipher'') x) (node_view c nm r) (node_view c nm (r\<lparr>nc_cipher := x\<rparr>))"
    and "nc_sni r = None \<Longrightarrow> runs il (opt_lines (text_line ''sni'') x) (node_view c nm r) (node_view c nm (r\<lparr>nc_sni := x\<rparr>))"
    and "nc_ca_sha256 r = None \<Longrightarrow> runs il (opt_lines (text_line ''ca_sha256'') x) (node_view c nm r) (node_view c nm (r\<lparr>nc_ca_sha256 := x\<rparr>))"
    and "nc_uuid r = None \<Longrightarrow> runs il (opt_lines (text_line ''uuid'') x) (node_view c nm r) (node_view c nm (r\<lparr>nc_uuid := x\<rparr>))"
    and "nc_congestion_control r = None \<Longrightarrow> runs il (opt_lines (text_line ''congestion_control'') x) (node_view c nm r) (node_view c nm (r\<lparr>nc_congestion_control := x\<rparr>))"
    and "nc_security r = None \<Longrightarrow> runs il (opt_lines (text_line ''security'') x) (node_view c nm r) (node_view c nm (r\<lparr>nc_security := x\<rparr>))"
    and "nc_network r = None \<Longrightarrow> runs il (opt_lines (text_line ''network'') x) (node_view c nm r) (node_view c nm (r\<lparr>nc_network := x\<rparr>))"
    and "nc_ws_path r = None \<Longrightarrow> runs il (opt_lines (text_line ''ws_path'') x) (node_view c nm r) (node_view c nm (r\<lparr>nc_ws_path := x\<rparr>))"
    and "nc_h2_path r = None \<Longrightarrow> runs il (opt_lines (text_line ''h2_path'') x) (node_view c nm r) (node_view c nm (r\<lparr>nc_h2_path := x\<rparr>))"
    and "nc_h2_host r = None \<Longrightarrow> runs il (opt_lines (text_line ''h2_host'') x) (node_view c nm r) (node_view c nm (r\<lparr>nc_h2_host := x\<rparr>))"
    and "nc_grpc_service_name r = None \<Longrightarrow> runs il (opt_lines (text_line ''grpc_service_name'') x) (node_view c nm r) (node_view c nm (r\<lparr>nc_grpc_service_name := x\<rparr>))"
proof -
qed (insert assms, (cases x; cases r; simp add: line_defs opt_all_def; rule nd.field_runs; simp add: qv_ok node_field_def field_defs)+)

lemma node_lists:
  "opt_all (list_all item_ok) x \<Longrightarrow> nc_alpn r = None \<Longrightarrow>
     runs il (opt_lines (\<lambda>xs. kv ''alpn'' (csv xs)) x) (node_view c nm r) (node_view c nm (r\<lparr>nc_alpn := x\<rparr>))"
  "nc_alter_id r = None \<Longrightarrow> runs il (opt_lines (int_line ''alter_id'') y) (node_view c nm r) (node_view c nm (r\<lparr>nc_alter_id := y\<rparr>))"
  "opt_all headers_ok z \<Longrightarrow> nc_ws_headers r = None \<Longrightarrow>
     runs il (opt_lines (\<lambda>m. kv ''ws_headers'' (headers_value m)) z) (node_view c nm r) (node_view c nm (r\<lparr>nc_ws_headers := z\<rparr>))"
proof -
  have a: "run_bind (run_map unquote (split_char (CHR '','') (csv xs))) (\<lambda>ys. Ret (Inr (r\<lparr>nc_alpn := Some (filter (\<lambda>s. s \<noteq> []) ys)\<rparr>)))
      = Ret (Inr (r\<lparr>nc_alpn := Some xs\<rparr>))" if "list_all item_ok xs" for xs
    using csv_items [OF that, of unquote] by (simp add: run_bind_eq_Ret) blast
  show "opt_all (list_all item_ok) x \<Longrightarrow> nc_alpn r = None \<Longrightarrow>
     runs il (opt_lines (\<lambda>xs. kv ''alpn'' (csv xs)) x) (node_view c nm r) (node_view c nm (r\<lparr>nc_alpn := x\<rparr>))"
    unfolding opt_lines_def
    by (rule nd.option_runs [where put = "\<lambda>x r. r\<lparr>nc_alpn := x\<rparr>"]) (auto simp: opt_all_def csv_ok node_field_def a)
  show "nc_alter_id r = None \<Longrightarrow> runs il (opt_lines (int_line ''alter_id'') y) (node_view c nm r) (node_view c nm (r\<lparr>nc_alter_id := y\<rparr>))"
    unfolding opt_lines_def int_line_def
    by (rule nd.option_runs [where put = "\<lambda>x r. r\<lparr>nc_alter_id := x\<rparr>"]) (auto simp: show_dec_ok node_field_def field_defs)
  show "opt_all headers_ok z \<Longrightarrow> nc_ws_headers r = None \<Longrightarrow>
     runs il (opt_lines (\<lambda>m. kv ''ws_headers'' (headers_value m)) z) (node_view c nm r) (node_view c nm (r\<lparr>nc_ws_headers := z\<rparr>))"
    unfolding opt_lines_def
    by (rule nd.option_runs [where put = "\<lambda>x r. r\<lparr>nc_ws_headers := x\<rparr>"]) (auto simp: opt_all_def headers_read node_field_def)
qed

lemma print_node_runs:
  assumes "node_ok n"
  shows "runs il (print_node n) (in_nodes c) (in_nodes (add_node n c))"
proof -
  have ok: "name_ok (nc_name n)" "quotable (nc_protocol n)" "quotable (nc_address n)" "nc_import n = None"
    "opt_all quotable (nc_username n)" "opt_all quotable (nc_password n)" "opt_all quotable (nc_cipher n)"
    "opt_all quotable (nc_sni n)" "opt_all quotable (nc_ca_sha256 n)" "opt_all quotable (nc_uuid n)"
    "opt_all quotable (nc_congestion_control n)" "opt_all quotable (nc_security n)" "opt_all quotable (nc_network n)"
    "opt_all quotable (nc_ws_path n)" "opt_all quotable (nc_h2_path n)" "opt_all quotable (nc_h2_host n)"
    "opt_all quotable (nc_grpc_service_name n)" "opt_all (list_all item_ok) (nc_alpn n)" "opt_all headers_ok (nc_ws_headers n)"
    using assms by (simp_all add: node_ok_def)
  note opts = node_opts(1) [OF ok(5)] node_opts(2) [OF ok(6)] node_opts(3) [OF ok(7)] node_opts(4) [OF ok(8)]
    node_opts(5) [OF ok(9)] node_opts(6) [OF ok(10)] node_opts(7) [OF ok(11)] node_lists(1) [OF ok(18)]
    node_opts(8) [OF ok(12)] node_lists(2) node_opts(9) [OF ok(13)] node_opts(10) [OF ok(14)]
    node_lists(3) [OF ok(19)] node_opts(11) [OF ok(15)] node_opts(12) [OF ok(16)] node_opts(13) [OF ok(17)]
  show ?thesis
    unfolding print_node_def append_Cons append_Nil
    by (rule runs_eq, rule runs_cons, rule node_steps(1) [OF ok(1)], rule runs_cons, rule node_steps(2) [OF ok(2)],
        rule runs_cons, rule node_steps(3) [OF ok(3)], rule runs_cons, rule node_steps(4),
        (rule runs_append, rule opts, simp add: empty_node_def)+, rule node_steps(5))
      (use ok(4) in \<open>cases n, simp add: empty_node_def\<close>)
qed

lemma nodes_runs:
  "list_all node_ok ns \<Longrightarrow> runs il (concat (map print_node ns)) (in_nodes c) (in_nodes (fold add_node ns c))"
  by (rule runs_concat) (auto simp: list_all_iff intro: print_node_runs)

subsection \<open>Groups\<close>

definition in_groups :: "DaefileConfig \<Rightarrow> pstate" where
  "in_groups c = (at c)\<lparr>ps_state := OutboundGroups\<rparr>"

definition add_group :: "OutboundGroupConfig \<Rightarrow> DaefileConfig \<Rightarrow> DaefileConfig" where
  "add_group g c = c\<lparr>dae_outbounds := (dae_outbounds c)\<lparr>os_groups := os_groups (dae_outbounds c) @ [g]\<rparr>\<rparr>"

lemma selector_read:
  assumes "selector_ok s"
  shows "parse_nodes_selector (print_selector s) = Ret (Some [s])" "clean_line (print_selector s)" "print_selector s \<noteq> ''}''"
proof -
  show "print_selector s \<noteq> ''}''" by (cases s) (simp_all add: call_line_def)
  show c: "clean_line (print_selector s)"
  proof (cases s)
    case (SelList ns)
    then have "list_all name_ok ns" using assms by (simp add: list_all_iff)
    then have "list_all (list_all (\<lambda>c. graph_char c \<and> c \<notin> {quote1, quote2, CHR ''#''})) ns"
      by (rule list.pred_mono_strong) (simp add: name_ok_def)
    with SelList plain_join_clean [of "''nodes''" ns] show ?thesis by simp
  next
    case (SelRegex p)
    with assms have "value_ok (qv p)" "quotable p" by (auto simp: qv_ok)
    moreover have "comment_pos None 0 (''nodes(regex:'' @ qv p @ '')'') = None"
      using comment_pos_plain [of "''nodes(regex:''" 0 "qv p @ '')''"] comment_pos_qv [OF \<open>quotable p\<close>, of _ "'')''"]
      by (simp add: quote1_def quote2_def)
    ultimately show ?thesis
      using SelRegex by (auto simp: clean_line_def value_ok_iff fenced_def graph_char_def byte_of_def)
  qed
  then have t: "trim (print_selector s) = print_selector s" by (simp add: clean_line_def trim_fenced)
  show "parse_nodes_selector (print_selector s) = Ret (Some [s])"
  proof (cases s)
    case (SelList ns)
    with assms have ns: "ns \<noteq> []" "list_all (\<lambda>s. name_ok s \<and> CHR '','' \<notin> set s) ns" "\<not> prefix ''regex:'' (hd ns)" by auto
    then have f: "fenced (join '','' ns)" by (intro fenced_join) (auto simp: list_all_iff name_chars)
    have "filter (\<lambda>s. s \<noteq> []) (map trim ns) = ns"
      using ns(2) by (induction ns) (auto simp: name_chars trim_fenced)
    moreover have "split_char (CHR '','') (join '','' ns) = ns" using ns by (intro split_join) (auto simp: list_all_iff)
    moreover have "strip_prefix ''regex:'' (join '','' ns) = None"
    proof -
      obtain x xs where x: "ns = x # xs" using ns(1) by (cases ns) auto
      have "\<not> prefix ''regex:'' (x @ '','' @ t)" for t
      proof
        assume "prefix ''regex:'' (x @ '','' @ t)"
        then obtain r where r: "''regex:'' = x @ r" "prefix r ('','' @ t)" using ns(3) x unfolding prefix_append by auto
        show False
        proof (cases r)
          case Nil
          with r(1) ns(3) x show False by simp
        next
          case (Cons y ys)
          with r(2) have "CHR '','' \<in> set (x @ r)" by simp
          then show False unfolding r(1) [symmetric] by simp
        qed
      qed
      with ns(3) x show ?thesis by (cases xs) (simp_all add: strip_prefix_def)
    qed
    moreover have "Option.bind (strip_prefix ''nodes('' (print_selector s)) (strip_suffix '')'') = Some (join '','' ns)"
      using SelList by (simp add: call_line_def strip_prefix_def strip_suffix_def suffix_def prefix_def)
    ultimately show ?thesis
      using SelList f ns(1) t by (simp add: parse_nodes_selector_def trim_fenced fenced_def)
  next
    case (SelRegex p)
    have "fenced (''regex:'' @ qv p)" by (simp add: fenced_def graph_char_def byte_of_def qv_def quote1_def)
    moreover have "Option.bind (strip_prefix ''nodes('' (print_selector s)) (strip_suffix '')'') = Some (''regex:'' @ qv p)"
      using SelRegex by (simp add: strip_prefix_def strip_suffix_def suffix_def prefix_def)
    ultimately show ?thesis
      using SelRegex t by (simp add: parse_nodes_selector_def trim_fenced strip_prefix_def del: print_selector.simps)
  qed
qed

lemma selectors_runs:
  "list_all selector_ok ss \<Longrightarrow> runs il (map print_selector ss) (group_view c nm g) (group_view c nm (g\<lparr>gc_selectors := gc_selectors g @ ss\<rparr>))"
proof (induction ss arbitrary: g)
  case (Cons s ss)
  then have s: "selector_ok s" by simp
  have "runs il [print_selector s] (group_view c nm g) (group_view c nm (g\<lparr>gc_selectors := gc_selectors g @ [s]\<rparr>))"
    by (rule runs_line [OF selector_read(2) [OF s]])
      (simp add: state_line_def group_line_def selector_read [OF s] view_defs)
  from runs_cons [OF this Cons.IH] Cons.prems show ?case by simp
qed simp

lemma group_steps:
  "name_ok nm \<Longrightarrow> runs il [open_line nm] (in_groups c) (group_view c nm (empty_group nm))"
  "runs il [text_line ''type'' (group_type_name t)] (group_view c nm g) (group_view c nm (g\<lparr>gc_group_type := t\<rparr>))"
  "gc_policy g = None \<Longrightarrow> runs il (opt_lines (\<lambda>p. text_line ''policy'' (policy_name p)) x) (group_view c nm g) (group_view c nm (g\<lparr>gc_policy := x\<rparr>))"
  "opt_all quotable y \<Longrightarrow> gc_selected g = None \<Longrightarrow> runs il (opt_lines (text_line ''selected'') y) (group_view c nm g) (group_view c nm (g\<lparr>gc_selected := y\<rparr>))"
  "runs il [''}''] (group_view c nm g) (in_groups (add_group g c))"
proof -
  show "name_ok nm \<Longrightarrow> runs il [open_line nm] (in_groups c) (group_view c nm (empty_group nm))"
    by (rule runs_line [OF open_clean])
      (simp_all add: state_line_def groups_line_def open_declared open_not_brace in_groups_def view_defs)
  show "runs il [''}''] (group_view c nm g) (in_groups (add_group g c))"
    by (rule runs_line; simp add: state_line_def group_line_def push_group_def add_group_def in_groups_def view_defs)
  have t: "quotable (group_type_name t)" "group_type_of (group_type_name t) = Some t"
    by (cases t; simp add: quotable_def quote1_def group_type_of_def)+
  then show "runs il [text_line ''type'' (group_type_name t)] (group_view c nm g) (group_view c nm (g\<lparr>gc_group_type := t\<rparr>))"
    unfolding line_defs by (intro grp.field_runs) (simp_all add: qv_ok group_field_def)
  have p: "quotable (policy_name q)" "policy_of (policy_name q) = Some q" for q
    by (cases q; simp add: quotable_def quote1_def policy_of_def)+
  then show "gc_policy g = None \<Longrightarrow> runs il (opt_lines (\<lambda>p. text_line ''policy'' (policy_name p)) x) (group_view c nm g) (group_view c nm (g\<lparr>gc_policy := x\<rparr>))"
    unfolding line_defs
    by (intro grp.option_runs [where put = "\<lambda>x g. g\<lparr>gc_policy := x\<rparr>"]) (auto simp: qv_ok group_field_def)
  show "opt_all quotable y \<Longrightarrow> gc_selected g = None \<Longrightarrow> runs il (opt_lines (text_line ''selected'') y) (group_view c nm g) (group_view c nm (g\<lparr>gc_selected := y\<rparr>))"
    unfolding line_defs
    by (intro grp.option_runs [where put = "\<lambda>x g. g\<lparr>gc_selected := x\<rparr>"]) (auto simp: opt_all_def qv_ok group_field_def field_defs)
qed

lemma print_group_runs:
  assumes "group_ok g"
  shows "runs il (print_group g) (in_groups c) (in_groups (add_group g c))"
proof -
  have ok: "name_ok (gc_name g)" "opt_all quotable (gc_selected g)" "list_all selector_ok (gc_selectors g)"
    using assms by (auto simp: group_ok_def)
  show ?thesis
    unfolding print_group_def append_Cons append_Nil
    by (rule runs_eq, rule runs_cons, rule group_steps(1) [OF ok(1)], rule runs_cons, rule group_steps(2),
        rule runs_append, rule group_steps(3), simp add: empty_group_def,
        rule runs_append, rule group_steps(4) [OF ok(2)], simp add: empty_group_def,
        rule runs_append, rule selectors_runs [OF ok(3)], rule group_steps(5)) (cases g, simp add: empty_group_def)
qed

lemma groups_runs:
  "list_all group_ok gs \<Longrightarrow> runs il (concat (map print_group gs)) (in_groups c) (in_groups (fold add_group gs c))"
  by (rule runs_concat) (auto simp: list_all_iff intro: print_group_runs)

lemma fold_add:
  "fold add_node ns c = c\<lparr>dae_outbounds := (dae_outbounds c)\<lparr>os_nodes := os_nodes (dae_outbounds c) @ ns\<rparr>\<rparr>"
  "fold add_group gs c = c\<lparr>dae_outbounds := (dae_outbounds c)\<lparr>os_groups := os_groups (dae_outbounds c) @ gs\<rparr>\<rparr>"
  by (induction ns arbitrary: c, simp_all add: add_node_def, induction gs arbitrary: c, simp_all add: add_group_def)

lemma print_outbounds_runs:
  assumes "list_all node_ok (os_nodes ob)" "list_all group_ok (os_groups ob)" "dae_outbounds c = \<lparr>os_nodes = [], os_groups = []\<rparr>"
  shows "runs il (print_outbounds ob) (at c) (at (c\<lparr>dae_outbounds := ob\<rparr>))"
proof -
  let ?in = "\<lambda>c. (at c)\<lparr>ps_state := InOutbounds\<rparr>"
  have s: "runs il [''outbounds {''] (at c) (?in c)" "runs il [''nodes {''] (?in c) (in_nodes c)" "runs il [''}''] (in_nodes c) (?in c)"
    "runs il [''groups {''] (?in c) (in_groups c)" "runs il [''}''] (in_groups c) (?in c)" "runs il [''}''] (?in c) (at c)" for c
    by (rule runs_line; simp add: state_line_def outbounds_line_def nodes_line_def groups_line_def in_nodes_def in_groups_def view_defs)+
  show ?thesis
    unfolding print_outbounds_def append_Cons append_Nil
    by (rule runs_eq, rule runs_cons, rule s(1), rule runs_cons, rule s(2), rule runs_append, rule nodes_runs [OF assms(1)],
        rule runs_cons, rule s(3), rule runs_cons, rule s(4), rule runs_append, rule groups_runs [OF assms(2)],
        rule runs_cons, rule s(5), rule s(6)) (use assms(3) in \<open>cases ob, simp add: fold_add\<close>)
qed

section \<open>The round trip\<close>

lemma print_lines_runs:
  assumes "printable c"
  shows "runs il (print_lines c) pstate_init (at c)"
proof -
  obtain pe where pe: "dae_process_exclusion c = Some pe" "exclusion_ok pe"
    using assms by (auto simp: printable_def split: option.splits)
  have ok: "quotable (rt_log_level (dae_runtime c))" "list_all node_ok (os_nodes (dae_outbounds c))"
    "list_all group_ok (os_groups (dae_outbounds c))" "routing_ok (dae_routing c)" "list_all rule_set_ok (dae_rule_set c)"
    "opt_all interface_ok (dae_interface c)" "opt_all api_ok (dae_api c)" "opt_all dns_ok (dae_dns c)"
    and fix_fields: "dae_version c = 1" "rt_temp_json (dae_runtime c)"
    using assms by (auto simp: printable_def)
  have i: "runs il (case dae_interface c of None \<Rightarrow> [] | Some i \<Rightarrow> print_interface i) (at d) (at (d\<lparr>dae_interface := dae_interface c\<rparr>))"
    if "dae_interface d = None" for d
    using ok(6) that print_interface_runs [of _ d] by (cases "dae_interface c"; cases d) (auto simp: opt_all_def)
  have a: "runs il (case dae_api c of None \<Rightarrow> [] | Some i \<Rightarrow> print_api i) (at d) (at (d\<lparr>dae_api := dae_api c\<rparr>))"
    if "dae_api d = None" for d
    using ok(7) that print_api_runs [of _ d] by (cases "dae_api c"; cases d) (auto simp: opt_all_def)
  have n: "runs il (case dae_dns c of None \<Rightarrow> [] | Some i \<Rightarrow> print_dns i) (at d) (at (d\<lparr>dae_dns := dae_dns c\<rparr>))"
    if "dae_dns d = None" for d
    using ok(8) that print_dns_runs [of _ d] by (cases "dae_dns c"; cases d) (auto simp: opt_all_def)
  have r: "runs il [''rule_set {''] (at d) (in_rule_sets d)" "runs il [''}''] (in_rule_sets d) (at d)" for d
    by (rule runs_line; simp add: state_line_def rule_set_line_def in_rule_sets_def view_defs)+
  have x: "runs il (case dae_process_exclusion c of None \<Rightarrow> [] | Some pe \<Rightarrow> print_exclusion pe) (at d) (at (d\<lparr>dae_process_exclusion := Some pe\<rparr>))"
    if "dae_process_exclusion d = Some pe0" for d pe0
    using print_exclusion_runs [OF pe(2) that] pe(1) by simp
  have init: "pstate_init = at DaefileConfig_default" by (simp add: at_def pstate_init_def)
  note d = DaefileConfig_default_def RuntimeConfig_default_def RoutingConfig_default_def
  show ?thesis
    unfolding print_lines_def init
    by (rule runs_eq, rule runs_append, rule print_global_runs [OF ok(1)], use fix_fields(2) in \<open>simp add: d\<close>,
        rule runs_append, rule i, simp add: d, rule runs_append, rule x, simp add: d,
        rule runs_append, rule print_outbounds_runs [OF ok(2,3)], simp add: d,
        rule runs_append, rule print_routing_runs [OF ok(4)], simp add: d,
        rule runs_append, rule a, simp add: d, rule runs_append, rule n, simp add: d,
        rule runs_append, rule r(1), rule runs_append, rule rule_sets_runs [OF ok(5)], rule r(2))
      (use fix_fields(1) pe(1) in \<open>cases c, simp add: d\<close>)
qed


text \<open>A configuration with every section.\<close>

definition no_libs :: "unit import_libs" where
  "no_libs = \<lparr>il_base64 = \<lambda>_. None, il_json = \<lambda>_. None, il_get = \<lambda>_ _. None, il_as_str = \<lambda>_. None, il_as_u64 = \<lambda>_. None\<rparr>"

definition demo_node :: OutboundNodeConfig where
  "demo_node = (empty_node ''main'')\<lparr>nc_protocol := ''vmess'', nc_address := ''192.0.2.1:443'', nc_password := Some ''p#q: r'',
     nc_alpn := Some [''h3'', ''h2''], nc_alter_id := Some 4, nc_ws_headers := Some [(''Host'', ''a:b''), (''X'', [])]\<rparr>"

definition demo_rule_set :: RuleSetConfig where
  "demo_rule_set = (empty_rule_set ''ads'')\<lparr>cfg_type := DomainList, cfg_url := ''https://example.com/a.txt#sha256=Ab'',
     cfg_expected_sha256 := Some ''ab'', cfg_update := Some (UpdPeriod ''3h2m''), cfg_proxy := Some ''g''\<rparr>"

definition demo_config :: DaefileConfig where
  "demo_config = DaefileConfig_default\<lparr>
     dae_interface := Some (InterfaceConfig_default\<lparr>if_wan_interface := [''eth0'', ''wlan*'']\<rparr>),
     dae_process_exclusion := Some (ProcessExclusionConfig_default\<lparr>pe_match := \<lparr>pm_comm = [''ssh d''], pm_pid = [1, 22], pm_tgid = []\<rparr>\<rparr>),
     dae_outbounds := \<lparr>os_nodes = [demo_node], os_groups = [(empty_group ''g'')\<lparr>gc_policy := Some PolicyMinAvg10,
       gc_selectors := [SelList [''main''], SelRegex ''^m.*#$'']\<rparr>]\<rparr>,
     dae_routing := \<lparr>rc_rules = [\<lparr>rr_match = ''dport(22) && !dip(10.0.0.0/8)'', rr_action = ''direct''\<rparr>], rc_fallback = ''proxy(g)''\<rparr>,
     dae_api := Some (ApiConfig_initial\<lparr>ac_token := ''t''\<rparr>), dae_dns := Some (DnsConfig_default\<lparr>dc_proxy_dns_servers := []\<rparr>),
     dae_rule_set := [demo_rule_set]\<rparr>"


end
