(* ===== verification/Config_Validator.thy ===== *)
theory Config_Validator
  imports Config_Print Dns_Forward
begin

text \<open>
  The validator of configurations, \<^verbatim>\<open>control/src/config/validator.rs\<close>, and what a valid configuration
  guarantees to the components that are built from it.  The \<^verbatim>\<open>regex\<close> crate is a parameter:
  \<open>regex_engine\<close> compiles a pattern, and \<open>refs\<close> gives the captures of the pattern for
  \<^verbatim>\<open>set:<name>\<close> references.
\<close>

section \<open>Checks\<close>

fun res_each :: "('a \<Rightarrow> 'e + unit) \<Rightarrow> 'a list \<Rightarrow> 'e + unit" where
  "res_each f [] = Inr ()"
| "res_each f (x # xs) = res_bind (f x) (\<lambda>_. res_each f xs)"

definition reject :: "bool \<Rightarrow> 'e \<Rightarrow> 'e + unit" where
  "reject b e = (if b then Inl e else Inr ())"

definition validate_structure :: "DaefileConfig \<Rightarrow> ConfigError + unit" where
  "validate_structure c =
     res_bind (reject (os_nodes (dae_outbounds c) = [] \<and> os_groups (dae_outbounds c) = [])
        (MissingSection ''outbounds (at least one node and one group)'')) (\<lambda>_.
     reject (rc_fallback (dae_routing c) = []) (MissingSection ''routing.fallback''))"

definition validate_exclusion :: "ProcessExclusionConfig \<Rightarrow> ConfigError + unit" where
  "validate_exclusion pe =
     res_bind (reject (pe_gc_interval_sec pe < 1 \<or> pe_gc_interval_sec pe > 3600)
        (OutOfRange 0 ''gc_interval_sec'' (NotInRange ''1-3600'' (unat (pe_gc_interval_sec pe))))) (\<lambda>_.
     reject (pe_stale_after_sec pe < pe_gc_interval_sec pe)
        (OutOfRange 0 ''stale_after_sec'' (StaleBelowGc (pe_stale_after_sec pe) (pe_gc_interval_sec pe))))"

definition validate_ranges :: "DaefileConfig \<Rightarrow> ConfigError + unit" where
  "validate_ranges c =
     res_bind (reject (rt_tproxy_port (dae_runtime c) < 1)
        (OutOfRange 0 ''tproxy_port'' (NotInRange ''1'' (unat (rt_tproxy_port (dae_runtime c)))))) (\<lambda>_.
     res_bind (res_each (\<lambda>n. reject (nc_dial_timeout_ms n < 100 \<or> nc_dial_timeout_ms n > 600000)
        (OutOfRange 0 ''dial_timeout_ms'' (NotInRange (nc_name n) (unat (nc_dial_timeout_ms n))))) (os_nodes (dae_outbounds c))) (\<lambda>_.
     case dae_process_exclusion c of None \<Rightarrow> Inr () | Some pe \<Rightarrow> validate_exclusion pe))"

fun unique_names :: "string set \<Rightarrow> (string \<Rightarrow> 'e) \<Rightarrow> string list \<Rightarrow> 'e + unit" where
  "unique_names seen err [] = Inr ()"
| "unique_names seen err (n # ns) = (if n \<in> seen then Inl (err n) else unique_names (insert n seen) err ns)"

definition validate_uniqueness :: "DaefileConfig \<Rightarrow> ConfigError + unit" where
  "validate_uniqueness c =
     res_bind (unique_names {} DuplicateNode (map nc_name (os_nodes (dae_outbounds c)))) (\<lambda>_.
     unique_names {} DuplicateGroup (map gc_name (os_groups (dae_outbounds c))))"

definition collect_node_names :: "DaefileConfig \<Rightarrow> string list" where
  "collect_node_names c = map nc_name (os_nodes (dae_outbounds c))"

definition collect_group_names :: "DaefileConfig \<Rightarrow> string list" where
  "collect_group_names c = map gc_name (os_groups (dae_outbounds c))"

definition extract_proxy_group :: "string \<Rightarrow> string option" where
  "extract_proxy_group action =
     (case Option.bind (strip_prefix ''proxy('' (trim action)) (strip_suffix '')'') of
        None \<Rightarrow> None
      | Some name \<Rightarrow> if trim name \<noteq> [] then Some (trim name) else None)"

definition validate_selector :: "regex_engine \<Rightarrow> string list \<Rightarrow> string \<Rightarrow> NodeSelector \<Rightarrow> ConfigError + unit" where
  "validate_selector rx node_names grp sel =
     (case sel of
        SelList nodes \<Rightarrow> res_each (\<lambda>n. reject (n \<notin> set node_names) (UnknownNode grp n)) nodes
      | SelRegex pattern \<Rightarrow>
          (case rx (if pattern = ''*'' then ''.*'' else pattern) of
             None \<Rightarrow> Inl (RegexSyntax grp pattern)
           | Some is_match \<Rightarrow> reject (filter is_match node_names = []) (RegexNoMatch grp pattern)))"

definition validate_references :: "regex_engine \<Rightarrow> DaefileConfig \<Rightarrow> ConfigError + unit" where
  "validate_references rx c =
     res_bind (res_each (\<lambda>g. res_each (validate_selector rx (collect_node_names c) (gc_name g)) (gc_selectors g))
        (os_groups (dae_outbounds c))) (\<lambda>_.
     res_each (\<lambda>r. case extract_proxy_group (rr_action r) of
          None \<Rightarrow> Inr ()
        | Some g \<Rightarrow> reject (g \<notin> set (collect_group_names c)) (UnknownGroup g)) (rc_rules (dae_routing c)))"

definition SUPPORTED_PROTOCOLS :: "string list" where
  "SUPPORTED_PROTOCOLS = [''socks5'', ''shadowsocks'', ''trojan'', ''tuic'', ''juicity'', ''vmess'']"

definition validate_node :: "OutboundNodeConfig \<Rightarrow> ConfigError + unit" where
  "validate_node n =
     (let missing = (\<lambda>field. InvalidValue 0 (nc_name n) (Missing field (nc_protocol n)))
      in res_bind (reject (nc_protocol n \<notin> set SUPPORTED_PROTOCOLS)
              (InvalidValue 0 (nc_name n) (Bad ''unsupported protocol'' (nc_protocol n)))) (\<lambda>_.
         res_bind (reject (nc_address n = []) (FieldType 0 (nc_name n) (Missing ''address'' []))) (\<lambda>_.
         if nc_protocol n = ''shadowsocks'' then
           res_bind (reject (nc_cipher n = None) (missing ''cipher'')) (\<lambda>_. reject (nc_password n = None) (missing ''password''))
         else if nc_protocol n = ''trojan'' then reject (nc_password n = None) (missing ''password'')
         else if nc_protocol n = ''tuic'' \<or> nc_protocol n = ''juicity'' then
           (if nc_uuid n = None then Inl (missing ''uuid'') else reject (nc_password n = None) (missing ''password''))
         else if nc_protocol n = ''vmess'' then reject (nc_uuid n = None) (missing ''uuid'')
         else Inr ())))"

definition validate_node_fields :: "DaefileConfig \<Rightarrow> ConfigError + unit" where
  "validate_node_fields c = res_each validate_node (os_nodes (dae_outbounds c))"

definition validate_group :: "string list \<Rightarrow> OutboundGroupConfig \<Rightarrow> ConfigError + unit" where
  "validate_group node_names g =
     res_bind (case gc_group_type g of
        GroupAuto \<Rightarrow> reject (gc_selected g \<noteq> None) (AutoHasSelected (gc_name g))
      | GroupSelect \<Rightarrow>
          res_bind (reject (gc_policy g \<noteq> None) (SelectHasPolicy (gc_name g))) (\<lambda>_.
          res_bind (ok_or (SelectMissingSelected (gc_name g)) (gc_selected g)) (\<lambda>selected.
          reject (selected \<notin> set node_names) (SelectSelectedUnreachable (gc_name g) selected)))) (\<lambda>_.
     reject (gc_selectors g = []) (MissingSection (gc_name g)))"

definition validate_group_internals :: "DaefileConfig \<Rightarrow> ConfigError + unit" where
  "validate_group_internals c = res_each (validate_group (collect_node_names c)) (os_groups (dae_outbounds c))"

definition validate_fallback :: "DaefileConfig \<Rightarrow> ConfigError + unit" where
  "validate_fallback c =
     (let fallback = trim (rc_fallback (dae_routing c))
      in if fallback = ''direct'' then Inr ()
         else (case extract_proxy_group fallback of
                 Some g \<Rightarrow> reject (g \<notin> set (collect_group_names c)) (UnknownGroup g)
               | None \<Rightarrow> Inl (InvalidValue 0 ''routing.fallback'' (Bad ''fallback'' fallback))))"

definition validate_api :: "DaefileConfig \<Rightarrow> ConfigError + unit" where
  "validate_api c =
     (case dae_api c of
        None \<Rightarrow> Inr ()
      | Some api \<Rightarrow>
          if \<not> ac_enabled api then Inr ()
          else res_bind (case rsplit_once (CHR '':'') (ac_listen api) of
                  None \<Rightarrow> Inl (ApiListenInvalid (ac_listen api))
                | Some (_, port_str) \<Rightarrow>
                    (case parse_u16 port_str of
                       None \<Rightarrow> Inl (ApiListenInvalid (ac_listen api))
                     | Some port \<Rightarrow> reject (port < 1) (ApiListenInvalid (ac_listen api)))) (\<lambda>_.
               res_bind (reject (ac_token api = []) ApiTokenEmpty) (\<lambda>_.
               reject (ac_tls api \<and> (ac_cert api = None \<or> ac_key api = None)) ApiTlsMissingCertKey)))"

definition check_server :: "string \<Rightarrow> string \<Rightarrow> ConfigError + unit" where
  "check_server field s0 =
     (let s = trim s0
      in res_bind (reject (s = []) (InvalidValue 0 field (EmptyEntry ''server'' field))) (\<lambda>_.
         reject (parse_ip_addr s = None \<and> parse_socket_addr s = None) (InvalidValue 0 field (Bad ''DNS server'' s))))"

definition validate_dns :: "DaefileConfig \<Rightarrow> ConfigError + unit" where
  "validate_dns c =
     (case dae_dns c of
        None \<Rightarrow> Inr ()
      | Some dns \<Rightarrow>
          res_bind (reject (parse_socket_addr (dc_listen_addr dns) = None)
             (InvalidValue 0 ''dns.listen_addr'' (Bad ''listen address'' (dc_listen_addr dns)))) (\<lambda>_.
          res_bind (res_each (check_server ''dns.proxy_dns_servers'') (dc_proxy_dns_servers dns)) (\<lambda>_.
          res_bind (res_each (check_server ''dns.direct_dns_servers'') (dc_direct_dns_servers dns)) (\<lambda>_.
          reject (dc_query_timeout_ms dns < 100 \<or> dc_query_timeout_ms dns > 60000)
             (OutOfRange 0 ''dns.query_timeout_ms'' (NotInRange ''100-60000'' (unat (dc_query_timeout_ms dns))))))))"

definition rule_set_name_char :: "char \<Rightarrow> bool" where
  "rule_set_name_char c \<longleftrightarrow> (48 \<le> byte_of c \<and> byte_of c \<le> 57) \<or> (65 \<le> byte_of c \<and> byte_of c \<le> 90)
     \<or> (97 \<le> byte_of c \<and> byte_of c \<le> 122) \<or> c = CHR ''_'' \<or> c = CHR ''-''"

definition is_ascii_hexdigit :: "char \<Rightarrow> bool" where
  "is_ascii_hexdigit c \<longleftrightarrow> to_digit 16 c \<noteq> None"

definition validate_rule_set_url :: "RuleSetConfig \<Rightarrow> ConfigError + unit" where
  "validate_rule_set_url rs =
     (let url = trim (cfg_url rs)
      in res_bind (reject (\<not> (starts_with url ''http://'' \<or> starts_with url ''https://''))
             (InvalidRuleSetUrl (cfg_name rs) (Bad ''scheme'' (cfg_url rs)))) (\<lambda>_.
         case Option.bind (split_once (CHR ''#'') url) (\<lambda>(_, fragment). strip_prefix ''sha256='' fragment) of
           None \<Rightarrow> Inr ()
         | Some hex \<Rightarrow> reject (length hex \<noteq> 64 \<or> \<not> list_all is_ascii_hexdigit hex)
                          (InvalidRuleSetUrl (cfg_name rs) (Bad ''digest'' hex))))"

definition validate_rule_set_update :: "RuleSetConfig \<Rightarrow> ConfigError + unit" where
  "validate_rule_set_update rs =
     (case cfg_update rs of
        None \<Rightarrow> Inl (InvalidRuleSetUpdate (cfg_name rs) (Missing ''update'' []))
      | Some (UpdTime t) \<Rightarrow> (case parse_time t of Inl e \<Rightarrow> Inl (InvalidRuleSetUpdate (cfg_name rs) (BadTime e)) | Inr _ \<Rightarrow> Inr ())
      | Some (UpdPeriod p) \<Rightarrow> (case parse_period p of Inl e \<Rightarrow> Inl (InvalidRuleSetUpdate (cfg_name rs) (BadPeriod e)) | Inr _ \<Rightarrow> Inr ()))"

fun rule_set_loop :: "string set \<Rightarrow> RuleSetConfig list \<Rightarrow> ConfigError + unit" where
  "rule_set_loop seen [] = Inr ()"
| "rule_set_loop seen (rs # rest) =
     (let name = cfg_name rs
      in res_bind (reject (name = [] \<or> length name > 63 \<or> \<not> list_all rule_set_name_char name)
             (InvalidValue 0 ''rule_set.name'' (Bad ''rule set name'' name))) (\<lambda>_.
         res_bind (reject (name \<in> seen) (DuplicateRuleSet name)) (\<lambda>_.
         res_bind (validate_rule_set_url rs) (\<lambda>_.
         res_bind (validate_rule_set_update rs) (\<lambda>_. rule_set_loop (insert name seen) rest)))))"

definition validate_ruleset_refs :: "(string \<Rightarrow> string list) \<Rightarrow> DaefileConfig \<Rightarrow> ConfigError + unit" where
  "validate_ruleset_refs refs c =
     res_each (\<lambda>r. res_each (\<lambda>v. reject (v \<notin> cfg_name ` set (dae_rule_set c)) (UnknownRuleSetRef (''set:'' @ v))) (refs (rr_match r)))
       (rc_rules (dae_routing c))"

definition validate_rule_set :: "(string \<Rightarrow> string list) \<Rightarrow> DaefileConfig \<Rightarrow> ConfigError + unit" where
  "validate_rule_set refs c = res_bind (rule_set_loop {} (dae_rule_set c)) (\<lambda>_. validate_ruleset_refs refs c)"

definition validate_config :: "regex_engine \<Rightarrow> (string \<Rightarrow> string list) \<Rightarrow> DaefileConfig \<Rightarrow> ConfigError + unit" where
  "validate_config rx refs c =
     res_bind (validate_structure c) (\<lambda>_.
     res_bind (validate_ranges c) (\<lambda>_.
     res_bind (validate_uniqueness c) (\<lambda>_.
     res_bind (validate_references rx c) (\<lambda>_.
     res_bind (validate_node_fields c) (\<lambda>_.
     res_bind (validate_group_internals c) (\<lambda>_.
     res_bind (validate_fallback c) (\<lambda>_.
     res_bind (validate_api c) (\<lambda>_.
     res_bind (validate_dns c) (\<lambda>_.
     validate_rule_set refs c)))))))))"

section \<open>Resolving groups\<close>

text \<open>\<^verbatim>\<open>resolve_group_nodes\<close> of \<^verbatim>\<open>control/src/lib.rs\<close>: the nodes a group selects, without duplicates.\<close>

definition select_nodes :: "regex_engine \<Rightarrow> OutboundNodeConfig list \<Rightarrow> NodeSelector \<Rightarrow> OutboundNodeConfig list" where
  "select_nodes rx nodes sel =
     (case sel of
        SelList names \<Rightarrow> List.map_filter (\<lambda>name. find (\<lambda>n. nc_name n = name) nodes) names
      | SelRegex pattern \<Rightarrow> (case rx pattern of Some is_match \<Rightarrow> filter (\<lambda>n. is_match (nc_name n)) nodes | None \<Rightarrow> []))"

definition push_unseen :: "OutboundNodeConfig list \<Rightarrow> OutboundNodeConfig \<Rightarrow> OutboundNodeConfig list" where
  "push_unseen result n = (if nc_name n \<in> nc_name ` set result then result else result @ [n])"

definition resolve_group_nodes :: "regex_engine \<Rightarrow> OutboundGroupConfig \<Rightarrow> OutboundNodeConfig list \<Rightarrow> OutboundNodeConfig list" where
  "resolve_group_nodes rx g nodes = foldl push_unseen [] (concat (map (select_nodes rx nodes) (gc_selectors g)))"

section \<open>Valid configurations\<close>

text \<open>What the validator accepts, stated without its order of checks.\<close>

definition node_wf :: "OutboundNodeConfig \<Rightarrow> bool" where
  "node_wf n \<longleftrightarrow> nc_protocol n \<in> set SUPPORTED_PROTOCOLS \<and> nc_address n \<noteq> []
     \<and> 100 \<le> nc_dial_timeout_ms n \<and> nc_dial_timeout_ms n \<le> 600000
     \<and> (nc_protocol n = ''shadowsocks'' \<longrightarrow> nc_cipher n \<noteq> None)
     \<and> (nc_protocol n \<in> {''shadowsocks'', ''trojan'', ''tuic'', ''juicity''} \<longrightarrow> nc_password n \<noteq> None)
     \<and> (nc_protocol n \<in> {''tuic'', ''juicity'', ''vmess''} \<longrightarrow> nc_uuid n \<noteq> None)"

fun selector_wf :: "regex_engine \<Rightarrow> string list \<Rightarrow> NodeSelector \<Rightarrow> bool" where
  "selector_wf rx names (SelList ns) \<longleftrightarrow> set ns \<subseteq> set names"
| "selector_wf rx names (SelRegex p) \<longleftrightarrow>
     (case rx (if p = ''*'' then ''.*'' else p) of None \<Rightarrow> False | Some is_match \<Rightarrow> (\<exists>n \<in> set names. is_match n))"

definition group_wf :: "regex_engine \<Rightarrow> string list \<Rightarrow> OutboundGroupConfig \<Rightarrow> bool" where
  "group_wf rx names g \<longleftrightarrow> gc_selectors g \<noteq> [] \<and> list_all (selector_wf rx names) (gc_selectors g)
     \<and> (case gc_group_type g of
          GroupAuto \<Rightarrow> gc_selected g = None
        | GroupSelect \<Rightarrow> gc_policy g = None \<and> (\<exists>s \<in> set names. gc_selected g = Some s))"

definition known_group :: "DaefileConfig \<Rightarrow> string \<Rightarrow> bool" where
  "known_group c action \<longleftrightarrow> opt_all (\<lambda>g. g \<in> set (collect_group_names c)) (extract_proxy_group action)"

definition exclusion_wf :: "ProcessExclusionConfig \<Rightarrow> bool" where
  "exclusion_wf pe \<longleftrightarrow> 1 \<le> pe_gc_interval_sec pe \<and> pe_gc_interval_sec pe \<le> 3600 \<and> pe_gc_interval_sec pe \<le> pe_stale_after_sec pe"

definition api_wf :: "ApiConfig \<Rightarrow> bool" where
  "api_wf a \<longleftrightarrow> (ac_enabled a \<longrightarrow> ac_token a \<noteq> [] \<and> (ac_tls a \<longrightarrow> ac_cert a \<noteq> None \<and> ac_key a \<noteq> None)
     \<and> (\<exists>host port_str port. rsplit_once (CHR '':'') (ac_listen a) = Some (host, port_str) \<and> parse_u16 port_str = Some port \<and> 1 \<le> port))"

definition server_wf :: "string \<Rightarrow> bool" where
  "server_wf s \<longleftrightarrow> trim s \<noteq> [] \<and> (parse_ip_addr (trim s) \<noteq> None \<or> parse_socket_addr (trim s) \<noteq> None)"

definition dns_wf :: "DnsConfig \<Rightarrow> bool" where
  "dns_wf d \<longleftrightarrow> parse_socket_addr (dc_listen_addr d) \<noteq> None \<and> list_all server_wf (dc_proxy_dns_servers d)
     \<and> list_all server_wf (dc_direct_dns_servers d) \<and> 100 \<le> dc_query_timeout_ms d \<and> dc_query_timeout_ms d \<le> 60000"

definition url_wf :: "string \<Rightarrow> bool" where
  "url_wf url \<longleftrightarrow> (starts_with url ''http://'' \<or> starts_with url ''https://'')
     \<and> (\<forall>base hex. split_once (CHR ''#'') url = Some (base, ''sha256='' @ hex) \<longrightarrow> length hex = 64 \<and> list_all is_ascii_hexdigit hex)"

fun update_wf :: "RuleSetUpdate option \<Rightarrow> bool" where
  "update_wf None \<longleftrightarrow> False"
| "update_wf (Some (UpdTime t)) \<longleftrightarrow> (\<exists>hm. parse_time t = Inr hm)"
| "update_wf (Some (UpdPeriod p)) \<longleftrightarrow> (\<exists>secs. parse_period p = Inr secs)"

definition rule_set_wf :: "RuleSetConfig \<Rightarrow> bool" where
  "rule_set_wf rs \<longleftrightarrow> cfg_name rs \<noteq> [] \<and> length (cfg_name rs) \<le> 63 \<and> list_all rule_set_name_char (cfg_name rs)
     \<and> url_wf (trim (cfg_url rs)) \<and> update_wf (cfg_update rs)"

definition valid_config :: "regex_engine \<Rightarrow> (string \<Rightarrow> string list) \<Rightarrow> DaefileConfig \<Rightarrow> bool" where
  "valid_config rx refs c \<longleftrightarrow>
     (os_nodes (dae_outbounds c) \<noteq> [] \<or> os_groups (dae_outbounds c) \<noteq> [])
     \<and> 1 \<le> rt_tproxy_port (dae_runtime c) \<and> opt_all exclusion_wf (dae_process_exclusion c)
     \<and> distinct (collect_node_names c) \<and> distinct (collect_group_names c)
     \<and> list_all node_wf (os_nodes (dae_outbounds c))
     \<and> list_all (group_wf rx (collect_node_names c)) (os_groups (dae_outbounds c))
     \<and> list_all (\<lambda>r. known_group c (rr_action r)) (rc_rules (dae_routing c))
     \<and> (trim (rc_fallback (dae_routing c)) = ''direct''
        \<or> (\<exists>g \<in> set (collect_group_names c). extract_proxy_group (trim (rc_fallback (dae_routing c))) = Some g))
     \<and> opt_all api_wf (dae_api c) \<and> opt_all dns_wf (dae_dns c)
     \<and> distinct (map cfg_name (dae_rule_set c)) \<and> list_all rule_set_wf (dae_rule_set c)
     \<and> list_all (\<lambda>r. set (refs (rr_match r)) \<subseteq> cfg_name ` set (dae_rule_set c)) (rc_rules (dae_routing c))"

lemma res_each_ok: "res_each f xs = Inr () \<longleftrightarrow> list_all (\<lambda>x. f x = Inr ()) xs"
  by (induction xs) (auto simp: res_bind_eq_Inr)

lemma reject_ok [simp]: "reject b e = Inr () \<longleftrightarrow> \<not> b"
  by (simp add: reject_def)

lemma unique_names_ok: "unique_names seen err ns = Inr () \<longleftrightarrow> distinct ns \<and> set ns \<inter> seen = {}"
  by (induction ns arbitrary: seen) auto

lemma bind_ok: "res_bind r f = Inr () \<longleftrightarrow> (\<exists>x. r = Inr x \<and> f x = Inr ())"
  by (rule res_bind_eq_Inr)

lemma bind_unit_ok: "res_bind r (\<lambda>_. s) = Inr () \<longleftrightarrow> r = Inr () \<and> s = Inr ()" for r :: "'e + unit"
  by (simp add: bind_ok)

lemma res_bind_Inr [simp]: "res_bind r Inr = r"
  by (cases r) auto

lemma one_le_word: "1 \<le> (x :: 'a::len word) \<longleftrightarrow> x \<noteq> 0"
  by (simp add: linorder_not_less [symmetric])

lemma validate_selector_ok: "validate_selector rx names g s = Inr () \<longleftrightarrow> selector_wf rx names s"
  by (cases s) (auto simp: validate_selector_def res_each_ok list_all_iff filter_empty_conv split: option.splits)

lemma validate_group_ok:
  "validate_group names g = Inr () \<and> list_all (selector_wf rx names) (gc_selectors g) \<longleftrightarrow> group_wf rx names g"
  by (auto simp: validate_group_def group_wf_def bind_unit_ok bind_ok split: GroupType.splits)

lemma validate_node_ok: "validate_node n = Inr () \<and> 100 \<le> nc_dial_timeout_ms n \<and> nc_dial_timeout_ms n \<le> 600000 \<longleftrightarrow> node_wf n"
  by (auto simp: validate_node_def node_wf_def bind_unit_ok Let_def SUPPORTED_PROTOCOLS_def)

lemma validate_exclusion_ok: "validate_exclusion pe = Inr () \<longleftrightarrow> exclusion_wf pe"
  by (auto simp: validate_exclusion_def exclusion_wf_def bind_unit_ok one_le_word not_less)

lemma validate_api_ok: "validate_api c = Inr () \<longleftrightarrow> opt_all api_wf (dae_api c)"
  by (auto simp: validate_api_def opt_all_def api_wf_def bind_unit_ok one_le_word not_less split: option.splits)

lemma check_server_ok: "check_server field s = Inr () \<longleftrightarrow> server_wf s"
  by (auto simp: check_server_def server_wf_def bind_unit_ok Let_def)

lemma validate_dns_ok: "validate_dns c = Inr () \<longleftrightarrow> opt_all dns_wf (dae_dns c)"
  by (auto simp: validate_dns_def opt_all_def dns_wf_def bind_unit_ok res_each_ok check_server_ok not_less split: option.splits)

lemma validate_url_ok: "validate_rule_set_url rs = Inr () \<longleftrightarrow> url_wf (trim (cfg_url rs))"
proof (cases "split_once (CHR ''#'') (trim (cfg_url rs))")
  case None
  then show ?thesis by (simp add: validate_rule_set_url_def url_wf_def bind_unit_ok Let_def)
next
  case (Some bf)
  obtain base fragment where bf: "bf = (base, fragment)" by (cases bf)
  show ?thesis
  proof (cases "strip_prefix ''sha256='' fragment")
    case None
    then have "fragment \<noteq> ''sha256='' @ hex" for hex by (auto simp: strip_prefix_def split: if_splits)
    with None Some bf show ?thesis by (simp add: validate_rule_set_url_def url_wf_def bind_unit_ok Let_def)
  next
    case (Some hex)
    with \<open>split_once _ _ = Some bf\<close> bf show ?thesis
      by (simp add: validate_rule_set_url_def url_wf_def bind_unit_ok Let_def)
        (simp add: strip_prefix_def)
  qed
qed

lemma validate_update_ok: "validate_rule_set_update rs = Inr () \<longleftrightarrow> update_wf (cfg_update rs)"
  by (auto simp: validate_rule_set_update_def split: option.splits RuleSetUpdate.splits sum.splits)

lemma rule_set_loop_ok:
  "rule_set_loop seen rss = Inr () \<longleftrightarrow> distinct (map cfg_name rss) \<and> cfg_name ` set rss \<inter> seen = {} \<and> list_all rule_set_wf rss"
  by (induction rss arbitrary: seen)
    (auto simp: bind_unit_ok Let_def rule_set_wf_def validate_url_ok validate_update_ok not_less)

lemma validate_structure_ok:
  "validate_structure c = Inr () \<longleftrightarrow>
     (os_nodes (dae_outbounds c) \<noteq> [] \<or> os_groups (dae_outbounds c) \<noteq> []) \<and> rc_fallback (dae_routing c) \<noteq> []"
  by (simp add: validate_structure_def bind_unit_ok)

lemma validate_ranges_ok:
  "validate_ranges c = Inr () \<longleftrightarrow> 1 \<le> rt_tproxy_port (dae_runtime c) \<and> opt_all exclusion_wf (dae_process_exclusion c)
     \<and> list_all (\<lambda>n. 100 \<le> nc_dial_timeout_ms n \<and> nc_dial_timeout_ms n \<le> 600000) (os_nodes (dae_outbounds c))"
  by (auto simp: validate_ranges_def bind_unit_ok one_le_word res_each_ok not_less validate_exclusion_ok opt_all_def split: option.splits)

lemma validate_uniqueness_ok:
  "validate_uniqueness c = Inr () \<longleftrightarrow> distinct (collect_node_names c) \<and> distinct (collect_group_names c)"
  by (simp add: validate_uniqueness_def bind_unit_ok unique_names_ok collect_node_names_def collect_group_names_def)

lemma validate_references_ok:
  "validate_references rx c = Inr () \<longleftrightarrow>
     list_all (\<lambda>g. list_all (selector_wf rx (collect_node_names c)) (gc_selectors g)) (os_groups (dae_outbounds c))
     \<and> list_all (\<lambda>r. known_group c (rr_action r)) (rc_rules (dae_routing c))"
proof -
  have "(case extract_proxy_group a of None \<Rightarrow> Inr () | Some g \<Rightarrow> reject (g \<notin> set (collect_group_names c)) (UnknownGroup g)) = Inr ()
      \<longleftrightarrow> known_group c a" for a
    by (auto simp: known_group_def opt_all_def split: option.splits)
  then show ?thesis by (simp add: validate_references_def bind_unit_ok res_each_ok validate_selector_ok)
qed

lemma validate_fallback_ok:
  "validate_fallback c = Inr () \<longleftrightarrow> trim (rc_fallback (dae_routing c)) = ''direct''
     \<or> (\<exists>g \<in> set (collect_group_names c). extract_proxy_group (trim (rc_fallback (dae_routing c))) = Some g)"
  by (auto simp: validate_fallback_def Let_def split: option.splits)

lemma fallback_not_empty: "validate_fallback c = Inr () \<Longrightarrow> rc_fallback (dae_routing c) \<noteq> []"
proof
  assume "validate_fallback c = Inr ()" "rc_fallback (dae_routing c) = []"
  moreover have "trim [] = []" using trim_length_le [of "[]"] by simp
  ultimately show False by (simp add: validate_fallback_def extract_proxy_group_def strip_prefix_def)
qed

lemma validate_rule_set_ok:
  "validate_rule_set refs c = Inr () \<longleftrightarrow> distinct (map cfg_name (dae_rule_set c)) \<and> list_all rule_set_wf (dae_rule_set c)
     \<and> list_all (\<lambda>r. set (refs (rr_match r)) \<subseteq> cfg_name ` set (dae_rule_set c)) (rc_rules (dae_routing c))"
proof -
  have "list_all (\<lambda>v. v \<in> A) vs \<longleftrightarrow> set vs \<subseteq> A" for A and vs :: "string list" by (auto simp: list_all_iff)
  then show ?thesis
    by (simp add: validate_rule_set_def validate_ruleset_refs_def bind_unit_ok rule_set_loop_ok res_each_ok)
qed

lemma validate_iff: "validate_config rx refs c = Inr () \<longleftrightarrow> valid_config rx refs c"
proof -
  let ?nodes = "os_nodes (dae_outbounds c)" and ?groups = "os_groups (dae_outbounds c)" and ?names = "collect_node_names c"
  have nodes: "list_all node_wf ?nodes \<longleftrightarrow> list_all (\<lambda>n. validate_node n = Inr ()) ?nodes
      \<and> list_all (\<lambda>n. 100 \<le> nc_dial_timeout_ms n \<and> nc_dial_timeout_ms n \<le> 600000) ?nodes"
    unfolding validate_node_ok [symmetric] by (auto simp: list_all_iff)
  have groups: "list_all (group_wf rx ?names) ?groups \<longleftrightarrow> list_all (\<lambda>g. validate_group ?names g = Inr ()) ?groups
      \<and> list_all (\<lambda>g. list_all (selector_wf rx ?names) (gc_selectors g)) ?groups"
    unfolding validate_group_ok [symmetric] by (auto simp: list_all_iff)
  show ?thesis
    unfolding validate_config_def bind_unit_ok valid_config_def nodes groups validate_structure_ok validate_ranges_ok
      validate_uniqueness_ok validate_references_ok validate_node_fields_def validate_group_internals_def res_each_ok
      validate_api_ok validate_dns_ok validate_rule_set_ok
    using fallback_not_empty [of c] unfolding validate_fallback_ok by blast
qed


section \<open>What a valid configuration guarantees\<close>

text \<open>Which nodes a selector means.\<close>

fun selects :: "regex_engine \<Rightarrow> NodeSelector \<Rightarrow> string \<Rightarrow> bool" where
  "selects rx (SelList names) name \<longleftrightarrow> name \<in> set names"
| "selects rx (SelRegex p) name \<longleftrightarrow> (case rx p of Some is_match \<Rightarrow> is_match name | None \<Rightarrow> False)"

fun proper_selector :: "NodeSelector \<Rightarrow> bool" where
  "proper_selector (SelList names) \<longleftrightarrow> names \<noteq> []"
| "proper_selector (SelRegex p) \<longleftrightarrow> p \<noteq> ''*''"

lemma find_by_name:
  "distinct (map nc_name ns) \<Longrightarrow> find (\<lambda>n. nc_name n = name) ns = Some n \<longleftrightarrow> n \<in> set ns \<and> nc_name n = name"
  by (induction ns) (auto simp: image_iff)

lemma set_map_filter: "set (List.map_filter f xs) = {y. \<exists>x \<in> set xs. f x = Some y}"
  by (induction xs) (auto simp: map_filter_simps split: option.splits)

lemma select_nodes_set:
  assumes "distinct (map nc_name nodes)"
  shows "set (select_nodes rx nodes s) = {n \<in> set nodes. selects rx s (nc_name n)}"
proof (cases s)
  case (SelList names)
  then show ?thesis by (auto simp: select_nodes_def set_map_filter find_by_name [OF assms])
next
  case (SelRegex p)
  then show ?thesis by (cases "rx p") (auto simp: select_nodes_def)
qed

lemma push_unseen_fold:
  assumes "distinct (map nc_name acc)" "inj_on nc_name (set acc \<union> set ns)"
  shows "distinct (map nc_name (foldl push_unseen acc ns)) \<and> set (foldl push_unseen acc ns) = set acc \<union> set ns"
  using assms
proof (induction ns arbitrary: acc)
  case (Cons n ns)
  show ?case
  proof (cases "nc_name n \<in> nc_name ` set acc")
    case True
    then obtain m where m: "m \<in> set acc" "nc_name n = nc_name m" by auto
    then have "n \<in> set acc" using Cons.prems(2) by (auto dest: inj_onD)
    with True Cons.IH [of acc] Cons.prems show ?thesis by (auto simp: push_unseen_def insert_absorb)
  next
    case False
    then have "foldl push_unseen acc (n # ns) = foldl push_unseen (acc @ [n]) ns" by (simp add: push_unseen_def)
    moreover have "inj_on nc_name (set (acc @ [n]) \<union> set ns)"
      using Cons.prems(2) by (rule inj_on_subset) auto
    ultimately show ?thesis using Cons.IH [of "acc @ [n]"] Cons.prems(1) False by auto
  qed
qed simp

lemma resolve_group_nodes_set:
  assumes "distinct (map nc_name nodes)"
  shows "distinct (map nc_name (resolve_group_nodes rx g nodes))"
    and "set (resolve_group_nodes rx g nodes) = {n \<in> set nodes. list_ex (\<lambda>s. selects rx s (nc_name n)) (gc_selectors g)}"
proof -
  let ?ns = "concat (map (select_nodes rx nodes) (gc_selectors g))"
  have s: "set ?ns = {n \<in> set nodes. list_ex (\<lambda>s. selects rx s (nc_name n)) (gc_selectors g)}"
    using select_nodes_set [OF assms] by (auto simp: list_ex_iff)
  have "inj_on nc_name (set nodes)" using assms by (simp add: distinct_map)
  then have "inj_on nc_name (set [] \<union> set ?ns)" by (rule inj_on_subset) (use s in auto)
  from push_unseen_fold [OF _ this] s
  show "distinct (map nc_name (resolve_group_nodes rx g nodes))"
    and "set (resolve_group_nodes rx g nodes) = {n \<in> set nodes. list_ex (\<lambda>s. selects rx s (nc_name n)) (gc_selectors g)}"
    by (simp_all add: resolve_group_nodes_def)
qed

lemma selector_finds:
  assumes "selector_wf rx (map nc_name nodes) s" "proper_selector s"
  obtains n where "n \<in> set nodes" "selects rx s (nc_name n)"
proof (cases s)
  case (SelList ns)
  then obtain x xs where "ns = x # xs" using assms(2) by (cases ns) auto
  with SelList assms(1) that show ?thesis by auto
next
  case (SelRegex p)
  with assms that show ?thesis by (auto split: option.splits)
qed

lemma proper_group_resolves:
  assumes "valid_config rx refs c" "g \<in> set (os_groups (dae_outbounds c))" "list_ex proper_selector (gc_selectors g)"
  shows "resolve_group_nodes rx g (os_nodes (dae_outbounds c)) \<noteq> []"
proof -
  let ?nodes = "os_nodes (dae_outbounds c)"
  have d: "distinct (map nc_name ?nodes)" and g: "group_wf rx (map nc_name ?nodes) g"
    using assms by (auto simp: valid_config_def collect_node_names_def list_all_iff)
  from assms(3) obtain sel where sel: "sel \<in> set (gc_selectors g)" "proper_selector sel" by (auto simp: list_ex_iff)
  with g have "selector_wf rx (map nc_name ?nodes) sel" by (simp add: group_wf_def list_all_iff)
  with sel(2) obtain n where "n \<in> set ?nodes" "selects rx sel (nc_name n)" by (auto elim: selector_finds)
  with sel(1) resolve_group_nodes_set(2) [OF d, of rx g] show ?thesis by (auto simp: list_ex_iff)
qed


text \<open>A regular-expression engine for examples: it knows the pattern \<^verbatim>\<open>.*\<close> only.\<close>

definition demo_regex :: regex_engine where
  "demo_regex p = (if p = ''.*'' then Some (\<lambda>_. True) else None)"

definition socks_node :: "string \<Rightarrow> OutboundNodeConfig" where
  "socks_node name = (empty_node name)\<lparr>nc_protocol := ''socks5'', nc_address := ''192.0.2.7:1080''\<rparr>"

definition group_config :: "OutboundGroupConfig \<Rightarrow> DaefileConfig" where
  "group_config g = DaefileConfig_default\<lparr>dae_outbounds := \<lparr>os_nodes = [socks_node ''a'', socks_node ''b''], os_groups = [g]\<rparr>,
     dae_routing := \<lparr>rc_rules = [], rc_fallback = ''proxy(g)''\<rparr>\<rparr>"


text \<open>
  The validator reads the pattern \<^verbatim>\<open>*\<close> as \<^verbatim>\<open>.*\<close>, but the group is resolved with the pattern as
  written, which is not a regular expression: a configuration that the validator accepts has a group
  without nodes.
\<close>

theorem star_group_resolves_to_nothing:
  assumes "rx ''*'' = None" "rx ''.*'' = Some (\<lambda>_. True)"
  defines "g \<equiv> (empty_group ''g'')\<lparr>gc_selectors := [SelRegex ''*'']\<rparr>"
  shows "validate_config rx (\<lambda>_. []) (group_config g) = Inr ()
    \<and> resolve_group_nodes rx g (os_nodes (dae_outbounds (group_config g))) = []"
proof
  have r: "validate_references rx (group_config g) = Inr ()"
    using assms(2) by (simp add: validate_references_ok g_def group_config_def empty_group_def collect_node_names_def) blast
  have "validate_config demo_regex (\<lambda>_. []) (group_config g) = Inr ()" unfolding g_def by code_simp
  with r show "validate_config rx (\<lambda>_. []) (group_config g) = Inr ()" by (simp add: validate_config_def bind_unit_ok)
  show "resolve_group_nodes rx g (os_nodes (dae_outbounds (group_config g))) = []"
    using assms(1) by (simp add: resolve_group_nodes_def g_def select_nodes_def)
qed

theorem star_group_resolves_to_nothing_witness:
  "let g = (empty_group ''g'')\<lparr>gc_selectors := [SelRegex ''*'']\<rparr>
   in validate_config demo_regex (\<lambda>_. []) (group_config g) = Inr ()
    \<and> resolve_group_nodes demo_regex g (os_nodes (dae_outbounds (group_config g))) = []"
  using star_group_resolves_to_nothing [of demo_regex] by (simp add: demo_regex_def Let_def)

text \<open>
  The validator accepts a \<^verbatim>\<open>select\<close> group whose selected node exists but is not among the nodes of
  the group: it looks the name up among all nodes, not in the reachable set of the group.
\<close>

theorem selected_outside_group:
  defines "g \<equiv> (empty_group ''g'')\<lparr>gc_group_type := GroupSelect, gc_selected := Some ''a'', gc_selectors := [SelList [''b'']]\<rparr>"
  shows "validate_config rx (\<lambda>_. []) (group_config g) = Inr ()
    \<and> ''a'' \<notin> nc_name ` set (resolve_group_nodes rx g (os_nodes (dae_outbounds (group_config g))))"
proof
  have r: "validate_references rx (group_config g) = Inr ()"
    by (simp add: validate_references_ok g_def group_config_def empty_group_def collect_node_names_def socks_node_def empty_node_def)
  have "validate_config demo_regex (\<lambda>_. []) (group_config g) = Inr ()" unfolding g_def by code_simp
  with r show "validate_config rx (\<lambda>_. []) (group_config g) = Inr ()" by (simp add: validate_config_def bind_unit_ok)
  have "distinct (map nc_name (os_nodes (dae_outbounds (group_config g))))" unfolding g_def by code_simp
  from resolve_group_nodes_set(2) [OF this, of rx g]
  show "''a'' \<notin> nc_name ` set (resolve_group_nodes rx g (os_nodes (dae_outbounds (group_config g))))"
    by (auto simp: g_def)
qed

subsection \<open>Actions\<close>

lemma ws_without_graph: "list_all (list_all (\<lambda>c. \<not> graph_char c)) ws_utf8"
  by code_simp

lemma strip_heads_keeps:
  assumes "list_all (list_all (\<lambda>c. \<not> graph_char c)) ps" "graph_char c" "c \<in> set s"
  shows "c \<in> set (strip_heads ps s)"
  using assms
proof (induction ps s rule: strip_heads.induct)
  case (1 ps s)
  show ?case
  proof (cases "find (\<lambda>p. p \<noteq> [] \<and> prefix p s) ps")
    case None
    with 1 show ?thesis by (simp add: strip_heads.simps [of ps s])
  next
    case (Some p)
    then have p: "p \<in> set ps" "prefix p s" by (auto simp: find_Some_iff)
    then obtain t where t: "s = p @ t" by (auto simp: prefix_def)
    have "c \<notin> set p" using p(1) 1(2,3) by (auto simp: list_all_iff)
    with t 1(4) have "c \<in> set (drop (length p) s)" by simp
    with 1 Some show ?thesis by (simp add: strip_heads.simps [of ps s])
  qed
qed

lemma trim_keeps: "graph_char c \<Longrightarrow> c \<in> set s \<Longrightarrow> c \<in> set (trim s)"
proof -
  assume c: "graph_char c" "c \<in> set s"
  have r: "list_all (list_all (\<lambda>c. \<not> graph_char c)) (map rev ws_utf8)"
    using ws_without_graph by (simp add: list_all_iff)
  have "c \<in> set (trim_start s)" unfolding trim_start_def by (rule strip_heads_keeps [OF ws_without_graph c])
  then show "c \<in> set (trim s)"
    unfolding trim_def trim_end_def using strip_heads_keeps [OF r c(1), of "rev (trim_start s)"] by simp
qed

lemma comma_loop_single: "CHR '','' \<notin> set s \<Longrightarrow>
    comma_loop [] cur depth s = (if trim (cur @ s) = [] then [] else [trim (cur @ s)])"
  by (induction s arbitrary: cur depth) (auto simp: Let_def)

lemma proxy_params_single:
  assumes "CHR '','' \<notin> set inner" "parse_proxy_params inner = Inr ob"
  shows "ob = Outbound_new (trim inner)"
  using assms
  by (auto simp: parse_proxy_params_def parse_comma_separated_def comma_loop_single Let_def Outbound_new_def
      res_bind_eq_Inr split: if_splits option.splits)

text \<open>
  No action of a valid configuration has a mark or the \<^verbatim>\<open>must\<close> flag, when no group name has a
  comma: the validator takes everything inside \<^verbatim>\<open>proxy(...)\<close> for the name of the group, so the
  parameters that the rule parser understands are rejected as unknown groups.
\<close>

theorem valid_actions_are_plain:
  assumes "valid_config rx refs c" "list_all (\<lambda>g. CHR '','' \<notin> set g) (collect_group_names c)"
    and "r \<in> set (rc_rules (dae_routing c))" "parse_action (rr_action r) = Inr ob"
  shows "ob_mark ob = 0 \<and> \<not> ob_must ob
    \<and> (ob = Outbound_new (trim (rr_action r)) \<or> ob_name ob \<in> set (collect_group_names c))"
proof -
  have k: "known_group c (rr_action r)" using assms(1,3) by (simp add: valid_config_def list_all_iff)
  show ?thesis
  proof (cases "Option.bind (strip_prefix ''proxy('' (trim (rr_action r))) (strip_suffix '')'')")
    case None
    with assms(4) show ?thesis by (auto simp: parse_action_def Let_def Outbound_new_def split: if_splits)
  next
    case (Some inner)
    have "trim (rr_action r) \<noteq> ''direct''" "trim (rr_action r) \<noteq> ''block''"
      using Some by (auto simp: strip_prefix_def bind_eq_Some_conv split: if_splits)
    with Some assms(4) have p: "parse_proxy_params inner = Inr ob" by (simp add: parse_action_def Let_def)
    have g: "graph_char (CHR '','')" by code_simp
    show ?thesis
    proof (cases "trim inner = []")
      case True
      then have "CHR '','' \<notin> set inner" using trim_keeps [OF g] by force
      with p True show ?thesis
        by (auto simp: parse_proxy_params_def parse_comma_separated_def comma_loop_single Let_def)
    next
      case False
      with Some k have "trim inner \<in> set (collect_group_names c)"
        by (simp add: known_group_def extract_proxy_group_def opt_all_def)
      moreover from this have "CHR '','' \<notin> set inner" using assms(2) trim_keeps [OF g] by (auto simp: list_all_iff)
      ultimately show ?thesis using proxy_params_single [OF _ p] by (simp add: Outbound_new_def)
    qed
  qed
qed

definition action_config :: DaefileConfig where
  "action_config = (group_config ((empty_group ''g'')\<lparr>gc_selectors := [SelList [''a'']]\<rparr>))
     \<lparr>dae_routing := \<lparr>rc_rules = [\<lparr>rr_match = ''dport(443)'', rr_action = '' proxy( g ) ''\<rparr>], rc_fallback = ''direct''\<rparr>\<rparr>"

theorem valid_actions_are_plain_witness:
  "valid_config demo_regex (\<lambda>_. []) action_config \<and> parse_action '' proxy( g ) '' = Inr (Outbound_new ''g'')
    \<and> ob_mark (Outbound_new ''g'') = 0"
proof -
  let ?r = "\<lparr>rr_match = ''dport(443)'', rr_action = '' proxy( g ) ''\<rparr>"
  have "validate_config demo_regex (\<lambda>_. []) action_config = Inr ()" by code_simp
  then have v: "valid_config demo_regex (\<lambda>_. []) action_config" by (simp add: validate_iff)
  have "list_all (\<lambda>g. CHR '','' \<notin> set g) (collect_group_names action_config)" by code_simp
  moreover have "?r \<in> set (rc_rules (dae_routing action_config))" by (simp add: action_config_def)
  moreover have a: "parse_action (rr_action ?r) = Inr (Outbound_new ''g'')" by code_simp
  ultimately have "ob_mark (Outbound_new ''g'') = 0" using valid_actions_are_plain [OF v] by blast
  with v a show ?thesis by simp
qed

subsection \<open>Start-up\<close>

lemma parse_servers_ok: "list_all server_wf ss \<Longrightarrow> \<exists>out. parse_servers ss = Inr out \<and> length out = length ss"
proof (induction ss)
  case (Cons s ss)
  then obtain out where "parse_servers ss = Inr out" "length out = length ss" by auto
  with Cons.prems show ?case by (auto simp: server_wf_def Let_def split: option.splits)
qed simp

text \<open>
  What the validator accepts, the components built from the configuration accept too: the DNS
  forwarder parses every upstream server, and every rule set has a schedule the scheduler can parse
  and a name that is safe as a file name.
\<close>

theorem valid_config_starts:
  assumes "valid_config rx refs c"
  shows "(\<forall>d. dae_dns c = Some d \<longrightarrow>
      (\<exists>ps ds. parse_servers (dc_proxy_dns_servers d) = Inr ps \<and> length ps = length (dc_proxy_dns_servers d)
        \<and> parse_servers (dc_direct_dns_servers d) = Inr ds \<and> length ds = length (dc_direct_dns_servers d)))
    \<and> (\<forall>rs \<in> set (dae_rule_set c). update_wf (cfg_update rs) \<and> CHR ''/'' \<notin> set (cfg_name rs) \<and> CHR ''.'' \<notin> set (cfg_name rs))"
proof (intro conjI allI ballI impI)
  fix d
  assume "dae_dns c = Some d"
  with assms have "dns_wf d" by (simp add: valid_config_def opt_all_def)
  then show "\<exists>ps ds. parse_servers (dc_proxy_dns_servers d) = Inr ps \<and> length ps = length (dc_proxy_dns_servers d)
        \<and> parse_servers (dc_direct_dns_servers d) = Inr ds \<and> length ds = length (dc_direct_dns_servers d)"
    using parse_servers_ok by (auto simp: dns_wf_def)
next
  fix rs
  assume "rs \<in> set (dae_rule_set c)"
  with assms have rs: "rule_set_wf rs" by (simp add: valid_config_def list_all_iff)
  then show "update_wf (cfg_update rs)" by (simp add: rule_set_wf_def)
  have "\<not> rule_set_name_char (CHR ''/'')" "\<not> rule_set_name_char (CHR ''.'')" by code_simp+
  with rs show "CHR ''/'' \<notin> set (cfg_name rs)" "CHR ''.'' \<notin> set (cfg_name rs)" by (auto simp: rule_set_wf_def list_all_iff)
qed

theorem valid_config_starts_witness:
  "let rs = (empty_rule_set ''ads'')\<lparr>cfg_url := ''https://example.com/a'', cfg_update := Some (UpdPeriod ''1h'')\<rparr>;
       c = action_config\<lparr>dae_dns := Some DnsConfig_default, dae_rule_set := [rs]\<rparr>
   in validate_config demo_regex (\<lambda>_. []) c = Inr () \<and> CHR ''/'' \<notin> set (cfg_name rs)
     \<and> (\<exists>ps. parse_servers (dc_proxy_dns_servers DnsConfig_default) = Inr ps \<and> length ps = 2)"
proof -
  let ?rs = "(empty_rule_set ''ads'')\<lparr>cfg_url := ''https://example.com/a'', cfg_update := Some (UpdPeriod ''1h'')\<rparr>"
  let ?c = "action_config\<lparr>dae_dns := Some DnsConfig_default, dae_rule_set := [?rs]\<rparr>"
  have v: "validate_config demo_regex (\<lambda>_. []) ?c = Inr ()" by code_simp
  then have "valid_config demo_regex (\<lambda>_. []) ?c" by (simp add: validate_iff)
  from valid_config_starts [OF this] have "CHR ''/'' \<notin> set (cfg_name ?rs)"
    "\<exists>ps. parse_servers (dc_proxy_dns_servers DnsConfig_default) = Inr ps \<and> length ps = length (dc_proxy_dns_servers DnsConfig_default)"
    by auto
  moreover have "length (dc_proxy_dns_servers DnsConfig_default) = 2" by (simp add: DnsConfig_default_def)
  ultimately show ?thesis unfolding Let_def using v by simp
qed

end
