(* ===== verification/Config_Safe.thy ===== *)
theory Config_Safe
  imports Config_Validator
begin

text \<open>
  Safety of the configuration parser: which inputs can make it panic, what the configurations it
  returns have in common, and how the comment syntax interacts with checksums in URLs.
\<close>

section \<open>Panics\<close>

definition noq :: "string \<Rightarrow> bool" where
  "noq s \<longleftrightarrow> quote1 \<notin> set s \<and> quote2 \<notin> set s"

lemma noq_sub: "set t \<subseteq> set s \<Longrightarrow> noq s \<Longrightarrow> noq t"
  by (auto simp: noq_def)

lemma set_trim_start: "set (trim_start s) \<subseteq> set s"
  unfolding trim_start_def by (rule set_mono_suffix [OF strip_heads_suffix])

lemma set_trim_end: "set (trim_end s) \<subseteq> set s"
  by (rule set_mono_prefix [OF trim_end_prefix])

lemma noq_trim [intro]: "noq s \<Longrightarrow> noq (trim s)"
  by (rule noq_sub [OF set_trim])

lemma noq_strip_prefix: "strip_prefix p s = Some r \<Longrightarrow> noq s \<Longrightarrow> noq r"
  by (auto simp: noq_def)

lemma noq_strip_suffix: "strip_suffix p s = Some r \<Longrightarrow> noq s \<Longrightarrow> noq r"
  by (auto simp: noq_def)

lemma noq_split_once: "split_once c s = Some (a, b) \<Longrightarrow> noq s \<Longrightarrow> noq a \<and> noq b"
  by (auto simp: split_once_Some noq_def)

lemma noq_rsplit_once: "rsplit_once c s = Some (a, b) \<Longrightarrow> noq s \<Longrightarrow> noq a \<and> noq b"
  by (auto simp: rsplit_once_def noq_def split_once_Some dest!: arg_cong [where f = set])

lemma set_split_char: "w \<in> set (split_char c s) \<Longrightarrow> set w \<subseteq> set s"
proof (induction s arbitrary: w)
  case (Cons x xs)
  obtain v vs where "split_char c xs = v # vs" by (cases "split_char c xs") auto
  with Cons show ?case by (fastforce split: if_splits)
qed simp

lemma noq_split_char: "noq s \<Longrightarrow> w \<in> set (split_char c s) \<Longrightarrow> noq w"
  using noq_sub set_split_char by blast

lemma set_take_word: "set (take_word s) \<subseteq> set s"
  by (induction s) auto

lemma set_split_whitespace: "w \<in> set (split_whitespace s) \<Longrightarrow> set w \<subseteq> set s"
proof (induction s rule: split_whitespace.induct)
  case (1 s)
  let ?t = "trim_start s"
  have "set ?t \<subseteq> set s" by (rule set_trim_start)
  moreover have "set (take_word ?t) \<subseteq> set ?t" by (rule set_take_word)
  moreover have "set (drop (length (take_word ?t)) ?t) \<subseteq> set ?t" by (rule set_drop_subset)
  ultimately show ?case
    using 1 by (simp add: split_whitespace.simps [of s] Let_def split: if_splits) blast
qed

lemma unquote_noq: "noq s \<Longrightarrow> unquote s = Ret (trim s)"
proof -
  assume "noq s"
  then have "noq (trim s)" by auto
  then have "\<not> quoted quote1 (trim s)" "\<not> quoted quote2 (trim s)"
    by (auto simp: quoted_def starts_with_def noq_def prefix_def)
  then show ?thesis by (simp add: unquote_def)
qed

lemma run_map_ret: "(\<And>x. x \<in> set xs \<Longrightarrow> f x \<noteq> Panic) \<Longrightarrow> run_map f xs \<noteq> Panic"
  by (induction xs) (auto simp: run_bind_eq_Panic)

lemma run_map_unquote: "(\<And>x. x \<in> set xs \<Longrightarrow> noq x) \<Longrightarrow> run_map unquote xs \<noteq> Panic"
  by (rule run_map_ret) (simp add: unquote_noq)

lemma text_field_ret: "noq v \<Longrightarrow> text_field v f \<noteq> Panic"
  by (simp add: text_field_def unquote_noq)

lemma int_field_ret: "int_field n k v p f \<noteq> Panic"
  by (simp add: int_field_def)

lemma bool_field_ret: "bool_field n k v f \<noteq> Panic"
  by (simp add: bool_field_def)

lemma split_csv_ret: "noq v \<Longrightarrow> split_csv_list v \<noteq> Panic"
  using run_map_ret [of "split_char (CHR '','') v" "\<lambda>s. unquote (trim s)"]
  by (auto simp: split_csv_list_def run_bind_eq_Panic unquote_noq noq_trim noq_split_char)

lemma map_value_ret: "(\<And>e. e \<in> set es \<Longrightarrow> noq e) \<Longrightarrow> map_value_loop es n field m \<noteq> Panic"
proof (induction es arbitrary: m)
  case (Cons e es)
  have e: "noq (trim e)" using Cons.prems by auto
  have "noq a \<and> noq b" if "split_once (CHR '':'') (trim e) = Some (a, b)" for a b
    using noq_split_once [OF that e] .
  with Cons show ?case by (auto simp: Let_def unquote_noq noq_trim split: option.splits)
qed simp

lemma parse_map_ret: "noq v \<Longrightarrow> parse_map_value v n field \<noteq> Panic"
proof -
  assume v: "noq v"
  have "noq inner" if "Option.bind (strip_prefix ''{'' (trim v)) (strip_suffix ''}'') = Some inner" for inner
    using that noq_trim [OF v] by (auto simp: bind_eq_Some_conv noq_def)
  then show ?thesis
    by (auto simp: parse_map_value_def Let_def noq_split_char intro!: map_value_ret split: option.splits)
qed

lemmas field_rets = text_field_ret int_field_ret bool_field_ret split_csv_ret parse_map_ret

lemma fields_ret:
  assumes v: "noq v"
  shows "global_field n k v rt \<noteq> Panic" "interface_field n k v i \<noteq> Panic" "process_exclusion_field n k v pe \<noteq> Panic"
    "node_field n k v node \<noteq> Panic" "group_field n k v grp \<noteq> Panic" "api_field n k v api \<noteq> Panic" "dns_field n k v dns \<noteq> Panic"
    "rule_set_field nm n k v rs \<noteq> Panic"
proof -
  have w: "run_map unquote (split_whitespace v) \<noteq> Panic" "run_map unquote (split_char (CHR '','') v) \<noteq> Panic"
    by (rule run_map_unquote; use v noq_sub set_split_whitespace noq_split_char in blast)+
  show "global_field n k v rt \<noteq> Panic" using v by (simp add: global_field_def field_rets)
  show "interface_field n k v i \<noteq> Panic" using v w by (simp add: interface_field_def field_rets run_bind_eq_Panic)
  show "process_exclusion_field n k v pe \<noteq> Panic" by (simp add: process_exclusion_field_def field_rets)
  show "node_field n k v node \<noteq> Panic" using v w by (simp add: node_field_def field_rets run_bind_eq_Panic try_bind_eq_Panic)
  show "group_field n k v grp \<noteq> Panic" using v by (simp add: group_field_def field_rets unquote_noq)
  show "api_field n k v api \<noteq> Panic" using v by (simp add: api_field_def field_rets)
  show "dns_field n k v dns \<noteq> Panic" using v by (simp add: dns_field_def field_rets run_bind_eq_Panic)
  show "rule_set_field nm n k v rs \<noteq> Panic"
    using v by (auto simp: rule_set_field_def field_rets unquote_noq split: option.splits)
qed

lemma with_kv_ret: "noq line \<Longrightarrow> (\<And>k v. noq v \<Longrightarrow> f k v \<noteq> Panic) \<Longrightarrow> with_kv line n f \<noteq> Panic"
proof -
  assume l: "noq line" and f: "\<And>k v. noq v \<Longrightarrow> f k v \<noteq> Panic"
  have "noq v" if "parse_kv_pair line n = Inr (k, v)" for k v
    using that noq_split_once [OF _ l] noq_trim by (fastforce simp: parse_kv_pair_def split: option.splits if_splits)
  with f show ?thesis by (auto simp: with_kv_def try_bind_eq_Panic)
qed

lemma match_ret: "noq line \<Longrightarrow> parse_match_stmts line n m \<noteq> Panic"
proof -
  assume l: "noq line"
  have c: "comm_items items acc \<noteq> Panic" if "\<And>i. i \<in> set items \<Longrightarrow> noq i" for items acc
    using that
  proof (induction items arbitrary: acc)
    case (Cons i items)
    then have "noq (trim i)" by auto
    with Cons show ?case by (simp add: Let_def unquote_noq)
  qed simp
  have "noq i" if ca: "call_args name (trim line) = Some args" and i: "i \<in> set args" for name args i
  proof -
    obtain r inner where r: "strip_prefix (name @ ''('') (trim line) = Some r" "strip_suffix '')'' r = Some inner"
      and a: "args = split_char (CHR '','') inner"
      using ca unfolding call_args_def by (auto simp: bind_eq_Some_conv simp del: strip_prefix_Some strip_suffix_Some)
    have "noq inner" using noq_strip_suffix [OF r(2) noq_strip_prefix [OF r(1) noq_trim [OF l]]] .
    note a this
    then show ?thesis using noq_split_char i by blast
  qed
  with c show ?thesis by (auto simp: parse_match_stmts_def Let_def run_bind_eq_Panic split: option.splits)
qed

lemma split_url_ret: "noq s \<Longrightarrow> split_url s \<noteq> Panic"
proof -
  assume s: "noq s"
  have q: "query_pairs kvs \<noteq> Panic" if "\<And>kv. kv \<in> set kvs \<Longrightarrow> noq kv" for kvs
    using that
  proof (induction kvs)
    case (Cons kv kvs)
    have "noq b" if "split_once (CHR ''='') kv = Some (a, b)" for a b
      using noq_split_once [OF that] Cons.prems by simp
    with Cons show ?case by (auto simp: run_bind_eq_Panic unquote_noq split: option.splits)
  qed simp
  have b: "noq (before_fragment s)"
    using s noq_split_once [of "CHR ''#''" s] by (auto simp: before_fragment_def split: option.splits)
  obtain main query where m: "(main, query) = (case split_once (CHR ''?'') (before_fragment s) of Some (m, q) \<Rightarrow> (m, q) | None \<Rightarrow> (before_fragment s, []))"
    by (metis surj_pair)
  then have "noq query" using noq_split_once [OF _ b] by (auto simp: noq_def split: option.splits)
  then have "query_pairs (filter (\<lambda>s. s \<noteq> []) (split_char (CHR ''&'') query)) \<noteq> Panic"
    by (intro q) (auto dest: noq_split_char)
  then show ?thesis by (simp add: split_url_def Let_def m [symmetric] run_bind_eq_Panic)
qed

lemma import_ret: "noq url \<Longrightarrow> parse_import_url il nm url node \<noteq> Panic"
proof -
  assume u: "noq url"
  have p: "noq r" if "strip_prefix p url = Some r" for p r using noq_strip_prefix [OF that u] .
  have "parse_trojan_import r node \<noteq> Panic" "parse_tuic_import r node \<noteq> Panic" "parse_juicity_import r node \<noteq> Panic"
    "parse_vmess_import il r node \<noteq> Panic" if "noq r" for r
    using split_url_ret [OF that]
    by (auto simp: parse_trojan_import_def parse_tuic_import_def parse_juicity_import_def parse_vmess_import_def
        run_bind_eq_Panic Let_def split: option.splits)
  with p show ?thesis by (auto simp: parse_import_url_def split: option.splits simp del: strip_prefix_Some)
qed

definition safe_state :: "pstate \<Rightarrow> bool" where
  "safe_state ps \<longleftrightarrow> noq (ps_import_url ps)"

definition safe_result :: "(ConfigError + pstate) run \<Rightarrow> bool" where
  "safe_result r \<longleftrightarrow> r \<noteq> Panic \<and> (\<forall>ps. r = Ret (Inr ps) \<longrightarrow> safe_state ps)"

lemma safe_Ret: "(\<And>ps. x = Inr ps \<Longrightarrow> safe_state ps) \<Longrightarrow> safe_result (Ret x)"
  by (simp add: safe_result_def)

lemma safe_try: "r \<noteq> Panic \<Longrightarrow> (\<And>x. r = Ret (Inr x) \<Longrightarrow> safe_result (f x)) \<Longrightarrow> safe_result (try_bind r f)"
  by (cases "(r, f)" rule: try_bind.cases) (auto simp: safe_result_def)

lemma safe_kv:
  assumes "noq line" "\<And>k v. noq v \<Longrightarrow> f k v \<noteq> Panic" "\<And>x. safe_state (g x)"
  shows "safe_result (try_bind (with_kv line n f) (\<lambda>x. Ret (Inr (g x))))"
proof (rule safe_try)
  show "with_kv line n f \<noteq> Panic" by (rule with_kv_ret) (fact assms)+
qed (simp add: safe_result_def assms(3))

lemma safe_match:
  "noq line \<Longrightarrow> (\<And>x. safe_state (g x)) \<Longrightarrow> safe_result (try_bind (parse_match_stmts line n m) (\<lambda>x. Ret (Inr (g x))))"
  by (rule safe_try) (simp_all add: match_ret safe_result_def)

lemmas safe_simps = safe_state_def safe_result_def set_config_def set_routing_def push_node_def push_group_def

lemma plain_lines_safe:
  assumes "safe_state ps"
  shows "safe_result (Ret (top_line n line ps))" "safe_result (Ret (outbounds_line n line ps))"
    "safe_result (Ret (nodes_line n line ps))" "safe_result (Ret (groups_line n line ps))"
    "safe_result (Ret (routing_line n line ps))" "safe_result (Ret (rule_set_line n line ps))"
  using assms
  by (auto simp: safe_simps top_line_def outbounds_line_def nodes_line_def groups_line_def routing_line_def rule_set_line_def
      noq_def Let_def res_bind_eq_Inr ok_or_def split: option.splits if_splits)

lemma kv_lines_safe:
  assumes l: "noq line" and s: "safe_state ps"
  shows "safe_result (global_line n line ps)" "safe_result (interface_line n line ps)"
    "safe_result (api_line n line ps)" "safe_result (dns_line n line ps)" "safe_result (rule_set_entry_line nm n line ps)"
  using s
  by (auto simp: global_line_def interface_line_def api_line_def dns_line_def rule_set_entry_line_def fields_ret
      intro!: safe_kv l; simp add: safe_simps)+

lemma match_line_safe:
  assumes l: "noq line" and s: "safe_state ps"
  shows "safe_result (process_match_line n line ps)"
  unfolding process_match_line_def using s by (auto intro!: safe_match l; simp add: safe_simps)

lemma exclusion_line_safe:
  assumes l: "noq line" and s: "safe_state ps"
  shows "safe_result (process_exclusion_line n line ps)"
proof -
  have "noq inner"
    if "Option.bind (map_option trim (strip_prefix ''{'' (trim (strip_heads [''match''] line))))
          (\<lambda>rest. map_option trim (strip_suffix ''}'' rest)) = Some inner" for inner
  proof -
    have "noq (trim (strip_heads [''match''] line))"
      by (rule noq_trim, rule noq_sub [OF _ l], rule set_mono_suffix [OF strip_heads_suffix])
    with that show ?thesis
      by (auto simp: bind_eq_Some_conv simp del: strip_prefix_Some strip_suffix_Some
          intro!: noq_trim dest!: noq_strip_prefix noq_strip_suffix)
  qed
  then show ?thesis
    unfolding process_exclusion_line_def Let_def using s
    by (auto split: option.splits intro!: safe_match safe_kv l fields_ret; simp add: safe_simps)
qed

lemma node_line_safe:
  assumes l: "noq line" and s: "safe_state ps"
  shows "safe_result (node_line il nm n line ps)"
proof (cases "line = ''}''")
  case True
  have "parse_import_url il nm (ps_import_url ps) (ps_node ps) \<noteq> Panic"
    using s by (simp add: safe_state_def import_ret)
  then show ?thesis
    unfolding node_line_def using True s by (auto intro!: safe_try; simp add: safe_simps)
next
  case False
  show ?thesis
  proof (cases "strip_prefix ''import:'' (trim line)")
    case None
    then have "parse_import_line line = Ret None" by (simp add: parse_import_line_def)
    with False s show ?thesis
      by (auto simp: node_line_def fields_ret intro!: safe_kv l split: if_splits; simp add: safe_simps)
  next
    case (Some rest)
    then have "noq rest" using noq_strip_prefix noq_trim [OF l] by blast
    with Some False s show ?thesis
      by (simp add: node_line_def parse_import_line_def unquote_noq noq_trim safe_simps del: strip_prefix_Some)
  qed
qed

lemma selector_ret: "noq line \<Longrightarrow> parse_nodes_selector line \<noteq> Panic"
proof -
  assume l: "noq line"
  have "noq (trim pat)"
    if "Option.bind (strip_prefix ''nodes('' (trim line)) (strip_suffix '')'') = Some content"
      "strip_prefix ''regex:'' (trim content) = Some pat" for content pat
    using that noq_trim [OF l]
    by (auto simp: bind_eq_Some_conv simp del: strip_prefix_Some strip_suffix_Some
        intro!: noq_trim dest!: noq_strip_prefix noq_strip_suffix)
  then show ?thesis
    by (auto simp: parse_nodes_selector_def Let_def unquote_noq split: option.splits simp del: strip_prefix_Some strip_suffix_Some)
qed

lemma group_line_safe:
  assumes l: "noq line" and s: "safe_state ps"
  shows "safe_result (group_line n line ps)"
proof (cases "parse_nodes_selector line")
  case Panic
  then show ?thesis using selector_ret [OF l] by simp
next
  case (Ret sel)
  with s show ?thesis
    by (cases sel) (auto simp: group_line_def fields_ret intro!: safe_kv l; simp add: safe_simps)+
qed

lemma parse_line_safe:
  assumes l: "noq raw" and s: "safe_state ps"
  shows "safe_result (parse_line il n raw ps)"
proof -
  let ?line = "trim (strip_inline_comment raw)"
  have "set (strip_inline_comment raw) \<subseteq> set raw"
    using set_trim_end set_take_subset by (fastforce simp: strip_inline_comment_def split: option.splits)
  then have "noq ?line" using noq_sub l by blast
  then have "safe_result (state_line il n ?line ps)"
    using s by (simp add: state_line_def plain_lines_safe kv_lines_safe match_line_safe exclusion_line_safe
        node_line_safe group_line_safe split: ParseState.split)
  with s show ?thesis by (simp add: parse_line_def Let_def safe_result_def)
qed

lemma parse_lines_safe:
  "list_all noq ls \<Longrightarrow> safe_state ps \<Longrightarrow> safe_result (parse_lines il n ls ps)"
proof (induction ls arbitrary: n ps)
  case (Cons l ls)
  then have "safe_result (parse_line il n l ps)" by (simp add: parse_line_safe)
  then show ?case unfolding parse_lines.simps using Cons
    by (intro safe_try) (auto simp: safe_result_def [of "parse_line il n l ps"] safe_result_def [of "Ret (Inr x)" for x])
qed (simp add: safe_result_def)

lemma set_lines: "l \<in> set (lines s) \<Longrightarrow> set l \<subseteq> set s"
proof -
  have r: "set (strip_cr w) \<subseteq> set w" for w by (auto simp: strip_cr_def split: option.splits)
  assume "l \<in> set (lines s)"
  then consider w where "w \<in> set (split_char (CHR 0x0A) s)" "l = strip_cr w" | "l \<in> set (split_char (CHR 0x0A) s)"
    by (auto simp: lines_def Let_def split: if_splits dest: in_set_butlastD)
  then show ?thesis using r set_split_char by cases blast+
qed

lemma set_merge_lines: "set (merge_lines ls) \<subseteq> insert (CHR 0x0A) (\<Union> (set ` set ls))"
proof (induction ls)
  case (Cons l ls)
  have "set r \<subseteq> set l" if "strip_suffix [CHR 0x5C] (trim_end l) = Some r" for r
    using that set_trim_end [of l] by auto
  with Cons show ?case by (auto split: option.splits simp del: strip_suffix_Some)
qed simp

text \<open>
  C36: The parser returns a configuration or an error, and does not panic, on every input without
  quotation marks.
\<close>

theorem parse_daefile_no_panic:
  assumes "CHR 0x22 \<notin> set input" "CHR 0x27 \<notin> set input"
  shows "parse_daefile il input \<noteq> Panic"
proof -
  have i: "noq input" using assms by (simp add: noq_def quote1_def quote2_def)
  have "set (preprocess_multiline input) \<subseteq> insert (CHR 0x0A) (set input)"
    using set_merge_lines [of "lines input"] set_lines [of _ input] unfolding preprocess_multiline_def by blast
  then have "noq (preprocess_multiline input)" using i by (auto simp: noq_def quote1_def quote2_def)
  then have "list_all noq (lines (preprocess_multiline input))"
    using noq_sub set_lines by (fastforce simp: list_all_iff)
  then have "safe_result (parse_lines il 1 (lines (preprocess_multiline input)) pstate_init)"
    by (rule parse_lines_safe) (simp add: safe_state_def pstate_init_def noq_def)
  then show ?thesis by (auto simp: parse_daefile_def safe_result_def try_bind_eq_Panic)
qed

theorem parse_daefile_no_panic_witness:
  "parse_daefile no_libs ''global { # comment'' \<noteq> Panic"
  by (rule parse_daefile_no_panic) simp_all

text \<open>
  A value that is a single quotation mark is taken for a quoted value whose quotes coincide, and the
  slice between them is out of range: a line with such a value panics.
\<close>

lemma lone_quote_panics:
  assumes "q = CHR 0x22 \<or> q = CHR 0x27"
  shows "parse_daefile il (''global {'' @ [CHR 0x0A] @ ''log_level: '' @ [q] @ [CHR 0x0A] @ ''}'') = Panic"
  using assms by (elim disjE) (simp_all, code_simp+)

section \<open>Checksums in URLs\<close>

text \<open>
  A checksum fragment reaches the rule set only inside quotes.  Written without quotes, the
  fragment is cut off as a comment before the value is read: the rule set is configured without a
  checksum, and its download is not verified.
\<close>

theorem unquoted_pin_dropped:
  assumes "value_ok url" "noq url" "CHR ''#'' \<notin> set url"
  shows "parse_line il n (''url: '' @ url @ ''#sha256='' @ hex) (rule_set_view c name rs)
    = Ret (Inr (rule_set_view c name (rs\<lparr>cfg_expected_sha256 := None, cfg_url := url\<rparr>)))"
proof -
  let ?l = "''url: '' @ url"
  have l: "?l = kv ''url'' url" by (simp add: kv_def)
  have u: "fenced url" using assms(1) by (simp add: value_ok_def)
  have k: "cfg_key ''url''" by code_simp
  have "comment_pos None 0 (?l @ ''#sha256='' @ hex) = Some (length ?l)"
    using assms comment_pos_plain [of ?l 0 "''#sha256='' @ hex"] by (simp add: noq_def quote1_def quote2_def)
  then have "strip_inline_comment (?l @ ''#sha256='' @ hex) = trim_end ?l"
    unfolding strip_inline_comment_def by simp
  also have "\<dots> = ?l" using u by (intro trim_end_fenced) (auto simp: fenced_def graph_char_def byte_of_def)
  also have "?l = strip_inline_comment ?l"
    using kv_clean [OF k assms(1)] unfolding l by (simp add: strip_inline_comment_def clean_line_def)
  finally have s: "strip_inline_comment (?l @ ''#sha256='' @ hex) = strip_inline_comment ?l" .
  have "expected_sha256_from_url url = None" using iffD2 [OF split_once_None assms(3)] by (simp add: expected_sha256_from_url_def)
  then have f: "rule_set_field name n ''url'' url rs = Ret (Inr (rs\<lparr>cfg_expected_sha256 := None, cfg_url := url\<rparr>))"
    using assms(2) u by (simp add: rule_set_field_def text_field_def unquote_noq trim_fenced)
  have "parse_line il n (?l @ ''#sha256='' @ hex) (rule_set_view c name rs) = parse_line il n ?l (rule_set_view c name rs)"
    by (simp only: parse_line_def s)
  also have "\<dots> = state_line il n (kv ''url'' url) (rule_set_view c name rs)"
    using kv_clean [OF k assms(1)] l by (simp add: parse_line_clean)
  also have "\<dots> = Ret (Inr (rule_set_view c name (rs\<lparr>cfg_expected_sha256 := None, cfg_url := url\<rparr>)))"
    unfolding rset.field_step [OF UNIV_I k assms(1)] f try_bind.simps ..
  finally show ?thesis by simp
qed

theorem unquoted_pin_dropped_witness:
  "let rs = empty_rule_set ''ads''; c = DaefileConfig_default
   in parse_line no_libs 3 (''url: '' @ ''https://h/ads.txt'' @ ''#sha256='' @ ''00'') (rule_set_view c ''ads'' rs)
        = Ret (Inr (rule_set_view c ''ads'' (rs\<lparr>cfg_expected_sha256 := None, cfg_url := ''https://h/ads.txt''\<rparr>)))"
  unfolding Let_def by (rule unquoted_pin_dropped) code_simp+

section \<open>Selectors of a parsed configuration\<close>

definition lists_filled :: "OutboundGroupConfig \<Rightarrow> bool" where
  "lists_filled g \<longleftrightarrow> SelList [] \<notin> set (gc_selectors g)"

definition groups_filled :: "pstate \<Rightarrow> bool" where
  "groups_filled ps \<longleftrightarrow> lists_filled (ps_group ps) \<and> list_all lists_filled (os_groups (dae_outbounds (ps_config ps)))"

lemma same_groups:
  "dae_outbounds (ps_config ps') = dae_outbounds (ps_config ps) \<Longrightarrow> ps_group ps' = ps_group ps \<Longrightarrow>
    groups_filled ps' = groups_filled ps"
  by (simp add: groups_filled_def)

lemma kv_lines_same:
  "global_line n line ps = Ret (Inr ps') \<Longrightarrow> groups_filled ps' = groups_filled ps"
  "interface_line n line ps = Ret (Inr ps') \<Longrightarrow> groups_filled ps' = groups_filled ps"
  "api_line n line ps = Ret (Inr ps') \<Longrightarrow> groups_filled ps' = groups_filled ps"
  "dns_line n line ps = Ret (Inr ps') \<Longrightarrow> groups_filled ps' = groups_filled ps"
  "rule_set_entry_line nm n line ps = Ret (Inr ps') \<Longrightarrow> groups_filled ps' = groups_filled ps"
  "process_match_line n line ps = Ret (Inr ps') \<Longrightarrow> groups_filled ps' = groups_filled ps"
  "process_exclusion_line n line ps = Ret (Inr ps') \<Longrightarrow> groups_filled ps' = groups_filled ps"
  by (rule same_groups; auto simp: global_line_def interface_line_def api_line_def dns_line_def rule_set_entry_line_def
      process_match_line_def process_exclusion_line_def Let_def try_bind_eq_Inr set_config_def split: if_splits option.splits)+

lemma plain_lines_same:
  "top_line n line ps = Inr ps' \<Longrightarrow> groups_filled ps' = groups_filled ps"
  "outbounds_line n line ps = Inr ps' \<Longrightarrow> groups_filled ps' = groups_filled ps"
  "nodes_line n line ps = Inr ps' \<Longrightarrow> groups_filled ps' = groups_filled ps"
  "routing_line n line ps = Inr ps' \<Longrightarrow> groups_filled ps' = groups_filled ps"
  "rule_set_line n line ps = Inr ps' \<Longrightarrow> groups_filled ps' = groups_filled ps"
  by (rule same_groups; auto simp: top_line_def outbounds_line_def nodes_line_def routing_line_def rule_set_line_def
      set_config_def set_routing_def Let_def res_bind_eq_Inr split: if_splits option.splits)+

lemma node_line_same: "node_line il nm n line ps = Ret (Inr ps') \<Longrightarrow> groups_filled ps' = groups_filled ps"
  by (auto simp: node_line_def push_node_def groups_filled_def try_bind_eq_Inr run_bind_eq_Ret set_config_def
      split: if_splits option.splits)

lemma groups_line_filled: "groups_line n line ps = Inr ps' \<Longrightarrow> groups_filled ps \<Longrightarrow> groups_filled ps'"
  by (auto simp: groups_line_def groups_filled_def lists_filled_def empty_group_def split: if_splits option.splits)

lemma group_field_same: "group_field n k v g = Ret (Inr g') \<Longrightarrow> gc_selectors g' = gc_selectors g"
  by (auto simp: group_field_def text_field_def run_bind_eq_Ret res_bind_eq_Inr split: if_splits)

lemma selector_filled: "parse_nodes_selector line = Ret (Some sels) \<Longrightarrow> SelList [] \<notin> set sels"
  by (auto simp: parse_nodes_selector_def Let_def run_bind_eq_Ret split: option.splits if_splits
      simp del: strip_prefix_Some strip_suffix_Some)

lemma group_line_filled: "group_line n line ps = Ret (Inr ps') \<Longrightarrow> groups_filled ps \<Longrightarrow> groups_filled ps'"
proof (cases "line = ''}''")
  case True
  assume "group_line n line ps = Ret (Inr ps')" "groups_filled ps"
  with True show ?thesis
    by (auto simp: group_line_def push_group_def groups_filled_def lists_filled_def empty_group_def set_config_def)
next
  case False
  assume r: "group_line n line ps = Ret (Inr ps')" and ps: "groups_filled ps"
  obtain sel where sel: "parse_nodes_selector line = Ret sel"
    using r False by (cases "parse_nodes_selector line") (simp_all add: group_line_def)
  show ?thesis
  proof (cases sel)
    case None
    with r sel False obtain k v g where "group_field n k v (ps_group ps) = Ret (Inr g)" "ps' = ps\<lparr>ps_group := g\<rparr>"
      by (auto simp: group_line_def try_bind_eq_Inr with_kv_def)
    with ps show ?thesis by (simp add: groups_filled_def lists_filled_def group_field_same)
  next
    case (Some sels)
    with r sel False ps selector_filled [of line sels] show ?thesis
      by (auto simp: group_line_def groups_filled_def lists_filled_def)
  qed
qed

lemma parse_line_filled:
  assumes "parse_line il n raw ps = Ret (Inr ps')" "groups_filled ps"
  shows "groups_filled ps'"
  using assms
  by (auto simp: parse_line_def state_line_def Let_def kv_lines_same plain_lines_same node_line_same groups_line_filled group_line_filled
      split: if_splits ParseState.splits)

lemma parse_lines_filled:
  "parse_lines il n ls ps = Ret (Inr ps') \<Longrightarrow> groups_filled ps \<Longrightarrow> groups_filled ps'"
  by (induction ls arbitrary: n ps) (auto simp: try_bind_eq_Inr dest: parse_line_filled)

lemma parsed_lists_filled:
  "parse_daefile il input = Ret (Inr c) \<Longrightarrow> list_all lists_filled (os_groups (dae_outbounds c))"
proof -
  assume "parse_daefile il input = Ret (Inr c)"
  then obtain ps where "parse_lines il 1 (lines (preprocess_multiline input)) pstate_init = Ret (Inr ps)" "c = ps_config ps"
    by (auto simp: parse_daefile_def try_bind_eq_Inr split: if_splits)
  moreover have "groups_filled pstate_init"
    by (simp add: groups_filled_def lists_filled_def pstate_init_def empty_group_def DaefileConfig_default_def)
  ultimately show ?thesis using parse_lines_filled unfolding groups_filled_def by blast
qed

text \<open>
  C34: From text to nodes: every group of a configuration that was parsed and validated resolves to
  at least one node, unless one of its selectors is the pattern \<^verbatim>\<open>*\<close>.
\<close>

theorem parsed_group_has_nodes:
  assumes "parse_daefile il input = Ret (Inr c)" "validate_config rx refs c = Inr ()"
    and "g \<in> set (os_groups (dae_outbounds c))" "SelRegex ''*'' \<notin> set (gc_selectors g)"
  shows "resolve_group_nodes rx g (os_nodes (dae_outbounds c)) \<noteq> []"
proof -
  have v: "valid_config rx refs c" using assms(2) by (simp add: validate_iff)
  then have "group_wf rx (collect_node_names c) g" using assms(3) by (simp add: valid_config_def list_all_iff)
  then obtain s where s: "s \<in> set (gc_selectors g)" unfolding group_wf_def by (cases "gc_selectors g") auto
  have "SelList [] \<notin> set (gc_selectors g)"
    using parsed_lists_filled [OF assms(1)] assms(3) by (simp add: list_all_iff lists_filled_def)
  with s assms(4) have "proper_selector s" by (cases s rule: NodeSelector.exhaust) auto
  with s have "list_ex proper_selector (gc_selectors g)" by (auto simp: list_ex_iff)
  then show ?thesis using proper_group_resolves [OF v assms(3)] by blast
qed

definition group_text :: string where
  "group_text = unlines
     [''outbounds {'', ''nodes {'', ''a {'', ''protocol: socks5'', ''address: 192.0.2.7:1080'', ''}'', ''}'',
      ''groups {'', ''g {'', ''nodes(a)'', ''}'', ''}'', ''}'', ''routing {'', ''fallback: proxy(g)'', ''}'']"

definition group_text_config :: DaefileConfig where
  "group_text_config =
     DaefileConfig_default\<lparr>dae_outbounds := \<lparr>os_nodes = [socks_node ''a''], os_groups = [(empty_group ''g'')\<lparr>gc_selectors := [SelList [''a'']]\<rparr>]\<rparr>,
       dae_routing := \<lparr>rc_rules = [], rc_fallback = ''proxy(g)''\<rparr>\<rparr>"

theorem parsed_group_has_nodes_witness:
  "let g = (empty_group ''g'')\<lparr>gc_selectors := [SelList [''a'']]\<rparr>
   in parse_daefile no_libs group_text = Ret (Inr group_text_config)
      \<and> resolve_group_nodes demo_regex g (os_nodes (dae_outbounds group_text_config)) \<noteq> []"
proof -
  let ?g = "(empty_group ''g'')\<lparr>gc_selectors := [SelList [''a'']]\<rparr>"
  have p: "parse_daefile no_libs group_text = Ret (Inr group_text_config)" by code_simp
  moreover have "validate_config demo_regex (\<lambda>_. []) group_text_config = Inr ()" by code_simp
  moreover have "?g \<in> set (os_groups (dae_outbounds group_text_config))" by (simp add: group_text_config_def)
  ultimately show ?thesis using parsed_group_has_nodes [OF p, of demo_regex "\<lambda>_. []" ?g] by (simp add: Let_def)
qed

end
