(* ===== verification/Outbound_Dialer.thy ===== *)
theory Outbound_Dialer
  imports Config_Validator Rule_Store
begin

text \<open>
  The protocol dialers as configured objects (the \<^verbatim>\<open>protocols\<close> crate: their fields, constructors and
  setters) and the factory \<^verbatim>\<open>control/src/dialer.rs\<close> that builds one from a node of the configuration.
  What a dialer does on the network is not part of this theory.  The trojan dialer stores the SHA-224
  digest of its password, computed by the function \<open>sha224\<close>.
\<close>

section \<open>Dialers\<close>

type_synonym RawFd = int

record Socks5Dialer =
  s5_proxy_addr :: SocketAddr
  s5_dial_timeout :: u64
  s5_username :: string
  s5_password :: string
  s5_self_mark :: u32
  s5_host_ns_fd :: "RawFd option"

definition Socks5Dialer_new_with_mark :: "SocketAddr \<Rightarrow> string \<Rightarrow> string \<Rightarrow> u64 \<Rightarrow> u32 \<Rightarrow> Socks5Dialer" where
  "Socks5Dialer_new_with_mark addr username password dial_timeout_ms self_mark =
     \<lparr>s5_proxy_addr = addr, s5_dial_timeout = dial_timeout_ms, s5_username = username, s5_password = password,
      s5_self_mark = self_mark, s5_host_ns_fd = None\<rparr>"

record ShadowsocksDialer =
  ss_proxy_addr :: SocketAddr
  ss_dial_timeout :: u64
  ss_cipher :: string
  ss_password :: string
  ss_self_mark :: u32
  ss_host_ns_fd :: "RawFd option"

definition ShadowsocksDialer_new_with_mark :: "SocketAddr \<Rightarrow> string \<Rightarrow> string \<Rightarrow> u64 \<Rightarrow> u32 \<Rightarrow> ShadowsocksDialer" where
  "ShadowsocksDialer_new_with_mark addr cipher password dial_timeout_ms self_mark =
     \<lparr>ss_proxy_addr = addr, ss_dial_timeout = dial_timeout_ms, ss_cipher = cipher, ss_password = password,
      ss_self_mark = self_mark, ss_host_ns_fd = None\<rparr>"

record TrojanDialer =
  tj_proxy_addr :: SocketAddr
  tj_dial_timeout :: u64
  tj_password :: string
  tj_auth_hash :: string
  tj_sni :: string
  tj_ca_sha256 :: "string option"
  tj_self_mark :: u32
  tj_host_ns_fd :: "RawFd option"

definition trojan_auth_hash :: "(string \<Rightarrow> u8 list) \<Rightarrow> string \<Rightarrow> string" where
  "trojan_auth_hash sha224 password =
     concat (map (\<lambda>b. [hex_digit (unat b div 16), hex_digit (unat b mod 16)]) (sha224 password))"

definition TrojanDialer_new_with_mark ::
    "(string \<Rightarrow> u8 list) \<Rightarrow> SocketAddr \<Rightarrow> string \<Rightarrow> string \<Rightarrow> u64 \<Rightarrow> u32 \<Rightarrow> TrojanDialer" where
  "TrojanDialer_new_with_mark sha224 addr password sni dial_timeout_ms self_mark =
     \<lparr>tj_proxy_addr = addr, tj_dial_timeout = dial_timeout_ms, tj_password = password,
      tj_auth_hash = trojan_auth_hash sha224 password, tj_sni = sni, tj_ca_sha256 = None, tj_self_mark = self_mark,
      tj_host_ns_fd = None\<rparr>"

record TuicDialer =
  tc_proxy_addr :: SocketAddr
  tc_dial_timeout :: u64
  tc_uuid :: string
  tc_password :: string
  tc_congestion_control :: string
  tc_alpn :: "string list"
  tc_sni :: string
  tc_ca_sha256 :: "string option"
  tc_self_mark :: u32
  tc_host_ns_fd :: "RawFd option"

definition TuicDialer_new :: "SocketAddr \<Rightarrow> string \<Rightarrow> string \<Rightarrow> u64 \<Rightarrow> TuicDialer" where
  "TuicDialer_new addr uuid password dial_timeout_ms =
     \<lparr>tc_proxy_addr = addr, tc_dial_timeout = dial_timeout_ms, tc_uuid = uuid, tc_password = password,
      tc_congestion_control = ''bbr'', tc_alpn = [''h3''], tc_sni = [], tc_ca_sha256 = None, tc_self_mark = 0,
      tc_host_ns_fd = None\<rparr>"

record JuicityDialer =
  jc_proxy_addr :: SocketAddr
  jc_dial_timeout :: u64
  jc_uuid :: string
  jc_password :: string
  jc_congestion_control :: string
  jc_sni :: string
  jc_ca_sha256 :: "string option"
  jc_self_mark :: u32
  jc_host_ns_fd :: "RawFd option"

definition JuicityDialer_new :: "SocketAddr \<Rightarrow> string \<Rightarrow> string \<Rightarrow> u64 \<Rightarrow> JuicityDialer" where
  "JuicityDialer_new addr uuid password dial_timeout_ms =
     \<lparr>jc_proxy_addr = addr, jc_dial_timeout = dial_timeout_ms, jc_uuid = uuid, jc_password = password,
      jc_congestion_control = ''bbr'', jc_sni = [], jc_ca_sha256 = None, jc_self_mark = 0, jc_host_ns_fd = None\<rparr>"

datatype VMessNetwork = NetTcp | NetWs | NetH2 | NetGrpc

definition VMessNetwork_from_str :: "string \<Rightarrow> VMessNetwork option" where
  "VMessNetwork_from_str s =
     (if s = ''tcp'' then Some NetTcp else if s = ''ws'' then Some NetWs else if s = ''h2'' then Some NetH2
      else if s = ''grpc'' then Some NetGrpc else None)"

record VMessDialer =
  vm_proxy_addr :: SocketAddr
  vm_dial_timeout :: u64
  vm_uuid :: string
  vm_security :: string
  vm_alter_id :: u32
  vm_network :: VMessNetwork
  vm_ws_path :: "string option"
  vm_ws_headers :: "(string \<times> string) list option"
  vm_h2_path :: "string option"
  vm_h2_host :: "string option"
  vm_grpc_service_name :: "string option"
  vm_sni :: string
  vm_ca_sha256 :: "string option"
  vm_self_mark :: u32
  vm_host_ns_fd :: "RawFd option"

definition VMessDialer_new :: "SocketAddr \<Rightarrow> string \<Rightarrow> u64 \<Rightarrow> VMessDialer" where
  "VMessDialer_new addr uuid dial_timeout_ms =
     \<lparr>vm_proxy_addr = addr, vm_dial_timeout = dial_timeout_ms, vm_uuid = uuid, vm_security = ''auto'', vm_alter_id = 0,
      vm_network = NetTcp, vm_ws_path = None, vm_ws_headers = None, vm_h2_path = None, vm_h2_host = None,
      vm_grpc_service_name = None, vm_sni = [], vm_ca_sha256 = None, vm_self_mark = 0, vm_host_ns_fd = None\<rparr>"

datatype OutboundDialer =
  Socks5 Socks5Dialer | Shadowsocks ShadowsocksDialer | Trojan TrojanDialer | Tuic TuicDialer
| Juicity JuicityDialer | VMess VMessDialer

fun dialer_addr :: "OutboundDialer \<Rightarrow> SocketAddr" where
  "dialer_addr (Socks5 d) = s5_proxy_addr d"
| "dialer_addr (Shadowsocks d) = ss_proxy_addr d"
| "dialer_addr (Trojan d) = tj_proxy_addr d"
| "dialer_addr (Tuic d) = tc_proxy_addr d"
| "dialer_addr (Juicity d) = jc_proxy_addr d"
| "dialer_addr (VMess d) = vm_proxy_addr d"

fun protocol_name :: "OutboundDialer \<Rightarrow> string" where
  "protocol_name (Socks5 d) = ''socks5''"
| "protocol_name (Shadowsocks d) = ''shadowsocks''"
| "protocol_name (Trojan d) = ''trojan''"
| "protocol_name (Tuic d) = ''tuic''"
| "protocol_name (Juicity d) = ''juicity''"
| "protocol_name (VMess d) = ''vmess''"

definition dialer_is_socks5 :: "OutboundDialer \<Rightarrow> bool" where
  "dialer_is_socks5 d \<longleftrightarrow> (case d of Socks5 _ \<Rightarrow> True | _ \<Rightarrow> False)"

fun dialer_mark :: "OutboundDialer \<Rightarrow> u32" where
  "dialer_mark (Socks5 d) = s5_self_mark d"
| "dialer_mark (Shadowsocks d) = ss_self_mark d"
| "dialer_mark (Trojan d) = tj_self_mark d"
| "dialer_mark (Tuic d) = tc_self_mark d"
| "dialer_mark (Juicity d) = jc_self_mark d"
| "dialer_mark (VMess d) = vm_self_mark d"

fun dialer_ns :: "OutboundDialer \<Rightarrow> RawFd option" where
  "dialer_ns (Socks5 d) = s5_host_ns_fd d"
| "dialer_ns (Shadowsocks d) = ss_host_ns_fd d"
| "dialer_ns (Trojan d) = tj_host_ns_fd d"
| "dialer_ns (Tuic d) = tc_host_ns_fd d"
| "dialer_ns (Juicity d) = jc_host_ns_fd d"
| "dialer_ns (VMess d) = vm_host_ns_fd d"

section \<open>The factory\<close>

datatype build_error =
  InvalidAddress string string | InvalidNetwork string string | UnsupportedProtocol string string

definition or_empty :: "string option \<Rightarrow> string" where
  "or_empty x = get_or [] x"

definition when_some :: "'a option \<Rightarrow> ('a \<Rightarrow> 'd \<Rightarrow> 'd) \<Rightarrow> 'd \<Rightarrow> 'd" where
  "when_some x f d = (case x of Some v \<Rightarrow> f v d | None \<Rightarrow> d)"

definition build_tuic :: "OutboundNodeConfig \<Rightarrow> SocketAddr \<Rightarrow> RawFd option \<Rightarrow> u32 \<Rightarrow> TuicDialer" where
  "build_tuic node addr host_ns_fd socket_mark =
     (let d = TuicDialer_new addr (or_empty (nc_uuid node)) (or_empty (nc_password node)) (nc_dial_timeout_ms node);
          d = when_some (nc_congestion_control node) (\<lambda>cc d. d\<lparr>tc_congestion_control := cc\<rparr>) d;
          d = when_some (nc_alpn node) (\<lambda>alpn d. d\<lparr>tc_alpn := alpn\<rparr>) d
      in d\<lparr>tc_sni := or_empty (nc_sni node), tc_ca_sha256 := nc_ca_sha256 node, tc_self_mark := socket_mark,
           tc_host_ns_fd := host_ns_fd\<rparr>)"

definition build_juicity :: "OutboundNodeConfig \<Rightarrow> SocketAddr \<Rightarrow> RawFd option \<Rightarrow> u32 \<Rightarrow> JuicityDialer" where
  "build_juicity node addr host_ns_fd socket_mark =
     (let d = JuicityDialer_new addr (or_empty (nc_uuid node)) (or_empty (nc_password node)) (nc_dial_timeout_ms node);
          d = when_some (nc_congestion_control node) (\<lambda>cc d. d\<lparr>jc_congestion_control := cc\<rparr>) d
      in d\<lparr>jc_sni := or_empty (nc_sni node), jc_ca_sha256 := nc_ca_sha256 node, jc_self_mark := socket_mark,
           jc_host_ns_fd := host_ns_fd\<rparr>)"

definition vmess_options :: "OutboundNodeConfig \<Rightarrow> VMessDialer \<Rightarrow> VMessDialer" where
  "vmess_options node d =
     when_some (nc_grpc_service_name node) (\<lambda>s d. d\<lparr>vm_grpc_service_name := Some s\<rparr>)
       (when_some (nc_h2_host node) (\<lambda>h d. d\<lparr>vm_h2_host := Some h\<rparr>)
         (when_some (nc_h2_path node) (\<lambda>p d. d\<lparr>vm_h2_path := Some p\<rparr>)
           (when_some (nc_ws_headers node) (\<lambda>h d. d\<lparr>vm_ws_headers := Some h\<rparr>)
             (when_some (nc_ws_path node) (\<lambda>p d. d\<lparr>vm_ws_path := Some p\<rparr>) d))))"

definition build_vmess :: "OutboundNodeConfig \<Rightarrow> SocketAddr \<Rightarrow> RawFd option \<Rightarrow> u32 \<Rightarrow> build_error + VMessDialer" where
  "build_vmess node addr host_ns_fd socket_mark =
     (let d = VMessDialer_new addr (or_empty (nc_uuid node)) (nc_dial_timeout_ms node);
          d = when_some (nc_security node) (\<lambda>sec d. d\<lparr>vm_security := sec\<rparr>) d;
          d = when_some (nc_alter_id node) (\<lambda>aid d. d\<lparr>vm_alter_id := aid\<rparr>) d
      in res_bind (case nc_network node of
                     None \<Rightarrow> Inr d
                   | Some net \<Rightarrow> res_bind (ok_or (InvalidNetwork (nc_name node) net) (VMessNetwork_from_str net))
                       (\<lambda>network. Inr (d\<lparr>vm_network := network\<rparr>)))
           (\<lambda>d. Inr ((vmess_options node d)\<lparr>vm_sni := or_empty (nc_sni node), vm_ca_sha256 := nc_ca_sha256 node,
                  vm_self_mark := socket_mark, vm_host_ns_fd := host_ns_fd\<rparr>)))"

definition build_dialer ::
    "(string \<Rightarrow> u8 list) \<Rightarrow> OutboundNodeConfig \<Rightarrow> RawFd option \<Rightarrow> u32 \<Rightarrow> build_error + OutboundDialer" where
  "build_dialer sha224 node host_ns_fd socket_mark =
     res_bind (ok_or (InvalidAddress (nc_name node) (nc_address node)) (parse_socket_addr (nc_address node))) (\<lambda>addr.
       let timeout_ms = nc_dial_timeout_ms node; password = or_empty (nc_password node); sni = or_empty (nc_sni node);
           p = nc_protocol node
       in if p = ''socks5'' then
            Inr (Socks5 (Socks5Dialer_new_with_mark addr (or_empty (nc_username node)) password timeout_ms socket_mark))
          else if p = ''shadowsocks'' then
            Inr (Shadowsocks ((ShadowsocksDialer_new_with_mark addr (or_empty (nc_cipher node)) password timeout_ms socket_mark)
              \<lparr>ss_host_ns_fd := host_ns_fd\<rparr>))
          else if p = ''trojan'' then
            Inr (Trojan ((TrojanDialer_new_with_mark sha224 addr password sni timeout_ms socket_mark)
              \<lparr>tj_ca_sha256 := nc_ca_sha256 node, tj_host_ns_fd := host_ns_fd\<rparr>))
          else if p = ''tuic'' then Inr (Tuic (build_tuic node addr host_ns_fd socket_mark))
          else if p = ''juicity'' then Inr (Juicity (build_juicity node addr host_ns_fd socket_mark))
          else if p = ''vmess'' then
            res_bind (build_vmess node addr host_ns_fd socket_mark) (\<lambda>d. Inr (VMess d))
          else Inl (UnsupportedProtocol (nc_name node) p))"

section \<open>Properties\<close>

lemma vmess_options_keeps:
  "vm_proxy_addr (vmess_options node d) = vm_proxy_addr d"
  by (simp add: vmess_options_def when_some_def split: option.split)

text \<open>A built dialer is of the protocol of its node and leads to the address of its node, with the mark
  that exempts its sockets from interception.\<close>

lemma build_dialer_result:
  assumes "build_dialer sha224 node ns mark = Inr d"
  shows "protocol_name d = nc_protocol node" "parse_socket_addr (nc_address node) = Some (dialer_addr d)" "dialer_mark d = mark"
proof -
  obtain addr where a: "parse_socket_addr (nc_address node) = Some addr"
    using assms by (auto simp: build_dialer_def res_bind_eq_Inr ok_or_eq_Inr)
  have v: "vm_proxy_addr v = addr \<and> vm_self_mark v = mark" if "build_vmess node addr ns mark = Inr v" for v
    using that by (auto simp: build_vmess_def Let_def res_bind_eq_Inr VMessDialer_new_def when_some_def vmess_options_keeps
        split: option.splits)
  show "protocol_name d = nc_protocol node"
    using assms a by (auto simp: build_dialer_def Let_def res_bind_eq_Inr split: if_splits)
  show "parse_socket_addr (nc_address node) = Some (dialer_addr d)" "dialer_mark d = mark"
    using assms a v by (auto simp: build_dialer_def Let_def res_bind_eq_Inr Socks5Dialer_new_with_mark_def
        ShadowsocksDialer_new_with_mark_def TrojanDialer_new_with_mark_def build_tuic_def TuicDialer_new_def
        build_juicity_def JuicityDialer_new_def when_some_def split: if_splits option.splits)
qed

text \<open>
  The host namespace is set on every dialer but one: a SOCKS5 dialer built from a node of the
  configuration ignores it, although the parameter is documented to apply to all upstream sockets.
\<close>

lemma build_dialer_ns:
  assumes "build_dialer sha224 node ns mark = Inr d"
  shows "dialer_ns d = (if nc_protocol node = ''socks5'' then None else ns)"
  using assms by (auto simp: build_dialer_def Let_def res_bind_eq_Inr Socks5Dialer_new_with_mark_def
      ShadowsocksDialer_new_with_mark_def TrojanDialer_new_with_mark_def build_tuic_def build_juicity_def build_vmess_def
      split: if_splits)

text \<open>
  A node passes the validator and has a dialer exactly when its address is an IP address with a port,
  and, for vmess, its network is known.
\<close>

lemma build_dialer_iff:
  assumes "node_wf node"
  shows "(\<exists>d. build_dialer sha224 node ns mark = Inr d) \<longleftrightarrow>
    parse_socket_addr (nc_address node) \<noteq> None
    \<and> (nc_protocol node = ''vmess'' \<longrightarrow> opt_all (\<lambda>net. VMessNetwork_from_str net \<noteq> None) (nc_network node))"
proof -
  have p: "nc_protocol node \<in> set SUPPORTED_PROTOCOLS" using assms by (simp add: node_wf_def)
  have v: "(\<exists>d. build_vmess node addr ns mark = Inr d) \<longleftrightarrow> opt_all (\<lambda>net. VMessNetwork_from_str net \<noteq> None) (nc_network node)"
    for addr by (cases "nc_network node") (auto simp: build_vmess_def Let_def res_bind_eq_Inr opt_all_def ok_or_eq_Inr)
  show ?thesis
  proof (cases "parse_socket_addr (nc_address node)")
    case (Some addr)
    with p v [of addr] show ?thesis
      by (auto simp: build_dialer_def Let_def SUPPORTED_PROTOCOLS_def res_bind_eq_Inr)
  qed (simp add: build_dialer_def res_bind_eq_Inr ok_or_eq_Inr)
qed

end
