(* ===== verification/Group_Dialer.thy ===== *)
theory Group_Dialer
  imports Outbound_Dialer "HOL-Library.Multiset"
begin

text \<open>
  The group dialer, \<^verbatim>\<open>control/src/group.rs\<close>, and the construction of the dialers of all groups,
  \<^verbatim>\<open>control/src/lib.rs\<close>.  Instants are nanoseconds of a monotonic clock.  Candidates are indices of
  nodes.  An attempt to dial is described by its outcome, the instants around it and what the other
  users of the group do to its shared state while it is awaited; \<open>shuffle\<close> is the permutation drawn by
  \<^verbatim>\<open>fastrand::shuffle\<close>.
\<close>

section \<open>Nodes\<close>

definition NODE_DEAD_COOLDOWN :: nat where "NODE_DEAD_COOLDOWN = 60 * 10 ^ 9"

definition GROUP_ALL_DEAD_COOLDOWN :: nat where "GROUP_ALL_DEAD_COOLDOWN = 10 * 10 ^ 9"

record 'd GroupNode =
  gn_name :: string
  gn_dialer :: 'd
  gn_alive :: bool
  gn_dead_until :: "nat option"
  gn_last_latency_ms :: u64

definition GroupNode_new :: "string \<Rightarrow> 'd \<Rightarrow> 'd GroupNode" where
  "GroupNode_new name d =
     \<lparr>gn_name = name, gn_dialer = d, gn_alive = True, gn_dead_until = None, gn_last_latency_ms = 0\<rparr>"

definition is_alive :: "nat \<Rightarrow> 'd GroupNode \<Rightarrow> bool" where
  "is_alive now node \<longleftrightarrow>
     (if \<not> gn_alive node then (case gn_dead_until node of Some deadline \<Rightarrow> deadline \<le> now | None \<Rightarrow> True) else True)"

definition mark_alive :: "u64 \<Rightarrow> 'd GroupNode \<Rightarrow> 'd GroupNode" where
  "mark_alive latency_ms node = node\<lparr>gn_alive := True, gn_last_latency_ms := latency_ms, gn_dead_until := None\<rparr>"

definition mark_dead :: "nat \<Rightarrow> 'd GroupNode \<Rightarrow> 'd GroupNode" where
  "mark_dead now node = node\<lparr>gn_alive := False, gn_dead_until := Some (now + NODE_DEAD_COOLDOWN)\<rparr>"

section \<open>Groups\<close>

record 'd GroupDialer =
  gd_name :: string
  gd_nodes :: "'d GroupNode list"
  gd_policy :: PolicyType
  gd_all_dead_until :: "nat option"

definition GroupDialer_new :: "string \<Rightarrow> 'd GroupNode list \<Rightarrow> PolicyType \<Rightarrow> 'd GroupDialer" where
  "GroupDialer_new name nodes policy = \<lparr>gd_name = name, gd_nodes = nodes, gd_policy = policy, gd_all_dead_until = None\<rparr>"

definition in_group_cooldown :: "nat \<Rightarrow> 'd GroupDialer \<Rightarrow> bool" where
  "in_group_cooldown now g \<longleftrightarrow> (case gd_all_dead_until g of Some deadline \<Rightarrow> now < deadline | None \<Rightarrow> False)"

definition enter_group_cooldown :: "nat \<Rightarrow> 'd GroupDialer \<Rightarrow> 'd GroupDialer" where
  "enter_group_cooldown now g = g\<lparr>gd_all_dead_until := Some (now + GROUP_ALL_DEAD_COOLDOWN)\<rparr>"

definition clear_group_cooldown :: "'d GroupDialer \<Rightarrow> 'd GroupDialer" where
  "clear_group_cooldown g = g\<lparr>gd_all_dead_until := None\<rparr>"

definition latency_key :: "'d GroupNode \<Rightarrow> u64" where
  "latency_key node = (if gn_last_latency_ms node = 0 then - 1 else gn_last_latency_ms node)"

definition candidate_pool :: "(nat \<Rightarrow> nat) \<Rightarrow> 'd GroupDialer \<Rightarrow> nat list" where
  "candidate_pool clk g =
     (let pool = filter (\<lambda>i. is_alive (clk i) (gd_nodes g ! i)) [0..<length (gd_nodes g)]
      in if pool = [] then [0..<length (gd_nodes g)] else pool)"

definition ordered_candidates :: "(nat list \<Rightarrow> nat list) \<Rightarrow> (nat \<Rightarrow> nat) \<Rightarrow> 'd GroupDialer \<Rightarrow> nat list" where
  "ordered_candidates shuffle clk g =
     (let pool = candidate_pool clk g
      in case gd_policy g of
           PolicyFixed \<Rightarrow> pool
         | PolicyRandom \<Rightarrow> shuffle pool
         | _ \<Rightarrow> sort_key (\<lambda>i. latency_key (gd_nodes g ! i)) pool)"

definition current_node :: "(nat list \<Rightarrow> nat list) \<Rightarrow> (nat \<Rightarrow> nat) \<Rightarrow> 'd GroupDialer \<Rightarrow> 'd GroupNode option" where
  "current_node shuffle clk g = (case ordered_candidates shuffle clk g of [] \<Rightarrow> None | i # _ \<Rightarrow> Some (gd_nodes g ! i))"

section \<open>Dialing\<close>

record ('d, 'c, 'e) attempts =
  at_result :: "nat \<Rightarrow> 'd \<Rightarrow> 'e + 'c"
  at_started :: "nat \<Rightarrow> nat"
  at_finished :: "nat \<Rightarrow> nat"
  at_others :: "nat \<Rightarrow> 'd GroupDialer \<Rightarrow> 'd GroupDialer"
  at_end :: nat

datatype 'e group_error = CoolingDown string | NoCandidates string | DialFailed 'e

definition set_node :: "nat \<Rightarrow> ('d GroupNode \<Rightarrow> 'd GroupNode) \<Rightarrow> 'd GroupDialer \<Rightarrow> 'd GroupDialer" where
  "set_node i f g = g\<lparr>gd_nodes := (gd_nodes g)[i := f (gd_nodes g ! i)]\<rparr>"

definition elapsed_ms :: "nat \<Rightarrow> nat \<Rightarrow> u64" where
  "elapsed_ms started finished = of_nat ((finished - started) div 10 ^ 6)"

fun dial_loop ::
    "('d, 'c, 'e) attempts \<Rightarrow> nat \<Rightarrow> nat list \<Rightarrow> 'e option \<Rightarrow> 'd GroupDialer \<Rightarrow> ('e group_error + 'c) \<times> 'd GroupDialer" where
  "dial_loop w k [] last_err g =
     (Inl (case last_err of Some e \<Rightarrow> DialFailed e | None \<Rightarrow> NoCandidates (gd_name g)), enter_group_cooldown (at_end w) g)"
| "dial_loop w k (i # candidates) last_err g =
     (let r = at_result w k (gn_dialer (gd_nodes g ! i)); g = at_others w k g
      in case r of
           Inr conn \<Rightarrow>
             (Inr conn, clear_group_cooldown (set_node i (mark_alive (elapsed_ms (at_started w k) (at_finished w k))) g))
         | Inl e \<Rightarrow> dial_loop w (Suc k) candidates (Some e) (set_node i (mark_dead (at_finished w k)) g))"

definition try_candidates ::
    "(nat list \<Rightarrow> nat list) \<Rightarrow> nat \<Rightarrow> (nat \<Rightarrow> nat) \<Rightarrow> ('d, 'c, 'e) attempts \<Rightarrow> 'd GroupDialer \<Rightarrow> ('e group_error + 'c) \<times> 'd GroupDialer" where
  "try_candidates shuffle now clk w g =
     (if in_group_cooldown now g then (Inl (CoolingDown (gd_name g)), g)
      else dial_loop w 0 (ordered_candidates shuffle clk g) None g)"

definition try_dial ::
    "(nat list \<Rightarrow> nat list) \<Rightarrow> nat \<Rightarrow> (nat \<Rightarrow> nat) \<Rightarrow> (string \<Rightarrow> ('d, 'c, 'e) attempts) \<Rightarrow> string \<Rightarrow> 'd GroupDialer
      \<Rightarrow> ('e group_error + 'c) \<times> 'd GroupDialer" where
  "try_dial shuffle now clk dial target g = try_candidates shuffle now clk (dial target) g"

definition try_udp_dial ::
    "(nat list \<Rightarrow> nat list) \<Rightarrow> nat \<Rightarrow> (nat \<Rightarrow> nat) \<Rightarrow> ('d, 'c, 'e) attempts \<Rightarrow> 'd GroupDialer
      \<Rightarrow> ('e group_error + 'c) \<times> 'd GroupDialer" where
  "try_udp_dial shuffle now clk udp_dial g = try_candidates shuffle now clk udp_dial g"

section \<open>Groups of the configuration\<close>

definition group_proxy_addr :: "(nat list \<Rightarrow> nat list) \<Rightarrow> (nat \<Rightarrow> nat) \<Rightarrow> OutboundDialer GroupDialer \<Rightarrow> SocketAddr" where
  "group_proxy_addr shuffle clk g =
     (case current_node shuffle clk g of Some n \<Rightarrow> dialer_addr (gn_dialer n) | None \<Rightarrow> SockV4 0 0)"

definition group_is_socks5 :: "(nat list \<Rightarrow> nat list) \<Rightarrow> (nat \<Rightarrow> nat) \<Rightarrow> OutboundDialer GroupDialer \<Rightarrow> bool" where
  "group_is_socks5 shuffle clk g =
     (case current_node shuffle clk g of Some n \<Rightarrow> dialer_is_socks5 (gn_dialer n) | None \<Rightarrow> False)"

definition build_group_nodes ::
    "(string \<Rightarrow> u8 list) \<Rightarrow> RawFd option \<Rightarrow> u32 \<Rightarrow> OutboundNodeConfig list \<Rightarrow> OutboundDialer GroupNode list" where
  "build_group_nodes sha224 host_ns_fd socket_mark candidates =
     List.map_filter (\<lambda>node. case build_dialer sha224 node host_ns_fd socket_mark of
                               Inr d \<Rightarrow> Some (GroupNode_new (nc_name node) d)
                             | Inl _ \<Rightarrow> None) candidates"

definition anchor :: "string \<Rightarrow> 'd GroupNode list \<Rightarrow> 'd GroupNode list" where
  "anchor selected nodes =
     (case find (\<lambda>i. gn_name (nodes ! i) = selected) [0..<length nodes] of
        Some pos \<Rightarrow> nodes ! pos # take pos nodes @ drop (Suc pos) nodes
      | None \<Rightarrow> nodes)"

definition build_group_dialer ::
    "regex_engine \<Rightarrow> (string \<Rightarrow> u8 list) \<Rightarrow> RawFd option \<Rightarrow> u32 \<Rightarrow> OutboundNodeConfig list \<Rightarrow> OutboundGroupConfig
      \<Rightarrow> OutboundDialer GroupDialer option" where
  "build_group_dialer rx sha224 host_ns_fd socket_mark nodes grp =
     (let group_nodes = build_group_nodes sha224 host_ns_fd socket_mark (resolve_group_nodes rx grp nodes)
      in if group_nodes = [] then None
         else (case (gc_group_type grp, gc_selected grp) of
                 (GroupSelect, Some selected) \<Rightarrow> Some (GroupDialer_new (gc_name grp) (anchor selected group_nodes) PolicyFixed)
               | _ \<Rightarrow> Some (GroupDialer_new (gc_name grp) group_nodes (get_or PolicyFixed (gc_policy grp)))))"

definition build_outbound_group_dialers ::
    "regex_engine \<Rightarrow> (string \<Rightarrow> u8 list) \<Rightarrow> RawFd option \<Rightarrow> u32 \<Rightarrow> DaefileConfig option
      \<Rightarrow> (string \<times> OutboundDialer GroupDialer) list" where
  "build_outbound_group_dialers rx sha224 host_ns_fd socket_mark daefile_config =
     (case daefile_config of
        None \<Rightarrow> []
      | Some cfg \<Rightarrow>
          foldl (\<lambda>m grp. case build_group_dialer rx sha224 host_ns_fd socket_mark (os_nodes (dae_outbounds cfg)) grp of
                           None \<Rightarrow> m
                         | Some d \<Rightarrow> map_insert (gc_name grp) d m)
            [] (os_groups (dae_outbounds cfg)))"

text \<open>The dialer of the first node, or of the flat configuration fields when no node is configured.\<close>

record legacy_proxy =
  lp_proxy_addr :: string
  lp_username :: string
  lp_password :: string
  lp_dial_timeout_ms :: u64

definition build_outbound_dialer ::
    "(string \<Rightarrow> u8 list) \<Rightarrow> legacy_proxy \<Rightarrow> DaefileConfig option \<Rightarrow> RawFd option \<Rightarrow> u32 \<Rightarrow> build_error + OutboundDialer" where
  "build_outbound_dialer sha224 lp daefile_config host_ns_fd socket_mark =
     (case Option.bind daefile_config (\<lambda>c. case os_nodes (dae_outbounds c) of [] \<Rightarrow> None | node # _ \<Rightarrow> Some node) of
        Some node \<Rightarrow> build_dialer sha224 node host_ns_fd socket_mark
      | None \<Rightarrow>
          res_bind (ok_or (InvalidAddress [] (lp_proxy_addr lp)) (parse_socket_addr (lp_proxy_addr lp))) (\<lambda>proxy_addr.
            Inr (Socks5 ((Socks5Dialer_new_with_mark proxy_addr (lp_username lp) (lp_password lp) (lp_dial_timeout_ms lp) socket_mark)
              \<lparr>s5_host_ns_fd := host_ns_fd\<rparr>))))"

text \<open>
  The proxy of a rule-set download.  The selection is evaluated twice, once for each question, and the
  second evaluation may draw another permutation and read a later clock.
\<close>

record proxy_resolver =
  pr_group_dialers :: "(string \<times> OutboundDialer GroupDialer) list"
  pr_legacy_addr :: "SocketAddr option"
  pr_default_group :: "string option"

definition resolve_proxy ::
    "(nat list \<Rightarrow> nat list) \<Rightarrow> (nat \<Rightarrow> nat) \<Rightarrow> (nat list \<Rightarrow> nat list) \<Rightarrow> (nat \<Rightarrow> nat) \<Rightarrow> proxy_resolver \<Rightarrow> string \<Rightarrow> SocketAddr option" where
  "resolve_proxy shuffle clk shuffle' clk' pr proxy =
     (case map_of (pr_group_dialers pr) proxy of
        Some g \<Rightarrow> if group_is_socks5 shuffle clk g then Some (group_proxy_addr shuffle' clk' g) else None
      | None \<Rightarrow> if pr_default_group pr = Some proxy then pr_legacy_addr pr else None)"

section \<open>Candidates\<close>

definition alive_set :: "(nat \<Rightarrow> nat) \<Rightarrow> 'd GroupDialer \<Rightarrow> nat set" where
  "alive_set clk g = {i. i < length (gd_nodes g) \<and> is_alive (clk i) (gd_nodes g ! i)}"

lemma pool_facts:
  "distinct (candidate_pool clk g)" "sorted (candidate_pool clk g)"
  "set (candidate_pool clk g) = (if alive_set clk g = {} then {..<length (gd_nodes g)} else alive_set clk g)"
proof -
  let ?n = "length (gd_nodes g)"
  show "distinct (candidate_pool clk g)" "sorted (candidate_pool clk g)"
    by (simp_all add: candidate_pool_def Let_def sorted_wrt_filter)
  have "set (filter (\<lambda>i. is_alive (clk i) (gd_nodes g ! i)) [0..<?n]) = alive_set clk g" by (auto simp: alive_set_def)
  then show "set (candidate_pool clk g) = (if alive_set clk g = {} then {..<?n} else alive_set clk g)"
    unfolding candidate_pool_def Let_def by (simp add: atLeast0LessThan flip: set_empty)
qed

lemma mset_candidates:
  assumes "\<And>xs. mset (shuffle xs) = mset xs"
  shows "mset (ordered_candidates shuffle clk g) = mset (candidate_pool clk g)"
  using assms by (simp add: ordered_candidates_def Let_def split: PolicyType.split)

lemma candidates_set:
  assumes "\<And>xs. mset (shuffle xs) = mset xs"
  shows "distinct (ordered_candidates shuffle clk g)"
    "set (ordered_candidates shuffle clk g) = (if alive_set clk g = {} then {..<length (gd_nodes g)} else alive_set clk g)"
proof -
  have m: "mset (ordered_candidates shuffle clk g) = mset (candidate_pool clk g)" by (rule mset_candidates [OF assms])
  show "distinct (ordered_candidates shuffle clk g)"
    using mset_eq_imp_distinct_iff [OF m] pool_facts(1) by blast
  show "set (ordered_candidates shuffle clk g) = (if alive_set clk g = {} then {..<length (gd_nodes g)} else alive_set clk g)"
    by (rule trans [OF mset_eq_setD [OF m] pool_facts(3)])
qed

lemma candidates_bound:
  "(\<And>xs. mset (shuffle xs) = mset xs) \<Longrightarrow> list_all (\<lambda>i. i < length (gd_nodes g)) (ordered_candidates shuffle clk g)"
  using candidates_set(2) [of shuffle clk g] by (auto simp: alive_set_def list_all_iff split: if_splits)

text \<open>
  The candidates of a group are its nodes that are alive, each once, or all of its nodes when none
  is; there is a candidate unless the group has no nodes.  They come in the order of the selectors, or
  in the order of their recorded latencies with ties in the order of the selectors, as the policy says.
\<close>

lemma group_candidates:
  fixes clk :: "nat \<Rightarrow> nat" and g :: "'d GroupDialer"
  assumes "\<And>xs. mset (shuffle xs) = mset xs"
  defines "cs \<equiv> ordered_candidates shuffle clk g"
  shows "distinct cs \<and> set cs = (if alive_set clk g = {} then {..<length (gd_nodes g)} else alive_set clk g)
    \<and> (cs = [] \<longleftrightarrow> gd_nodes g = [])
    \<and> (gd_policy g = PolicyFixed \<longrightarrow> sorted cs)
    \<and> (gd_policy g \<in> {PolicyMin, PolicyMinAvg10, PolicyMinMovingAvg} \<longrightarrow>
         sorted (map (\<lambda>i. latency_key (gd_nodes g ! i)) cs)
         \<and> (\<forall>k. sorted (filter (\<lambda>i. latency_key (gd_nodes g ! i) = k) cs)))"
proof -
  have c: "distinct cs" "set cs = (if alive_set clk g = {} then {..<length (gd_nodes g)} else alive_set clk g)"
    unfolding cs_def by (rule candidates_set [OF assms(1)])+
  have "alive_set clk g = {} \<or> gd_nodes g \<noteq> []" by (auto simp: alive_set_def)
  with c(2) have e: "cs = [] \<longleftrightarrow> gd_nodes g = []" by (auto simp flip: set_empty split: if_splits)
  have f: "sorted cs" if "gd_policy g = PolicyFixed"
    using that pool_facts(2) by (simp add: cs_def ordered_candidates_def)
  have "cs = sort_key (\<lambda>i. latency_key (gd_nodes g ! i)) (candidate_pool clk g)"
    if "gd_policy g \<in> {PolicyMin, PolicyMinAvg10, PolicyMinMovingAvg}"
    using that by (auto simp: cs_def ordered_candidates_def Let_def)
  then have s: "sorted (map (\<lambda>i. latency_key (gd_nodes g ! i)) cs)
      \<and> (\<forall>k. sorted (filter (\<lambda>i. latency_key (gd_nodes g ! i) = k) cs))"
    if "gd_policy g \<in> {PolicyMin, PolicyMinAvg10, PolicyMinMovingAvg}"
    using that by (simp add: sort_key_stable sorted_wrt_filter pool_facts(2))
  from c e f s show ?thesis by blast
qed

section \<open>Failover\<close>

definition same_group :: "'d GroupDialer \<Rightarrow> 'd GroupDialer \<Rightarrow> bool" where
  "same_group g h \<longleftrightarrow> map gn_dialer (gd_nodes g) = map gn_dialer (gd_nodes h) \<and> gd_name g = gd_name h"

lemma same_group_length: "same_group g h \<Longrightarrow> length (gd_nodes g) = length (gd_nodes h)"
  unfolding same_group_def using map_eq_imp_length_eq by blast

lemma same_group_dialer: "same_group g h \<Longrightarrow> i < length (gd_nodes h) \<Longrightarrow> gn_dialer (gd_nodes g ! i) = gn_dialer (gd_nodes h ! i)"
  by (metis same_group_def same_group_length nth_map)

lemma same_group_set_node:
  assumes "\<And>n. gn_dialer (f n) = gn_dialer n"
  shows "same_group (set_node i f g) h = same_group g h"
proof -
  have "map gn_dialer (gd_nodes (set_node i f g)) = map gn_dialer (gd_nodes g)"
    using assms by (cases "i < length (gd_nodes g)") (auto simp: set_node_def map_update nth_list_update intro!: nth_equalityI)
  then show ?thesis by (simp add: same_group_def) (simp add: set_node_def)
qed

lemma same_group_marks [simp]:
  "same_group (set_node i (mark_dead t) g) h = same_group g h" "same_group (set_node i (mark_alive l) g) h = same_group g h"
  by (rule same_group_set_node, simp add: mark_dead_def mark_alive_def)+

definition outcome :: "('d, 'c, 'e) attempts \<Rightarrow> 'd GroupDialer \<Rightarrow> nat list \<Rightarrow> nat \<Rightarrow> nat \<Rightarrow> 'e + 'c" where
  "outcome w g cs n j = at_result w (n + j) (gn_dialer (gd_nodes g ! (cs ! j)))"

lemma dial_loop_spec:
  assumes "\<And>k h. same_group (at_others w k h) h" "same_group g g0" "list_all (\<lambda>i. i < length (gd_nodes g0)) cs"
  shows "(\<exists>j conn. j < length cs \<and> outcome w g0 cs n j = Inr conn \<and> (\<forall>j' < j. \<exists>e. outcome w g0 cs n j' = Inl e)
           \<and> (\<exists>g'. dial_loop w n cs le g = (Inr conn, g') \<and> gd_all_dead_until g' = None
                \<and> gn_alive (gd_nodes g' ! (cs ! j))
                \<and> gn_last_latency_ms (gd_nodes g' ! (cs ! j)) = elapsed_ms (at_started w (n + j)) (at_finished w (n + j))))
       \<or> ((\<forall>j < length cs. \<exists>e. outcome w g0 cs n j = Inl e)
          \<and> (\<exists>e g'. dial_loop w n cs le g = (Inl e, g') \<and> gd_all_dead_until g' = Some (at_end w + GROUP_ALL_DEAD_COOLDOWN)))"
  using assms(2,3) unfolding outcome_def
proof (induction cs arbitrary: n le g)
  case Nil
  then show ?case by (simp add: enter_group_cooldown_def)
next
  case (Cons i cs)
  have i: "i < length (gd_nodes g0)" and cs: "list_all (\<lambda>i. i < length (gd_nodes g0)) cs" using Cons.prems by simp_all
  let ?h = "at_others w n g"
  have d: "gn_dialer (gd_nodes g ! i) = gn_dialer (gd_nodes g0 ! i)" by (rule same_group_dialer [OF Cons.prems(1) i])
  have h: "same_group ?h g0" using assms(1) [of n g] Cons.prems(1) by (simp add: same_group_def)
  show ?case
  proof (cases "at_result w n (gn_dialer (gd_nodes g0 ! i))")
    case (Inr conn)
    have "i < length (gd_nodes ?h)" using i same_group_length [OF h] by simp
    with Inr d show ?thesis
      by (intro disjI1 exI [of _ 0]) (simp add: Let_def clear_group_cooldown_def set_node_def mark_alive_def)
  next
    case (Inl e)
    let ?g = "set_node i (mark_dead (at_finished w n)) ?h"
    have step: "dial_loop w n (i # cs) le g = dial_loop w (Suc n) cs (Some e) ?g" using Inl d by simp
    have "same_group ?g g0" using h by simp
    from Cons.IH [OF this cs, of "Suc n" "Some e"] show ?thesis
    proof (elim disjE exE conjE)
      fix j conn g'
      assume "j < length cs" "at_result w (Suc n + j) (gn_dialer (gd_nodes g0 ! (cs ! j))) = Inr conn"
        "\<forall>j'<j. \<exists>e. at_result w (Suc n + j') (gn_dialer (gd_nodes g0 ! (cs ! j'))) = Inl e"
        "dial_loop w (Suc n) cs (Some e) ?g = (Inr conn, g')" "gd_all_dead_until g' = None" "gn_alive (gd_nodes g' ! (cs ! j))"
        "gn_last_latency_ms (gd_nodes g' ! (cs ! j)) = elapsed_ms (at_started w (Suc n + j)) (at_finished w (Suc n + j))"
      with Inl step show ?thesis
        by (intro disjI1 exI [of _ "Suc j"] exI [of _ conn]) (auto simp: less_Suc_eq_0_disj)
    next
      fix e' g'
      assume "\<forall>j<length cs. \<exists>e. at_result w (Suc n + j) (gn_dialer (gd_nodes g0 ! (cs ! j))) = Inl e"
        "dial_loop w (Suc n) cs (Some e) ?g = (Inl e', g')" "gd_all_dead_until g' = Some (at_end w + GROUP_ALL_DEAD_COOLDOWN)"
      with Inl step show ?thesis by (intro disjI2) (auto simp: less_Suc_eq_0_disj)
    qed
  qed
qed

text \<open>
  C13: Failover.  A group that is not cooling down asks its candidates in order.  It returns the
  connection of the first one that succeeds, records that node as alive with the measured latency, and
  leaves cooldown; if all of them fail it returns an error and cools down.  The other users of the group
  may change which nodes are marked dead meanwhile, but not the nodes themselves.
\<close>

theorem group_dial_failover:
  assumes "\<And>xs. mset (shuffle xs) = mset xs" "\<And>k h. same_group (at_others w k h) h" "\<not> in_group_cooldown now g"
  shows "let cs = ordered_candidates shuffle clk g; out = outcome w g cs 0; (r, g') = try_candidates shuffle now clk w g
    in (\<exists>j conn. j < length cs \<and> out j = Inr conn \<and> (\<forall>j' < j. \<exists>e. out j' = Inl e)
          \<and> r = Inr conn \<and> gd_all_dead_until g' = None
          \<and> gn_alive (gd_nodes g' ! (cs ! j))
          \<and> gn_last_latency_ms (gd_nodes g' ! (cs ! j)) = elapsed_ms (at_started w j) (at_finished w j))
     \<or> ((\<forall>j < length cs. \<exists>e. out j = Inl e)
          \<and> (\<exists>e. r = Inl e) \<and> gd_all_dead_until g' = Some (at_end w + GROUP_ALL_DEAD_COOLDOWN))"
proof -
  let ?cs = "ordered_candidates shuffle clk g"
  have c: "try_candidates shuffle now clk w g = dial_loop w 0 ?cs None g"
    using assms(3) by (simp add: try_candidates_def)
  have "same_group g g" by (simp add: same_group_def)
  moreover have "list_all (\<lambda>i. i < length (gd_nodes g)) ?cs"
    by (rule candidates_bound [OF assms(1)])
  ultimately show ?thesis
    using dial_loop_spec [OF assms(2), where n = 0 and le = None] by (fastforce simp: Let_def c)
qed

lemma dial_loop_untouched:
  assumes "at_others w = (\<lambda>_ h. h)" "i \<notin> set cs"
  shows "gd_nodes (snd (dial_loop w n cs le g)) ! i = gd_nodes g ! i"
  using assms(2)
  by (induction cs arbitrary: n le g)
    (auto simp: assms(1) Let_def enter_group_cooldown_def clear_group_cooldown_def set_node_def split: sum.splits)

lemma dial_loop_dead:
  assumes "at_others w = (\<lambda>_ h. h)" "distinct cs" "list_all (\<lambda>i. i < length (gd_nodes g)) cs"
    and "j < length cs" "\<forall>j' \<le> j. \<exists>e. outcome w g cs n j' = Inl e"
  shows "gd_nodes (snd (dial_loop w n cs le g)) ! (cs ! j) = mark_dead (at_finished w (n + j)) (gd_nodes g ! (cs ! j))"
  using assms(2-5)
proof (induction cs arbitrary: n le g j)
  case (Cons i cs)
  let ?g = "set_node i (mark_dead (at_finished w n)) g"
  from Cons.prems(4) obtain e where e: "at_result w n (gn_dialer (gd_nodes g ! i)) = Inl e" by (auto simp: outcome_def)
  then have step: "dial_loop w n (i # cs) le g = dial_loop w (Suc n) cs (Some e) ?g" by (simp add: assms(1))
  show ?case
  proof (cases j)
    case 0
    have "gd_nodes (snd (dial_loop w (Suc n) cs (Some e) ?g)) ! i = gd_nodes ?g ! i"
      using Cons.prems(1) by (intro dial_loop_untouched [OF assms(1)]) simp
    with step 0 Cons.prems(2) show ?thesis by (simp add: set_node_def)
  next
    case (Suc m)
    have other: "gd_nodes ?g ! (cs ! l) = gd_nodes g ! (cs ! l)" if "l < length cs" for l
      using that Cons.prems(1) by (auto simp: set_node_def intro!: nth_list_update_neq)
    have "\<exists>e. outcome w ?g cs (Suc n) j' = Inl e" if "j' \<le> m" for j'
      using Cons.prems(4) [rule_format, of "Suc j'"] Cons.prems(3) that Suc other by (simp add: outcome_def)
    then have "gd_nodes (snd (dial_loop w (Suc n) cs (Some e) ?g)) ! (cs ! m)
        = mark_dead (at_finished w (Suc n + m)) (gd_nodes ?g ! (cs ! m))"
      using Cons.prems Suc by (intro Cons.IH) (auto simp: set_node_def)
    with step Suc Cons.prems(3) show ?thesis by (simp add: other)
  qed
qed simp

lemma dial_loop_length: "at_others w = (\<lambda>_ h. h) \<Longrightarrow> length (gd_nodes (snd (dial_loop w n cs le g))) = length (gd_nodes g)"
  by (induction cs arbitrary: n le g)
    (auto simp: Let_def enter_group_cooldown_def clear_group_cooldown_def set_node_def split: sum.splits)


section \<open>Groups of a configuration\<close>

lemma find_key_None: "k \<notin> f ` set xs \<Longrightarrow> find (\<lambda>y. f y = k) xs = None"
  by (induction xs) auto

lemma find_key: "distinct (map f xs) \<Longrightarrow> x \<in> set xs \<Longrightarrow> find (\<lambda>y. f y = f x) xs = Some x"
proof (induction xs)
  case (Cons y ys)
  then show ?case by (cases "x = y") (auto dest: imageI [of x "set ys" f])
qed simp

lemma group_dialers_fold:
  assumes "distinct (map gc_name gs)"
  shows "map_of (foldl (\<lambda>m grp. case f grp of None \<Rightarrow> m | Some d \<Rightarrow> map_insert (gc_name grp) d m) m0 gs) name
    = (case find (\<lambda>grp. gc_name grp = name) gs of
         None \<Rightarrow> map_of m0 name
       | Some grp \<Rightarrow> (case f grp of None \<Rightarrow> map_of m0 name | Some d \<Rightarrow> Some d))"
  using assms
proof (induction gs arbitrary: m0)
  case (Cons grp gs)
  have "find (\<lambda>x. gc_name x = gc_name grp) gs = None" using Cons.prems by (intro find_key_None) simp
  with Cons show ?case by (auto split: option.splits)
qed simp

lemma group_dialer_lookup:
  assumes "distinct (map gc_name (os_groups (dae_outbounds c)))" "grp \<in> set (os_groups (dae_outbounds c))"
  shows "map_of (build_outbound_group_dialers rx sha224 ns mark (Some c)) (gc_name grp)
    = build_group_dialer rx sha224 ns mark (os_nodes (dae_outbounds c)) grp"
  using group_dialers_fold [OF assms(1), of "build_group_dialer rx sha224 ns mark (os_nodes (dae_outbounds c))" "[]" "gc_name grp"]
    find_key [OF assms]
  by (simp add: build_outbound_group_dialers_def split: option.splits)

lemma anchor_mset: "mset (anchor s nodes) = mset nodes"
proof (cases "find (\<lambda>i. gn_name (nodes ! i) = s) [0..<length nodes]")
  case (Some pos)
  then have "pos < length nodes" by (auto simp: find_Some_iff)
  then have "mset nodes = mset (take pos nodes @ nodes ! pos # drop (Suc pos) nodes)"
    by (simp flip: id_take_nth_drop)
  with Some show ?thesis by (simp add: anchor_def)
qed (simp add: anchor_def)

lemma anchor_first:
  assumes "s \<in> gn_name ` set nodes"
  shows "gn_name (hd (anchor s nodes)) = s"
proof -
  obtain i where "i < length nodes" "gn_name (nodes ! i) = s" using assms by (auto simp: in_set_conv_nth)
  then have "find (\<lambda>i. gn_name (nodes ! i) = s) [0..<length nodes] \<noteq> None" by (auto simp: find_None_iff)
  then obtain pos where p: "find (\<lambda>i. gn_name (nodes ! i) = s) [0..<length nodes] = Some pos" by blast
  then have "gn_name (nodes ! pos) = s" by (auto simp: find_Some_iff)
  with p show ?thesis by (simp add: anchor_def)
qed

definition buildable :: "OutboundNodeConfig \<Rightarrow> bool" where
  "buildable node \<longleftrightarrow> parse_socket_addr (nc_address node) \<noteq> None
     \<and> (nc_protocol node = ''vmess'' \<longrightarrow> opt_all (\<lambda>net. VMessNetwork_from_str net \<noteq> None) (nc_network node))"

lemma build_group_nodes_names:
  assumes "list_all node_wf nodes"
  shows "map gn_name (build_group_nodes sha224 ns mark nodes) = map nc_name (filter buildable nodes)"
  using assms
proof (induction nodes)
  case (Cons n ns')
  have "(\<exists>d. build_dialer sha224 n ns mark = Inr d) \<longleftrightarrow> buildable n"
    using Cons.prems build_dialer_iff [of n] by (simp add: buildable_def)
  then show ?case
    using Cons by (cases "build_dialer sha224 n ns mark") (auto simp: build_group_nodes_def map_filter_simps GroupNode_new_def)
qed (simp add: build_group_nodes_def map_filter_simps)

lemma build_group_nodes_new: "n \<in> set (build_group_nodes sha224 ns mark nodes) \<Longrightarrow> gn_alive n"
proof -
  assume "n \<in> set (build_group_nodes sha224 ns mark nodes)"
  then obtain node where "(case build_dialer sha224 node ns mark of Inr d \<Rightarrow> Some (GroupNode_new (nc_name node) d) | Inl _ \<Rightarrow> None) = Some n"
    by (auto simp: build_group_nodes_def set_map_filter)
  then show ?thesis by (cases "build_dialer sha224 node ns mark") (auto simp: GroupNode_new_def)
qed


section \<open>Examples and findings\<close>

definition demo_group :: "nat GroupDialer" where
  "demo_group = GroupDialer_new ''g'' [GroupNode_new ''a'' 0, GroupNode_new ''b'' 1] PolicyFixed"

text \<open>The first node refuses every connection, the second accepts; an attempt takes five milliseconds.\<close>

definition demo_attempts :: "(nat, nat, unit) attempts" where
  "demo_attempts =
     \<lparr>at_result = (\<lambda>_ d. if d = 0 then Inl () else Inr d), at_started = (\<lambda>_. 0), at_finished = (\<lambda>_. 5 * 10 ^ 6),
      at_others = (\<lambda>_ h. h), at_end = 10 ^ 7\<rparr>"

lemma demo_group_facts:
  "ordered_candidates rev (\<lambda>_. 0) demo_group = [0, 1]" "\<not> in_group_cooldown 0 demo_group"
  "at_others demo_attempts = (\<lambda>_ h. h)"
  by code_simp (simp_all add: demo_group_def GroupDialer_new_def in_group_cooldown_def demo_attempts_def)

theorem group_dial_failover_witness:
  "fst (try_candidates rev 0 (\<lambda>_. 0) demo_attempts demo_group) = Inr 1
   \<and> gn_last_latency_ms (gd_nodes (snd (try_candidates rev 0 (\<lambda>_. 0) demo_attempts demo_group)) ! 1) = 5"
proof -
  let ?t = "try_candidates rev 0 (\<lambda>_. 0) demo_attempts demo_group"
  have o: "outcome demo_attempts demo_group [0, 1] 0 0 = Inl ()" "outcome demo_attempts demo_group [0, 1] 0 1 = Inr 1"
    by (simp_all add: outcome_def demo_attempts_def demo_group_def GroupDialer_new_def GroupNode_new_def)
  have e: "elapsed_ms (at_started demo_attempts 1) (at_finished demo_attempts 1) = 5"
    by (simp add: elapsed_ms_def demo_attempts_def)
  obtain r g' where t: "?t = (r, g')" by (cases ?t)
  have "\<exists>j conn. j < 2 \<and> outcome demo_attempts demo_group [0, 1] 0 j = Inr conn \<and> r = Inr conn
      \<and> gn_last_latency_ms (gd_nodes g' ! ([0, 1] ! j)) = elapsed_ms (at_started demo_attempts j) (at_finished demo_attempts j)"
  proof -
    have "mset (rev xs) = mset xs" "same_group (at_others demo_attempts k h) h" for xs :: "nat list" and k h
      by (simp_all add: demo_group_facts same_group_def)
    from group_dial_failover [OF this demo_group_facts(2), of "\<lambda>_. 0"] show ?thesis
      unfolding t Let_def demo_group_facts(1) prod.case
    proof (elim disjE exE conjE)
      assume "\<forall>j < length [0, 1]. \<exists>e. outcome demo_attempts demo_group [0, 1] 0 j = Inl e"
      then have "\<exists>e. outcome demo_attempts demo_group [0, 1] 0 1 = Inl e" by simp
      with o(2) show ?thesis by simp
    qed (auto simp: numeral_2_eq_2)
  qed
  then obtain j conn where j: "j < 2" "outcome demo_attempts demo_group [0, 1] 0 j = Inr conn" "r = Inr conn"
      "gn_last_latency_ms (gd_nodes g' ! ([0, 1] ! j)) = elapsed_ms (at_started demo_attempts j) (at_finished demo_attempts j)"
    by blast
  then have "j = 1" using o(1) by (cases j) auto
  with j o(2) e t show ?thesis by simp
qed


text \<open>
  A latency below one millisecond is stored as zero, which means unknown, and the policies that prefer
  the lowest latency put such a node behind every node with a known latency.
\<close>

lemma fast_node_sorts_last:
  assumes "finished - started < 10 ^ 6" "gn_last_latency_ms n \<noteq> 0" "gn_last_latency_ms n \<noteq> - 1"
  shows "latency_key n < latency_key (mark_alive (elapsed_ms started finished) m)"
proof -
  have "elapsed_ms started finished = 0" using assms(1) by (simp add: elapsed_ms_def)
  then show ?thesis
    using assms(2,3) word_order.not_eq_extremum [of "gn_last_latency_ms n"] by (simp add: latency_key_def mark_alive_def)
qed

text \<open>The policies named after averages use the last latency, as \<^verbatim>\<open>min\<close> does.\<close>

lemma average_policies_are_min:
  "ordered_candidates shuffle clk (g\<lparr>gd_policy := PolicyMinAvg10\<rparr>) = ordered_candidates shuffle clk (g\<lparr>gd_policy := PolicyMin\<rparr>)"
  "ordered_candidates shuffle clk (g\<lparr>gd_policy := PolicyMinMovingAvg\<rparr>) = ordered_candidates shuffle clk (g\<lparr>gd_policy := PolicyMin\<rparr>)"
  by (simp_all add: ordered_candidates_def candidate_pool_def Let_def)

text \<open>
  The address of a proxy for rule-set downloads is that of a SOCKS5 node when both questions select the
  same node.  A random group may select another node for the second question, and then the download
  speaks SOCKS5 to a server of another protocol.
\<close>

lemma resolver_consistent:
  assumes "map_of (pr_group_dialers pr) proxy = Some g" "current_node shuffle' clk' g = current_node shuffle clk g"
    and "resolve_proxy shuffle clk shuffle' clk' pr proxy = Some addr"
  shows "\<exists>n. current_node shuffle clk g = Some n \<and> dialer_is_socks5 (gn_dialer n) \<and> dialer_addr (gn_dialer n) = addr"
  using assms by (auto simp: resolve_proxy_def group_is_socks5_def group_proxy_addr_def split: option.splits if_splits)

lemma resolver_random_mismatch:
  assumes "map_of (pr_group_dialers pr) proxy = Some g" "gd_nodes g = [n1, n2]" "gd_policy g = PolicyRandom"
    and "gn_alive n1" "gn_alive n2" "dialer_is_socks5 (gn_dialer n1)" "\<not> dialer_is_socks5 (gn_dialer n2)"
  shows "resolve_proxy (\<lambda>xs. xs) clk rev clk' pr proxy = Some (dialer_addr (gn_dialer n2))"
proof -
  have "candidate_pool c g = [0, 1]" for c
    using assms(2,4,5) by (simp add: candidate_pool_def is_alive_def upt_conv_Cons)
  then show ?thesis
    using assms by (simp add: resolve_proxy_def group_is_socks5_def group_proxy_addr_def current_node_def ordered_candidates_def)
qed

text \<open>
  A node whose address is a host name passes the validator, although the manual describes addresses as
  \<^verbatim>\<open>host:port\<close>; its dialer cannot be built, and a group of such nodes is left out.
\<close>

definition hostname_config :: DaefileConfig where
  "hostname_config =
     DaefileConfig_default\<lparr>dae_outbounds :=
       \<lparr>os_nodes = [(empty_node ''a'')\<lparr>nc_protocol := ''socks5'', nc_address := ''proxy.example:1080''\<rparr>],
        os_groups = [(empty_group ''g'')\<lparr>gc_selectors := [SelList [''a'']]\<rparr>]\<rparr>,
       dae_routing := \<lparr>rc_rules = [], rc_fallback = ''proxy(g)''\<rparr>\<rparr>"

lemma hostname_group_left_out:
  "validate_config demo_regex (\<lambda>_. []) hostname_config = Inr ()"
  "build_outbound_group_dialers demo_regex sha224 ns mark (Some hostname_config) = []"
proof -
  show "validate_config demo_regex (\<lambda>_. []) hostname_config = Inr ()" by code_simp
  have "parse_socket_addr ''proxy.example:1080'' = None" by code_simp
  then show "build_outbound_group_dialers demo_regex sha224 ns mark (Some hostname_config) = []"
    by (simp add: build_outbound_group_dialers_def hostname_config_def build_group_dialer_def resolve_group_nodes_def
        select_nodes_def push_unseen_def empty_group_def empty_node_def build_group_nodes_def build_dialer_def map_filter_simps
        ok_or_def)
qed


end
