(* ===== verification/Proxy_Addr.thy ===== *)
theory Proxy_Addr
  imports Dns_Forward Config_Types Rule_Store
begin

text \<open>
  Target addresses on the wire, as the protocols of the \<^verbatim>\<open>protocols\<close> crate write and read them.  The
  address formats agree up to the codes of the three address types (IPv4, domain, IPv6), so each encoder
  and decoder is written once over the codes, and the locale \<open>addr_codes\<close> proves their laws; every
  protocol is an interpretation.  Streams are lists of bytes, and \<^verbatim>\<open>read_exact\<close> on one that ends early
  is an error.
\<close>

section \<open>Targets\<close>

datatype proto_error =
  InvalidTarget string | InvalidPort string | DomainTooLong string | EmptyAddress | ShortIpv4 | ShortIpv6 | ShortDomain
| UnknownAddressType u8 | InvalidUuid string | ShortPacket | TruncatedPayload | UnexpectedEof | UnexpectedNetwork u8

definition strip_brackets :: "string \<Rightarrow> string" where
  "strip_brackets host =
     (if starts_with host ''['' \<and> ends_with host '']'' then take (length host - 2) (drop 1 host) else host)"

definition split_target :: "string \<Rightarrow> proto_error + string \<times> u16" where
  "split_target target =
     res_bind (ok_or (InvalidTarget target) (rsplit_once (CHR '':'') target)) (\<lambda>(host, port).
     res_bind (ok_or (InvalidPort target) (parse_u16 port)) (\<lambda>port.
       Inr (strip_brackets host, port)))"

section \<open>Address codes\<close>

record atyp =
  at_ipv4 :: u8
  at_domain :: u8
  at_ipv6 :: u8

definition socks_atyp :: atyp where "socks_atyp = \<lparr>at_ipv4 = 1, at_domain = 3, at_ipv6 = 4\<rparr>"

definition vmess_atyp :: atyp where "vmess_atyp = \<lparr>at_ipv4 = 1, at_domain = 2, at_ipv6 = 3\<rparr>"

definition tuic_atyp :: atyp where "tuic_atyp = \<lparr>at_ipv4 = 1, at_domain = 0, at_ipv6 = 2\<rparr>"

fun sock_addr_bytes :: "atyp \<Rightarrow> SocketAddr \<Rightarrow> u8 list" where
  "sock_addr_bytes c (SockV4 ip port) = at_ipv4 c # be_bytes 4 (unat ip) @ be_bytes 2 (unat port)"
| "sock_addr_bytes c (SockV6 ip port scope) = at_ipv6 c # be_bytes 16 (unat ip) @ be_bytes 2 (unat port)"

definition host_bytes :: "atyp \<Rightarrow> string \<Rightarrow> u8 list" where
  "host_bytes c host =
     (case parse_ipv4_addr host of
        Some ip \<Rightarrow> at_ipv4 c # be_bytes 4 (unat ip)
      | None \<Rightarrow>
          (case parse_ipv6_addr host of
             Some ip \<Rightarrow> at_ipv6 c # be_bytes 16 (unat ip)
           | None \<Rightarrow> at_domain c # of_nat (length host) # str_bytes host))"

definition decode_addr_with :: "atyp \<Rightarrow> u8 list \<Rightarrow> (proto_error + SocketAddr \<times> nat) run" where
  "decode_addr_with c data =
     (if data = [] then Ret (Inl EmptyAddress)
      else run_bind (index_get data 0) (\<lambda>t.
        if t = at_ipv4 c then
          (if length data < 7 then Ret (Inl ShortIpv4)
           else run_bind (slice_get data 1 5) (\<lambda>ip. run_bind (get_u16 data 5) (\<lambda>port.
             Ret (Inr (SockV4 (of_nat (be_nat ip)) port, 7)))))
        else if t = at_ipv6 c then
          (if length data < 19 then Ret (Inl ShortIpv6)
           else run_bind (slice_get data 1 17) (\<lambda>ip. run_bind (get_u16 data 17) (\<lambda>port.
             Ret (Inr (SockV6 (of_nat (be_nat ip)) port 0, 19)))))
        else if t = at_domain c then
          (if length data < 2 then Ret (Inl ShortDomain)
           else run_bind (index_get data 1) (\<lambda>l.
             let len = unat l
             in if length data < 2 + len + 2 then Ret (Inl ShortDomain)
                else run_bind (get_u16 data (2 + len)) (\<lambda>port. Ret (Inr (SockV4 0 port, 2 + len + 2)))))
        else Ret (Inl (UnknownAddressType t))))"

section \<open>Trojan\<close>

definition trojan_encode_socket_addr :: "SocketAddr \<Rightarrow> u8 list" where
  "trojan_encode_socket_addr dest = sock_addr_bytes socks_atyp dest"

definition trojan_encode_addr :: "string \<Rightarrow> u16 \<Rightarrow> u8 list" where
  "trojan_encode_addr host port = host_bytes socks_atyp host @ be_bytes 2 (unat port)"

definition trojan_decode_addr :: "u8 list \<Rightarrow> (proto_error + SocketAddr \<times> nat) run" where
  "trojan_decode_addr data = decode_addr_with socks_atyp data"

definition trojan_build_header :: "string \<Rightarrow> u8 \<Rightarrow> string \<Rightarrow> u16 \<Rightarrow> u8 list" where
  "trojan_build_header auth_hash cmd host port =
     [13, 10] @ str_bytes auth_hash @ [13, 10] @ [cmd] @ [13, 10] @ trojan_encode_addr host port @ [13, 10]"

definition trojan_handshake :: "string \<Rightarrow> string \<Rightarrow> proto_error + u8 list" where
  "trojan_handshake auth_hash target =
     res_bind (split_target target) (\<lambda>(host, port). Inr (trojan_build_header auth_hash 1 host port))"

text \<open>The datagrams of a UDP session: \<^verbatim>\<open>[ATYP][ADDR][PORT][LEN(2)][PAYLOAD]\<close>.\<close>

definition framed_send :: "(SocketAddr \<Rightarrow> u8 list) \<Rightarrow> SocketAddr \<Rightarrow> u8 list \<Rightarrow> u8 list" where
  "framed_send enc dest payload = enc dest @ be_bytes 2 (unat (of_nat (length payload) :: u16)) @ payload"

definition framed_recv ::
    "(u8 list \<Rightarrow> (proto_error + SocketAddr \<times> nat) run) \<Rightarrow> u8 list \<Rightarrow> (proto_error + SocketAddr \<times> u8 list) run" where
  "framed_recv dec buf =
     try_bind (dec buf) (\<lambda>(dest, consumed).
       if length buf < consumed + 2 then Ret (Inl ShortPacket)
       else run_bind (get_u16 buf consumed) (\<lambda>l.
         let pkt_len = unat l
         in if length buf < consumed + 2 + pkt_len then Ret (Inl TruncatedPayload)
            else run_bind (slice_get buf (consumed + 2) (consumed + 2 + pkt_len)) (\<lambda>payload. Ret (Inr (dest, payload)))))"

definition trojan_udp_send :: "SocketAddr \<Rightarrow> u8 list \<Rightarrow> u8 list" where
  "trojan_udp_send dest payload = framed_send trojan_encode_socket_addr dest payload"

definition trojan_udp_recv :: "u8 list \<Rightarrow> (proto_error + SocketAddr \<times> u8 list) run" where
  "trojan_udp_recv buf = framed_recv trojan_decode_addr buf"

section \<open>Shadowsocks\<close>

definition ss_encode_addr :: "string \<Rightarrow> u16 \<Rightarrow> proto_error + u8 list" where
  "ss_encode_addr host port =
     (if parse_ipv4_addr host = None \<and> parse_ipv6_addr host = None \<and> length host > 255 then Inl (DomainTooLong host)
      else Inr (host_bytes socks_atyp host @ be_bytes 2 (unat port)))"

definition ss_encode_address :: "string \<Rightarrow> proto_error + u8 list" where
  "ss_encode_address target = res_bind (split_target target) (\<lambda>(host, port). ss_encode_addr host port)"

definition ss_encode_socket_addr :: "SocketAddr \<Rightarrow> u8 list" where
  "ss_encode_socket_addr dest = sock_addr_bytes socks_atyp dest"

definition ss_decode_addr :: "u8 list \<Rightarrow> (proto_error + SocketAddr \<times> nat) run" where
  "ss_decode_addr data = decode_addr_with socks_atyp data"

section \<open>VMess\<close>

definition vmess_encode_address_port :: "string \<Rightarrow> proto_error + u8 list \<times> u16" where
  "vmess_encode_address_port target =
     res_bind (split_target target) (\<lambda>(host, port). Inr (host_bytes vmess_atyp host, port))"

definition vmess_encode_packet_addr :: "SocketAddr \<Rightarrow> u8 list" where
  "vmess_encode_packet_addr dest = sock_addr_bytes vmess_atyp dest"

definition vmess_decode_packet_addr :: "u8 list \<Rightarrow> (proto_error + SocketAddr \<times> nat) run" where
  "vmess_decode_packet_addr data = decode_addr_with vmess_atyp data"

definition vmess_udp_send :: "SocketAddr \<Rightarrow> u8 list \<Rightarrow> u8 list" where
  "vmess_udp_send dest payload = framed_send vmess_encode_packet_addr dest payload"

definition vmess_udp_recv :: "u8 list \<Rightarrow> (proto_error + SocketAddr \<times> u8 list) run" where
  "vmess_udp_recv buf = framed_recv vmess_decode_packet_addr buf"

definition fnv1a32 :: "u8 list \<Rightarrow> u32" where
  "fnv1a32 data = foldl (\<lambda>h b. (h XOR ucast b) * 0x01000193) 0x811c9dc5 data"

section \<open>Reading from a stream\<close>

definition read_exact :: "nat \<Rightarrow> u8 list \<Rightarrow> proto_error + u8 list \<times> u8 list" where
  "read_exact n s = (if n \<le> length s then Inr (take n s, drop n s) else Inl UnexpectedEof)"

definition read_u8 :: "u8 list \<Rightarrow> proto_error + u8 \<times> u8 list" where
  "read_u8 s = res_bind (read_exact 1 s) (\<lambda>(bs, s). Inr (hd bs, s))"

definition read_stream_addr :: "atyp \<Rightarrow> u8 list \<Rightarrow> proto_error + SocketAddr \<times> u8 list" where
  "read_stream_addr c s =
     res_bind (read_u8 s) (\<lambda>(t, s).
       if t = at_ipv4 c then
         res_bind (read_exact 6 s) (\<lambda>(buf, s). Inr (SockV4 (of_nat (be_nat (take 4 buf))) (of_nat (be_nat (drop 4 buf))), s))
       else if t = at_ipv6 c then
         res_bind (read_exact 18 s) (\<lambda>(buf, s). Inr (SockV6 (of_nat (be_nat (take 16 buf))) (of_nat (be_nat (drop 16 buf))) 0, s))
       else if t = at_domain c then
         res_bind (read_u8 s) (\<lambda>(len, s).
         res_bind (read_exact (unat len) s) (\<lambda>(name, s).
         res_bind (read_exact 2 s) (\<lambda>(port, s). Inr (SockV4 0 (of_nat (be_nat port)), s))))
       else Inl (UnknownAddressType t))"

section \<open>Juicity\<close>

definition NETWORK_TCP :: u8 where "NETWORK_TCP = 1"

definition NETWORK_UDP :: u8 where "NETWORK_UDP = 3"

definition juicity_encode_header :: "u8 \<Rightarrow> string \<Rightarrow> u16 \<Rightarrow> u8 list" where
  "juicity_encode_header network host port = network # host_bytes socks_atyp host @ be_bytes 2 (unat port)"

definition juicity_encode_proxy_header :: "string \<Rightarrow> proto_error + u8 list" where
  "juicity_encode_proxy_header target =
     res_bind (split_target target) (\<lambda>(host, port). Inr (juicity_encode_header NETWORK_TCP host port))"

definition juicity_encode_packet_header :: "u8 \<Rightarrow> SocketAddr \<Rightarrow> nat \<Rightarrow> u8 list" where
  "juicity_encode_packet_header network dest payload_len =
     network # sock_addr_bytes socks_atyp dest @ be_bytes 2 (unat (of_nat payload_len :: u16))"

definition juicity_udp_send :: "SocketAddr \<Rightarrow> u8 list \<Rightarrow> u8 list" where
  "juicity_udp_send dest payload = juicity_encode_packet_header NETWORK_UDP dest (length payload) @ payload"

definition juicity_udp_recv :: "u8 list \<Rightarrow> proto_error + (SocketAddr \<times> u8 list) \<times> u8 list" where
  "juicity_udp_recv s =
     res_bind (read_u8 s) (\<lambda>(network, s).
       if network \<noteq> NETWORK_UDP then Inl (UnexpectedNetwork network)
       else res_bind (read_stream_addr socks_atyp s) (\<lambda>(dest, s).
            res_bind (read_exact 2 s) (\<lambda>(lenb, s).
            res_bind (read_exact (be_nat lenb) s) (\<lambda>(payload, s). Inr ((dest, payload), s)))))"

section \<open>TUIC\<close>

definition TUIC_VERSION :: u8 where "TUIC_VERSION = 5"

definition CMD_PACKET :: u8 where "CMD_PACKET = 2"

definition tuic_encode_address :: "string \<Rightarrow> proto_error + u8 list" where
  "tuic_encode_address target =
     res_bind (split_target target) (\<lambda>(host, port). Inr (host_bytes tuic_atyp host @ be_bytes 2 (unat port)))"

definition tuic_encode_addr :: "string \<Rightarrow> u16 \<Rightarrow> u8 list" where
  "tuic_encode_addr host port = host_bytes tuic_atyp host @ be_bytes 2 (unat port)"

text \<open>The header of a packet command and its payload; \<open>host\<close> is the printed destination address.\<close>

definition tuic_packet :: "u16 \<Rightarrow> u16 \<Rightarrow> string \<Rightarrow> u16 \<Rightarrow> u8 list \<Rightarrow> u8 list" where
  "tuic_packet assoc_id pkt_id host port payload =
     [TUIC_VERSION, CMD_PACKET] @ be_bytes 2 (unat assoc_id) @ be_bytes 2 (unat pkt_id) @ [1, 0]
     @ be_bytes 2 (unat (of_nat (length payload) :: u16)) @ tuic_encode_addr host port @ payload"

definition parse_packet_command :: "u8 list \<Rightarrow> proto_error + (SocketAddr \<times> u8 list) option \<times> u8 list" where
  "parse_packet_command s =
     res_bind (read_exact 2 s) (\<lambda>(head, s).
       if head ! 1 \<noteq> CMD_PACKET then Inr (None, s)
       else res_bind (read_exact 8 s) (\<lambda>(meta, s).
              let size = be_nat (drop 6 meta)
              in res_bind (read_stream_addr tuic_atyp s) (\<lambda>(dest, s).
                 res_bind (read_exact size s) (\<lambda>(payload, s). Inr (Some (dest, payload), s)))))"

section \<open>UUIDs\<close>

fun uuid_bytes :: "nat \<Rightarrow> string \<Rightarrow> nat \<Rightarrow> (unit + u8 list) run" where
  "uuid_bytes 0 hex i = Ret (Inr [])"
| "uuid_bytes (Suc n) hex i =
     (if is_char_boundary hex (i * 2) \<and> is_char_boundary hex (i * 2 + 2) then
        (case parse_uint 16 255 (take 2 (drop (i * 2) hex)) of
           None \<Rightarrow> Ret (Inl ())
         | Some b \<Rightarrow> try_bind (uuid_bytes n hex (Suc i)) (\<lambda>bs. Ret (Inr (of_nat b # bs))))
      else Panic)"

definition parse_uuid :: "string \<Rightarrow> (proto_error + u8 list) run" where
  "parse_uuid uuid =
     (let hex = filter (\<lambda>c. c \<noteq> CHR ''-'') uuid
      in if length hex \<noteq> 32 then Ret (Inl (InvalidUuid uuid))
         else run_bind (uuid_bytes 16 hex 0) (\<lambda>r. Ret (case r of Inl _ \<Rightarrow> Inl (InvalidUuid uuid) | Inr bs \<Rightarrow> Inr bs)))"

section \<open>Laws of the address formats\<close>

fun canonical :: "SocketAddr \<Rightarrow> bool" where
  "canonical (SockV4 ip port) \<longleftrightarrow> True"
| "canonical (SockV6 ip port scope) \<longleftrightarrow> scope = 0"

lemma be_nat_less: "be_nat bs < 256 ^ length bs"
  unfolding be_nat_def using le_value_less [of "rev bs"] by simp

lemma be_word:
  "of_nat (be_nat (be_bytes 2 (unat p))) = (p :: u16)" "of_nat (be_nat (be_bytes 4 (unat a))) = (a :: u32)"
  "of_nat (be_nat (be_bytes 16 (unat b))) = (b :: u128)"
  by (rule be_nat_word, simp)+

lemma read_exact_append [simp]: "length a = n \<Longrightarrow> read_exact n (a @ s) = Inr (a, s)"
  by (simp add: read_exact_def)

lemma read_u8_Cons [simp]: "read_u8 (b # s) = Inr (b, s)"
  by (simp add: read_u8_def read_exact_def)

lemma read_exact_shrinks: "read_exact n s = Inr (a, t) \<Longrightarrow> s = a @ t \<and> length a = n"
  by (auto simp: read_exact_def split: if_splits)

locale addr_codes =
  fixes c :: atyp
  assumes codes: "at_ipv4 c \<noteq> at_domain c" "at_ipv4 c \<noteq> at_ipv6 c" "at_domain c \<noteq> at_ipv6 c"
begin

lemma decode_sock:
  assumes "canonical dest"
  shows "decode_addr_with c (sock_addr_bytes c dest @ rest) = Ret (Inr (dest, length (sock_addr_bytes c dest)))"
proof (cases dest)
  case (SockV4 ip port)
  have "slice_get (at_ipv4 c # be_bytes 4 (unat ip) @ be_bytes 2 (unat port) @ rest) 1 5 = Ret (be_bytes 4 (unat ip))" by simp
  moreover have "get_u16 (at_ipv4 c # be_bytes 4 (unat ip) @ be_bytes 2 (unat port) @ rest) 5 = Ret port"
    using get_u16_at [of 5 "at_ipv4 c # be_bytes 4 (unat ip)" port rest] by simp
  ultimately show ?thesis using SockV4 by (simp add: decode_addr_with_def index_get_def be_word)
next
  case (SockV6 ip port scope)
  have "slice_get (at_ipv6 c # be_bytes 16 (unat ip) @ be_bytes 2 (unat port) @ rest) 1 17 = Ret (be_bytes 16 (unat ip))" by simp
  moreover have "get_u16 (at_ipv6 c # be_bytes 16 (unat ip) @ be_bytes 2 (unat port) @ rest) 17 = Ret port"
    using get_u16_at [of 17 "at_ipv6 c # be_bytes 16 (unat ip)" port rest] by simp
  ultimately show ?thesis using SockV6 assms codes by (simp add: decode_addr_with_def index_get_def be_word)
qed

lemma decode_total: "decode_addr_with c data \<noteq> Panic"
  by (auto simp: decode_addr_with_def run_bind_eq_Panic index_get_def Let_def)

lemma decode_consumes: "decode_addr_with c data = Ret (Inr (dest, n)) \<Longrightarrow> n \<le> length data"
  by (auto simp: decode_addr_with_def run_bind_eq_Ret index_get_def Let_def split: if_splits)

lemma stream_sock: "canonical dest \<Longrightarrow> read_stream_addr c (sock_addr_bytes c dest @ rest) = Inr (dest, rest)"
proof (cases dest)
  case (SockV4 ip port)
  have "read_exact 6 ((be_bytes 4 (unat ip) @ be_bytes 2 (unat port)) @ rest) = Inr (be_bytes 4 (unat ip) @ be_bytes 2 (unat port), rest)"
    by (rule read_exact_append) simp
  with SockV4 show ?thesis by (simp add: read_stream_addr_def be_word)
next
  case (SockV6 ip port scope)
  assume "canonical dest"
  have "read_exact 18 ((be_bytes 16 (unat ip) @ be_bytes 2 (unat port)) @ rest) = Inr (be_bytes 16 (unat ip) @ be_bytes 2 (unat port), rest)"
    by (rule read_exact_append) simp
  with SockV6 \<open>canonical dest\<close> codes show ?thesis by (simp add: read_stream_addr_def be_word)
qed

text \<open>A host is read back as its address, or as an unspecified address when it is a domain name.\<close>

lemma stream_host:
  assumes "parse_ipv4_addr host \<noteq> None \<or> parse_ipv6_addr host \<noteq> None \<or> length host \<le> 255"
  shows "read_stream_addr c (host_bytes c host @ be_bytes 2 (unat port) @ rest)
    = Inr (case parse_ipv4_addr host of Some ip \<Rightarrow> SockV4 ip port
           | None \<Rightarrow> (case parse_ipv6_addr host of Some ip \<Rightarrow> SockV6 ip port 0 | None \<Rightarrow> SockV4 0 port), rest)"
proof -
  consider ip where "parse_ipv4_addr host = Some ip"
    | ip where "parse_ipv4_addr host = None" "parse_ipv6_addr host = Some ip"
    | "parse_ipv4_addr host = None" "parse_ipv6_addr host = None" "length host \<le> 255"
    using assms by fastforce
  then show ?thesis
  proof cases
    case (1 ip)
    then show ?thesis using stream_sock [of "SockV4 ip port" rest] by (simp add: host_bytes_def)
  next
    case (2 ip)
    then show ?thesis using stream_sock [of "SockV6 ip port 0" rest] by (simp add: host_bytes_def)
  next
    case 3
    have "unat (of_nat (length host) :: u8) = length host" using 3(3) by (simp add: unat_of_nat take_bit_nat_def)
    with 3 codes show ?thesis by (simp add: host_bytes_def read_stream_addr_def be_word)
  qed
qed

lemma framed_roundtrip:
  assumes "canonical dest" "length payload < 65536"
  shows "framed_recv (decode_addr_with c) (framed_send (sock_addr_bytes c) dest payload) = Ret (Inr (dest, payload))"
proof -
  let ?a = "sock_addr_bytes c dest"
  have l: "unat (of_nat (length payload) :: u16) = length payload" using assms(2) by (simp add: unat_of_nat take_bit_nat_def)
  have "get_u16 (?a @ be_bytes 2 (length payload) @ payload) (length ?a) = Ret (of_nat (length payload))"
    using get_u16_at [of "length ?a" ?a "of_nat (length payload)" payload] l by simp
  then show ?thesis
    using decode_sock [OF assms(1)] l by (simp add: framed_recv_def framed_send_def Let_def)
qed

lemma framed_recv_total: "framed_recv (decode_addr_with c) buf \<noteq> Panic"
  using decode_total [of buf] by (auto simp: framed_recv_def try_bind_eq_Panic run_bind_eq_Panic Let_def)

end

interpretation socks_fmt: addr_codes socks_atyp
  by unfold_locales (simp_all add: socks_atyp_def)

interpretation vmess_fmt: addr_codes vmess_atyp
  by unfold_locales (simp_all add: vmess_atyp_def)

interpretation tuic_fmt: addr_codes tuic_atyp
  by unfold_locales (simp_all add: tuic_atyp_def)

lemmas codec_defs = trojan_encode_socket_addr_def trojan_decode_addr_def trojan_udp_send_def trojan_udp_recv_def
  vmess_encode_packet_addr_def vmess_decode_packet_addr_def vmess_udp_send_def vmess_udp_recv_def ss_decode_addr_def
  ss_encode_socket_addr_def

lemma framed_defs:
  "framed_recv trojan_decode_addr = framed_recv (decode_addr_with socks_atyp)"
  "framed_send trojan_encode_socket_addr = framed_send (sock_addr_bytes socks_atyp)"
  "framed_recv vmess_decode_packet_addr = framed_recv (decode_addr_with vmess_atyp)"
  "framed_send vmess_encode_packet_addr = framed_send (sock_addr_bytes vmess_atyp)"
  by (simp_all add: framed_recv_def framed_send_def codec_defs fun_eq_iff)

text \<open>
  The datagrams of the UDP sessions of trojan and vmess are read back: destination and payload arrive as
  they were sent, as long as the length field can hold the length.
\<close>

lemma framed_datagrams:
  assumes "canonical dest" "length payload < 65536"
  shows "trojan_udp_recv (trojan_udp_send dest payload) = Ret (Inr (dest, payload))"
    "vmess_udp_recv (vmess_udp_send dest payload) = Ret (Inr (dest, payload))"
  using socks_fmt.framed_roundtrip [OF assms] vmess_fmt.framed_roundtrip [OF assms]
  by (simp_all add: trojan_udp_recv_def trojan_udp_send_def vmess_udp_recv_def vmess_udp_send_def framed_defs)

lemma juicity_step:
  assumes "canonical dest" "length payload < 65536"
  shows "juicity_udp_recv (juicity_udp_send dest payload @ rest) = Inr ((dest, payload), rest)"
proof -
  have l: "unat (of_nat (length payload) :: u16) = length payload" using assms(2) by (simp add: unat_of_nat take_bit_nat_def)
  have n: "be_nat (be_bytes 2 (length payload)) = length payload" using assms(2) by (intro be_nat_be_bytes) simp
  show ?thesis
    using socks_fmt.stream_sock [OF assms(1), of "be_bytes 2 (length payload) @ payload @ rest"]
    by (simp add: juicity_udp_recv_def juicity_udp_send_def juicity_encode_packet_header_def l n)
qed

fun juicity_recv_n :: "nat \<Rightarrow> u8 list \<Rightarrow> proto_error + (SocketAddr \<times> u8 list) list \<times> u8 list" where
  "juicity_recv_n 0 s = Inr ([], s)"
| "juicity_recv_n (Suc n) s =
     res_bind (juicity_udp_recv s) (\<lambda>(d, s). res_bind (juicity_recv_n n s) (\<lambda>(ds, s). Inr (d # ds, s)))"

lemma juicity_stream:
  assumes "list_all (\<lambda>(dest, payload). canonical dest \<and> length payload < 65536) ds"
  shows "juicity_recv_n (length ds) (concat (map (\<lambda>(dest, payload). juicity_udp_send dest payload) ds) @ rest) = Inr (ds, rest)"
  using assms
proof (induction ds)
  case (Cons d ds)
  obtain dest payload where "d = (dest, payload)" by (cases d)
  with Cons juicity_step [of dest payload] show ?case by simp
qed simp

lemma tuic_step:
  assumes "parse_ipv4_addr host \<noteq> None \<or> parse_ipv6_addr host \<noteq> None \<or> length host \<le> 255" "length payload < 65536"
  shows "parse_packet_command (tuic_packet assoc_id pkt_id host port payload @ rest)
    = Inr (Some (case parse_ipv4_addr host of Some ip \<Rightarrow> SockV4 ip port
                 | None \<Rightarrow> (case parse_ipv6_addr host of Some ip \<Rightarrow> SockV6 ip port 0 | None \<Rightarrow> SockV4 0 port), payload), rest)"
proof -
  have l: "unat (of_nat (length payload) :: u16) = length payload" using assms(2) by (simp add: unat_of_nat take_bit_nat_def)
  have n: "be_nat (be_bytes 2 (length payload)) = length payload" using assms(2) by (intro be_nat_be_bytes) simp
  let ?meta = "be_bytes 2 (unat assoc_id) @ be_bytes 2 (unat pkt_id) @ [1, 0] @ be_bytes 2 (length payload)"
  let ?tail = "host_bytes tuic_atyp host @ be_bytes 2 (unat port) @ payload @ rest"
  have p: "tuic_packet assoc_id pkt_id host port payload @ rest = [TUIC_VERSION, CMD_PACKET] @ ?meta @ ?tail"
    by (simp add: tuic_packet_def tuic_encode_addr_def l)
  have h: "read_exact 2 ([TUIC_VERSION, CMD_PACKET] @ ?meta @ ?tail) = Inr ([TUIC_VERSION, CMD_PACKET], ?meta @ ?tail)"
    by (rule read_exact_append) simp
  have m: "read_exact 8 (?meta @ ?tail) = Inr (?meta, ?tail)" by (rule read_exact_append) simp
  show ?thesis
    unfolding p parse_packet_command_def h
    using m tuic_fmt.stream_host [OF assms(1), of port "payload @ rest"] by (simp add: Let_def n)
qed



text \<open>
  A domain name longer than 255 bytes is rejected by shadowsocks and SOCKS5.  Trojan, vmess, TUIC and
  juicity write its length modulo 256: the server reads a shorter name, takes the bytes after it for
  the port, and the rest of the name becomes payload.
\<close>

lemma long_domain_misread:
  assumes "parse_ipv4_addr host = None" "parse_ipv6_addr host = None" "length host = 256"
  shows "read_stream_addr socks_atyp (trojan_encode_addr host port)
    = Inr (SockV4 0 (of_nat (be_nat (str_bytes (take 2 host)))), str_bytes (drop 2 host) @ be_bytes 2 (unat port))"
    and "ss_encode_addr host port = Inl (DomainTooLong host)"
proof -
  have z: "of_nat 256 = (0 :: u8)" by code_simp
  have "str_bytes host = str_bytes (take 2 host) @ str_bytes (drop 2 host)"
    unfolding str_bytes_def map_append [symmetric] by simp
  moreover have "length (str_bytes (take 2 host)) = 2" using assms(3) by simp
  ultimately have "read_exact 2 (str_bytes host @ be_bytes 2 (unat port))
      = Inr (str_bytes (take 2 host), str_bytes (drop 2 host) @ be_bytes 2 (unat port))" by simp
  moreover have "read_exact 0 s = Inr ([], s)" for s by (simp add: read_exact_def)
  ultimately show "read_stream_addr socks_atyp (trojan_encode_addr host port)
    = Inr (SockV4 0 (of_nat (be_nat (str_bytes (take 2 host)))), str_bytes (drop 2 host) @ be_bytes 2 (unat port))"
    using assms z by (simp add: trojan_encode_addr_def host_bytes_def read_stream_addr_def socks_atyp_def)
  show "ss_encode_addr host port = Inl (DomainTooLong host)" using assms by (simp add: ss_encode_addr_def)
qed

section \<open>Reading UUIDs\<close>

definition hex2 :: "u8 \<Rightarrow> string" where
  "hex2 b = [hex_digit (unat b div 16), hex_digit (unat b mod 16)]"

definition uuid_hex :: "u8 list \<Rightarrow> string" where
  "uuid_hex bs = concat (map hex2 bs)"

lemma hex_digit_table:
  "list_all (\<lambda>n. to_digit 16 (hex_digit n) = Some n \<and> hex_digit n \<noteq> CHR ''+'' \<and> byte_of (hex_digit n) < 128) [0..<16]"
  by code_simp

lemma hex_digit_reads:
  assumes "n < 16"
  shows "to_digit 16 (hex_digit n) = Some n" "hex_digit n \<noteq> CHR ''+''" "byte_of (hex_digit n) < 128"
  using hex_digit_table assms by (simp_all add: list_all_iff)

lemma parse_hex2: "parse_uint 16 255 (hex2 b) = Some (unat b)" "is_ascii (hex2 b)"
proof -
  have b: "unat b < 256" using unat_lt [of b] by simp
  then have d: "unat b div 16 < 16" "unat b mod 16 < 16" by simp_all
  have "unat b div 16 * 16 + unat b mod 16 = unat b" by simp
  with b d show "parse_uint 16 255 (hex2 b) = Some (unat b)"
    by (simp add: hex2_def parse_uint_def hex_digit_reads)
  show "is_ascii (hex2 b)" using d by (simp add: hex2_def is_ascii_def hex_digit_reads)
qed

lemma length_uuid_hex: "length (uuid_hex bs) = 2 * length bs"
  by (induction bs) (simp_all add: uuid_hex_def hex2_def)

lemma ascii_uuid_hex: "is_ascii (uuid_hex bs)"
  using parse_hex2(2) by (induction bs) (auto simp: uuid_hex_def is_ascii_def)

lemma drop_uuid_hex: "i \<le> length bs \<Longrightarrow> drop (i * 2) (uuid_hex bs) = uuid_hex (drop i bs)"
proof (induction i arbitrary: bs)
  case (Suc i)
  then obtain b bs' where "bs = b # bs'" by (cases bs) auto
  with Suc show ?case by (simp add: uuid_hex_def hex2_def)
qed simp

lemma uuid_bytes_hex:
  "i + n = length bs \<Longrightarrow> uuid_bytes n (uuid_hex bs) i = Ret (Inr (drop i bs))"
proof (induction n arbitrary: i)
  case (Suc n)
  then have i: "i < length bs" by simp
  have b: "is_char_boundary (uuid_hex bs) (i * 2)" "is_char_boundary (uuid_hex bs) (i * 2 + 2)"
    using i ascii_uuid_hex by (auto intro!: is_ascii_boundary simp: length_uuid_hex)
  have d: "drop i bs = bs ! i # drop (Suc i) bs" using i by (rule Cons_nth_drop_Suc [symmetric])
  have "take 2 (drop (i * 2) (uuid_hex bs)) = hex2 (bs ! i)"
    using i d by (simp add: drop_uuid_hex) (simp add: uuid_hex_def hex2_def)
  with b Suc d parse_hex2(1) [of "bs ! i"] show ?case by simp
qed simp

lemma uuid_bytes_total: "is_ascii hex \<Longrightarrow> 2 * (i + n) \<le> length hex \<Longrightarrow> uuid_bytes n hex i \<noteq> Panic"
  by (induction n arbitrary: i) (auto simp: is_ascii_boundary try_bind_eq_Panic split: option.splits)

text \<open>
  A UUID is read as its sixteen bytes, wherever it has dashes.  Reading never panics on ASCII text, but
  does when a two-byte slice cuts a character in half.
\<close>

lemma parse_uuid_hex:
  "length bs = 16 \<Longrightarrow> filter (\<lambda>c. c \<noteq> CHR ''-'') s = uuid_hex bs \<Longrightarrow> parse_uuid s = Ret (Inr bs)"
  by (simp add: parse_uuid_def Let_def length_uuid_hex uuid_bytes_hex)

lemma parse_uuid_ascii: "is_ascii s \<Longrightarrow> parse_uuid s \<noteq> Panic"
  using uuid_bytes_total [of "filter (\<lambda>c. c \<noteq> CHR ''-'') s" 0 16]
  by (auto simp: parse_uuid_def Let_def run_bind_eq_Panic is_ascii_def)

lemma parse_uuid_panics:
  "parse_uuid (CHR ''a'' # concat (replicate 15 [CHR 0xC3, CHR 0xA9]) @ ''a'') = Panic"
  by code_simp



end
