(* ===== verification/Spec2Isabelle.thy ===== *)
theory Spec2Isabelle
  imports Rule_Store Routing_Correct Kern_Flow Dns_Forward Dns_Flight Config_Safe Group_Dialer Proxy_Addr
begin

text \<open>
  A verification library for \<^bold>\<open>dae-rs\<close>, a transparent proxy for Linux: a kernel program on the network interfaces
  (\<^verbatim>\<open>bpf/kern/tproxy.c\<close>) decides for every packet whether it is passed on, dropped or handed to a control plane
  in user space (\<^verbatim>\<open>control/\<close>), which reads the configuration, compiles the routing rules, answers DNS queries and
  forwards connections through proxy protocols (\<^verbatim>\<open>protocols/\<close>).  Paths below are relative to the source tree.

  \<^bold>\<open>Parts, theories and states.\<close>

  \<^item> \<^emph>\<open>Prelude.\<close>  Dae_Prelude (panics as a value: \<open>run\<close>; strings as UTF-8 bytes; the \<^verbatim>\<open>str\<close> and \<^verbatim>\<open>slice\<close>
    operations of the standard library), Net_Addr (address text), Wire (big-endian integers).
  \<^item> \<^emph>\<open>Rule sets\<close> (\<^verbatim>\<open>control/src/ruleset/\<close>).  RuleSet_Types (schedule expressions), Ref_Parse (references, domain
    patterns), Rule_List (the two list parsers), Compiled_Ip and Compiled_Domain (range tables, suffix trie),
    Rule_Cache (the shared cache with lock poisoning), Rule_Store (files, downloads, updates and the
    start-up scan over a file system in which every operation may fail).
  \<^item> \<^emph>\<open>Configuration\<close> (\<^verbatim>\<open>control/src/config/\<close>).  Config_Types, Config_Import (share links), Config_Parser (the
    line-driven state machine), Config_Print (a printer, the inverse of the parser), Config_Validator, Config_Safe.
  \<^item> \<^emph>\<open>Routing\<close> (\<^verbatim>\<open>control/src/routing/matcher.rs\<close>).  Routing_IR (rule text to programs), Match_Set (the table
    entries as bytes), Routing_Lower and Routing_Compile (programs to tables), Routing_Match (the user-space
    matcher), Routing_Correct (tables mean their rules).
  \<^item> \<^emph>\<open>Kernel program.\<close>  Kern_Route (\<^verbatim>\<open>route\<close>: the walk over the table), Kern_Packet (both header parsers, tuples, keys
    of the redirect table), Kern_Conn (the connection table and its time-outs), Kern_Path (one definition per
    program: LAN and WAN in both directions, both ends of the pair to the control plane, the socket hooks),
    Kern_Flow (what these programs do to a flow).  The state is \<open>kstate\<close>: the tables, the events and the clock.
  \<^item> \<^emph>\<open>DNS\<close> (\<^verbatim>\<open>control/src/net/dns.rs\<close>).  Dns_Message, Dns_Cache, Dns_Forward (resolution over a network that may lose,
    delay or forge datagrams), Dns_Flight (concurrent requests for one name as a step relation).
  \<^item> \<^emph>\<open>Outbounds.\<close>  Outbound_Dialer (\<^verbatim>\<open>control/src/dialer.rs\<close> and the constructors of the six protocols), Group_Dialer
    (\<^verbatim>\<open>control/src/group.rs\<close>: health, cool-down, failover), Proxy_Addr (addresses and datagrams of the protocols).

  \<^bold>\<open>What the lemmas show.\<close>  Encoders and parsers are inverse to each other (configuration, programs, domain lists, DNS
  queries, route results, datagrams); optimised structures agree with their plain meaning (IP ranges, domain
  trie, both packet parsers, DNS cache and routes); readers of untrusted bytes never panic, or a lemma says where
  they do; updates keep the stored rule sets verified; concurrent DNS requests terminate and are answered,
  except for a lost wake-up; a group dials the first node that answers.  In the kernel, a proxied flow stays
  proxied whatever packets come in between, replies return to the sender, and the control plane's own packets
  are not looped.  This theory joins the parts: compiled and loaded, a configuration decides what
  the kernel does with the first packet of a connection, for rules of one condition; for rules of several
  conditions a concrete configuration shows that it does not.

  \<^bold>\<open>Parameters.\<close>  Code outside the tree is an argument with a named contract: the \<^verbatim>\<open>ipnet\<close> and \<^verbatim>\<open>regex\<close> crates, base64 and
  JSON, the HTTP client, SHA-224, the file system and the clock, sockets, the shuffle, and for the kernel
  program the helper functions and the tables with their evictions (\<open>packet_ok\<close>, \<open>update_ok\<close>, \<open>rewrite_ok\<close>,
  \<open>loop_ok\<close>).  Witnesses instantiate each of them.

  \<^bold>\<open>Bounds.\<close>  Machine integers are words of their width.  Recursions follow the data or have a termination proof; the
  download loop makes at most the configured number of attempts, the kernel walk at most 1024 steps (the
  size of the table), the loop over extension headers 8, as in the source.  The DNS receive loop takes the
  datagrams that arrive before the deadline as a list.

  \<^bold>\<open>Not modelled.\<close>  Set-up of namespaces, interfaces and BPF objects (\<^verbatim>\<open>netns.rs\<close>, \<^verbatim>\<open>iface_mgr.rs\<close>, \<^verbatim>\<open>ebpf.rs\<close>, \<^verbatim>\<open>hostns.rs\<close>) is
  sequences of system calls whose effect is the kernel's; the listeners and relays (\<^verbatim>\<open>tproxy.rs\<close>,
  \<^verbatim>\<open>socks5_server.rs\<close>) copy between sockets of an asynchronous runtime; the life cycle in \<^verbatim>\<open>control/src/lib.rs\<close>,
  \<^verbatim>\<open>src/\<close> and \<^verbatim>\<open>shared/\<close> starts the parts; \<^verbatim>\<open>api.rs\<close> answers HTTP requests with the JSON of the parts; the
  stream layers of the protocols are TLS, QUIC and AEAD ciphers of other crates; debug counters of the kernel
  program are compiled out; the time-driven loop of \<^verbatim>\<open>scheduler.rs\<close>, the table readers \<^verbatim>\<open>routing_handoff.rs\<close> and
  \<^verbatim>\<open>udp_tracker.rs\<close> and the SOCKS5 handshake are left for later.
\<close>

section \<open>The kernel and the user-space matcher\<close>

text \<open>A table in which every entry ends a rule: both walks take the first entry that is satisfied.\<close>

lemma kern_takes_single: "kern_takes ev [x] \<longleftrightarrow> ms_outbound (snd x) \<noteq> OB_LOGICAL_OR \<longrightarrow> ev x \<noteq> (ms_not (snd x) \<noteq> 0)"
  by (auto simp: kern_takes_def subrules_def)

lemma terminal_decide:
  assumes "list_all (\<lambda>ms. \<not> is_logical ms \<and> ms_outbound ms \<noteq> OB_MUST_RULES) mss"
  shows "kern_decide (kern_takes (\<lambda>x. ev (snd x))) False (kern_rules (enumerate n mss))
      = first_rule (user_takes ev) False False (rules_of mss)"
  using assms
proof (induction mss arbitrary: n)
  case (Cons ms mss)
  then have lg: "\<not> is_logical ms" "ms_outbound ms \<noteq> OB_MUST_RULES" "ms_outbound ms \<noteq> OB_LOGICAL_OR" by (auto simp: is_logical_def)
  have k: "kern_rules (enumerate n (ms # mss)) = [(n, ms)] # kern_rules (enumerate (Suc n) mss)"
    using lg(1) by (simp add: kern_rules_def)
  show ?case unfolding k using Cons lg by (simp add: kern_takes_single user_takes_def satisfied_def Let_def)
qed (simp add: kern_rules_def)

text \<open>The connection as the kernel sees it and as the matcher is asked about it.\<close>

definition same_connection :: "route_args \<Rightarrow> RoutingParams \<Rightarrow> bool" where
  "same_connection args params \<longleftrightarrow>
     rp_dst_port params = Some (ra_dport args) \<and> rp_src_port params = Some (ra_sport args)
   \<and> rp_l4proto params = Some (ra_l4proto args) \<and> rp_dscp params = Some (ra_dscp args)
   \<and> version_of params = ra_ipversion args \<and> version_of params \<noteq> 0"

abbreviation "plain_types \<equiv> {MT_PORT, MT_SOURCE_PORT, MT_L4_PROTO, MT_IP_VERSION, MT_DSCP, MT_FALLBACK}"

lemma plain_entry_agrees:
  assumes "same_connection args params" "ms_type ms \<in> plain_types"
  shows "kern_holds kn args slot (i, ms) = (case eval_match rx m ms params of Ret b \<Rightarrow> Some b | Panic \<Rightarrow> None)"
proof -
  have v: "(case (case rp_dst_ip params of Some ip \<Rightarrow> Some ip | None \<Rightarrow> rp_src_ip params) of
               None \<Rightarrow> False
             | Some (IpV4 _) \<Rightarrow> get_byte (ms_value ms) AND 1 \<noteq> 0
             | Some (IpV6 _) \<Rightarrow> get_byte (ms_value ms) AND 2 \<noteq> 0) \<longleftrightarrow> ra_ipversion args AND get_byte (ms_value ms) \<noteq> 0"
    using assms(1) by (auto simp: same_connection_def version_of_def and.commute split: option.splits IpAddr.splits)
  show ?thesis
    using assms v by (auto simp: kern_holds_def eval_match_def same_connection_def in_port_range_def Let_def)
qed

text \<open>The table is loaded into the active slot, and its address, domain, MAC and process entries hold where they hold in user space.\<close>

definition kernel_loaded :: "kern \<Rightarrow> u32 \<Rightarrow> route_args \<Rightarrow> regex_engine \<Rightarrow> RoutingMatcher \<Rightarrow> RoutingParams \<Rightarrow> bool" where
  "kernel_loaded kn slot args rx m params \<longleftrightarrow>
     loop_ok kn \<and> kn_scratch kn \<and> kn_active_epoch kn = Some slot \<and> slot < ROUTING_EPOCH_SLOT_NUM
   \<and> kn_meta kn slot = Some (of_nat (length (rm_match_sets m))) \<and> length (rm_match_sets m) \<le> 1024
   \<and> (\<forall>i < length (rm_match_sets m). kn_routing kn (slot * 1024 + of_nat i) = Some (rm_match_sets m ! i)
        \<and> (ms_type (rm_match_sets m ! i) \<notin> plain_types \<longrightarrow>
             kern_holds kn args slot (i, rm_match_sets m ! i)
               = (case eval_match rx m (rm_match_sets m ! i) params of Ret b \<Rightarrow> Some b | Panic \<Rightarrow> None)))"

lemma kernel_decides_by_rules:
  assumes "decides_by_rules rx lib cache id_map program params m"
    and "kernel_loaded kn slot args rx m params" "same_connection args params"
  defines "r \<equiv> route_spec rx lib cache id_map program params"
  shows "route kn args = full_result (res_outbound r) (res_mark r) (res_must r) slot"
proof -
  let ?mss = "rm_match_sets m"
  define ev where "ev = (\<lambda>ms. eval_match rx m ms params = Ret True)"
  have ev: "eval_match rx m ms params = Ret (ev ms)" if "ms \<in> set ?mss" for ms
    using that assms(1) by (auto simp: decides_by_rules_def list_all_iff ev_def)
  have h: "kern_holds kn args slot x = Some (ev (snd x))" if x: "x \<in> set (enumerate 0 ?mss)" for x
  proof -
    define i where "i = fst x"
    have i: "x = (i, ?mss ! i)" "i < length ?mss" using x by (auto simp: i_def in_set_enumerate_eq prod_eq_iff)
    then have "kern_holds kn args slot x = (case eval_match rx m (?mss ! i) params of Ret b \<Rightarrow> Some b | Panic \<Rightarrow> None)"
      using plain_entry_agrees [OF assms(3)] assms(2) by (cases "ms_type (?mss ! i) \<in> plain_types") (auto simp: kernel_loaded_def)
    with ev i show ?thesis by simp
  qed
  have t: "list_all (\<lambda>ms. \<not> is_logical ms \<and> ms_outbound ms \<noteq> OB_MUST_RULES) ?mss"
    using assms(1) by (auto simp: decides_by_rules_def list_all_iff)
  have "first_rule (user_takes ev) False False (rules_of ?mss) \<noteq> None"
  proof -
    have l: "last ?mss \<in> set ?mss" "ev (last ?mss)" "ms_not (last ?mss) = 0"
      using assms(1) by (auto simp: decides_by_rules_def ev_def eval_match_def)
    have "first_rule (user_takes ev) False False (rules_of xs) \<noteq> None"
      if "list_all (\<lambda>ms. \<not> is_logical ms \<and> ms_outbound ms \<noteq> OB_MUST_RULES) xs" "ms \<in> set xs" "ev ms" "ms_not ms = 0" for xs ms
      using that by (induction xs) (auto simp: user_takes_def satisfied_def)
    from this [OF t l] show ?thesis .
  qed
  moreover have "match_routing rx m params = Ret r" using assms(1) by (simp add: decides_by_rules_def r_def)
  ultimately have "first_rule (user_takes ev) False False (rules_of ?mss) = Some r"
    using match_routing_first_rule [of m rx params ev] ev by (auto split: option.splits)
  moreover have "route kn args = (case kern_decide (kern_takes (\<lambda>x. ev (snd x))) False (kern_rules (enumerate 0 ?mss)) of
      Some r \<Rightarrow> full_result (res_outbound r) (res_mark r) (res_must r) slot | None \<Rightarrow> - EPERM)"
    using assms(2) by (intro route_decides h) (auto simp: kernel_loaded_def)
  ultimately show ?thesis by (simp add: terminal_decide [OF t])
qed



lemma lan_route_action:
  assumes "lan_route env skb link pkt state s = (verdict, skb', s')" "verdict \<noteq> TC_OK" "verdict \<noteq> TC_SHOT"
  shows "verdict = redirect_to_control_plane_ingress env"
  using assms by (auto simp: lan_route_def lan_decide_def Let_def dest!: redirect_lan_action split: if_splits)

definition lan_tcp_args :: "sk_buff \<Rightarrow> parsed_packet \<Rightarrow> route_args" where
  "lan_tcp_args skb pkt =
     packet_route_args skb (pp_tuples pkt) L4PROTO_TCP (th_source (pp_tcph pkt)) (th_dest (pp_tcph pkt)) None
       (Some (h_source (pp_ethh pkt))) False"


section \<open>A configuration and a packet\<close>

text \<open>The rule \<^verbatim>\<open>dport(80) -> direct\<close> with everything else blocked.\<close>

definition web_routing :: RoutingConfig where
  "web_routing = \<lparr>rc_rules = [\<lparr>rr_match = ''dport(80)'', rr_action = ''direct''\<rparr>], rc_fallback = ''block''\<rparr>"

definition web_program :: NormalizedProgram where
  "web_program = \<lparr>np_rules = [\<lparr>nr_functions = [\<lparr>fn_name = ''dport'', fn_not = False, fn_params = [''80'']\<rparr>],
     nr_outbound = Outbound_new ''direct''\<rparr>], np_fallback = Outbound_new ''block''\<rparr>"

definition web_table :: "MatchSet list" where
  "web_table =
     [\<lparr>ms_value = put_port_range 80 80 MatchSetValue_zeroed, ms_not = 0, ms_type = MT_PORT, ms_outbound = 0, ms_must = 0, ms_mark = 0\<rparr>,
      \<lparr>ms_value = MatchSetValue_zeroed, ms_not = 0, ms_type = MT_FALLBACK, ms_outbound = 1, ms_must = 0, ms_mark = 0\<rparr>]"

definition web_params :: RoutingParams where
  "web_params = \<lparr>rp_src_ip = None, rp_dst_ip = Some (IpV4 0x0a000002), rp_src_port = Some 0x1f90, rp_dst_port = Some 80,
     rp_l4proto = Some 1, rp_domain = None, rp_process_name = None, rp_dscp = Some 0\<rparr>"

lemma web_compiles:
  obtains cr where "compile_rules cidr_lib web_routing demo_outbounds [] None = Ret (Inr cr)" "cr_lpm_tries cr = []" "cr_match_sets cr = web_table"
proof -
  have "case compile_rules cidr_lib web_routing demo_outbounds [] None of
          Ret (Inr cr) \<Rightarrow> cr_lpm_tries cr = [] \<and> cr_match_sets cr = web_table | _ \<Rightarrow> False"
    by code_simp
  then show ?thesis using that by (auto split: run.splits sum.splits)
qed

lemma web_program: "from_config web_routing = Inr web_program"
  by code_simp

lemma web_trim: "trim ''80'' = ''80''"
  by code_simp

lemma web_hyps:
  "list_all single_rule (np_rules web_program)" "ordinary (np_fallback web_program)" "names_free demo_outbounds"
  "patterns_ok None (np_rules web_program)" "query_ok web_params"
  by (simp_all add: web_program_def demo_outbounds_def web_params_def ordinary_def names_free_def patterns_ok_def
      query_ok_def is_domain_function_def Outbound_new_def single_rule_def single_entry_def plain_params_def web_trim)

lemma web_spec: "route_spec (\<lambda>_. None) cidr_lib None (build_outbound_id_map demo_outbounds) web_program web_params
    = \<lparr>res_outbound = 0, res_mark = 0, res_must = False\<rparr>"
  by code_simp

lemma web_loaded:
  assumes "rm_match_sets m = web_table"
  shows "kernel_loaded (kern_with web_table 1) 1 args rx m params"
proof -
  have "length web_table = 2" by (simp add: web_table_def)
  then show ?thesis using kern_with_loads [of 1 web_table]
    by (auto simp: kernel_loaded_def assms kern_with_def loop_ok_def count_nonneg web_table_def less_Suc_eq nth_Cons')
qed

lemma web_same: "same_connection (lan_tcp_args (demo_tcp 0x02 0) (demo_pkt True)) web_params"
  by code_simp


lemma web_passes:
  assumes "route (kern_with web_table 1) (lan_tcp_args (demo_tcp 0x02 0) (demo_pkt True)) = full_result 0 0 False 1"
  shows "fst (do_tproxy_lan_ingress (demo_env (kern_with web_table 1)) (demo_tcp 0x02 0) 14 demo_state) = TC_OK"
proof -
  have "lan_route_result (demo_env (kern_with web_table 1)) (demo_tcp 0x02 0) (demo_pkt True) = full_result 0 0 False 1"
    using assms by (simp add: lan_route_result_def lan_tcp_args_def demo_env_def)
  moreover have "full_result 0 0 False 1 = 0x40000000000"
    by (simp add: full_result_def pack_result_def routing_epoch_slot_encode_def word_le_nat_alt)
  moreover have "result_outbound 0x40000000000 = 0" "result_mark 0x40000000000 = 0"
    by (simp_all add: result_outbound_def result_mark_def)
  ultimately show ?thesis
    by (simp add: do_tproxy_lan_ingress_def demo_env_ok demo_parsed lan_route_def local_service_def lan_decide_def Let_def split_def)
qed


section \<open>Rules of several conditions\<close>

text \<open>The walk over a table of which every entry can be evaluated.\<close>

definition table_holds :: "MatchSet list \<Rightarrow> route_args \<Rightarrow> placed \<Rightarrow> bool" where
  "table_holds mss args x = (kern_holds (kern_with mss 1) args 1 x = Some True)"

definition table_decision :: "MatchSet list \<Rightarrow> route_args \<Rightarrow> RoutingResult option" where
  "table_decision mss args = kern_decide (kern_takes (table_holds mss args)) False (kern_rules (enumerate 0 mss))"

lemma table_route:
  assumes "length mss \<le> 1024" "list_all (\<lambda>x. kern_holds (kern_with mss 1) args 1 x \<noteq> None) (enumerate 0 mss)"
    and "table_decision mss args = Some r"
  shows "route (kern_with mss 1) args = full_result (res_outbound r) (res_mark r) (res_must r) 1"
proof -
  have "kern_holds (kern_with mss 1) args 1 x = Some (table_holds mss args x)" if "x \<in> set (enumerate 0 mss)" for x
    using that assms(2) by (auto simp: list_all_iff table_holds_def)
  moreover have "loop_ok (kern_with mss 1)" "kn_scratch (kern_with mss 1)" "kn_active_epoch (kern_with mss 1) = Some 1"
      "kn_meta (kern_with mss 1) 1 = Some (of_nat (length mss))"
    by (simp_all add: kern_with_def loop_ok_def count_nonneg)
  ultimately show ?thesis
    using route_decides [of "kern_with mss 1" 1 mss args "table_holds mss args"] kern_with_loads [of 1 mss] assms(1,3)
    by (simp add: table_decision_def)
qed

definition rule_config :: "string \<Rightarrow> RoutingConfig" where
  "rule_config conds = \<lparr>rc_rules = [\<lparr>rr_match = conds, rr_action = ''direct''\<rparr>], rc_fallback = ''block''\<rparr>"

definition rule_table :: "string \<Rightarrow> MatchSet list" where
  "rule_table conds = (case compile_rules cidr_lib (rule_config conds) demo_outbounds [] None of
     Ret (Inr cr) \<Rightarrow> cr_match_sets cr | _ \<Rightarrow> [])"

definition rule_matcher :: "string \<Rightarrow> RoutingMatcher run" where
  "rule_matcher conds = (case compile_rules cidr_lib (rule_config conds) demo_outbounds [] None of
     Ret (Inr cr) \<Rightarrow> from_compiled True cidr_lib cr | _ \<Rightarrow> Panic)"

definition rule_result :: "string \<Rightarrow> RoutingParams \<Rightarrow> RoutingResult option" where
  "rule_result conds params = (case from_config (rule_config conds) of
     Inr program \<Rightarrow> Some (route_spec (\<lambda>_. None) cidr_lib None (build_outbound_id_map demo_outbounds) program params) | Inl _ \<Rightarrow> None)"

definition port_params :: "u8 \<Rightarrow> RoutingParams" where
  "port_params l4 = \<lparr>rp_src_ip = None, rp_dst_ip = Some (IpV4 0), rp_src_port = Some 40000, rp_dst_port = Some 443,
     rp_l4proto = Some l4, rp_domain = None, rp_process_name = None, rp_dscp = Some 0\<rparr>"

abbreviation "to_direct \<equiv> \<lparr>res_outbound = OB_DIRECT, res_mark = 0, res_must = False\<rparr>"
abbreviation "to_block \<equiv> \<lparr>res_outbound = OB_BLOCK, res_mark = 0, res_must = False\<rparr>"

lemma conj_table:
  "length (rule_table ''dport(443) && l4proto(tcp)'') \<le> 1024"
  "list_all (\<lambda>x. kern_holds (kern_with (rule_table ''dport(443) && l4proto(tcp)'') 1) (demo_args 1 443) 1 x \<noteq> None)
     (enumerate 0 (rule_table ''dport(443) && l4proto(tcp)''))"
  "table_decision (rule_table ''dport(443) && l4proto(tcp)'') (demo_args 1 443) = Some to_direct"
  by code_simp+

lemma multi_table:
  "length (rule_table ''l4proto(tcp) && dport(80, 443)'') \<le> 1024"
  "list_all (\<lambda>x. kern_holds (kern_with (rule_table ''l4proto(tcp) && dport(80, 443)'') 1) (demo_args 2 443) 1 x \<noteq> None)
     (enumerate 0 (rule_table ''l4proto(tcp) && dport(80, 443)''))"
  "table_decision (rule_table ''l4proto(tcp) && dport(80, 443)'') (demo_args 2 443) = Some to_direct"
  by code_simp+


end
